(* ===== verification/Prelude.thy ===== *)
theory Prelude
  imports Main "HOL-Library.Word" "HOL-Library.Multiset"
begin

text \<open>
  Shared vocabulary of the development: the machine integer types of \<open>src/src/util/types.hpp\<close>,
  the status codes of \<open>src/src/util/status.hpp\<close>, byte strings, and the generic lemmas on lists,
  bytes and words that several components use.

  A \<open>StringPiece\<close> (\<open>src/src/util/string_piece.h\<close>) is a pair of pointers into a buffer; the model
  keeps the bytes between them, a \<open>u8 list\<close>. A pointer that walks over a piece is the suffix of
  the list that starts at it.
\<close>

unbundle bit_operations_syntax

named_theorems cc_defs \<open>the constants of the character class enumeration\<close>
named_theorems word_cases_simps \<open>facts that move comparisons of words to natural numbers\<close>

type_synonym u8 = "8 word"
type_synonym u16 = "16 word"
type_synonym u32 = "32 word"
type_synonym u64 = "64 word"
type_synonym i32 = "32 word"
type_synonym byte_string = "u8 list"

text \<open>
  \<open>StatusCode\<close> of \<open>src/src/util/status.hpp\<close>. The message that the code appends to a status is
  text for people and is left out.
\<close>

datatype status_code =
    StOk
  | StInvalidParameter
  | StInvalidState
  | StNotImplemented
  | StMaxStatus

subsection \<open>Lists\<close>

lemma length_dropWhile_less:
  "xs \<noteq> [] \<Longrightarrow> P (hd xs) \<Longrightarrow> length (dropWhile P xs) < length xs"
  by (cases xs) (auto simp: le_imp_less_Suc length_dropWhile_le)

lemma takeWhile_eq_all: "(\<forall>x\<in>set xs. P x) \<Longrightarrow> takeWhile P xs = xs"
  by (induction xs) auto

lemma sorted_wrt_take: "sorted_wrt R xs \<Longrightarrow> sorted_wrt R (take n xs)"
  by (metis append_take_drop_id sorted_wrt_append)

lemma mset_take_subset: "mset (take n xs) \<subseteq># mset xs"
  by (metis append_take_drop_id mset_append mset_subset_eq_add_left)

subsection \<open>Words\<close>

lemma unat_lt_word_numeral [word_cases_simps]:
  fixes a b :: "'a::len word"
  shows "(a < b) = (unat a < unat b)" and "(a \<le> b) = (unat a \<le> unat b)"
  by (simp_all add: word_less_nat_alt word_le_nat_alt)

text \<open>Bit fields: shifting, joining and masking read as arithmetic on naturals.\<close>

lemma or_push_bit_nat:
  fixes a b :: nat
  assumes "b < 2 ^ k"
  shows "push_bit k a OR b = a * 2 ^ k + b"
proof -
  have b: "take_bit k b = b"
    using assms by (simp add: take_bit_nat_eq_self)
  have "push_bit k a AND take_bit k b = 0"
    by (rule bit_eqI) (auto simp: bit_simps)
  then have "push_bit k a + b = push_bit k a OR b"
    by (intro disjunctive_add_eq_or) (simp add: b)
  then show ?thesis by (simp add: push_bit_eq_mult)
qed

lemma unat_push_or:
  fixes x y :: "'a::len word"
  assumes "unat y < 2 ^ k" and "unat x * 2 ^ k < 2 ^ LENGTH('a)"
  shows "unat (push_bit k x OR y) = unat x * 2 ^ k + unat y"
proof -
  have "unat (push_bit k x) = take_bit LENGTH('a) (push_bit k (unat x))"
    by (rule unsigned_push_bit_eq)
  also have "\<dots> = push_bit k (unat x)"
    using assms(2) by (simp add: push_bit_eq_mult take_bit_nat_eq_self)
  finally show ?thesis
    using assms(1) by (simp only: unsigned_or_eq or_push_bit_nat)
qed

lemma xor_zero_iff: "(a :: 'a::len word) XOR b = 0 \<longleftrightarrow> a = b"
  by (metis xor.assoc xor.left_neutral xor_self_eq)

lemma and_not_mask_word: "(x :: 'a::len word) AND NOT (mask n) = push_bit n (drop_bit n x)"
  by (rule bit_word_eqI) (auto simp: bit_simps)

lemma unat_and_not_mask: "unat ((x :: 'a::len word) AND NOT (mask n)) = (unat x div 2 ^ n) * 2 ^ n"
proof -
  have "unat (push_bit n (drop_bit n x)) = take_bit LENGTH('a) (push_bit n (drop_bit n (unat x)))"
    by (simp add: unsigned_push_bit_eq unat_drop_bit_eq)
  also have "\<dots> = (unat x div 2 ^ n) * 2 ^ n"
  proof -
    have "unat x div 2 ^ n * 2 ^ n \<le> unat x" by simp
    also have "\<dots> < 2 ^ LENGTH('a)" by simp
    finally show ?thesis
      by (simp add: push_bit_eq_mult drop_bit_eq_div take_bit_nat_eq_self)
  qed
  finally show ?thesis by (simp add: and_not_mask_word)
qed

lemma unat_drop_bit_div: "unat (drop_bit n (x :: 'a::len word)) = unat x div 2 ^ n"
  by (subst unat_drop_bit_eq) (rule drop_bit_eq_div)

text \<open>Joining a low part with a shifted high part is addition.\<close>

lemma or_push_bit_add:
  fixes a b :: "'a::len word"
  assumes "unat a < 2 ^ k"
  shows "a OR push_bit k b = a + push_bit k b"
proof -
  have *: "\<not> bit a n" if "k \<le> n" for n
  proof -
    have "\<not> bit (unat a) n"
      using assms that by (metis bit_take_bit_iff linorder_not_less take_bit_nat_eq_self)
    then show ?thesis by (simp add: bit_simps)
  qed
  have "a AND push_bit k b = 0"
    by (rule bit_word_eqI) (use * in \<open>auto simp: bit_simps\<close>)
  then show ?thesis by (rule disjunctive_add_eq_or [symmetric])
qed

lemma unat_ucast_byte: "unat (ucast (b :: u8) :: u32) = unat b"
  by (simp add: unsigned_ucast_eq take_bit_nat_eq_self order_less_trans [OF unsigned_less])

definition byte_of :: "nat \<Rightarrow> u8" where "byte_of n = word_of_nat n"

lemma unat_byte_of: "n < 256 \<Longrightarrow> unat (byte_of n) = n"
  by (simp add: byte_of_def unsigned_of_nat take_bit_nat_eq_self)

lemma byte_of_unat [simp]: "byte_of (unat b) = b"
  by (simp add: byte_of_def)

lemma byte_eqI: "unat b = n \<Longrightarrow> b = byte_of n"
  by (auto simp: byte_of_def)

lemma take_Cons4: "4 \<le> length bs \<Longrightarrow> take 4 bs = [bs ! 0, bs ! 1, bs ! 2, bs ! 3]"
  by (auto simp: numeral_eq_Suc Suc_le_length_iff)
lemma take_Cons3: "3 \<le> length bs \<Longrightarrow> take 3 bs = [bs ! 0, bs ! 1, bs ! 2]"
  by (auto simp: numeral_eq_Suc Suc_le_length_iff)
lemma take_Cons2: "2 \<le> length bs \<Longrightarrow> take 2 bs = [bs ! 0, bs ! 1]"
  by (auto simp: numeral_eq_Suc Suc_le_length_iff)

lemma unat_take_bit: "unat (take_bit k (v :: 'a::len word)) = unat v mod 2 ^ k"
  by (subst unsigned_take_bit_eq) (rule take_bit_eq_mod)

lemma unat_exp: "k < LENGTH('a) \<Longrightarrow> unat ((2 :: 'a::len word) ^ k) = 2 ^ k"
  by (metis of_nat_numeral of_nat_power power_strict_increasing_iff one_less_numeral_iff semiring_norm(76) take_bit_nat_eq_self unsigned_of_nat of_nat_id)

lemma unat_add_small: "unat a + unat b < 2 ^ LENGTH('a) \<Longrightarrow> unat (a + b :: 'a::len word) = unat a + unat b"
  by (rule unat_add_lem [THEN iffD1])

lemma div_round_up:
  fixes n d :: nat
  assumes "0 < d" "\<not> d dvd n"
  shows "(n + d - 1) div d = n div d + 1"
proof -
  obtain r where r: "n mod d = Suc r"
    using assms by (metis dvd_eq_mod_eq_0 not0_implies_Suc)
  then have "n = d * (n div d) + Suc r"
    by (metis mult_div_mod_eq)
  then have "n + d - 1 = r + d * (n div d + 1)" by simp
  moreover have "r < d" using r assms(1) by (metis Suc_lessD mod_less_divisor)
  ultimately show ?thesis using assms(1) by (simp only: div_mult_self2) simp
qed

lemma round_up_bounds:
  fixes n d :: nat
  assumes "0 < d"
  shows "n \<le> (n + d - 1) div d * d" "(n + d - 1) div d * d < n + d"
  using div_mult_mod_eq [of "n + d - 1" d] mod_less_divisor [OF assms, of "n + d - 1"] assms by linarith+

lemma unat_eqI: "unat a = unat b \<Longrightarrow> a = b"
  by (rule unsigned_word_eqI)

lemma unat_of_nat_small: "n < 2 ^ LENGTH('a) \<Longrightarrow> unat (of_nat n :: 'a::len word) = n"
  by (simp add: unsigned_of_nat take_bit_nat_eq_self)

lemma unat_of_nat_le: "unat (of_nat n :: 'a::len word) \<le> n"
  by (simp add: unsigned_of_nat take_bit_eq_mod)

lemma push_bit_of_nat_word: "push_bit k (of_nat n :: 'a::len word) = of_nat (n * 2 ^ k)"
  by (simp only: push_bit_eq_mult of_nat_mult of_nat_power of_nat_numeral)

lemma unat_plus_le: "unat (a + b :: 'a::len word) \<le> unat a + unat b"
  by (simp only: unat_word_ariths mod_less_eq_dividend)

subsection \<open>Signed integers\<close>

lemma sint_nonneg:
  assumes "0 \<le> sint (w :: 'a::len word)"
  shows "sint w = int (unat w)"
proof -
  have "(2 :: int) ^ (LENGTH('a) - 1) \<le> 2 ^ LENGTH('a)" by (rule power_increasing) simp_all
  then have "sint w < 2 ^ LENGTH('a)" using sint_lt [of w] by linarith
  then have "take_bit LENGTH('a) (sint w) = sint w"
    using assms by (rule take_bit_int_eq_self [OF _ , rotated])
  then have "uint w = sint w" by (simp only: uint_sint)
  then show ?thesis by simp
qed

lemma sint_small:
  assumes "unat (w :: 'a::len word) < 2 ^ (LENGTH('a) - 1)"
  shows "sint w = int (unat w)"
proof -
  have u: "uint w = int (unat w)" by simp
  have "int (unat w) < int (2 ^ (LENGTH('a) - 1))" using assms by (rule less_imp_of_nat_less)
  then have "signed_take_bit (LENGTH('a) - 1) (int (unat w)) = int (unat w)"
    by (intro signed_take_bit_int_eq_self order_trans [of "- (2 ^ (LENGTH('a) - 1))" 0 "int (unat w)"])
      (simp_all del: of_nat_unat)
  then show ?thesis by (simp only: sint_uint u One_nat_def)
qed

lemma sint_of_nat_small:
  assumes "n < 2 ^ (LENGTH('a) - 1)"
  shows "sint (of_nat n :: 'a::len word) = int n"
proof -
  have "(2 :: nat) ^ (LENGTH('a) - 1) \<le> 2 ^ LENGTH('a)" by (rule power_increasing) simp_all
  then have "unat (of_nat n :: 'a word) = n"
    using assms by (intro unat_of_nat_small) linarith
  then show ?thesis using sint_small [of "of_nat n :: 'a word"] assms by simp
qed

lemma sint_inc:
  fixes w v :: "'a::len word"
  assumes "1 < LENGTH('a)" and "sint w < sint v"
  shows "sint (w + 1) = sint w + 1"
proof -
  have one: "sint (1 :: 'a word) = 1" using assms(1) by (simp add: sint_word_01)
  have "signed_take_bit (LENGTH('a) - 1) (sint w + 1) = sint w + 1"
    using sint_ge [of w] sint_lt [of v] assms(2) by (intro signed_take_bit_int_eq_self) linarith+
  then show ?thesis by (simp only: sint_word_add one)
qed

end
