(* ===== verification/Memory.thy ===== *)
theory Memory
  imports Prelude
begin

text \<open>
  \<open>src/src/util/memory.hpp\<close> and \<open>memory.cpp\<close> with \<open>JUMANPP_USE_DEFAULT_ALLOCATION\<close> off: the page
  pool \<open>Manager\<close> and the bump allocator \<open>PoolAlloc\<close> of the analysis, and the alignment arithmetic.
  Addresses and \<open>size_t\<close> are kept at 64 bits.

  The lemmas show that an aligned offset is the least multiple that is not below the offset, and
  that everything one \<open>PoolAlloc\<close> hands out between two resets lies inside its page, has an aligned
  address and does not overlap what was handed out before.
\<close>

subsection \<open>Alignment\<close>

definition IsPowerOf2 :: "u64 \<Rightarrow> bool" where
  "IsPowerOf2 val \<longleftrightarrow> val AND (val - 1) = 0"

definition IsAligned :: "u64 \<Rightarrow> u64 \<Rightarrow> bool" where
  "IsAligned val alignment \<longleftrightarrow> val AND (alignment - 1) = 0"

definition Align :: "u64 \<Rightarrow> u64 \<Rightarrow> u64" where
  "Align val alignment =
     (if \<not> IsAligned val alignment then (val AND NOT (alignment - 1)) + alignment else val)"

subsection \<open>The page manager\<close>

record memory_page =
  mp_base :: u64
  mp_size :: u64

record manager =
  mg_currentPage :: nat
  mg_pages :: "memory_page list"
  mg_page_size :: u64

definition mg_new :: "u64 \<Rightarrow> manager" where
  "mg_new page_size = \<lparr>mg_currentPage = 0, mg_pages = [], mg_page_size = page_size\<rparr>"

text \<open>
  \<open>os i alignment n\<close> is what \<open>posix_memalign\<close> answers when it is asked, as the manager holds \<open>i\<close>
  pages, for \<open>n\<close> bytes at the alignment: an address, or \<open>None\<close> for a status other than 0, where the
  code throws \<open>std::bad_alloc\<close>. \<open>madvise\<close> changes nothing the program sees.
\<close>

type_synonym page_source = "nat \<Rightarrow> u64 \<Rightarrow> u64 \<Rightarrow> u64 option"

definition TWO_MEGS :: u64 where
  "TWO_MEGS = 2 * 1024 * 1024"

definition page_alignment :: "u64 \<Rightarrow> u64" where
  "page_alignment page_size = (if page_size \<ge> TWO_MEGS then TWO_MEGS else 4096)"

definition mg_newPage :: "page_source \<Rightarrow> manager \<Rightarrow> memory_page option \<times> manager" where
  "mg_newPage os m =
     (if mg_currentPage m < length (mg_pages m) then
        (Some (mg_pages m ! mg_currentPage m), m\<lparr>mg_currentPage := mg_currentPage m + 1\<rparr>)
      else case os (length (mg_pages m)) (page_alignment (mg_page_size m)) (mg_page_size m) of
        None \<Rightarrow> (None, m)
      | Some addr \<Rightarrow>
          let page = \<lparr>mp_base = addr, mp_size = mg_page_size m\<rparr>
          in (Some page, m\<lparr>mg_pages := mg_pages m @ [page], mg_currentPage := mg_currentPage m + 1\<rparr>))"

definition mg_reset :: "manager \<Rightarrow> manager" where
  "mg_reset m = m\<lparr>mg_currentPage := 0\<rparr>"

definition mg_used :: "manager \<Rightarrow> u64" where
  "mg_used m = fold (\<lambda>p total. total + mp_size p) (mg_pages m) 0"

subsection \<open>The bump allocator\<close>

text \<open>
  \<open>base_\<close> is 0 while it is the null pointer. An allocation answers the address of the block, or
  \<open>None\<close> where the code throws \<open>std::bad_alloc\<close>.
\<close>

record pool_alloc =
  pa_mgr :: manager
  pa_base :: u64
  pa_offset :: u64
  pa_end :: u64

definition pa_new :: "manager \<Rightarrow> pool_alloc" where
  "pa_new m = \<lparr>pa_mgr = m, pa_base = 0, pa_offset = 0, pa_end = 0\<rparr>"

definition pa_reset :: "pool_alloc \<Rightarrow> pool_alloc" where
  "pa_reset a = a\<lparr>pa_base := 0, pa_offset := 0, pa_end := 0\<rparr>"

definition pa_remaining :: "pool_alloc \<Rightarrow> u64" where
  "pa_remaining a = pa_end a - pa_offset a"

definition switchToNewPage :: "page_source \<Rightarrow> u64 \<Rightarrow> pool_alloc \<Rightarrow> bool \<times> pool_alloc" where
  "switchToNewPage os sz a =
     (case mg_newPage os (pa_mgr a) of
        (None, m) \<Rightarrow> (False, a\<lparr>pa_mgr := m\<rparr>)
      | (Some page, m) \<Rightarrow>
          if mp_size page < sz then (False, a\<lparr>pa_mgr := m\<rparr>)
          else (True, a\<lparr>pa_mgr := m, pa_base := mp_base page, pa_offset := 0,
                        pa_end := mp_size page\<rparr>))"

text \<open>
  \<open>allocate_memory\<close> calls itself after it has switched to a new page; nothing in it bounds the calls,
  so that not returning would be \<open>None\<close>. \<open>allocate_memory_eq\<close> shows that it always returns.
\<close>

partial_function (option) allocate_memory ::
  "page_source \<Rightarrow> u64 \<Rightarrow> u64 \<Rightarrow> pool_alloc \<Rightarrow> (u64 option \<times> pool_alloc) option" where
  "allocate_memory os sz alignment a =
     (let address = Align (pa_offset a) alignment;
          objEnd = address + sz
      in if objEnd > pa_end a then
           (case switchToNewPage os sz a of (ok, a') \<Rightarrow>
              if \<not> ok then Some (None, a')
              else allocate_memory os sz alignment a')
         else Some (Some (pa_base a + address), a\<lparr>pa_offset := objEnd\<rparr>))"

subsection \<open>Alignment arithmetic\<close>

lemma and_exp_minus_1: "(v :: u64) AND (2 ^ k - 1) = take_bit k v"
  by (simp add: take_bit_eq_mask mask_eq_exp_minus_1)

lemma IsAligned_iff: "IsAligned v (2 ^ k) \<longleftrightarrow> 2 ^ k dvd unat v"
proof -
  have "take_bit k v = 0 \<longleftrightarrow> unat v mod 2 ^ k = 0"
    by (metis unat_take_bit unat_eq_zero)
  then show ?thesis
    by (simp only: IsAligned_def and_exp_minus_1 mod_eq_0_iff_dvd)
qed

lemma Align_0 [simp]: "Align 0 al = 0"
  by (simp add: Align_def IsAligned_def)

lemma unat_Align:
  assumes "k < 64" and "unat v + 2 ^ k \<le> 2 ^ 64"
  shows "unat (Align v (2 ^ k)) = (unat v + 2 ^ k - 1) div 2 ^ k * 2 ^ k"
proof (cases "2 ^ k dvd unat v")
  case True
  then have "(unat v + 2 ^ k - 1) div 2 ^ k = unat v div 2 ^ k"
  proof
    fix c assume c: "unat v = 2 ^ k * c"
    have "(2 ^ k * c + 2 ^ k - 1) div 2 ^ k = c"
    proof (rule div_nat_eqI)
      have "1 \<le> (2 :: nat) ^ k" by simp
      then show "2 ^ k * c \<le> 2 ^ k * c + 2 ^ k - 1" "2 ^ k * c + 2 ^ k - 1 < 2 ^ k * Suc c"
        by (simp_all only: mult_Suc_right)
    qed
    then show ?thesis by (simp add: c)
  qed
  then show ?thesis using True by (simp add: Align_def IsAligned_iff)
next
  case False
  have *: "unat (v AND NOT (2 ^ k - 1)) = unat v div 2 ^ k * 2 ^ k"
    using unat_and_not_mask [of v k] by (simp only: mask_eq_exp_minus_1)
  have p: "unat ((2::u64) ^ k) = 2 ^ k" using assms(1) by (simp add: unat_exp)
  have "unat v div 2 ^ k * 2 ^ k < unat v"
    using False by (metis div_times_less_eq_dividend dvd_triv_right le_neq_implies_less)
  then have "unat (v AND NOT (2 ^ k - 1)) + unat ((2::u64) ^ k) < 2 ^ LENGTH(64)" 
    using assms(2) by (simp add: * p)
  then have "unat ((v AND NOT (2 ^ k - 1)) + 2 ^ k) = unat v div 2 ^ k * 2 ^ k + 2 ^ k"
    by (simp only: unat_add_small * p)
  with False div_round_up [of "2 ^ k" "unat v"] show ?thesis
    by (simp add: Align_def IsAligned_iff)
qed

text \<open>
  What is relied on from the system: the pages it grants have the alignment asked for, lie below
  the end of the address space and do not overlap each other.
\<close>

definition pages_apart :: "u64 \<Rightarrow> u64 \<Rightarrow> u64 \<Rightarrow> bool" where
  "pages_apart ps p q \<longleftrightarrow> unat p + unat ps \<le> unat q \<or> unat q + unat ps \<le> unat p"

definition honest_pages :: "page_source \<Rightarrow> u64 \<Rightarrow> bool" where
  "honest_pages os ps \<longleftrightarrow>
     (\<forall>i p. os i (page_alignment ps) ps = Some p \<longrightarrow>
        unat (page_alignment ps) dvd unat p \<and> unat p + unat ps < 2 ^ 64)
   \<and> (\<forall>i j p q. i \<noteq> j \<longrightarrow> os i (page_alignment ps) ps = Some p \<longrightarrow> os j (page_alignment ps) ps = Some q \<longrightarrow>
        pages_apart ps p q)"

text \<open>
  What an allocator knows about itself: the pages of the manager are what the system granted, the page in
  use is one the manager has given away, and the free room starts inside of it.
\<close>

definition mg_wf :: "page_source \<Rightarrow> u64 \<Rightarrow> manager \<Rightarrow> bool" where
  "mg_wf os ps m \<longleftrightarrow> mg_page_size m = ps \<and> mg_currentPage m \<le> length (mg_pages m)
     \<and> (\<forall>i < length (mg_pages m). os i (page_alignment ps) ps = Some (mp_base (mg_pages m ! i))
          \<and> mp_size (mg_pages m ! i) = ps)"

definition pa_wf :: "page_source \<Rightarrow> u64 \<Rightarrow> pool_alloc \<Rightarrow> bool" where
  "pa_wf os ps a \<longleftrightarrow> mg_wf os ps (pa_mgr a) \<and> pa_offset a \<le> pa_end a
     \<and> (pa_base a = 0 \<and> pa_end a = 0
        \<or> pa_end a = ps \<and> (\<exists>b < mg_currentPage (pa_mgr a). os b (page_alignment ps) ps = Some (pa_base a)))"

lemma newPage_wf:
  assumes "mg_wf os ps m" and "mg_newPage os m = (Some page, m')"
  shows "mg_wf os ps m'" "os (mg_currentPage m) (page_alignment ps) ps = Some (mp_base page)"
    "mg_currentPage m' = mg_currentPage m + 1" "mp_size page = ps"
  using assms
  by (auto simp: mg_newPage_def mg_wf_def Let_def nth_append less_Suc_eq split: if_splits option.splits)

text \<open>The page \<open>switchToNewPage\<close> accepts has room for the object, so the second call succeeds.\<close>

lemma allocate_memory_eq:
  "allocate_memory os sz al a =
     Some (if pa_end a < Align (pa_offset a) al + sz then
             (case switchToNewPage os sz a of
                (False, a') \<Rightarrow> (None, a')
              | (True, a') \<Rightarrow> (Some (pa_base a'), a'\<lparr>pa_offset := sz\<rparr>))
           else (Some (pa_base a + Align (pa_offset a) al), a\<lparr>pa_offset := Align (pa_offset a) al + sz\<rparr>))"
proof (cases "pa_end a < Align (pa_offset a) al + sz")
  case False
  then show ?thesis by (subst allocate_memory.simps) (simp add: Let_def)
next
  case True
  obtain ok a' where sw: "switchToNewPage os sz a = (ok, a')" by fastforce
  have "allocate_memory os sz al a' = Some (Some (pa_base a'), a'\<lparr>pa_offset := sz\<rparr>)" if ok
  proof -
    have "pa_offset a' = 0" "\<not> pa_end a' < sz"
      using sw that by (auto simp: switchToNewPage_def split: prod.splits option.splits if_splits)
    then show ?thesis by (subst allocate_memory.simps) simp
  qed
  then show ?thesis using True sw by (subst allocate_memory.simps) (simp split: bool.split)
qed

lemma allocate_memory_returns: "\<exists>ad a'. allocate_memory os sz al a = Some (ad, a')"
  unfolding allocate_memory_eq by (simp only: option.inject split_paired_Ex [symmetric]) blast

text \<open>
  A block is an address and a length. \<open>page_block\<close> says where in the pages of the system it lies;
  before there is a page, a request for no bytes is answered by the null pointer.
\<close>

definition page_block :: "page_source \<Rightarrow> u64 \<Rightarrow> nat \<Rightarrow> u64 \<Rightarrow> u64 \<times> u64 \<Rightarrow> bool" where
  "page_block os ps b off x \<longleftrightarrow>
     (\<exists>p. os b (page_alignment ps) ps = Some p \<and> fst x = p + off \<and> unat off + unat (snd x) \<le> unat ps)"

definition null_block :: "u64 \<times> u64 \<Rightarrow> bool" where
  "null_block x \<longleftrightarrow> x = (0, 0)"

fun blocks_apart :: "u64 \<times> u64 \<Rightarrow> u64 \<times> u64 \<Rightarrow> bool" where
  "blocks_apart (addr, sz) (addr', sz') \<longleftrightarrow>
     unat addr + unat sz \<le> unat addr' \<or> unat addr' + unat sz' \<le> unat addr"

text \<open>The blocks an allocator may still hand out.\<close>

definition beyond :: "page_source \<Rightarrow> u64 \<Rightarrow> pool_alloc \<Rightarrow> u64 \<times> u64 \<Rightarrow> bool" where
  "beyond os ps a x \<longleftrightarrow> null_block x
     \<or> (\<exists>b off. page_block os ps b off x
          \<and> (os b (page_alignment ps) ps = Some (pa_base a) \<and> pa_offset a \<le> off
             \<or> mg_currentPage (pa_mgr a) \<le> b))"

text \<open>One allocation of \<open>sz\<close> bytes, aligned at \<open>2 ^ k\<close>.\<close>

definition served :: "page_source \<Rightarrow> u64 \<Rightarrow> pool_alloc \<Rightarrow> u64 \<times> u64 \<Rightarrow> nat \<Rightarrow> pool_alloc \<Rightarrow> bool" where
  "served os ps a x k a' \<longleftrightarrow> pa_wf os ps a' \<and> beyond os ps a x
   \<and> (\<forall>y. beyond os ps a' y \<longrightarrow> beyond os ps a y \<and> blocks_apart x y) \<and> 2 ^ k dvd unat (fst x)"

lemma page_block_address:
  assumes "honest_pages os ps" and "os b (page_alignment ps) ps = Some p" and "page_block os ps b off x"
  shows "unat (fst x) = unat p + unat off" "unat off + unat (snd x) \<le> unat ps"
    "unat (page_alignment ps) dvd unat p"
proof -
  have p: "unat p + unat ps < 2 ^ 64" "unat (page_alignment ps) dvd unat p"
    using assms(1,2) by (auto simp: honest_pages_def)
  have x: "fst x = p + off" "unat off + unat (snd x) \<le> unat ps"
    using assms(2,3) by (auto simp: page_block_def)
  have "unat (p + off) = unat p + unat off"
    by (rule unat_add_small) (use p x in simp)
  then show "unat (fst x) = unat p + unat off" "unat off + unat (snd x) \<le> unat ps"
    "unat (page_alignment ps) dvd unat p" using p x by simp_all
qed

lemma page_block_dvd:
  assumes "honest_pages os ps" and "page_block os ps b off x" and "2 ^ k dvd unat (page_alignment ps)"
    and "2 ^ k dvd unat off"
  shows "2 ^ k dvd unat (fst x)"
proof -
  obtain p where p: "os b (page_alignment ps) ps = Some p" using assms(2) by (auto simp: page_block_def)
  have "2 ^ k dvd unat p" using assms(3) page_block_address(3) [OF assms(1) p assms(2)] by (rule dvd_trans)
  then show ?thesis using page_block_address(1) [OF assms(1) p assms(2)] assms(4) by simp
qed

lemma other_page_apart:
  assumes h: "honest_pages os ps" and x: "page_block os ps b off x" and y: "page_block os ps c off' y" and "b \<noteq> c"
  shows "blocks_apart x y"
proof -
  obtain p where p: "os b (page_alignment ps) ps = Some p" using x by (auto simp: page_block_def)
  obtain q where q: "os c (page_alignment ps) ps = Some q" using y by (auto simp: page_block_def)
  have "pages_apart ps p q" using h p q \<open>b \<noteq> c\<close> unfolding honest_pages_def by blast
  then show ?thesis
    using page_block_address(1,2) [OF h p x] page_block_address(1,2) [OF h q y]
    by (cases x; cases y) (auto simp: pages_apart_def)
qed

lemma same_page_apart:
  assumes h: "honest_pages os ps" and p: "os b (page_alignment ps) ps = Some p" "os c (page_alignment ps) ps = Some p"
    and x: "page_block os ps b off x" and y: "page_block os ps c off' y" and "unat off + unat (snd x) \<le> unat off'"
  shows "blocks_apart x y"
  using page_block_address(1) [OF h p(1) x] page_block_address(1) [OF h p(2) y] assms(6)
  by (cases x; cases y) simp

lemma null_apart: "null_block x \<Longrightarrow> blocks_apart x y" "null_block y \<Longrightarrow> blocks_apart x y"
  by (cases x; cases y; simp add: null_block_def)+

lemma beyond_after:
  assumes h: "honest_pages os ps"
    and x: "page_block os ps b off x" "os b (page_alignment ps) ps = Some (pa_base a')" "b < mg_currentPage (pa_mgr a')"
    and end_of: "unat (pa_offset a') = unat off + unat (snd x)"
    and y: "beyond os ps a' y"
  shows "blocks_apart x y"
proof (cases "null_block y")
  case True
  then show ?thesis by (rule null_apart)
next
  case False
  with y obtain c off' where c: "page_block os ps c off' y"
    and or: "os c (page_alignment ps) ps = Some (pa_base a') \<and> pa_offset a' \<le> off' \<or> mg_currentPage (pa_mgr a') \<le> c"
    by (auto simp: beyond_def)
  show ?thesis
  proof (cases "mg_currentPage (pa_mgr a') \<le> c")
    case True
    then have "b \<noteq> c" using x(3) by simp
    then show ?thesis by (rule other_page_apart [OF h x(1) c])
  next
    case False
    with or have "os c (page_alignment ps) ps = Some (pa_base a')" "unat off + unat (snd x) \<le> unat off'"
      using end_of by (simp_all add: word_le_nat_alt)
    then show ?thesis by (rule same_page_apart [OF h x(2) _ x(1) c])
  qed
qed

lemma beyond_later:
  assumes "beyond os ps a' y" and "pa_base a' = pa_base a" and "pa_offset a \<le> pa_offset a'" and "pa_mgr a' = pa_mgr a"
  shows "beyond os ps a y"
  using assms unfolding beyond_def by (metis order_trans)

lemma beyond_next_page:
  assumes "beyond os ps a' y" and "mg_currentPage (pa_mgr a') = mg_currentPage (pa_mgr a) + 1"
    and "os (mg_currentPage (pa_mgr a)) (page_alignment ps) ps = Some (pa_base a')"
  shows "beyond os ps a y"
proof (cases "null_block y")
  case False
  with assms(1) obtain c off' where c: "page_block os ps c off' y"
    and or: "os c (page_alignment ps) ps = Some (pa_base a') \<or> mg_currentPage (pa_mgr a') \<le> c"
    by (auto simp: beyond_def)
  from or show ?thesis
  proof
    assume "os c (page_alignment ps) ps = Some (pa_base a')"
    then have "page_block os ps (mg_currentPage (pa_mgr a)) off' y"
      using c assms(3) by (simp add: page_block_def)
    then show ?thesis unfolding beyond_def by blast
  next
    assume "mg_currentPage (pa_mgr a') \<le> c"
    then have "mg_currentPage (pa_mgr a) \<le> c" using assms(2) by simp
    with c show ?thesis unfolding beyond_def by blast
  qed
qed (simp add: beyond_def)

lemma served_in_page:
  assumes h: "honest_pages os ps" and wf: "pa_wf os ps a" and al_page: "2 ^ k dvd unat (page_alignment ps)"
    and k: "k < 64" and room: "unat ps + 2 ^ k + unat sz \<le> 2 ^ 64"
    and fits: "\<not> pa_end a < Align (pa_offset a) (2 ^ k) + sz"
  shows "served os ps a (pa_base a + Align (pa_offset a) (2 ^ k), sz) k
           (a\<lparr>pa_offset := Align (pa_offset a) (2 ^ k) + sz\<rparr>)"
proof -
  let ?off = "Align (pa_offset a) (2 ^ k)" and ?x = "(pa_base a + Align (pa_offset a) (2 ^ k), sz)"
  let ?a = "a\<lparr>pa_offset := Align (pa_offset a) (2 ^ k) + sz\<rparr>"
  have end_le: "unat (pa_end a) \<le> unat ps" using wf by (auto simp: pa_wf_def)
  have off: "unat (pa_offset a) \<le> unat (pa_end a)" using wf by (simp add: pa_wf_def word_le_nat_alt)
  have al: "unat ?off = (unat (pa_offset a) + 2 ^ k - 1) div 2 ^ k * 2 ^ k"
    by (rule unat_Align [OF k]) (use off end_le room in linarith)
  have lo: "unat (pa_offset a) \<le> unat ?off" and hi: "unat ?off < unat (pa_offset a) + 2 ^ k"
    unfolding al by (rule round_up_bounds; simp)+
  have end_of: "unat (?off + sz) = unat ?off + unat sz"
    by (rule unat_add_small) (use hi off end_le room in simp)
  have dv: "2 ^ k dvd unat ?off" by (simp add: al)
  have le: "pa_offset a \<le> ?off + sz" using lo end_of by (simp add: word_le_nat_alt)
  have wf': "pa_wf os ps ?a" using wf fits by (simp add: pa_wf_def not_less)
  have later: "beyond os ps a y" if "beyond os ps ?a y" for y
    by (rule beyond_later [OF that]) (simp_all add: le)
  from wf consider "pa_base a = 0" "pa_end a = 0"
    | b where "pa_end a = ps" "b < mg_currentPage (pa_mgr a)" "os b (page_alignment ps) ps = Some (pa_base a)"
    by (auto simp: pa_wf_def)
  then show ?thesis
  proof cases
    case 1
    have z: "pa_offset a = 0" using off 1 by (simp add: unat_eq_zero)
    then have "sz = 0" using fits 1 by (simp add: z word_gt_0)
    then have "null_block ?x" by (simp add: null_block_def 1 z)
    then show ?thesis
      using wf' later null_apart(1) unfolding served_def beyond_def by (simp add: null_block_def)
  next
    case 2
    have x: "page_block os ps b ?off ?x"
      using 2 fits end_of by (simp add: page_block_def not_less word_le_nat_alt)
    then have "beyond os ps a ?x"
      using 2 lo unfolding beyond_def by (auto simp: word_le_nat_alt)
    moreover have "blocks_apart ?x y" if "beyond os ps ?a y" for y
      by (rule beyond_after [OF h x _ _ _ that]) (use 2 end_of in simp_all)
    ultimately show ?thesis
      using wf' later page_block_dvd [OF h x al_page dv] by (simp add: served_def)
  qed
qed

lemma served_in_new_page:
  assumes h: "honest_pages os ps" and wf: "pa_wf os ps a" and al_page: "2 ^ k dvd unat (page_alignment ps)"
    and sw: "switchToNewPage os sz a = (True, a')"
  shows "served os ps a (pa_base a', sz) k (a'\<lparr>pa_offset := sz\<rparr>)"
proof -
  from sw obtain page m where np: "mg_newPage os (pa_mgr a) = (Some page, m)" and sz: "\<not> mp_size page < sz"
    and a': "a' = a\<lparr>pa_mgr := m, pa_base := mp_base page, pa_offset := 0, pa_end := mp_size page\<rparr>"
    by (auto simp: switchToNewPage_def split: prod.splits option.splits if_splits)
  have "mg_wf os ps (pa_mgr a)" using wf by (simp add: pa_wf_def)
  note page = newPage_wf [OF this np]
  have wf': "pa_wf os ps (a'\<lparr>pa_offset := sz\<rparr>)"
    using page sz by (auto simp: pa_wf_def a' not_less)
  have x: "page_block os ps (mg_currentPage (pa_mgr a)) 0 (pa_base a', sz)"
    using page sz by (simp add: page_block_def a' word_le_nat_alt not_less)
  then have "beyond os ps a (pa_base a', sz)" unfolding beyond_def by blast
  moreover have "beyond os ps a y" if "beyond os ps (a'\<lparr>pa_offset := sz\<rparr>) y" for y
    by (rule beyond_next_page [OF that]) (simp_all add: a' page)
  moreover have "blocks_apart (pa_base a', sz) y" if "beyond os ps (a'\<lparr>pa_offset := sz\<rparr>) y" for y
    by (rule beyond_after [OF h x _ _ _ that]) (simp_all add: a' page)
  ultimately show ?thesis
    using wf' page_block_dvd [OF h x al_page] by (simp add: served_def)
qed

lemma allocate_step:
  assumes "honest_pages os ps" and "pa_wf os ps a" and "2 ^ k dvd unat (page_alignment ps)"
    and "k < 64" and "unat ps + 2 ^ k + unat sz \<le> 2 ^ 64"
    and r: "allocate_memory os sz (2 ^ k) a = Some (Some addr, a')"
  shows "served os ps a (addr, sz) k a'"
  using r served_in_page [OF assms(1-5)] served_in_new_page [OF assms(1-3), of sz]
  by (auto simp: allocate_memory_eq split: if_splits prod.splits bool.splits)

lemma pa_new_wf: "pa_wf os ps (pa_new (mg_new ps))"
  by (simp add: pa_wf_def mg_wf_def pa_new_def mg_new_def)

text \<open>A run of requests up to the first one that throws; each answer is the address and the length of a block.\<close>

fun pa_allocs :: "page_source \<Rightarrow> (u64 \<times> nat) list \<Rightarrow> pool_alloc \<Rightarrow> (u64 \<times> u64) list" where
  "pa_allocs os [] a = []"
| "pa_allocs os ((sz, k) # rs) a =
     (case allocate_memory os sz (2 ^ k) a of
        Some (Some addr, a') \<Rightarrow> (addr, sz) # pa_allocs os rs a'
      | _ \<Rightarrow> [])"

definition small_request :: "u64 \<Rightarrow> u64 \<times> nat \<Rightarrow> bool" where
  "small_request ps r \<longleftrightarrow> 2 ^ snd r dvd unat (page_alignment ps) \<and> unat ps + 2 ^ snd r + unat (fst r) \<le> 2 ^ 64"

lemma small_request_exponent:
  assumes "small_request ps r"
  shows "snd r < 64"
proof -
  have "(2::nat) ^ snd r \<le> unat (page_alignment ps)"
    using assms by (auto simp: small_request_def page_alignment_def TWO_MEGS_def intro!: dvd_imp_le)
  also have "\<dots> < 2 ^ 64" by (rule order_less_le_trans [OF unsigned_less]) simp
  finally show ?thesis by (simp only: power_strict_increasing_iff)
qed

lemma pa_allocs_blocks:
  assumes h: "honest_pages os ps"
  shows "pa_wf os ps a \<Longrightarrow> \<forall>r \<in> set rs. small_request ps r \<Longrightarrow>
   sorted_wrt blocks_apart (pa_allocs os rs a)
   \<and> (\<forall>x \<in> set (pa_allocs os rs a). beyond os ps a x)
   \<and> list_all2 (\<lambda>x r. 2 ^ snd r dvd unat (fst x) \<and> snd x = fst r)
       (pa_allocs os rs a) (take (length (pa_allocs os rs a)) rs)"
proof (induction rs arbitrary: a)
  case (Cons q rs)
  obtain sz k where q: "q = (sz, k)" by (cases q)
  obtain ad a' where al: "allocate_memory os sz (2 ^ k) a = Some (ad, a')"
    using allocate_memory_returns by blast
  show ?case
  proof (cases ad)
    case (Some addr)
    have small: "small_request ps (sz, k)" using Cons.prems(2) by (simp add: q)
    then have "2 ^ k dvd unat (page_alignment ps)" "unat ps + 2 ^ k + unat sz \<le> 2 ^ 64" "k < 64"
      using small_request_exponent [OF small] by (simp_all add: small_request_def)
    with al Some have sv: "served os ps a (addr, sz) k a'"
      using allocate_step [OF h Cons.prems(1)] by blast
    then have IH: "sorted_wrt blocks_apart (pa_allocs os rs a')" "\<forall>x \<in> set (pa_allocs os rs a'). beyond os ps a' x"
      "list_all2 (\<lambda>x r. 2 ^ snd r dvd unat (fst x) \<and> snd x = fst r)
         (pa_allocs os rs a') (take (length (pa_allocs os rs a')) rs)"
      using Cons.IH [of a'] Cons.prems(2) by (simp_all add: served_def)
    have "\<forall>x \<in> set (pa_allocs os rs a'). beyond os ps a x \<and> blocks_apart (addr, sz) x"
      using IH(2) sv unfolding served_def by blast
    then show ?thesis using IH sv by (simp add: q al Some served_def)
  qed (simp add: q al)
qed simp

lemma newPage_pages:
  assumes "mg_newPage os m = (r, m')"
  shows "length (mg_pages m') \<le> Suc (length (mg_pages m))"
  using assms by (auto simp: mg_newPage_def Let_def split: if_splits option.splits)

lemma newPage_granted:
  assumes "mg_wf os ps m" and "os (length (mg_pages m)) (page_alignment ps) ps \<noteq> None"
  shows "\<exists>page m'. mg_newPage os m = (Some page, m')"
  using assms by (auto simp: mg_newPage_def mg_wf_def Let_def)

lemma allocate_granted:
  assumes wf: "pa_wf os ps a" and "os (length (mg_pages (pa_mgr a))) (page_alignment ps) ps \<noteq> None"
    and "sz \<le> ps"
  shows "\<exists>addr a'. allocate_memory os sz al a = Some (Some addr, a')
    \<and> length (mg_pages (pa_mgr a')) \<le> Suc (length (mg_pages (pa_mgr a)))"
proof -
  have mw: "mg_wf os ps (pa_mgr a)" using wf by (simp add: pa_wf_def)
  obtain page m where np: "mg_newPage os (pa_mgr a) = (Some page, m)"
    using newPage_granted [OF mw assms(2)] by blast
  have "\<not> mp_size page < sz" using newPage_wf(4) [OF mw np] assms(3) by (simp add: not_less)
  then show ?thesis
    using newPage_pages [OF np] by (simp add: allocate_memory_eq switchToNewPage_def np Let_def)
qed

lemma pa_allocs_length:
  assumes h: "honest_pages os ps"
  shows "pa_wf os ps a \<Longrightarrow> \<forall>r \<in> set rs. small_request ps r \<and> fst r \<le> ps
   \<Longrightarrow> \<forall>i < length (mg_pages (pa_mgr a)) + length rs. os i (page_alignment ps) ps \<noteq> None
   \<Longrightarrow> length (pa_allocs os rs a) = length rs"
proof (induction rs arbitrary: a)
  case (Cons q rs)
  obtain sz k where q: "q = (sz, k)" by (cases q)
  have g: "os (length (mg_pages (pa_mgr a))) (page_alignment ps) ps \<noteq> None" and sz: "sz \<le> ps"
    and small: "small_request ps (sz, k)" using Cons.prems(2,3) by (simp_all add: q)
  obtain addr a' where al: "allocate_memory os sz (2 ^ k) a = Some (Some addr, a')"
    and le: "length (mg_pages (pa_mgr a')) \<le> Suc (length (mg_pages (pa_mgr a)))"
    using allocate_granted [OF Cons.prems(1) g sz] by blast
  have "2 ^ k dvd unat (page_alignment ps)" "unat ps + 2 ^ k + unat sz \<le> 2 ^ 64" "k < 64"
    using small small_request_exponent [OF small] by (simp_all add: small_request_def)
  then have "pa_wf os ps a'"
    using allocate_step [OF h Cons.prems(1) _ _ _ al] by (simp add: served_def)
  moreover have "\<forall>i < length (mg_pages (pa_mgr a')) + length rs. os i (page_alignment ps) ps \<noteq> None"
    using Cons.prems(3) le by auto
  ultimately show ?case using Cons.IH [of a'] Cons.prems(2) by (simp add: q al)
qed simp

lemma page_alignment_dvd:
  assumes "k \<le> 12 \<or> k \<le> 21 \<and> TWO_MEGS \<le> ps"
  shows "2 ^ k dvd unat (page_alignment ps)"
proof -
  have "unat (page_alignment ps) = (if TWO_MEGS \<le> ps then 2 ^ 21 else 2 ^ 12)"
    by (simp add: page_alignment_def) (simp add: TWO_MEGS_def)
  also have "2 ^ k dvd \<dots>"
    using assms le_imp_power_dvd [of k 12 2] le_imp_power_dvd [of k 21 2] by (auto simp only: split: if_split)
  finally show ?thesis .
qed

subsection \<open>Properties\<close>

text \<open>Aligning an offset at a power of two gives the least multiple of it that is not below the offset.\<close>

theorem Align_least_multiple:
  assumes "k < 64" and "unat v + 2 ^ k \<le> 2 ^ 64"
  shows "unat (Align v (2 ^ k)) = (LEAST m. 2 ^ k dvd m \<and> unat v \<le> m)"
proof (rule Least_equality [symmetric], intro conjI)
  have al: "unat (Align v (2 ^ k)) = (unat v + 2 ^ k - 1) div 2 ^ k * 2 ^ k"
    by (rule unat_Align [OF assms])
  show "2 ^ k dvd unat (Align v (2 ^ k))" by (simp add: al)
  show "unat v \<le> unat (Align v (2 ^ k))"
    unfolding al by (rule round_up_bounds) simp
  fix m assume "2 ^ k dvd m \<and> unat v \<le> m"
  then have m: "2 ^ k dvd m" "unat v \<le> m" by blast+
  then obtain c where c: "m = 2 ^ k * c" by (elim dvdE)
  have "1 \<le> (2 :: nat) ^ k" by simp
  then have "unat v + 2 ^ k - 1 < 2 ^ k * Suc c"
    using m(2) by (simp only: c mult_Suc_right)
  then have "(unat v + 2 ^ k - 1) div 2 ^ k < Suc c" by (simp only: less_mult_imp_div_less mult.commute)
  then show "unat (Align v (2 ^ k)) \<le> m" by (simp add: al c)
qed

theorem Align_least_multiple_witness:
  "unat (Align 13 (2 ^ 3)) = (LEAST m. 2 ^ 3 dvd m \<and> unat (13 :: u64) \<le> m)"
  by (rule Align_least_multiple) simp_all

text \<open>C26: When the pages the system grants have the alignment the manager asks for (4096, or 2 MiB
  from page sizes of 2 MiB on), end below the end of the address space and do not overlap, a fresh pool
  allocator answers requests of any sizes, with alignments up to that of the pages, by blocks that have the
  size asked for and start at an address with the alignment asked for; each lies inside one of the pages (or is the null
  pointer, answered to a request of no bytes before there is a page), and no two of them overlap, whether or not
  the system goes on granting pages. If it grants a page for each request and every request is at most
  a page long, all requests are served. The bound on page size, alignment and request only says that their sum is in \<open>size_t\<close>.
\<close>

theorem pool_blocks_disjoint:
  assumes "honest_pages os ps"
    and "\<forall>r \<in> set rs. (snd r \<le> 12 \<or> snd r \<le> 21 \<and> TWO_MEGS \<le> ps) \<and> unat ps + 2 ^ snd r + unat (fst r) \<le> 2 ^ 64"
  shows "list_all2 (\<lambda>(addr, sz) r. sz = fst r \<and> 2 ^ snd r dvd unat addr
             \<and> (addr = 0 \<and> sz = 0
                \<or> (\<exists>i p. os i (page_alignment ps) ps = Some p \<and> unat p \<le> unat addr
                      \<and> unat addr + unat sz \<le> unat p + unat ps)))
           (pa_allocs os rs (pa_new (mg_new ps))) (take (length (pa_allocs os rs (pa_new (mg_new ps)))) rs)
       \<and> sorted_wrt blocks_apart (pa_allocs os rs (pa_new (mg_new ps)))
       \<and> ((\<forall>i < length rs. os i (page_alignment ps) ps \<noteq> None) \<and> (\<forall>r \<in> set rs. fst r \<le> ps)
            \<longrightarrow> length (pa_allocs os rs (pa_new (mg_new ps))) = length rs)"
proof (intro conjI)
  have small: "\<forall>r \<in> set rs. small_request ps r"
    using assms(2) page_alignment_dvd by (auto simp: small_request_def)
  note blocks = pa_allocs_blocks [OF assms(1) pa_new_wf small]
  show "sorted_wrt blocks_apart (pa_allocs os rs (pa_new (mg_new ps)))" using blocks by blast
  have in_page: "addr = 0 \<and> sz = 0 \<or> (\<exists>i p. os i (page_alignment ps) ps = Some p \<and> unat p \<le> unat addr
                      \<and> unat addr + unat sz \<le> unat p + unat ps)"
    if "beyond os ps (pa_new (mg_new ps)) (addr, sz)" for addr sz
  proof (cases "null_block (addr, sz)")
    case True
    then show ?thesis by (simp add: null_block_def)
  next
    case False
    with that obtain b off where b: "page_block os ps b off (addr, sz)" by (auto simp: beyond_def)
    then obtain p where p: "os b (page_alignment ps) ps = Some p" by (auto simp: page_block_def)
    show ?thesis using page_block_address [OF assms(1) p b] p by fastforce
  qed
  show "list_all2 (\<lambda>(addr, sz) r. sz = fst r \<and> 2 ^ snd r dvd unat addr
             \<and> (addr = 0 \<and> sz = 0
                \<or> (\<exists>i p. os i (page_alignment ps) ps = Some p \<and> unat p \<le> unat addr
                      \<and> unat addr + unat sz \<le> unat p + unat ps)))
           (pa_allocs os rs (pa_new (mg_new ps))) (take (length (pa_allocs os rs (pa_new (mg_new ps)))) rs)"
    using blocks in_page unfolding list_all2_conv_all_nth case_prod_unfold by (metis nth_mem prod.collapse)
  show "(\<forall>i < length rs. os i (page_alignment ps) ps \<noteq> None) \<and> (\<forall>r \<in> set rs. fst r \<le> ps)
            \<longrightarrow> length (pa_allocs os rs (pa_new (mg_new ps))) = length rs"
    using pa_allocs_length [OF assms(1) pa_new_wf, of rs] small by (simp add: pa_new_def mg_new_def)
qed

text \<open>A system that has eight pages of at most 64 KiB to give.\<close>

definition sample_pages :: page_source where
  "sample_pages i alignment n =
     (if i < 8 \<and> alignment = 4096 \<and> n \<le> 0x10000 then Some (word_of_nat (0x10000 * Suc i)) else None)"

theorem pool_blocks_disjoint_witness:
  "list_all2 (\<lambda>(addr, sz) r. sz = fst r \<and> 2 ^ snd r dvd unat addr
             \<and> (addr = 0 \<and> sz = 0
                \<or> (\<exists>i p. sample_pages i (page_alignment 64) 64 = Some p \<and> unat p \<le> unat addr
                      \<and> unat addr + unat sz \<le> unat p + unat (64 :: u64))))
     (pa_allocs sample_pages [(10, 0), (8, 3), (48, 12)] (pa_new (mg_new 64)))
     (take (length (pa_allocs sample_pages [(10, 0), (8, 3), (48, 12)] (pa_new (mg_new 64)))) [(10, 0), (8, 3), (48, 12)])
   \<and> sorted_wrt blocks_apart (pa_allocs sample_pages [(10, 0), (8, 3), (48, 12)] (pa_new (mg_new 64)))
   \<and> length (pa_allocs sample_pages [(10, 0), (8, 3), (48, 12)] (pa_new (mg_new 64))) = 3"
proof -
  have al: "page_alignment 64 = 4096" by (simp add: page_alignment_def TWO_MEGS_def)
  have at: "unat (word_of_nat (0x10000 * Suc i) :: u64) = 0x10000 * Suc i" if "i < 8" for i
    by (rule unat_of_nat_small) (use that in simp)
  have page: "\<exists>j < 8. i = j \<and> unat p = 0x10000 * Suc j" if "sample_pages i 4096 64 = Some p" for i p
    using that at by (auto simp: sample_pages_def simp del: of_nat_mult of_nat_Suc mult_Suc_right split: if_splits)
  have apart: "pages_apart 64 p q" if "i \<noteq> j" "sample_pages i 4096 64 = Some p" "sample_pages j 4096 64 = Some q" for i j p q
    using page [OF that(2)] page [OF that(3)] that(1) by (auto simp: pages_apart_def)
  have good: "unat (4096 :: u64) dvd unat p \<and> unat p + unat (64 :: u64) < 2 ^ 64" if "sample_pages i 4096 64 = Some p" for i p
    using page [OF that] by auto
  have honest: "honest_pages sample_pages 64"
    unfolding honest_pages_def al using apart good by blast
  have "sample_pages i 4096 64 \<noteq> None" if "i < 3" for i using that by (simp add: sample_pages_def)
  moreover have "\<forall>r \<in> set [(10 :: u64, 0), (8, 3), (48, 12)]. (snd r \<le> 12 \<or> snd r \<le> 21 \<and> TWO_MEGS \<le> 64) \<and> unat (64 :: u64) + 2 ^ snd r + unat (fst r) \<le> 2 ^ 64"
    by simp
  note all = pool_blocks_disjoint [OF honest this, unfolded al]
  ultimately have len: "length (pa_allocs sample_pages [(10, 0), (8, 3), (48, 12)] (pa_new (mg_new 64))) = 3"
    using all by (simp add: numeral_3_eq_3 [symmetric] del: pa_allocs.simps)
  show ?thesis using all by (simp add: al len del: pa_allocs.simps)
qed

end
