(* ===== verification/Characters.thy ===== *)
theory Characters
  imports Prelude
begin

text \<open>
  \<open>src/src/util/characters.h\<close> and \<open>characters.cc\<close>: the UTF-8 decoder \<open>getCodepoint\<close>, the character
  classes and their classifier \<open>getCodeType\<close>, the splitting of an input string into
  \<open>InputCodepoint\<close>s (\<open>preprocessRawData\<close>) and the fast counter \<open>numCodepoints\<close>.

  The lemmas show that the decoder inverts the UTF-8 encoding, that a successful split loses no
  byte and decodes every piece, that the fast counter agrees with the split, and which code points
  of the bracket table the classifier really calls brackets.
\<close>

subsection \<open>Character classes\<close>

text \<open>\<open>enum class CharacterClass : i32\<close>, a set of bit flags.\<close>

type_synonym character_class = "32 word"

definition SPACE :: character_class where [cc_defs]: "SPACE = 0x00000001"
definition IDEOGRAPHIC_PUNC :: character_class where [cc_defs]: "IDEOGRAPHIC_PUNC = 0x00000002"
definition KANJI :: character_class where [cc_defs]: "KANJI = 0x00000004"
definition FIGURE :: character_class where [cc_defs]: "FIGURE = 0x00000008"
definition PERIOD :: character_class where [cc_defs]: "PERIOD = 0x00000010"
definition MIDDLE_DOT :: character_class where [cc_defs]: "MIDDLE_DOT = 0x00000020"
definition COMMA :: character_class where [cc_defs]: "COMMA = 0x00000040"
definition ALPH :: character_class where [cc_defs]: "ALPH = 0x00000080"
definition SYMBOL :: character_class where [cc_defs]: "SYMBOL = 0x00000100"
definition KATAKANA :: character_class where [cc_defs]: "KATAKANA = 0x00000200"
definition HIRAGANA :: character_class where [cc_defs]: "HIRAGANA = 0x00000400"
definition KANJI_FIGURE :: character_class where [cc_defs]: "KANJI_FIGURE = 0x00000800"
definition SLASH :: character_class where [cc_defs]: "SLASH = 0x00001000"
definition COLON :: character_class where [cc_defs]: "COLON = 0x00002000"
definition ERA :: character_class where [cc_defs]: "ERA = 0x00004000"
definition CHOON :: character_class where [cc_defs]: "CHOON = 0x00008000"
definition HANKAKU_KANA :: character_class where [cc_defs]: "HANKAKU_KANA = 0x00010000"
definition BRACKET :: character_class where [cc_defs]: "BRACKET = 0x00020000"
definition FIGURE_EXCEPTION :: character_class where [cc_defs]: "FIGURE_EXCEPTION = 0x00040000"
definition FIGURE_DIGIT :: character_class where [cc_defs]: "FIGURE_DIGIT = 0x00080000"
definition SMALL_KANA :: character_class where [cc_defs]: "SMALL_KANA = 0x00100000"

definition FAMILY_FIGURE :: character_class where
  [cc_defs]: "FAMILY_FIGURE = FIGURE OR PERIOD OR MIDDLE_DOT OR KANJI_FIGURE OR SLASH OR COLON"
definition FAMILY_PUNC :: character_class where
  [cc_defs]: "FAMILY_PUNC = PERIOD OR COMMA OR IDEOGRAPHIC_PUNC"
definition FAMILY_ALPH_PUNC :: character_class where
  [cc_defs]: "FAMILY_ALPH_PUNC = ALPH OR PERIOD OR SLASH OR COLON OR MIDDLE_DOT"
definition FAMILY_NUM_PERIOD :: character_class where
  [cc_defs]: "FAMILY_NUM_PERIOD = PERIOD OR MIDDLE_DOT"
definition FAMILY_PUNC_SYMBOL :: character_class where
  [cc_defs]: "FAMILY_PUNC_SYMBOL =
     PERIOD OR COMMA OR IDEOGRAPHIC_PUNC OR MIDDLE_DOT OR SYMBOL OR SLASH OR COLON"
definition FAMILY_SPACE :: character_class where [cc_defs]: "FAMILY_SPACE = SPACE"
definition FAMILY_SYMBOL :: character_class where [cc_defs]: "FAMILY_SYMBOL = SYMBOL"
definition FAMILY_ALPH :: character_class where [cc_defs]: "FAMILY_ALPH = ALPH"
definition FAMILY_KANJI :: character_class where
  [cc_defs]: "FAMILY_KANJI = KANJI OR KANJI_FIGURE"
definition FAMILY_KANA :: character_class where
  [cc_defs]: "FAMILY_KANA = KATAKANA OR HIRAGANA OR HANKAKU_KANA OR SMALL_KANA"
definition FAMILY_DOUBLE :: character_class where
  [cc_defs]: "FAMILY_DOUBLE = KATAKANA OR HIRAGANA OR HANKAKU_KANA OR SMALL_KANA OR KANJI OR CHOON"
definition FAMILY_BRACKET :: character_class where [cc_defs]: "FAMILY_BRACKET = BRACKET"
definition FAMILY_DIGITS :: character_class where
  [cc_defs]: "FAMILY_DIGITS = FIGURE OR KANJI_FIGURE OR FIGURE_DIGIT"
definition FAMILY_EXCEPTION :: character_class where
  [cc_defs]: "FAMILY_EXCEPTION = FIGURE OR KANJI_FIGURE OR FIGURE_EXCEPTION"
definition FAMILY_PROLONGABLE :: character_class where
  [cc_defs]: "FAMILY_PROLONGABLE = KANJI OR HIRAGANA OR KATAKANA"
definition FAMILY_FULL_KANA :: character_class where
  [cc_defs]: "FAMILY_FULL_KANA = HIRAGANA OR KATAKANA"
definition FAMILY_OTHERS :: character_class where [cc_defs]: "FAMILY_OTHERS = 0x00000000"
definition FAMILY_ANYTHING :: character_class where [cc_defs]: "FAMILY_ANYTHING = 0x7fffffff"

definition IsCompatibleCharClass :: "character_class \<Rightarrow> character_class \<Rightarrow> bool" where
  "IsCompatibleCharClass realCharClass familyOrTarget \<longleftrightarrow>
     (realCharClass AND familyOrTarget) \<noteq> FAMILY_OTHERS"

subsection \<open>Decoding one code point\<close>

record code_point_info =
  cpi_codepoint :: "32 word"
  cpi_utf8Length :: nat

definition cp_invalid :: code_point_info where
  "cp_invalid = \<lparr>cpi_codepoint = 0, cpi_utf8Length = 0\<rparr>"

definition isContinuation :: "u8 \<Rightarrow> bool" where
  "isContinuation b \<longleftrightarrow> ((ucast b :: 32 word) AND NOT 0x3f) XOR 0x80 = 0"

definition low_bits :: "u8 \<Rightarrow> u32 \<Rightarrow> u32" where
  "low_bits b m = ucast b AND m"

text \<open>
  \<open>getCodepoint(itr, itr_end)\<close> on the bytes from \<open>itr\<close> to \<open>itr_end\<close>. Every branch of the code
  first compares the number of remaining bytes with the length it needs, so an empty range gives
  \<open>{0, 0}\<close> whatever byte stands behind it.
\<close>

definition getCodepoint :: "byte_string \<Rightarrow> code_point_info" where
  "getCodepoint bs = (case bs of [] \<Rightarrow> cp_invalid | b0 # _ \<Rightarrow>
     if b0 > 0xef then
       (if length bs \<ge> 4
           \<and> ((ucast b0 :: u32) AND NOT 0x7) XOR 0xf0 = 0
           \<and> isContinuation (bs ! 1) \<and> isContinuation (bs ! 2) \<and> isContinuation (bs ! 3)
        then \<lparr>cpi_codepoint =
                push_bit 18 (low_bits b0 0x07) OR push_bit 12 (low_bits (bs ! 1) 0x3f)
                OR push_bit 6 (low_bits (bs ! 2) 0x3f) OR low_bits (bs ! 3) 0x3f,
              cpi_utf8Length = 4\<rparr>
        else cp_invalid)
     else if b0 > 0xdf then
       (if length bs \<ge> 3
           \<and> ((ucast b0 :: u32) AND NOT 0xf) XOR 0xe0 = 0
           \<and> isContinuation (bs ! 1) \<and> isContinuation (bs ! 2)
        then \<lparr>cpi_codepoint =
                push_bit 12 (low_bits b0 0x0f) OR push_bit 6 (low_bits (bs ! 1) 0x3f)
                OR low_bits (bs ! 2) 0x3f,
              cpi_utf8Length = 3\<rparr>
        else cp_invalid)
     else if b0 > 0x7f then
       (if length bs \<ge> 2
           \<and> ((ucast b0 :: u32) AND NOT 0x1f) XOR 0xc0 = 0
           \<and> isContinuation (bs ! 1)
        then \<lparr>cpi_codepoint =
                push_bit 6 (low_bits b0 0x1f) OR low_bits (bs ! 1) 0x3f,
              cpi_utf8Length = 2\<rparr>
        else cp_invalid)
     else
       (if length bs \<ge> 1 \<and> (ucast b0 :: u32) AND NOT 0x7f = 0
        then \<lparr>cpi_codepoint = low_bits b0 0x7f, cpi_utf8Length = 1\<rparr>
        else cp_invalid))"

lemma getCodepoint_length_le: "cpi_utf8Length (getCodepoint bs) \<le> length bs"
  by (auto simp: getCodepoint_def cp_invalid_def split: list.splits if_splits)

subsection \<open>Classifying a code point\<close>

definition lowercase :: "32 word list" where
  "lowercase =
    [0x3041, 0x3043, 0x3045, 0x3047, 0x3049, 0x3063, 0x3083, 0x3085, 0x3087, 0x308E, 0x3095,
     0x3096, 0x30A1, 0x30A3, 0x30A5, 0x30A7, 0x30A9, 0x30C3, 0x30E3, 0x30E5, 0x30E7, 0x30EE,
     0x30F5, 0x30F6]"

definition brackets :: "32 word list" where
  "brackets =
    [0x0028, 0x0029, 0x005B, 0x005D, 0x007B, 0x007D, 0x0F3A, 0x0F3B, 0x0F3C, 0x0F3D,
     0x169B, 0x169C, 0x2045, 0x2046, 0x207D, 0x207E, 0x208D, 0x208E, 0x2308, 0x2309,
     0x230A, 0x230B, 0x2329, 0x232A, 0x2768, 0x2769, 0x276A, 0x276B, 0x276C, 0x276D,
     0x276E, 0x276F, 0x2770, 0x2771, 0x2772, 0x2773, 0x2774, 0x2775, 0x27C5, 0x27C6,
     0x27E6, 0x27E7, 0x27E8, 0x27E9, 0x27EA, 0x27EB, 0x27EC, 0x27ED, 0x27EE, 0x27EF,
     0x2983, 0x2984, 0x2985, 0x2986, 0x2987, 0x2988, 0x2989, 0x298A, 0x298B, 0x298C,
     0x298D, 0x2990, 0x298F, 0x298E, 0x2991, 0x2992, 0x2993, 0x2994, 0x2995, 0x2996,
     0x2997, 0x2998, 0x29D8, 0x29D9, 0x29DA, 0x29DB, 0x29FC, 0x29FD, 0x2E22, 0x2E23,
     0x2E24, 0x2E25, 0x2E26, 0x2E27, 0x2E28, 0x2E29, 0x3008, 0x3009, 0x300A, 0x300B,
     0x300C, 0x300D, 0x300E, 0x300F, 0x3010, 0x3011, 0x3014, 0x3015, 0x3016, 0x3017,
     0x3018, 0x3019, 0x301A, 0x301B, 0xFE59, 0xFE5A, 0xFE5B, 0xFE5C, 0xFE5D, 0xFE5E,
     0xFF08, 0xFF09, 0xFF3B, 0xFF3D, 0xFF5B, 0xFF5D, 0xFF5F, 0xFF60, 0xFF62, 0xFF63]"

definition getCodeType :: "32 word \<Rightarrow> character_class" where
  "getCodeType code =
    (if code \<in> set [0x20, 0x3000, 0xA0, 0x1680, 0x180E, 0x202F, 0x205F, 0xFEFF]
        \<or> (0x2000 \<le> code \<and> code \<le> 0x200B) then SPACE
     else if code > 0x3000 \<and> code < 0x3003 then IDEOGRAPHIC_PUNC
     else if 0x337B \<le> code \<and> code \<le> 0x337E then SYMBOL OR ERA
     else if (code > 0x303f \<and> code < 0x30a0) \<or> code \<in> set [0x309D, 0x309E, 0x309F] then
       (if code \<in> set lowercase then HIRAGANA OR SMALL_KANA else HIRAGANA)
     else if (code > 0x309f \<and> code < 0x30fb) \<or> code \<in> set [0x30FD, 0x30FE, 0x30FF] then
       (if code \<in> set lowercase then KATAKANA OR SMALL_KANA else KATAKANA)
     else if code \<in> set [0x30FC, 0x301C, 0xFF5E, 0x223C] then FAMILY_FULL_KANA OR CHOON
     else if code = 0xFF70 then HANKAKU_KANA OR CHOON
     else if 0xFF66 \<le> code \<and> code \<le> 0xFF9F then HANKAKU_KANA
     else if code = 0x00B7 \<or> code = 0x30fb then MIDDLE_DOT
     else if code = 0x002C \<or> code = 0xff0c then COMMA
     else if code = 0x002F \<or> code = 0xff0f then SLASH
     else if code = 0x003A \<or> code = 0xff1a then COLON
     else if code = 0xff0e then PERIOD
     else if (code > 0x2f \<and> code < 0x3a) \<or> (code > 0xff0f \<and> code < 0xff1a) then FIGURE
     else if code \<in> set [0x25cb, 0x3007, 0x96f6, 0x4e00, 0x4e8c, 0x4e09, 0x56db, 0x4e94, 0x516d,
                        0x4e03, 0x516b, 0x4e5d] then KANJI_FIGURE OR KANJI
     else if code \<in> set [0x5341, 0x767e, 0x5343, 0x4e07, 0x5104, 0x5146, 0x6570, 0x4F55, 0x5E7E] then
       (if code = 0x6570 \<or> code = 0x4F55 \<or> code = 0x5E7E then FIGURE_EXCEPTION OR KANJI
        else KANJI_FIGURE OR FIGURE_DIGIT)
     else if (code \<ge> 0x40 \<and> code \<le> 0x5b) \<or> (code \<ge> 0x60 \<and> code \<le> 0x7b)
             \<or> (code \<ge> 0xbf \<and> code \<le> 0x0100) \<or> (code \<ge> 0xff20 \<and> code \<le> 0xff3b)
             \<or> (code \<ge> 0xff40 \<and> code \<le> 0xff5b) \<or> (code \<ge> 0x370 \<and> code \<le> 0x3ff)
             \<or> (code \<ge> 0x400 \<and> code \<le> 0x4ff) then ALPH
     else if (code > 0x4dff \<and> code < 0xa000) \<or> code = 0x3005 \<or> code = 0x3007 then KANJI
     else if code \<in> set brackets then BRACKET
     else SYMBOL)"

subsection \<open>Splitting a string\<close>

record input_codepoint =
  ic_codepoint :: "32 word"
  ic_charClass :: character_class
  ic_bytes :: byte_string

definition hasClass :: "input_codepoint \<Rightarrow> character_class \<Rightarrow> bool" where
  "hasClass ic queryClass = IsCompatibleCharClass (ic_charClass ic) queryClass"

text \<open>The constructor \<open>InputCodepoint(StringPiece sp)\<close>.\<close>

definition mkInputCodepoint :: "byte_string \<Rightarrow> input_codepoint" where
  "mkInputCodepoint sp =
     \<lparr>ic_codepoint = cpi_codepoint (getCodepoint sp),
      ic_charClass = getCodeType (cpi_codepoint (getCodepoint sp)),
      ic_bytes = sp\<rparr>"

text \<open>
  \<open>preprocessRawData\<close> appends to the vector it is given, also before it finds an invalid
  sequence: the vector is a state that both outcomes return.
\<close>

function preprocessRawData ::
  "byte_string \<Rightarrow> input_codepoint list \<Rightarrow> status_code \<times> input_codepoint list" where
  "preprocessRawData itr result =
     (if itr = [] then (StOk, result)
      else let ret = getCodepoint itr in
        if cpi_utf8Length ret = 0 then (StInvalidParameter, result)
        else preprocessRawData (drop (cpi_utf8Length ret) itr)
          (result @ [\<lparr>ic_codepoint = cpi_codepoint ret,
                     ic_charClass = getCodeType (cpi_codepoint ret),
                     ic_bytes = take (cpi_utf8Length ret) itr\<rparr>]))"
  by pat_completeness auto
termination
  by (relation "measure (\<lambda>(itr, result). length itr)") auto

declare preprocessRawData.simps [simp del]

text \<open>
  The step of \<open>numCodepoints\<close> looks at the lead byte only; a step past the end leaves the loop
  with \<open>itr != end\<close>, which is the result -1. The count is an \<open>i32\<close>, which wraps around here where
  the signed addition of the source overflows.
\<close>

definition leadLength :: "u8 \<Rightarrow> nat" where
  "leadLength b = (if b > 0xef then 4 else if b > 0xdf then 3 else if b > 0x7f then 2 else 1)"

function numCodepoints_loop :: "byte_string \<Rightarrow> i32 \<Rightarrow> i32" where
  "numCodepoints_loop itr cnt =
     (case itr of
        [] \<Rightarrow> cnt
      | b # _ \<Rightarrow> if length itr < leadLength b then - 1
                else numCodepoints_loop (drop (leadLength b) itr) (cnt + 1))"
  by pat_completeness auto
termination
  by (relation "measure (\<lambda>(itr, cnt). length itr)") (auto simp: leadLength_def)

declare numCodepoints_loop.simps [simp del]

definition numCodepoints :: "byte_string \<Rightarrow> i32" where
  "numCodepoints utf8 = numCodepoints_loop utf8 0"

lemma unat_low_bits: "unat (low_bits b (mask n)) = unat b mod 2 ^ n"
  by (simp add: low_bits_def take_bit_eq_mask [symmetric] unsigned_take_bit_eq unat_ucast_byte)
    (simp add: take_bit_eq_mod)

lemma masked_byte_iff:
  "((ucast (b :: u8) :: u32) AND NOT (mask n)) XOR c = 0 \<longleftrightarrow> (unat b div 2 ^ n) * 2 ^ n = unat c"
  unfolding xor_zero_iff by (simp only: word_unat_eq_iff unat_and_not_mask unat_ucast_byte)

lemma byte_masks:
  "(0x7 :: u32) = mask 3" "(0xf :: u32) = mask 4" "(0x1f :: u32) = mask 5"
  "(0x3f :: u32) = mask 6" "(0x7f :: u32) = mask 7"
  by (simp_all add: mask_eq_decr_exp)

lemma isContinuation_iff: "isContinuation b \<longleftrightarrow> 0x80 \<le> unat b \<and> unat b < 0xc0"
  unfolding isContinuation_def byte_masks masked_byte_iff by simp arith

lemma lead4_iff: "(((ucast (b::u8) :: u32) AND NOT 0x7) XOR 0xf0 = 0) \<longleftrightarrow> 0xf0 \<le> unat b \<and> unat b < 0xf8"
  unfolding byte_masks masked_byte_iff by simp arith
lemma lead3_iff: "(((ucast (b::u8) :: u32) AND NOT 0xf) XOR 0xe0 = 0) \<longleftrightarrow> 0xe0 \<le> unat (b::u8) \<and> unat b < 0xf0"
  unfolding byte_masks masked_byte_iff by simp arith
lemma lead2_iff: "(((ucast (b::u8) :: u32) AND NOT 0x1f) XOR 0xc0 = 0) \<longleftrightarrow> 0xc0 \<le> unat (b::u8) \<and> unat b < 0xe0"
  unfolding byte_masks masked_byte_iff by simp arith
lemma lead1_iff: "((ucast (b::u8) :: u32) AND NOT 0x7f = 0) \<longleftrightarrow> unat (b::u8) < 0x80"
  using masked_byte_iff [of b 7 0] unfolding byte_masks by simp arith

lemma unat_or4:
  "unat (push_bit 18 (low_bits a 0x07) OR push_bit 12 (low_bits b 0x3f)
     OR push_bit 6 (low_bits c 0x3f) OR low_bits d 0x3f) =
   unat a mod 8 * 2 ^ 18 + unat b mod 64 * 2 ^ 12 + unat c mod 64 * 2 ^ 6 + unat d mod 64"
proof -
  have m: "unat x mod 64 < 64" "unat x mod 8 < 8" for x :: u8 by simp_all
  show ?thesis
    using m(2) [of a] m(1) [of b] m(1) [of c] m(1) [of d]
    by (simp add: byte_masks unat_push_or unat_low_bits)
qed

lemma unat_or3:
  "unat (push_bit 12 (low_bits b 0x0f) OR push_bit 6 (low_bits c 0x3f) OR low_bits d 0x3f) =
   unat b mod 16 * 2 ^ 12 + unat c mod 64 * 2 ^ 6 + unat d mod 64"
proof -
  have m: "unat x mod 64 < 64" "unat x mod 16 < 16" for x :: u8 by simp_all
  show ?thesis
    using m(2) [of b] m(1) [of c] m(1) [of d]
    by (simp add: byte_masks unat_push_or unat_low_bits)
qed

lemma unat_or2:
  "unat (push_bit 6 (low_bits c 0x1f) OR low_bits d 0x3f) = unat c mod 32 * 2 ^ 6 + unat d mod 64"
proof -
  have m: "unat x mod 64 < 64" "unat x mod 32 < 32" for x :: u8 by simp_all
  show ?thesis
    using m(2) [of c] m(1) [of d]
    by (simp add: byte_masks unat_push_or unat_low_bits)
qed

lemma unat_or1: "unat (low_bits d 0x7f) = unat d mod 128"
  by (simp add: byte_masks unat_low_bits)


fun utf8_pattern :: "nat \<Rightarrow> nat \<Rightarrow> byte_string" where
  "utf8_pattern k n =
    (if k = 1 then [byte_of n]
     else if k = 2 then [byte_of (0xC0 + n div 64), byte_of (0x80 + n mod 64)]
     else if k = 3 then
       [byte_of (0xE0 + n div 64 div 64), byte_of (0x80 + n div 64 mod 64),
        byte_of (0x80 + n mod 64)]
     else if k = 4 then
       [byte_of (0xF0 + n div 64 div 64 div 64), byte_of (0x80 + n div 64 div 64 mod 64),
        byte_of (0x80 + n div 64 mod 64), byte_of (0x80 + n mod 64)]
     else [])"

definition utf8_limit :: "nat \<Rightarrow> nat" where
  "utf8_limit k = (if k = 1 then 0x80 else if k = 2 then 0x800 else if k = 3 then 0x10000
     else if k = 4 then 0x200000 else 0)"

lemma cp_eq_unat: "unat c = n \<Longrightarrow> (c :: 'a::len word) = word_of_nat n" by auto

lemma mod_offset:
  "q < 8 \<Longrightarrow> (240 + q) mod 8 = (q::nat)" "q < 16 \<Longrightarrow> (224 + q) mod 16 = (q::nat)"
  "q < 32 \<Longrightarrow> (192 + q) mod 32 = (q::nat)" "q < 64 \<Longrightarrow> (128 + q) mod 64 = (q::nat)"
  using mod_mult_self2 [of q 8 30] mod_mult_self2 [of q 16 14] mod_mult_self2 [of q 32 6]
    mod_mult_self2 [of q 64 2] by (simp_all add: add.commute)


lemmas getCodepoint_arith =
  getCodepoint_def [unfolded lead4_iff lead3_iff lead2_iff lead1_iff isContinuation_iff unat_lt_word_numeral]


lemma utf8_value4:
  fixes n :: nat
  assumes "n < 0x200000"
  shows "n div 64 div 64 div 64 < 8"
    "n div 64 div 64 div 64 * 262144 + n div 64 div 64 mod 64 * 4096 + n div 64 mod 64 * 64
       + n mod 64 = n"
  using assms div_mult_mod_eq [of n 64] div_mult_mod_eq [of "n div 64" 64]
    div_mult_mod_eq [of "n div 64 div 64" 64] by linarith+

lemma utf8_value3:
  fixes n :: nat
  assumes "n < 0x10000"
  shows "n div 64 div 64 < 16" "n div 64 div 64 * 4096 + n div 64 mod 64 * 64 + n mod 64 = n"
  using assms div_mult_mod_eq [of n 64] div_mult_mod_eq [of "n div 64" 64] by linarith+

lemma getCodepoint_pattern4:
  assumes "n < 0x200000"
  shows "getCodepoint (utf8_pattern 4 n @ rest) = \<lparr>cpi_codepoint = word_of_nat n, cpi_utf8Length = 4\<rparr>"
proof -
  define q1 q2 q3 where q: "q1 = n div 64" "q2 = q1 div 64" "q3 = q2 div 64"
  have b: "q3 < 8" "q3 * 262144 + q2 mod 64 * 4096 + q1 mod 64 * 64 + n mod 64 = n"
    using utf8_value4 [OF assms] unfolding q .
  have "unat (push_bit 18 (low_bits (byte_of (240 + q3)) 7) OR
     push_bit 12 (low_bits (byte_of (128 + q2 mod 64)) 63) OR
     push_bit 6 (low_bits (byte_of (128 + q1 mod 64)) 63) OR
     low_bits (byte_of (128 + n mod 64)) 63) = n"
    using b by (simp add: unat_or4 unat_byte_of mod_offset)
  then show ?thesis
    using b(1) by (simp add: getCodepoint_arith unat_byte_of cp_eq_unat q [symmetric])
qed

lemma getCodepoint_pattern3:
  assumes "n < 0x10000"
  shows "getCodepoint (utf8_pattern 3 n @ rest) = \<lparr>cpi_codepoint = word_of_nat n, cpi_utf8Length = 3\<rparr>"
proof -
  define q1 q2 where q: "q1 = n div 64" "q2 = q1 div 64"
  have b: "q2 < 16" "q2 * 4096 + q1 mod 64 * 64 + n mod 64 = n"
    using utf8_value3 [OF assms] unfolding q .
  have "unat (push_bit 12 (low_bits (byte_of (224 + q2)) 15) OR
     push_bit 6 (low_bits (byte_of (128 + q1 mod 64)) 63) OR
     low_bits (byte_of (128 + n mod 64)) 63) = n"
    using b by (simp add: unat_or3 unat_byte_of mod_offset)
  then show ?thesis
    using b(1) by (simp add: getCodepoint_arith unat_byte_of cp_eq_unat q [symmetric])
qed

lemma getCodepoint_pattern2:
  assumes "n < 0x800"
  shows "getCodepoint (utf8_pattern 2 n @ rest) = \<lparr>cpi_codepoint = word_of_nat n, cpi_utf8Length = 2\<rparr>"
proof -
  have "n div 64 < 32" using assms by simp
  then show ?thesis
    by (simp add: getCodepoint_arith unat_byte_of cp_eq_unat unat_or2 mod_offset)
qed
lemma getCodepoint_pattern1:
  assumes "n < 0x80"
  shows "getCodepoint (utf8_pattern 1 n @ rest) = \<lparr>cpi_codepoint = word_of_nat n, cpi_utf8Length = 1\<rparr>"
  using assms by (simp add: getCodepoint_arith unat_byte_of cp_eq_unat unat_or1)

lemma getCodepoint_pattern:
  assumes "n < utf8_limit k"
  shows "getCodepoint (utf8_pattern k n @ rest) = \<lparr>cpi_codepoint = word_of_nat n, cpi_utf8Length = k\<rparr>"
proof -
  from assms have "k = 1 \<or> k = 2 \<or> k = 3 \<or> k = 4" by (auto simp: utf8_limit_def split: if_splits)
  with assms show ?thesis
    using getCodepoint_pattern1 [of n rest] getCodepoint_pattern2 [of n rest]
      getCodepoint_pattern3 [of n rest] getCodepoint_pattern4 [of n rest]
    by (auto simp: utf8_limit_def simp del: utf8_pattern.simps)
qed

lemma div_mod_64:
  fixes m a r :: nat
  assumes "m = a * 64 + r" and "r < 64"
  shows "m div 64 = a" and "m mod 64 = r"
  using assms by simp_all

lemma getCodepoint_sound4:
  assumes "getCodepoint (b0 # bs') = \<lparr>cpi_codepoint = c, cpi_utf8Length = k\<rparr>" "0 < k"
    and "unat b0 > 0xef"
  shows "unat c < utf8_limit k \<and> k \<le> length (b0 # bs') \<and> take k (b0 # bs') = utf8_pattern k (unat c)"
proof -
  define bs where bs: "bs = b0 # bs'"
  from assms have k: "k = 4" "4 \<le> length bs" "0xf0 \<le> unat b0" "unat b0 < 0xf8"
    "0x80 \<le> unat (bs ! 1)" "unat (bs ! 1) < 0xc0" "0x80 \<le> unat (bs ! 2)" "unat (bs ! 2) < 0xc0"
    "0x80 \<le> unat (bs ! 3)" "unat (bs ! 3) < 0xc0"
    and c: "c = push_bit 18 (low_bits b0 7) OR push_bit 12 (low_bits (bs ! 1) 0x3f)
       OR push_bit 6 (low_bits (bs ! 2) 0x3f) OR low_bits (bs ! 3) 0x3f"
    by (auto simp: getCodepoint_arith bs cp_invalid_def split: if_splits)
  define x0 x1 x2 x3 where x: "x0 = unat b0 - 240" "x1 = unat (bs ! 1) - 128"
    "x2 = unat (bs ! 2) - 128" "x3 = unat (bs ! 3) - 128"
  have b: "b0 = byte_of (240 + x0)" "bs ! 1 = byte_of (128 + x1)" "bs ! 2 = byte_of (128 + x2)"
    "bs ! 3 = byte_of (128 + x3)" and l: "x0 < 8" "x1 < 64" "x2 < 64" "x3 < 64"
    using k by (auto simp: x byte_eqI)
  have n: "unat c = x0 * 262144 + x1 * 4096 + x2 * 64 + x3"
    using l unfolding c unat_or4 b by (simp add: unat_byte_of mod_offset)
  have "unat c = (x0 * 4096 + x1 * 64 + x2) * 64 + x3" by (simp add: n)
  note d1 = div_mod_64 [OF this l(4)]
  have "unat c div 64 = (x0 * 64 + x1) * 64 + x2" by (simp add: d1(1))
  note d2 = div_mod_64 [OF this l(3)]
  note d3 = div_mod_64 [OF d2(1) l(2)]
  have "unat c < 0x200000" using l by (simp add: n)
  then show ?thesis
    using k b unfolding bs [symmetric]
    by (simp only: take_Cons4 utf8_limit_def utf8_pattern.simps d1(2) d2(2) d3) (simp add: bs)
qed

lemma getCodepoint_sound3:
  assumes "getCodepoint (b0 # bs') = \<lparr>cpi_codepoint = c, cpi_utf8Length = k\<rparr>" "0 < k"
    and "\<not> unat b0 > 0xef" "unat b0 > 0xdf"
  shows "unat c < utf8_limit k \<and> k \<le> length (b0 # bs') \<and> take k (b0 # bs') = utf8_pattern k (unat c)"
proof -
  define bs where bs: "bs = b0 # bs'"
  from assms have k: "k = 3" "3 \<le> length bs" "0xe0 \<le> unat b0" "unat b0 < 0xf0"
    "0x80 \<le> unat (bs ! 1)" "unat (bs ! 1) < 0xc0" "0x80 \<le> unat (bs ! 2)" "unat (bs ! 2) < 0xc0"
    and c: "c = push_bit 12 (low_bits b0 0xf)
       OR push_bit 6 (low_bits (bs ! 1) 0x3f) OR low_bits (bs ! 2) 0x3f"
    by (auto simp: getCodepoint_arith bs cp_invalid_def split: if_splits)
  define x0 x1 x2 where x: "x0 = unat b0 - 224" "x1 = unat (bs ! 1) - 128"
    "x2 = unat (bs ! 2) - 128"
  have b: "b0 = byte_of (224 + x0)" "bs ! 1 = byte_of (128 + x1)" "bs ! 2 = byte_of (128 + x2)"
    and l: "x0 < 16" "x1 < 64" "x2 < 64"
    using k by (auto simp: x byte_eqI)
  have n: "unat c = x0 * 4096 + x1 * 64 + x2"
    using l unfolding c unat_or3 b by (simp add: unat_byte_of mod_offset)
  have "unat c = (x0 * 64 + x1) * 64 + x2" by (simp add: n)
  note d1 = div_mod_64 [OF this l(3)]
  note d2 = div_mod_64 [OF d1(1) l(2)]
  have "unat c < 0x10000" using l by (simp add: n)
  then show ?thesis
    using k b unfolding bs [symmetric]
    by (simp only: take_Cons3 utf8_limit_def utf8_pattern.simps d1(2) d2) (simp add: bs)
qed

lemma getCodepoint_sound2:
  assumes "getCodepoint (b0 # bs') = \<lparr>cpi_codepoint = c, cpi_utf8Length = k\<rparr>" "0 < k"
    and "\<not> unat b0 > 0xdf" "unat b0 > 0x7f"
  shows "unat c < utf8_limit k \<and> k \<le> length (b0 # bs') \<and> take k (b0 # bs') = utf8_pattern k (unat c)"
proof -
  define bs where bs: "bs = b0 # bs'"
  from assms have k: "k = 2" "2 \<le> length bs" "0xc0 \<le> unat b0" "unat b0 < 0xe0"
    "0x80 \<le> unat (bs ! 1)" "unat (bs ! 1) < 0xc0"
    and c: "c = push_bit 6 (low_bits b0 0x1f) OR low_bits (bs ! 1) 0x3f"
    by (auto simp: getCodepoint_arith bs cp_invalid_def split: if_splits)
  define x0 x1 where x: "x0 = unat b0 - 192" "x1 = unat (bs ! 1) - 128"
  have b: "b0 = byte_of (192 + x0)" "bs ! 1 = byte_of (128 + x1)" and l: "x0 < 32" "x1 < 64"
    using k by (auto simp: x byte_eqI)
  have n: "unat c = x0 * 64 + x1"
    using l unfolding c unat_or2 b by (simp add: unat_byte_of mod_offset)
  note d1 = div_mod_64 [OF n l(2)]
  have "unat c < 0x800" using l by (simp add: n)
  then show ?thesis
    using k b unfolding bs [symmetric]
    by (simp only: take_Cons2 utf8_limit_def utf8_pattern.simps d1) (simp add: bs)
qed

lemma getCodepoint_sound:
  assumes "getCodepoint bs = \<lparr>cpi_codepoint = c, cpi_utf8Length = k\<rparr>" "0 < k"
  shows "unat c < utf8_limit k \<and> k \<le> length bs \<and> take k bs = utf8_pattern k (unat c)"
proof -
  obtain b0 bs' where bs: "bs = b0 # bs'"
    using assms by (cases bs) (auto simp: getCodepoint_def cp_invalid_def)
  consider (4) "unat b0 > 0xef" | (3) "\<not> unat b0 > 0xef" "unat b0 > 0xdf"
    | (2) "\<not> unat b0 > 0xdf" "unat b0 > 0x7f" | (1) "\<not> unat b0 > 0x7f" by linarith
  then show ?thesis
  proof cases
    case 1
    with assms have k: "k = 1" and c: "c = low_bits b0 0x7f"
      by (auto simp: getCodepoint_arith bs cp_invalid_def split: if_splits)
    have "unat c = unat b0" using 1 by (simp add: c unat_or1)
    then show ?thesis using 1 by (simp add: k utf8_limit_def bs)
  qed (use assms getCodepoint_sound2 getCodepoint_sound3 getCodepoint_sound4 bs in blast)+
qed

text \<open>C29: the UTF-8 decoder is exact. \<open>getCodepoint\<close> answers code point \<open>c\<close> with a length of
  \<open>k + 1\<close> bytes exactly when \<open>c\<close> fits the payload of a sequence of that length and the input starts
  with the \<open>k + 1\<close> byte pattern of \<open>c\<close>; overlong patterns are accepted, everything else is refused.\<close>

theorem getCodepoint_iff:
  "(getCodepoint bs = \<lparr>cpi_codepoint = c, cpi_utf8Length = Suc k\<rparr>) =
   (unat c < utf8_limit (Suc k) \<and> (\<exists>rest. bs = utf8_pattern (Suc k) (unat c) @ rest))"
proof
  assume "getCodepoint bs = \<lparr>cpi_codepoint = c, cpi_utf8Length = Suc k\<rparr>"
  from getCodepoint_sound [OF this]
  show "unat c < utf8_limit (Suc k) \<and> (\<exists>rest. bs = utf8_pattern (Suc k) (unat c) @ rest)"
    by (metis append_take_drop_id zero_less_Suc)
next
  assume "unat c < utf8_limit (Suc k) \<and> (\<exists>rest. bs = utf8_pattern (Suc k) (unat c) @ rest)"
  then show "getCodepoint bs = \<lparr>cpi_codepoint = c, cpi_utf8Length = Suc k\<rparr>"
    using getCodepoint_pattern [of "unat c" "Suc k"] by auto
qed


definition decodesTo :: "byte_string \<Rightarrow> input_codepoint \<Rightarrow> bool" where
  "decodesTo bs ic \<longleftrightarrow>
     ic_bytes ic = bs \<and> bs \<noteq> []
     \<and> getCodepoint bs = \<lparr>cpi_codepoint = ic_codepoint ic, cpi_utf8Length = length bs\<rparr>
     \<and> ic_charClass ic = getCodeType (ic_codepoint ic)"

lemma getCodepoint_invalid: "cpi_utf8Length (getCodepoint bs) = 0 \<Longrightarrow> getCodepoint bs = cp_invalid"
  by (cases bs) (simp_all only: getCodepoint_def list.case split: if_split_asm, simp_all)

lemma getCodepoint_take:
  assumes "cpi_utf8Length (getCodepoint bs) = Suc k"
  shows "getCodepoint (take (Suc k) bs) = getCodepoint bs"
proof -
  obtain c where g: "getCodepoint bs = \<lparr>cpi_codepoint = c, cpi_utf8Length = Suc k\<rparr>"
    using assms by (metis code_point_info.surjective old.unit.exhaust)
  from getCodepoint_sound [OF g] have "unat c < utf8_limit (Suc k)"
    and "take (Suc k) bs = utf8_pattern (Suc k) (unat c) @ []" by simp_all
  then show ?thesis
    using getCodepoint_pattern [of "unat c" "Suc k" "[]"] g by (simp del: utf8_pattern.simps)
qed

lemma preprocess_acc:
  "preprocessRawData itr (r @ r') = (let (s, x) = preprocessRawData itr r' in (s, r @ x))"
proof (induction itr r' arbitrary: r rule: preprocessRawData.induct)
  case (1 itr r')
  then show ?case
    by (subst (1 2) preprocessRawData.simps) (auto simp: Let_def)
qed

lemma preprocess_step:
  assumes "cpi_utf8Length (getCodepoint itr) = Suc k"
  shows "preprocessRawData itr [] =
    (let (s, x) = preprocessRawData (drop (Suc k) itr) [] in
      (s, mkInputCodepoint (take (Suc k) itr) # x))"
proof -
  have ne: "itr \<noteq> []" using assms by (auto simp: getCodepoint_def cp_invalid_def)
  have "mkInputCodepoint (take (Suc k) itr) = \<lparr>ic_codepoint = cpi_codepoint (getCodepoint itr),
      ic_charClass = getCodeType (cpi_codepoint (getCodepoint itr)), ic_bytes = take (Suc k) itr\<rparr>"
    using getCodepoint_take [OF assms] by (simp add: mkInputCodepoint_def)
  then show ?thesis
    using ne preprocess_acc [of "drop (Suc k) itr" "[mkInputCodepoint (take (Suc k) itr)]" "[]"] assms
    by (subst preprocessRawData.simps) (simp add: Let_def)
qed

lemma decodesTo_mk:
  assumes "cpi_utf8Length (getCodepoint itr) = Suc k"
  shows "decodesTo (take (Suc k) itr) (mkInputCodepoint (take (Suc k) itr))"
  using getCodepoint_take [OF assms] getCodepoint_length_le [of itr] assms
  by (auto simp: decodesTo_def mkInputCodepoint_def intro: code_point_info.equality)

lemma preprocess_result:
  "preprocessRawData bs [] = (StOk, cps) \<Longrightarrow>
     concat (map ic_bytes cps) = bs \<and> (\<forall>c\<in>set cps. decodesTo (ic_bytes c) c)"
proof (induction "length bs" arbitrary: bs cps rule: less_induct)
  case less
  show ?case
  proof (cases "bs = []")
    case True
    with less.prems show ?thesis by (simp add: preprocessRawData.simps)
  next
    case False
    with less.prems obtain k where k: "cpi_utf8Length (getCodepoint bs) = Suc k"
      by (cases "cpi_utf8Length (getCodepoint bs)") (auto simp: preprocessRawData.simps [of bs] Let_def)
    obtain cs where cs: "preprocessRawData (drop (Suc k) bs) [] = (StOk, cs)"
      and cps: "cps = mkInputCodepoint (take (Suc k) bs) # cs"
      using less.prems by (auto simp: preprocess_step [OF k] split: prod.splits)
    have "length (drop (Suc k) bs) < length bs" using False by simp
    from less.hyps [OF this cs] have IH: "concat (map ic_bytes cs) = drop (Suc k) bs"
      "\<forall>c\<in>set cs. decodesTo (ic_bytes c) c" by auto
    have "ic_bytes (mkInputCodepoint (take (Suc k) bs)) = take (Suc k) bs"
      by (simp add: mkInputCodepoint_def)
    then show ?thesis
      using IH decodesTo_mk [OF k] by (simp add: cps)
  qed
qed

text \<open>C16: when \<open>preprocessRawData\<close> succeeds, the byte ranges of the code points it delivers
  concatenate to the whole input, and every one of them is a complete UTF-8 sequence that decodes to
  its code point and carries the class of that code point.\<close>

theorem preprocess_ok:
  "preprocessRawData bs [] = (StOk, cps) \<Longrightarrow>
     concat (map ic_bytes cps) = bs \<and> (\<forall>c\<in>set cps. decodesTo (ic_bytes c) c)"
  by (rule preprocess_result)

theorem preprocess_ok_witness:
  "preprocessRawData [0xE3, 0x81, 0x82, 0x61] [] =
     (StOk, [mkInputCodepoint [0xE3, 0x81, 0x82], mkInputCodepoint [0x61]])
   \<and> decodesTo [0x61] (mkInputCodepoint [0x61])"
proof -
  have h: "preprocessRawData [0xE3, 0x81, 0x82, 0x61] [] =
     (StOk, [mkInputCodepoint [0xE3, 0x81, 0x82], mkInputCodepoint [0x61]])"
    by code_simp
  show ?thesis using h preprocess_ok [OF h] by (simp add: mkInputCodepoint_def)
qed

lemma preprocess_cases:
  obtains (empty) "bs = []" "preprocessRawData bs [] = (StOk, [])"
  | (invalid) "bs \<noteq> []" "cpi_utf8Length (getCodepoint bs) = 0"
      "preprocessRawData bs [] = (StInvalidParameter, [])"
  | (valid) k s cs where "bs \<noteq> []" "cpi_utf8Length (getCodepoint bs) = Suc k"
      "preprocessRawData (drop (Suc k) bs) [] = (s, cs)"
      "preprocessRawData bs [] = (s, mkInputCodepoint (take (Suc k) bs) # cs)"
proof (cases "bs = []")
  case True
  then show ?thesis using that(1) by (simp add: preprocessRawData.simps)
next
  case False
  show ?thesis
  proof (cases "cpi_utf8Length (getCodepoint bs)")
    case 0
    with False show ?thesis using that(2) by (simp add: preprocessRawData.simps [of bs])
  next
    case (Suc k)
    obtain s cs where "preprocessRawData (drop (Suc k) bs) [] = (s, cs)" by fastforce
    then show ?thesis using that(3) [OF False Suc] by (simp add: preprocess_step [OF Suc])
  qed
qed

lemma leadLength_valid:
  assumes "cpi_utf8Length (getCodepoint (b # bs)) = Suc k"
  shows "leadLength b = Suc k"
  using assms by (auto simp: getCodepoint_def leadLength_def cp_invalid_def split: if_splits)

lemma numCodepoints_loop_ok:
  "preprocessRawData bs [] = (StOk, cps) \<Longrightarrow> numCodepoints_loop bs n = n + word_of_nat (length cps)"
proof (induction "length bs" arbitrary: bs cps n rule: less_induct)
  case less
  show ?case
  proof (cases rule: preprocess_cases [of bs])
    case (valid k s cs)
    then obtain b bs' where b: "bs = b # bs'" by (cases bs) auto
    have l: "leadLength b = Suc k" "Suc k \<le> length bs"
      using valid(2) leadLength_valid getCodepoint_length_le [of bs] by (auto simp: b)
    have "numCodepoints_loop (drop (Suc k) bs) (n + 1) = n + 1 + word_of_nat (length cs)"
      using less.hyps [of "drop (Suc k) bs" cs "n + 1"] valid less.prems by simp
    moreover have "cps = mkInputCodepoint (take (Suc k) bs) # cs" using valid less.prems by simp
    ultimately show ?thesis
      using l by (subst numCodepoints_loop.simps) (simp add: b)
  qed (use less.prems in \<open>auto simp: numCodepoints_loop.simps\<close>)
qed

text \<open>C35: on every input of less than \<open>2^31\<close> code points that \<open>preprocessRawData\<close> accepts, the fast counter
  \<open>numCodepoints\<close>, which looks at lead bytes only, returns the number of code points that the split delivers.\<close>

theorem numCodepoints_agrees:
  assumes "preprocessRawData bs [] = (StOk, cps)" and "length cps < 2 ^ 31"
  shows "sint (numCodepoints bs) = int (length cps)"
proof -
  have "numCodepoints bs = word_of_int (int (length cps))"
    using numCodepoints_loop_ok [OF assms(1)] by (simp add: numCodepoints_def)
  moreover have "sint (word_of_int (int (length cps)) :: i32) = int (length cps)"
    unfolding sint_sbintrunc' by (rule signed_take_bit_int_eq_self) (use assms(2) in simp_all)
  ultimately show ?thesis by simp
qed

theorem numCodepoints_agrees_witness:
  "preprocessRawData [0xC3, 0xA9, 0x78] [] =
     (StOk, [mkInputCodepoint [0xC3, 0xA9], mkInputCodepoint [0x78]])
   \<and> sint (numCodepoints [0xC3, 0xA9, 0x78]) = 2"
proof -
  have h: "preprocessRawData [0xC3, 0xA9, 0x78] [] =
     (StOk, [mkInputCodepoint [0xC3, 0xA9], mkInputCodepoint [0x78]])"
    by code_simp
  show ?thesis using h numCodepoints_agrees [OF h] by simp
qed

text \<open>C33: when \<open>preprocessRawData\<close> fails, the status is InvalidParameter, the code points already
  appended cover exactly the bytes before the failure, and the bytes at the failure do not start with
  any UTF-8 sequence the decoder knows.\<close>

theorem preprocess_error:
  "preprocessRawData bs [] = (s, cps) \<Longrightarrow> s \<noteq> StOk \<Longrightarrow>
     s = StInvalidParameter
     \<and> (\<exists>rest. rest \<noteq> [] \<and> bs = concat (map ic_bytes cps) @ rest \<and> getCodepoint rest = cp_invalid)"
proof (induction "length bs" arbitrary: bs cps rule: less_induct)
  case less
  show ?case
  proof (cases rule: preprocess_cases [of bs])
    case invalid
    then have "getCodepoint bs = cp_invalid" by (intro getCodepoint_invalid)
    then show ?thesis using invalid less.prems by auto
  next
    case (valid k s' cs)
    have "s' = StInvalidParameter \<and> (\<exists>rest. rest \<noteq> []
        \<and> drop (Suc k) bs = concat (map ic_bytes cs) @ rest \<and> getCodepoint rest = cp_invalid)"
      using less.hyps [of "drop (Suc k) bs" cs] valid less.prems by simp
    then show ?thesis
      using valid less.prems
      by (auto simp: mkInputCodepoint_def) (metis append_take_drop_id)
  qed (use less.prems in auto)
qed

theorem preprocess_error_witness:
  "preprocessRawData [0x61, 0xFF] [] = (StInvalidParameter, [mkInputCodepoint [0x61]])
   \<and> (\<exists>rest. [0x61, 0xFF] = [0x61] @ rest \<and> getCodepoint rest = cp_invalid)"
proof -
  have h: "preprocessRawData [0x61, 0xFF] [] = (StInvalidParameter, [mkInputCodepoint [0x61]])"
    by code_simp
  show ?thesis using h preprocess_error [OF h] by (simp add: mkInputCodepoint_def)
qed

definition utf8_size :: "nat \<Rightarrow> nat" where
  "utf8_size n = (if n < 0x80 then 1 else if n < 0x800 then 2 else if n < 0x10000 then 3 else 4)"

definition utf8_encode :: "nat \<Rightarrow> byte_string" where
  "utf8_encode n = utf8_pattern (utf8_size n) n"

lemma utf8_pattern_length: "0 < k \<Longrightarrow> k \<le> 4 \<Longrightarrow> length (utf8_pattern k n) = k"
proof -
  assume "0 < k" "k \<le> 4"
  then have "k = 1 \<or> k = 2 \<or> k = 3 \<or> k = 4" by linarith
  then show ?thesis by auto
qed

lemma getCodepoint_encode:
  assumes "n < 0x200000"
  shows "getCodepoint (utf8_encode n @ rest)
    = \<lparr>cpi_codepoint = word_of_nat n, cpi_utf8Length = length (utf8_encode n)\<rparr>"
proof -
  have "n < utf8_limit (utf8_size n)" "0 < utf8_size n" "utf8_size n \<le> 4"
    using assms by (auto simp: utf8_limit_def utf8_size_def)
  then show ?thesis
    using getCodepoint_pattern [of n "utf8_size n" rest] utf8_pattern_length [of "utf8_size n" n]
    by (simp only: utf8_encode_def)
qed

text \<open>C34: splitting undoes UTF-8 encoding: for every list of code points below 0x200000 the
  concatenation of their encodings is accepted, and the split returns these code points, in order,
  each with its class and its own bytes.\<close>

theorem preprocess_encode:
  "(\<forall>n\<in>set ns. n < 0x200000) \<Longrightarrow>
     preprocessRawData (concat (map utf8_encode ns)) [] =
       (StOk, map (\<lambda>n. \<lparr>ic_codepoint = word_of_nat n, ic_charClass = getCodeType (word_of_nat n),
                        ic_bytes = utf8_encode n\<rparr>) ns)"
proof (induction ns)
  case Nil
  then show ?case by (simp add: preprocessRawData.simps)
next
  case (Cons n ns)
  have l: "0 < length (utf8_encode n)"
    by (auto simp: utf8_encode_def utf8_size_def)
  then obtain k where k: "length (utf8_encode n) = Suc k" by (cases "length (utf8_encode n)") auto
  have g: "getCodepoint (utf8_encode n @ rest) = \<lparr>cpi_codepoint = word_of_nat n, cpi_utf8Length = Suc k\<rparr>"
    for rest using getCodepoint_encode [of n rest] Cons.prems k by simp
  have "mkInputCodepoint (utf8_encode n) = \<lparr>ic_codepoint = word_of_nat n,
      ic_charClass = getCodeType (word_of_nat n), ic_bytes = utf8_encode n\<rparr>"
    using g [of "[]"] by (simp add: mkInputCodepoint_def)
  then show ?case
    using preprocess_step [of "utf8_encode n @ concat (map utf8_encode ns)" k] g k Cons by simp
qed

theorem preprocess_encode_witness:
  "preprocessRawData (concat (map utf8_encode [0x3042, 0x1F600])) [] =
     (StOk, map (\<lambda>n. \<lparr>ic_codepoint = word_of_nat n, ic_charClass = getCodeType (word_of_nat n),
                      ic_bytes = utf8_encode n\<rparr>) [0x3042, 0x1F600])"
  by (rule preprocess_encode) simp

text \<open>The four opening brackets \<open>[\<close>, \<open>{\<close> and their fullwidth forms are in the bracket table but
  are classified as letters, because the alphabet test, whose ranges include the characters next to
  A-Z and a-z, comes first; their closing partners are classified as brackets.\<close>

theorem opening_brackets_alph:
  "set [0x5B, 0x7B, 0xFF3B, 0xFF5B, 0x5D, 0x7D, 0xFF3D, 0xFF5D] \<subseteq> set brackets
   \<and> map getCodeType [0x5B, 0x7B, 0xFF3B, 0xFF5B] = [ALPH, ALPH, ALPH, ALPH]
   \<and> map getCodeType [0x5D, 0x7D, 0xFF3D, 0xFF5D] = [BRACKET, BRACKET, BRACKET, BRACKET]"
  by (simp add: getCodeType_def lowercase_def cc_defs brackets_def)

end
