(* ===== verification/CodedIO.thy ===== *)
theory CodedIO
  imports Memory
begin

text \<open>
  \<open>src/src/util/coded_io.h\<close> and \<open>coded_io.cc\<close>: the growing output buffer \<open>CodedBuffer\<close> with its
  variable length integers, fixed integers and length-prefixed strings, and \<open>CodedBufferParser\<close>,
  which reads them back over three decoders (a one byte fast path, an unrolled decoder on 32 bit
  pieces, and a loop near the end of the data).

  The lemmas show that every write appends exactly its encoding whatever the buffer had to do to
  make room, that the three decoders implement one decoding function, and that what was written is
  read back.
\<close>

subsection \<open>The output buffer\<close>

text \<open>
  \<open>buffer_\<close> is the vector, \<open>front_\<close> the offset of the write position in it; \<open>end_\<close> is always
  \<open>buffer_.data() + buffer_.size()\<close>.
\<close>

record coded_buffer =
  cb_buffer :: byte_string
  cb_front :: nat

definition cb_new :: coded_buffer where
  "cb_new = \<lparr>cb_buffer = [], cb_front = 0\<rparr>"

definition UInt64MaxSize :: nat where
  "UInt64MaxSize = 10"

definition cb_remaining :: "coded_buffer \<Rightarrow> nat" where
  "cb_remaining b = length (cb_buffer b) - cb_front b"

definition cb_position :: "coded_buffer \<Rightarrow> nat" where
  "cb_position b = cb_front b"

definition cb_reset :: "coded_buffer \<Rightarrow> coded_buffer" where
  "cb_reset b = b\<lparr>cb_front := 0\<rparr>"

definition cb_contents :: "coded_buffer \<Rightarrow> byte_string" where
  "cb_contents b = take (cb_front b) (cb_buffer b)"

definition cb_grow :: "nat \<Rightarrow> coded_buffer \<Rightarrow> coded_buffer" where
  "cb_grow at_least b =
     (let curSize = length (cb_buffer b);
          autosize = curSize * 3 div 2;
          newsize = curSize + max (autosize - curSize) at_least
      in b\<lparr>cb_buffer := cb_buffer b @ replicate (newsize - curSize) 0\<rparr>)"

function writeVarint64ToArray :: "u64 \<Rightarrow> byte_string" where
  "writeVarint64ToArray val =
     (if val \<ge> 0x80 then ucast (val OR 0x80) # writeVarint64ToArray (drop_bit 7 val)
      else [ucast val])"
  by pat_completeness auto
termination
proof (relation "measure unat")
  fix v :: u64
  assume "0x80 \<le> v"
  then have "0 < unat v" by (simp add: word_le_nat_alt)
  moreover have "unat (drop_bit 7 v) = unat v div 2 ^ 7"
    by (rule unat_drop_bit_div)
  ultimately show "(drop_bit 7 v, v) \<in> measure unat"
    by simp
qed simp

declare writeVarint64ToArray.simps [simp del]

text \<open>Storing bytes at \<open>front_\<close> and moving \<open>front_\<close> behind them.\<close>

definition cb_store :: "byte_string \<Rightarrow> coded_buffer \<Rightarrow> coded_buffer" where
  "cb_store bs b =
     b\<lparr>cb_buffer := take (cb_front b) (cb_buffer b) @ bs
                     @ drop (cb_front b + length bs) (cb_buffer b),
       cb_front := cb_front b + length bs\<rparr>"

definition writeVarint :: "u64 \<Rightarrow> coded_buffer \<Rightarrow> coded_buffer" where
  "writeVarint val b =
     (let b = (if cb_remaining b < UInt64MaxSize then cb_grow UInt64MaxSize b else b)
      in cb_store (writeVarint64ToArray val) b)"

definition fixed32_bytes :: "u32 \<Rightarrow> byte_string" where
  "fixed32_bytes val =
     [ucast (drop_bit 0 val AND 0xff), ucast (drop_bit 8 val AND 0xff),
      ucast (drop_bit 16 val AND 0xff), ucast (drop_bit 24 val AND 0xff)]"

definition writeFixed32 :: "u32 \<Rightarrow> coded_buffer \<Rightarrow> coded_buffer" where
  "writeFixed32 val b =
     (let b = (if cb_remaining b < 4 then cb_grow 4 b else b)
      in cb_store (fixed32_bytes val) b)"

definition writeStringDataWithoutLengthPrefix :: "byte_string \<Rightarrow> coded_buffer \<Rightarrow> coded_buffer" where
  "writeStringDataWithoutLengthPrefix val b =
     (let vsize = length val;
          b = (if cb_remaining b < vsize + UInt64MaxSize then cb_grow (vsize + UInt64MaxSize) b else b)
      in cb_store val b)"

definition writeString :: "byte_string \<Rightarrow> coded_buffer \<Rightarrow> coded_buffer" where
  "writeString val b =
     (let vsize = length val;
          maxSize = vsize + UInt64MaxSize;
          b = (if cb_remaining b < maxSize then cb_grow maxSize b else b);
          b = cb_store (writeVarint64ToArray (word_of_nat vsize)) b
      in cb_store val b)"

subsection \<open>The parser\<close>

text \<open>\<open>begin_\<close> is the start of \<open>cp_data\<close>; \<open>position_\<close> and \<open>end_\<close> are offsets from it.\<close>

record coded_parser =
  cp_data :: byte_string
  cp_position :: nat
  cp_end :: nat

definition cp_reset :: "byte_string \<Rightarrow> coded_parser" where
  "cp_reset data = \<lparr>cp_data = data, cp_position = 0, cp_end = length data\<rparr>"

definition cp_atEnd :: "coded_parser \<Rightarrow> bool" where
  "cp_atEnd p \<longleftrightarrow> cp_position p \<ge> cp_end p"

text \<open>\<open>static_cast<size_t>(end_ - position_)\<close> wraps around when \<open>position_\<close> is behind \<open>end_\<close>.\<close>

definition cp_remaining :: "coded_parser \<Rightarrow> nat" where
  "cp_remaining p = unat (word_of_nat (cp_end p) - word_of_nat (cp_position p) :: u64)"

definition cp_numReadBytes :: "coded_parser \<Rightarrow> nat" where
  "cp_numReadBytes p = cp_position p"

definition cp_byte :: "coded_parser \<Rightarrow> nat \<Rightarrow> u8" where
  "cp_byte p i = cp_data p ! (cp_position p + i)"

definition cp_advance :: "nat \<Rightarrow> coded_parser \<Rightarrow> coded_parser" where
  "cp_advance n p = p\<lparr>cp_position := cp_position p + n\<rparr>"

definition cp_limit :: "nat \<Rightarrow> coded_parser \<Rightarrow> nat \<times> coded_parser" where
  "cp_limit cnt p = (cp_remaining p, p\<lparr>cp_end := min (cp_end p) (cp_position p + cnt)\<rparr>)"

definition cp_alignPointer :: "u64 \<Rightarrow> coded_parser \<Rightarrow> coded_parser" where
  "cp_alignPointer al p = p\<lparr>cp_position := unat (Align (word_of_nat (cp_position p)) al)\<rparr>"

text \<open>
  The unrolled decoder. \<open>buf i\<close> is the byte \<open>i\<close> places behind the read position; the answer is the
  value and the number of bytes read, or \<open>None\<close> when ten bytes did not end the integer.
\<close>

definition varint_done :: "u32 \<Rightarrow> u32 \<Rightarrow> u32 \<Rightarrow> nat \<Rightarrow> (u64 \<times> nat) option" where
  "varint_done part0 part1 part2 n =
     Some (ucast part0 OR push_bit 28 (ucast part1) OR push_bit 56 (ucast part2), n)"

definition ReadVarint64FromArray :: "(nat \<Rightarrow> u8) \<Rightarrow> (u64 \<times> nat) option" where
  "ReadVarint64FromArray buf =
    (let part0 = (0 :: u32); part1 = (0 :: u32); part2 = (0 :: u32);
         b = (ucast (buf 0) :: u32);
         part0 = b in
     if b AND 0x80 = 0 then varint_done part0 part1 part2 1 else
     let part0 = part0 - 0x80;
         b = ucast (buf 1);
         part0 = part0 + push_bit 7 b in
     if b AND 0x80 = 0 then varint_done part0 part1 part2 2 else
     let part0 = part0 - push_bit 7 0x80;
         b = ucast (buf 2);
         part0 = part0 + push_bit 14 b in
     if b AND 0x80 = 0 then varint_done part0 part1 part2 3 else
     let part0 = part0 - push_bit 14 0x80;
         b = ucast (buf 3);
         part0 = part0 + push_bit 21 b in
     if b AND 0x80 = 0 then varint_done part0 part1 part2 4 else
     let part0 = part0 - push_bit 21 0x80;
         b = ucast (buf 4);
         part1 = b in
     if b AND 0x80 = 0 then varint_done part0 part1 part2 5 else
     let part1 = part1 - 0x80;
         b = ucast (buf 5);
         part1 = part1 + push_bit 7 b in
     if b AND 0x80 = 0 then varint_done part0 part1 part2 6 else
     let part1 = part1 - push_bit 7 0x80;
         b = ucast (buf 6);
         part1 = part1 + push_bit 14 b in
     if b AND 0x80 = 0 then varint_done part0 part1 part2 7 else
     let part1 = part1 - push_bit 14 0x80;
         b = ucast (buf 7);
         part1 = part1 + push_bit 21 b in
     if b AND 0x80 = 0 then varint_done part0 part1 part2 8 else
     let part1 = part1 - push_bit 21 0x80;
         b = ucast (buf 8);
         part2 = b in
     if b AND 0x80 = 0 then varint_done part0 part1 part2 9 else
     let part2 = part2 - 0x80;
         b = ucast (buf 9);
         part2 = part2 + push_bit 7 b in
     if b AND 0x80 = 0 then varint_done part0 part1 part2 10 else
     None)"

text \<open>The cycle near the end of the data. It moves the position even when it fails.\<close>

function readVarint64_loop :: "u64 \<Rightarrow> nat \<Rightarrow> coded_parser \<Rightarrow> u64 option \<times> coded_parser" where
  "readVarint64_loop result cnt p =
     (if cnt = UInt64MaxSize then (None, p)
      else if cp_position p \<ge> cp_end p then (None, p)
      else let b = ucast (cp_byte p 0) :: u32;
               result = result OR push_bit (7 * cnt) (ucast (b AND 0x7F))
           in if b AND 0x80 \<noteq> 0 then readVarint64_loop result (cnt + 1) (cp_advance 1 p)
              else (Some result, cp_advance 1 p))"
  by pat_completeness auto
termination
  by (relation "measure (\<lambda>(result, cnt, p). cp_end p - cp_position p)") (auto simp: cp_advance_def)

declare readVarint64_loop.simps [simp del]

definition readVarint64Slowpath :: "coded_parser \<Rightarrow> u64 option \<times> coded_parser" where
  "readVarint64Slowpath p =
     (if cp_atEnd p then (None, p)
      else if cp_remaining p \<ge> UInt64MaxSize then
        (case ReadVarint64FromArray (cp_byte p) of
           Some (v, n) \<Rightarrow> (Some v, cp_advance n p)
         | None \<Rightarrow> (None, p))
      else readVarint64_loop 0 0 p)"

definition readVarint64 :: "coded_parser \<Rightarrow> u64 option \<times> coded_parser" where
  "readVarint64 p =
     (if cp_position p < cp_end p \<and> cp_byte p 0 < 0x80
      then (Some (ucast (cp_byte p 0)), cp_advance 1 p)
      else readVarint64Slowpath p)"

text \<open>\<open>readInt\<close> at the types \<open>size_t\<close> and \<open>i32\<close>.\<close>

definition readInt_size :: "coded_parser \<Rightarrow> u64 option \<times> coded_parser" where
  "readInt_size p = readVarint64 p"

definition readInt_i32 :: "coded_parser \<Rightarrow> i32 option \<times> coded_parser" where
  "readInt_i32 p = (case readVarint64 p of (r, p') \<Rightarrow> (map_option ucast r, p'))"

definition readStringPiece :: "coded_parser \<Rightarrow> byte_string option \<times> coded_parser" where
  "readStringPiece p =
     (case readInt_size p of
        (None, p') \<Rightarrow> (None, p')
      | (Some len, p') \<Rightarrow>
          if unat len > cp_remaining p' then (None, p')
          else (Some (take (unat len) (drop (cp_position p') (cp_data p'))), cp_advance (unat len) p'))"

definition readFixed32 :: "coded_parser \<Rightarrow> u32 option \<times> coded_parser" where
  "readFixed32 p =
     (if cp_remaining p < 4 then (None, p)
      else (Some (push_bit 0 (ucast (cp_byte p 0)) OR push_bit 8 (ucast (cp_byte p 1))
                  OR push_bit 16 (ucast (cp_byte p 2)) OR push_bit 24 (ucast (cp_byte p 3))),
            cp_advance 4 p))"

subsection \<open>The varint format\<close>

text \<open>
  The format as a function on byte strings: at most \<open>k\<close> bytes of seven bits, the lowest first, all
  but the last with the high bit set. The answer is the value and the number of bytes.
\<close>

fun varint_dec :: "nat \<Rightarrow> byte_string \<Rightarrow> (nat \<times> nat) option" where
  "varint_dec 0 bs = None"
| "varint_dec (Suc k) [] = None"
| "varint_dec (Suc k) (b # bs) =
     (if unat b < 128 then Some (unat b, 1)
      else map_option (\<lambda>(v, n). (unat b - 128 + 128 * v, Suc n)) (varint_dec k bs))"

lemma byte_and_0x80: "((ucast (b :: u8) :: u32) AND 0x80 = 0) \<longleftrightarrow> unat b < 128"
proof -
  have *: "((ucast b :: u32) AND push_bit 7 1 = 0) \<longleftrightarrow> \<not> bit (ucast b :: u32) 7"
    by (simp only: and_exp_eq_0_iff_not_bit push_bit_of_1)
  have "bit (ucast b :: u32) 7 \<longleftrightarrow> bit (unat b) 7" by (simp add: bit_simps)
  moreover have "\<dots> \<longleftrightarrow> odd (unat b div 128)" by (simp add: bit_iff_odd)
  moreover have "odd (unat b div 128) \<longleftrightarrow> unat b div 128 \<noteq> 0"
  proof -
    have "unat b div 128 < 2" using unsigned_less [of b, where 'a=nat] by simp
    then have "unat b div 128 = 0 \<or> unat b div 128 = 1" by linarith
    then show ?thesis by (elim disjE) simp_all
  qed
  ultimately show ?thesis using * by (simp add: div_eq_0_iff)
qed

lemma ucast_byte_nat: "(ucast (b :: u8) :: u32) = of_nat (unat b)"
  by (rule bit_word_eqI) (simp add: bit_simps)

lemma ucast_u32_nat: "n < 2 ^ 32 \<Longrightarrow> (ucast (of_nat n :: u32) :: u64) = of_nat n"
  by (simp only: word_eq_iff_unsigned unsigned_ucast_eq unsigned_of_nat of_nat_id)
    (simp add: take_bit_nat_eq_self)

text \<open>Taking the high bit of a byte out of the sum it was added to.\<close>

lemma byte_clear:
  assumes "\<not> unat (b :: u8) < 128"
  shows "of_nat (unat b) - 0x80 = (of_nat (unat b - 128) :: u32)"
    and "of_nat (q + unat b * 2 ^ k) - push_bit k 0x80 = (of_nat (q + (unat b - 128) * 2 ^ k) :: u32)"
proof -
  obtain l where l: "unat b = l + 128" using assms by (metis add.commute le_add_diff_inverse not_less)
  show "of_nat (unat b) - 0x80 = (of_nat (unat b - 128) :: u32)"
   "of_nat (q + unat b * 2 ^ k) - push_bit k 0x80 = (of_nat (q + (unat b - 128) * 2 ^ k) :: u32)"
    by (simp_all only: l push_bit_eq_mult of_nat_add of_nat_mult of_nat_power of_nat_numeral
      add_diff_cancel_right' distrib_right add.assoc [symmetric])
qed

lemma varint_join:
  assumes "n0 < 2 ^ 28" "n1 < 2 ^ 28" "n2 < 2 ^ 32" "v = n0 + 2 ^ 28 * n1 + 2 ^ 56 * n2" "k = k'"
  shows "varint_done (of_nat n0) (of_nat n1) (of_nat n2) k = Some (of_nat v, k')"
proof -
  have n: "n0 < 2 ^ 32" "n1 < 2 ^ 32" using assms by simp_all
  have u: "unat (of_nat m :: u64) = m" if "m < 2 ^ 56" for m
    using that by (simp add: unsigned_of_nat take_bit_nat_eq_self)
  have 1: "(of_nat n0 :: u64) OR push_bit 28 (of_nat n1) = of_nat (n0 + 2 ^ 28 * n1)"
    using assms(1) by (subst or_push_bit_add) (simp_all add: u push_bit_eq_mult)
  have 2: "(of_nat (n0 + 2 ^ 28 * n1) :: u64) OR push_bit 56 (of_nat n2) = of_nat v"
  proof -
    have "n0 + 2 ^ 28 * n1 < 2 ^ 56" using assms(1,2) by simp
    then have "unat (of_nat (n0 + 2 ^ 28 * n1) :: u64) < 2 ^ 56" by (simp only: u)
    then show ?thesis
      by (subst or_push_bit_add) (simp_all add: push_bit_eq_mult assms(4))
  qed
  show ?thesis
    using n assms(3,5) by (simp only: varint_done_def ucast_u32_nat or.assoc [symmetric] 1 2)
qed

lemmas varint_joins = varint_join [of _ 0 0, unfolded semiring_1_class.of_nat_0]
  varint_join [of _ _ 0, unfolded semiring_1_class.of_nat_0] varint_join

lemma if_branch_cong:
  "(c \<Longrightarrow> a = a') \<Longrightarrow> (\<not> c \<Longrightarrow> b = b') \<Longrightarrow> (if c then a else b) = (if c then a' else b')"
  by simp

lemma unrolled_dec:
  "ReadVarint64FromArray buf = map_option (\<lambda>(v, n). (of_nat v, n)) (varint_dec 10 (map buf [0..<10]))"
proof -
  have up: "map buf [0..<10] =
      [buf 0, buf 1, buf 2, buf 3, buf 4, buf 5, buf 6, buf 7, buf 8, buf 9]"
  proof -
    have "[0..<10] = [0, 1, 2, 3, 4, 5, 6, 7, 8, 9 :: nat]" by code_simp
    then show ?thesis by (simp only: list.map)
  qed
  have ten: "10 = Suc (Suc (Suc (Suc (Suc (Suc (Suc (Suc (Suc (Suc 0)))))))))" by simp
  define l where "l i = unat (buf i) - 128" for i
  have l: "l i < 128" for i using unsigned_less [of "buf i", where 'a=nat] by (simp add: l_def)
  show ?thesis
    unfolding ReadVarint64FromArray_def Let_def byte_and_0x80 up
    unfolding ten varint_dec.simps if_distrib [of "map_option _"] option.map prod.case l_def [symmetric]
    using l [of 0] l [of 1] l [of 2] l [of 3] l [of 4] l [of 5] l [of 6] l [of 7] l [of 8]
    by - ((rule if_branch_cong,
      simp only: push_bit_of_nat_word ucast_byte_nat byte_clear add_0_left of_nat_add [symmetric] not_False_eq_True
        l_def [symmetric],
      rule varint_joins, (simp; fail), (simp; fail), (simp; fail), (simp; fail), (simp; fail))+, rule refl)
qed

subsection \<open>The cycle\<close>

text \<open>What is left to read.\<close>

definition cp_rest :: "coded_parser \<Rightarrow> byte_string" where
  "cp_rest p = take (cp_end p - cp_position p) (drop (cp_position p) (cp_data p))"

definition cp_wf :: "coded_parser \<Rightarrow> bool" where
  "cp_wf p \<longleftrightarrow> cp_position p \<le> cp_end p \<and> cp_end p \<le> length (cp_data p)
     \<and> length (cp_data p) < 2 ^ 64"

lemma ucast_byte_low: "(ucast ((ucast (b :: u8) :: u32) AND 0x7F) :: u64) = of_nat (unat b mod 128)"
proof -
  have "(0x7F :: u32) = mask 7" by (simp add: mask_eq_exp_minus_1)
  then have "(ucast b :: u32) AND 0x7F = take_bit 7 (ucast b)" by (simp add: take_bit_eq_mask)
  also have "\<dots> = of_nat (unat b mod 128)"
    by (rule unat_eqI)
      (simp only: unat_take_bit unat_ucast_byte, subst unat_of_nat_small, simp_all add: less_le_trans)
  finally show ?thesis by (simp only:) (rule ucast_u32_nat, simp add: less_le_trans)
qed

lemma loop_dec:
  assumes "unat result < 2 ^ (7 * cnt)" and "cnt \<le> 10" and "cp_end p \<le> length (cp_data p)"
  shows "readVarint64_loop result cnt p =
     (case varint_dec (10 - cnt) (cp_rest p) of
        Some (v, n) \<Rightarrow> (Some (result + push_bit (7 * cnt) (of_nat v)), cp_advance n p)
      | None \<Rightarrow> (None, cp_advance (min (10 - cnt) (length (cp_rest p))) p))"
  using assms
proof (induction result cnt p rule: readVarint64_loop.induct)
  case (1 result cnt p)
  consider "cnt = 10" | "cnt < 10" "cp_end p \<le> cp_position p" 
    | "cnt < 10" "cp_position p < cp_end p" using "1.prems"(2) by linarith
  then show ?case
  proof cases
    case 1
    then show ?thesis
      by (simp add: readVarint64_loop.simps [of _ 10] UInt64MaxSize_def cp_advance_def)
  next
    case 2
    then obtain m where m: "10 - cnt = Suc m" by (metis Suc_diff_Suc)
    show ?thesis using 2
      by (subst readVarint64_loop.simps) (simp add: UInt64MaxSize_def cp_rest_def m cp_advance_def)
  next
    case 3
    then obtain m where m: "10 - cnt = Suc m" by (metis Suc_diff_Suc)
    have m': "9 - cnt = m" using m by simp
    have hd: "cp_rest p = cp_byte p 0 # cp_rest (cp_advance 1 p)"
      using 3 "1.prems"(3) unfolding cp_rest_def cp_byte_def cp_advance_def
      by (simp add: Cons_nth_drop_Suc [symmetric] take_Cons' )
    define r' where "r' = result OR push_bit (7 * cnt) (ucast ((ucast (cp_byte p 0) :: u32) AND 0x7F))"
    have r': "r' = result + push_bit (7 * cnt) (of_nat (unat (cp_byte p 0) mod 128))"
      unfolding r'_def ucast_byte_low by (rule or_push_bit_add [OF "1.prems"(1)])
    let ?b = "unat (cp_byte p 0)"
    have b: "?b < 256" using unsigned_less [of "cp_byte p 0", where 'a=nat] by simp
    have room: "unat r' < 2 ^ (7 * (cnt + 1))"
    proof (cases "cnt = 9")
      case True
      have "unat r' < 2 ^ 64" using unsigned_less [of r', where 'a=nat] by simp
      then show ?thesis by (rule less_le_trans) (simp add: True)
    next
      case False
      have "unat (push_bit (7 * cnt) (of_nat (?b mod 128)) :: u64) \<le> 2 ^ (7 * cnt) * (?b mod 128)"
        by (simp only: push_bit_of_nat_word mult.commute [of _ "2 ^ (7 * cnt)"] unat_of_nat_le)
      moreover have "unat r' \<le> unat result + unat (push_bit (7 * cnt) (of_nat (?b mod 128)) :: u64)"
        unfolding r' by (rule unat_plus_le)
      moreover have "2 ^ (7 * cnt) * (?b mod 128) \<le> 2 ^ (7 * cnt) * (127 :: nat)" by simp
      ultimately have "unat r' < 2 ^ (7 * cnt) + 2 ^ (7 * cnt) * 127"
        using "1.prems"(1) by linarith
      then show ?thesis by (simp add: power_add)
    qed
    have step: "readVarint64_loop result cnt p =
      (if \<not> ?b < 128 then readVarint64_loop r' (cnt + 1) (cp_advance 1 p) else (Some r', cp_advance 1 p))"
      using 3 by (subst readVarint64_loop.simps) (simp add: UInt64MaxSize_def Let_def byte_and_0x80 r'_def)
    show ?thesis
    proof (cases "?b < 128")
      case True
      then show ?thesis by (simp add: step hd m r')
    next
      case False
      have IH: "readVarint64_loop r' (cnt + 1) (cp_advance 1 p) =
        (case varint_dec m (cp_rest (cp_advance 1 p)) of
          Some (v, n) \<Rightarrow> (Some (r' + push_bit (7 * (cnt + 1)) (of_nat v)), cp_advance n (cp_advance 1 p))
        | None \<Rightarrow> (None, cp_advance (min m (length (cp_rest (cp_advance 1 p)))) (cp_advance 1 p)))"
        using "1.IH" [OF _ _ refl r'_def] room 3 "1.prems"(3) False m'
        by (simp add: UInt64MaxSize_def byte_and_0x80 cp_advance_def m' split: option.splits)
      have low: "?b mod 128 = ?b - 128" using b False by (simp add: mod_if)
      have add: "cp_advance n (cp_advance 1 p) = cp_advance (Suc n) p" for n
        by (simp add: cp_advance_def)
      have join: "r' + push_bit (7 * (cnt + 1)) (of_nat v)
          = result + push_bit (7 * cnt) (of_nat (?b - 128 + 128 * v))" for v
      proof -
        have "l * 2 ^ (7 * cnt) + v * 2 ^ (7 * (cnt + 1)) = (l + 128 * v) * 2 ^ (7 * cnt)" for l :: nat
          by (simp add: distrib_right power_add)
        then show ?thesis
          by (simp only: r' low push_bit_of_nat_word add.assoc of_nat_add [symmetric])
      qed
      show ?thesis
        unfolding step IH hd m varint_dec.simps join
        using False by (cases "varint_dec m (cp_rest (cp_advance 1 p))") (auto simp: cp_advance_def)
    qed
  qed
qed


subsection \<open>Reading\<close>

lemma cp_wf_remaining: "cp_wf p \<Longrightarrow> cp_remaining p = length (cp_rest p)"
proof -
  assume wf: "cp_wf p"
  then have "(word_of_nat (cp_end p) - word_of_nat (cp_position p) :: u64)
      = word_of_nat (cp_end p - cp_position p)"
    by (simp add: cp_wf_def of_nat_diff)
  then show ?thesis using wf
    by (simp only: cp_remaining_def) (subst unat_of_nat_small, auto simp: cp_wf_def cp_rest_def)
qed

lemma varint_dec_take: "varint_dec k (take k bs) = varint_dec k bs"
  by (induction k bs rule: varint_dec.induct) auto

lemma varint_dec_length: "varint_dec k bs = Some (v, n) \<Longrightarrow> n \<le> length bs \<and> n \<le> k"
  by (induction k bs arbitrary: v n rule: varint_dec.induct) (auto split: if_splits)

lemma varint_dec_append: "varint_dec k bs = Some r \<Longrightarrow> varint_dec k (bs @ cs) = Some r"
  by (induction k bs arbitrary: r rule: varint_dec.induct) (auto split: if_splits)

lemma cp_rest_nth: "cp_wf p \<Longrightarrow> i < length (cp_rest p) \<Longrightarrow> cp_rest p ! i = cp_byte p i"
  by (simp add: cp_rest_def cp_byte_def cp_wf_def)

lemma cp_rest_map: "cp_wf p \<Longrightarrow> n \<le> length (cp_rest p) \<Longrightarrow> map (cp_byte p) [0..<n] = take n (cp_rest p)"
  by (rule nth_equalityI) (simp_all add: cp_rest_nth)

definition varint_failed :: "coded_parser \<Rightarrow> coded_parser" where
  "varint_failed p = (if length (cp_rest p) < 10 then cp_advance (length (cp_rest p)) p else p)"

lemma slowpath_dec:
  assumes "cp_wf p"
  shows "readVarint64Slowpath p =
     (case varint_dec 10 (cp_rest p) of
        Some (v, n) \<Rightarrow> (Some (of_nat v), cp_advance n p)
      | None \<Rightarrow> (None, varint_failed p))"
proof -
  consider "cp_atEnd p" | "\<not> cp_atEnd p" "10 \<le> length (cp_rest p)"
    | "\<not> cp_atEnd p" "length (cp_rest p) < 10" by linarith
  then show ?thesis
  proof cases
    case 1
    then have "cp_rest p = []" by (simp add: cp_atEnd_def cp_rest_def)
    moreover have "varint_dec 10 [] = None" by (simp add: numeral_eq_Suc)
    ultimately show ?thesis using 1
      by (simp add: readVarint64Slowpath_def varint_failed_def cp_advance_def)
  next
    case 2
    then have "ReadVarint64FromArray (cp_byte p)
        = map_option (\<lambda>(v, n). (of_nat v, n)) (varint_dec 10 (cp_rest p))"
      by (simp only: unrolled_dec cp_rest_map [OF assms] varint_dec_take)
    with 2 assms show ?thesis
      by (auto simp: readVarint64Slowpath_def UInt64MaxSize_def cp_wf_remaining varint_failed_def
          split: option.splits)
  next
    case 3
    then show ?thesis
      using loop_dec [of 0 0 p] assms
      by (auto simp: readVarint64Slowpath_def UInt64MaxSize_def cp_wf_remaining varint_failed_def cp_wf_def
          split: option.splits)
  qed
qed

lemma readVarint64_dec:
  assumes "cp_wf p"
  shows "readVarint64 p =
     (case varint_dec 10 (cp_rest p) of
        Some (v, n) \<Rightarrow> (Some (of_nat v), cp_advance n p)
      | None \<Rightarrow> (None, varint_failed p))"
proof (cases "cp_position p < cp_end p \<and> cp_byte p 0 < 0x80")
  case True
  then have ne: "cp_rest p \<noteq> []" using assms by (auto simp: cp_rest_def cp_wf_def)
  then obtain bs where "cp_rest p = cp_byte p 0 # bs"
    by (metis assms cp_rest_nth length_greater_0_conv list.exhaust nth_Cons_0)
  moreover have "unat (cp_byte p 0) < 128" using True by (simp add: word_less_nat_alt)
  ultimately show ?thesis using True varint_dec.simps(3) [of 9] by (simp add: readVarint64_def)
next
  case False
  then show ?thesis using slowpath_dec [OF assms] by (auto simp: readVarint64_def)
qed

subsection \<open>Writing\<close>

lemma unat_enc_byte: "unat (ucast ((v :: u64) OR 0x80) :: u8) = unat v mod 128 + 128"
proof -
  have low: "unat (take_bit 7 v) = unat v mod 2 ^ 7" by (rule unat_take_bit)
  have "(ucast (v OR 0x80) :: u8) = ucast (take_bit 7 v) OR push_bit 7 1"
  proof (rule bit_word_eqI)
    fix n assume "n < LENGTH(8)"
    have b: "bit (128 :: int) n \<longleftrightarrow> n = 7"
      using bit_push_bit_iff [of 7 "1 :: int" n] by (auto simp: bit_1_iff)
    show "bit (ucast (v OR 0x80) :: u8) n = bit (ucast (take_bit 7 v) OR push_bit 7 1 :: u8) n"
      using \<open>n < LENGTH(8)\<close> by (auto simp: bit_simps b)
  qed
  also have "\<dots> = of_nat (unat v mod 128 + 1 * 2 ^ 7)"
  proof -
    have u: "(ucast (take_bit 7 v) :: u8) = of_nat (unat v mod 128)"
    proof (rule unat_eqI)
      have "unat (ucast (take_bit 7 v) :: u8) = unat (take_bit 7 v) mod 2 ^ 8"
        by (simp only: unsigned_ucast_eq take_bit_eq_mod len_num1 len_bit0) simp
      also have "\<dots> = unat v mod 128" by (simp add: low) 
      finally show "unat (ucast (take_bit 7 v) :: u8) = unat (of_nat (unat v mod 128) :: u8)"
        by (subst unat_of_nat_small) (simp_all add: less_le_trans)
    qed
    have "(push_bit 7 1 :: u8) = of_nat (1 * 2 ^ 7)" by simp
    moreover have "unat (of_nat (unat v mod 128) :: u8) < 2 ^ 7"
      by (subst unat_of_nat_small) (simp_all add: less_le_trans)
    ultimately show ?thesis
      unfolding u using or_push_bit_add [of "of_nat (unat v mod 128) :: u8" 7 1]
      by (simp only: of_nat_add)
  qed
  finally show ?thesis
    by (simp only:) (subst unat_of_nat_small, simp_all add: less_le_trans)
qed

lemma unat_ucast_small_u8: "unat (v :: u64) < 256 \<Longrightarrow> unat (ucast v :: u8) = unat v"
  by (simp add: unsigned_ucast_eq take_bit_nat_eq_self)

text \<open>Decoding undoes encoding, in front of any other data.\<close>

lemma varint_roundtrip:
  "unat v < 128 ^ Suc k \<Longrightarrow>
   varint_dec (Suc k) (writeVarint64ToArray v @ r) = Some (unat v, length (writeVarint64ToArray v))
   \<and> length (writeVarint64ToArray v) \<le> Suc k"
proof (induction v arbitrary: k rule: writeVarint64ToArray.induct)
  case (1 v)
  show ?case
  proof (cases "0x80 \<le> v")
    case True
    then obtain k' where k: "k = Suc k'" using "1.prems" by (cases k) (auto simp: word_le_nat_alt)
    have sh: "unat (drop_bit 7 v) = unat v div 128" using unat_drop_bit_div [of 7 v] by simp
    then have "unat (drop_bit 7 v) < 128 ^ Suc k'" using "1.prems" by (simp add: k less_mult_imp_div_less mult.commute)
    note IH = "1.IH" [OF True this]
    have enc: "writeVarint64ToArray v = ucast (v OR 0x80) # writeVarint64ToArray (drop_bit 7 v)"
      using True by (subst writeVarint64ToArray.simps) simp
    show ?thesis using IH by (simp add: enc unat_enc_byte k sh del: unsigned_ucast_eq)
  next
    case False
    then have "unat v < 128" by (simp add: word_le_nat_alt)
    then show ?thesis using False
      by (subst (1 2 3) writeVarint64ToArray.simps) (simp add: unat_ucast_small_u8)
  qed
qed

lemma varint_roundtrip_10:
  "varint_dec 10 (writeVarint64ToArray v @ r) = Some (unat v, length (writeVarint64ToArray v))"
  "length (writeVarint64ToArray v) \<le> 10"
proof -
  have "unat v < 2 ^ 64" using unsigned_less [of v, where 'a=nat] by simp
  then have "unat v < 128 ^ Suc 9" by simp
  from varint_roundtrip [OF this]
  show "varint_dec 10 (writeVarint64ToArray v @ r) = Some (unat v, length (writeVarint64ToArray v))"
    "length (writeVarint64ToArray v) \<le> 10" by simp_all
qed


text \<open>
  The buffer's invariant, and the writes: all of them first make sure that there is room, so that storing
  the bytes leaves the length of the vector as it is.
\<close>

definition cb_wf :: "coded_buffer \<Rightarrow> bool" where
  "cb_wf b \<longleftrightarrow> cb_front b \<le> length (cb_buffer b)"

definition cb_reserve :: "nat \<Rightarrow> coded_buffer \<Rightarrow> coded_buffer" where
  "cb_reserve n b = (if cb_remaining b < n then cb_grow n b else b)"

lemma cb_new_wf [simp]: "cb_wf cb_new" "cb_contents cb_new = []"
  by (simp_all add: cb_new_def cb_wf_def cb_contents_def)

lemma cb_reserve:
  assumes "cb_wf b"
  shows "cb_wf (cb_reserve n b)" "n \<le> cb_remaining (cb_reserve n b)"
    "cb_contents (cb_reserve n b) = cb_contents b" "cb_front (cb_reserve n b) = cb_front b"
  using assms
  by (auto simp: cb_reserve_def cb_wf_def cb_grow_def cb_remaining_def cb_contents_def Let_def)

lemma cb_store:
  assumes "cb_wf b" and "length bs \<le> cb_remaining b"
  shows "cb_wf (cb_store bs b)" "cb_contents (cb_store bs b) = cb_contents b @ bs"
    "length (cb_buffer (cb_store bs b)) = length (cb_buffer b)"
    "cb_remaining (cb_store bs b) = cb_remaining b - length bs"
  using assms by (auto simp: cb_store_def cb_wf_def cb_contents_def cb_remaining_def)

lemma fixed32_length [simp]: "length (fixed32_bytes v) = 4"
  by (simp add: fixed32_bytes_def)

definition string_bytes :: "byte_string \<Rightarrow> byte_string" where
  "string_bytes v = writeVarint64ToArray (word_of_nat (length v)) @ v"

lemma writeVarint_store: "writeVarint v b = cb_store (writeVarint64ToArray v) (cb_reserve 10 b)"
  by (simp add: writeVarint_def cb_reserve_def UInt64MaxSize_def Let_def)

lemma writeFixed32_store: "writeFixed32 v b = cb_store (fixed32_bytes v) (cb_reserve 4 b)"
  by (simp add: writeFixed32_def cb_reserve_def Let_def)

lemma writeStringData_store:
  "writeStringDataWithoutLengthPrefix v b = cb_store v (cb_reserve (length v + 10) b)"
  by (simp add: writeStringDataWithoutLengthPrefix_def cb_reserve_def UInt64MaxSize_def Let_def)

lemma cb_store_append: "cb_wf b \<Longrightarrow> length (xs @ ys) \<le> cb_remaining b \<Longrightarrow>
  cb_store ys (cb_store xs b) = cb_store (xs @ ys) b"
  by (simp add: cb_store_def cb_wf_def cb_remaining_def ac_simps)

lemma writeString_store:
  assumes "cb_wf b"
  shows "writeString v b = cb_store (string_bytes v) (cb_reserve (length v + 10) b)"
    and "length (string_bytes v) \<le> cb_remaining (cb_reserve (length v + 10) b)"
proof -
  show room: "length (string_bytes v) \<le> cb_remaining (cb_reserve (length v + 10) b)"
    using cb_reserve(2) [OF assms, of "length v + 10"] varint_roundtrip_10(2) [of "word_of_nat (length v)"]
    by (simp add: string_bytes_def)
  show "writeString v b = cb_store (string_bytes v) (cb_reserve (length v + 10) b)"
    using cb_store_append [OF cb_reserve(1) [OF assms], of "writeVarint64ToArray (word_of_nat (length v))" v
        "length v + 10"] room
    by (simp add: writeString_def cb_reserve_def UInt64MaxSize_def Let_def string_bytes_def)
qed

text \<open>
  The contract of an append-only sink: writing keeps its invariant and appends one encoding. A codec
  adds a reader that gives back what was written in front of any other data.
\<close>

locale byte_sink =
  fixes inv :: "'s \<Rightarrow> bool"
    and contents :: "'s \<Rightarrow> byte_string"
    and put :: "'a \<Rightarrow> 's \<Rightarrow> 's"
    and enc :: "'a \<Rightarrow> byte_string"
  assumes put_inv: "inv s \<Longrightarrow> inv (put x s)"
    and put_contents: "inv s \<Longrightarrow> contents (put x s) = contents s @ enc x"
begin

lemma put_all:
  "inv s \<Longrightarrow> inv (fold put xs s) \<and> contents (fold put xs s) = contents s @ concat (map enc xs)"
  by (induction xs arbitrary: s) (simp_all add: put_inv put_contents)

end

fun read_n :: "(coded_parser \<Rightarrow> 'a option \<times> coded_parser) \<Rightarrow> nat \<Rightarrow> coded_parser
    \<Rightarrow> 'a list option \<times> coded_parser" where
  "read_n rd 0 p = (Some [], p)"
| "read_n rd (Suc n) p =
     (case rd p of
        (None, p') \<Rightarrow> (None, p')
      | (Some x, p') \<Rightarrow> (case read_n rd n p' of (r, p'') \<Rightarrow> (map_option ((#) x) r, p'')))"

lemma cp_reset_wf: "length data < 2 ^ 64 \<Longrightarrow> cp_wf (cp_reset data)" "cp_rest (cp_reset data) = data"
  by (simp_all add: cp_wf_def cp_reset_def cp_rest_def)

lemma cp_advance_wf:
  assumes "cp_wf p" and "cp_rest p = xs @ r"
  shows "cp_wf (cp_advance (length xs) p)" "cp_rest (cp_advance (length xs) p) = r"
proof -
  have len: "length (cp_rest p) = cp_end p - cp_position p"
    using assms(1) by (simp add: cp_rest_def cp_wf_def min_absorb2 diff_le_mono)
  with assms show "cp_wf (cp_advance (length xs) p)"
    by (auto simp: cp_wf_def cp_advance_def)
  have "cp_rest (cp_advance (length xs) p) = drop (length xs) (cp_rest p)"
    by (simp add: cp_rest_def cp_advance_def drop_take add.commute diff_diff_add)
  then show "cp_rest (cp_advance (length xs) p) = r" by (simp add: assms(2))
qed

locale byte_codec = byte_sink inv contents put enc
  for inv :: "'s \<Rightarrow> bool"
    and contents :: "'s \<Rightarrow> byte_string"
    and put :: "'a \<Rightarrow> 's \<Rightarrow> 's"
    and enc :: "'a \<Rightarrow> byte_string" +
  fixes rd :: "coded_parser \<Rightarrow> 'a option \<times> coded_parser"
  assumes rd_enc: "cp_wf p \<Longrightarrow> cp_rest p = enc x @ r \<Longrightarrow> rd p = (Some x, cp_advance (length (enc x)) p)"
begin

lemma read_all:
  "cp_wf p \<Longrightarrow> cp_rest p = concat (map enc xs) @ r \<Longrightarrow>
   \<exists>p'. read_n rd (length xs) p = (Some xs, p') \<and> cp_wf p' \<and> cp_rest p' = r"
proof (induction xs arbitrary: p)
  case (Cons x xs)
  then have rest: "cp_rest p = enc x @ (concat (map enc xs) @ r)" by simp
  note adv = cp_advance_wf [OF Cons.prems(1) rest]
  from Cons.IH [OF adv] rd_enc [OF Cons.prems(1) rest] show ?case by auto
qed simp

lemma put_read:
  assumes "inv s" and "contents s = []" and "length (concat (map enc xs)) < 2 ^ 64"
  shows "\<exists>p. read_n rd (length xs) (cp_reset (contents (fold put xs s))) = (Some xs, p) \<and> cp_rest p = []"
  using read_all [of "cp_reset (contents (fold put xs s))" xs "[]"] put_all [OF assms(1), of xs] assms(2,3)
  by (auto simp: cp_reset_wf)

end


lemma cp_rest_length: "cp_wf p \<Longrightarrow> length (cp_rest p) < 2 ^ 64"
  by (auto simp: cp_rest_def cp_wf_def)

lemma read_varint_enc:
  "cp_wf p \<Longrightarrow> cp_rest p = writeVarint64ToArray v @ r \<Longrightarrow>
   readVarint64 p = (Some v, cp_advance (length (writeVarint64ToArray v)) p)"
  by (simp add: readVarint64_dec varint_roundtrip_10)

interpretation varint: byte_codec cb_wf cb_contents writeVarint writeVarint64ToArray readVarint64
proof
  fix v b assume b: "cb_wf b"
  show "cb_wf (writeVarint v b)" "cb_contents (writeVarint v b) = cb_contents b @ writeVarint64ToArray v"
    unfolding writeVarint_store
    using cb_store [OF cb_reserve(1) [OF b]] cb_reserve(2,3) [OF b] varint_roundtrip_10(2)
    by (metis le_trans)+
qed (rule read_varint_enc)

lemma fixed32_join:
  "push_bit 0 (ucast (ucast (drop_bit 0 v AND 0xff) :: u8)) OR push_bit 8 (ucast (ucast (drop_bit 8 v AND 0xff) :: u8))
     OR push_bit 16 (ucast (ucast (drop_bit 16 v AND 0xff) :: u8))
     OR push_bit 24 (ucast (ucast (drop_bit 24 v AND 0xff) :: u8)) = (v :: u32)"
proof -
  have m: "(0xff :: u32) = mask 8" by (simp add: mask_eq_exp_minus_1)
  show ?thesis
    unfolding m
  proof (rule bit_word_eqI)
    fix n assume "n < LENGTH(32)"
    then have "n < 8 \<or> (\<exists>m < 8. n = 8 + m) \<or> (\<exists>m < 8. n = 16 + m) \<or> (\<exists>m < 8. n = 24 + m)"
      by (simp; presburger)
    then consider "n < 8" | m where "n = 8 + m" "m < 8" | m where "n = 16 + m" "m < 8"
      | m where "n = 24 + m" "m < 8" by blast
    then show "bit (push_bit 0 (ucast (ucast (drop_bit 0 v AND mask 8) :: u8) :: u32)
        OR push_bit 8 (ucast (ucast (drop_bit 8 v AND mask 8) :: u8))
        OR push_bit 16 (ucast (ucast (drop_bit 16 v AND mask 8) :: u8))
        OR push_bit 24 (ucast (ucast (drop_bit 24 v AND mask 8) :: u8))) n = bit v n"
      by cases (auto simp: bit_simps)
  qed
qed

lemma read_fixed32_enc:
  assumes "cp_wf p" and "cp_rest p = fixed32_bytes v @ r"
  shows "readFixed32 p = (Some v, cp_advance (length (fixed32_bytes v)) p)"
proof -
  have "cp_byte p i = fixed32_bytes v ! i" if "i < 4" for i
    using cp_rest_nth [OF assms(1), of i] that by (simp add: assms(2) nth_append)
  then have b: "cp_byte p 0 = ucast (drop_bit 0 v AND 0xff)" "cp_byte p 1 = ucast (drop_bit 8 v AND 0xff)"
    "cp_byte p 2 = ucast (drop_bit 16 v AND 0xff)" "cp_byte p 3 = ucast (drop_bit 24 v AND 0xff)"
    by (simp_all add: fixed32_bytes_def)
  have "\<not> cp_remaining p < 4" using assms by (simp add: cp_wf_remaining)
  then show ?thesis by (simp only: readFixed32_def b fixed32_join fixed32_length if_False)
qed

interpretation fixed32: byte_codec cb_wf cb_contents writeFixed32 fixed32_bytes readFixed32
proof
  fix v b assume b: "cb_wf b"
  show "cb_wf (writeFixed32 v b)" "cb_contents (writeFixed32 v b) = cb_contents b @ fixed32_bytes v"
    unfolding writeFixed32_store
    using cb_store [OF cb_reserve(1) [OF b]] cb_reserve(2,3) [OF b] by (simp_all)
qed (rule read_fixed32_enc)

lemma cp_rest_take: "k \<le> length (cp_rest p) \<Longrightarrow> take k (drop (cp_position p) (cp_data p)) = take k (cp_rest p)"
  by (simp add: cp_rest_def min_absorb1)

lemma read_string_enc:
  assumes "cp_wf p" and "cp_rest p = string_bytes v @ r"
  shows "readStringPiece p = (Some v, cp_advance (length (string_bytes v)) p)"
proof -
  let ?n = "writeVarint64ToArray (word_of_nat (length v))"
  have len: "unat (word_of_nat (length v) :: u64) = length v"
    using cp_rest_length [OF assms(1)] by (intro unat_of_nat_small) (simp add: assms(2) string_bytes_def)
  have rest: "cp_rest p = ?n @ (v @ r)" using assms(2) by (simp add: string_bytes_def)
  note adv = cp_advance_wf [OF assms(1) rest]
  have "take (length v) (drop (cp_position (cp_advance (length ?n) p)) (cp_data (cp_advance (length ?n) p)))
      = take (length v) (cp_rest (cp_advance (length ?n) p))"
    by (rule cp_rest_take) (simp add: adv)
  also have "\<dots> = v" by (simp add: adv)
  finally have str: "take (length v) (drop (cp_position (cp_advance (length ?n) p))
      (cp_data (cp_advance (length ?n) p))) = v" .
  have "cp_remaining (cp_advance (length ?n) p) = length (v @ r)"
    by (simp only: cp_wf_remaining [OF adv(1)] adv(2))
  moreover have "cp_advance (length v) (cp_advance (length ?n) p) = cp_advance (length (string_bytes v)) p"
    by (simp add: cp_advance_def string_bytes_def)
  ultimately show ?thesis
    using read_varint_enc [OF assms(1) rest] str
    by (simp add: readStringPiece_def readInt_size_def len)
qed

interpretation coded_string: byte_codec cb_wf cb_contents writeString string_bytes readStringPiece
proof
  fix v b assume b: "cb_wf b"
  show "cb_wf (writeString v b)" "cb_contents (writeString v b) = cb_contents b @ string_bytes v"
    using cb_store [OF cb_reserve(1) [OF b] writeString_store(2) [OF b]] cb_reserve(3) [OF b]
    by (simp_all add: writeString_store(1) [OF b])
qed (rule read_string_enc)


subsection \<open>Properties\<close>

text \<open>C14: On every parser that points into its data, \<open>readVarint64\<close> with its one byte path, its unrolled
  decoder and its cycle computes the base-128 decoding of what is left to read, modulo \<open>2^64\<close>, and
  moves behind it; it fails exactly when ten bytes, or the end of the data, do not end the integer.
\<close>

theorem readVarint64_decodes:
  assumes "cp_wf p"
  shows "readVarint64 p =
     (case varint_dec 10 (cp_rest p) of
        Some (v, n) \<Rightarrow> (Some (of_nat v), cp_advance n p)
      | None \<Rightarrow> (None, varint_failed p))"
  by (rule readVarint64_dec [OF assms])

theorem readVarint64_decodes_witness:
  "cp_wf \<lparr>cp_data = [0x85, 0x01, 0x07], cp_position = 0, cp_end = 3\<rparr>
   \<and> readVarint64 \<lparr>cp_data = [0x85, 0x01, 0x07], cp_position = 0, cp_end = 3\<rparr>
     = (Some 133, \<lparr>cp_data = [0x85, 0x01, 0x07], cp_position = 2, cp_end = 3\<rparr>)"
proof
  show wf: "cp_wf \<lparr>cp_data = [0x85, 0x01, 0x07], cp_position = 0, cp_end = 3\<rparr>"
    by (simp add: cp_wf_def)
  show "readVarint64 \<lparr>cp_data = [0x85, 0x01, 0x07], cp_position = 0, cp_end = 3\<rparr>
     = (Some 133, \<lparr>cp_data = [0x85, 0x01, 0x07], cp_position = 2, cp_end = 3\<rparr>)"
    using readVarint64_decodes [OF wf] varint_dec.simps(3) [of 9] varint_dec.simps(3) [of 8]
    by (simp add: cp_rest_def cp_advance_def)
qed

text \<open>C17: A buffer that has been filled with strings by \<open>writeString\<close> is read back by as many calls of
  \<open>readStringPiece\<close>, to the last byte.
\<close>

theorem coded_strings_roundtrip:
  assumes "length (concat (map string_bytes xs)) < 2 ^ 64"
  shows "\<exists>p. read_n readStringPiece (length xs) (cp_reset (cb_contents (fold writeString xs cb_new)))
       = (Some xs, p) \<and> cp_rest p = []"
  by (rule coded_string.put_read [OF _ _ assms]) simp_all

theorem coded_strings_roundtrip_witness:
  "\<exists>p. read_n readStringPiece (length [[1, 2, 3], [], [255 :: u8]])
         (cp_reset (cb_contents (fold writeString [[1, 2, 3], [], [255]] cb_new)))
       = (Some [[1, 2, 3], [], [255]], p) \<and> cp_rest p = []"
  by (rule coded_strings_roundtrip) (simp add: string_bytes_def writeVarint64ToArray.simps)

text \<open>C27: No write of the buffer leaves its vector: each of the four grows the vector first when there is no room, stores its bytes
  inside of it (the vector is as long after the bytes are stored as it was before) and appends exactly its encoding to the contents.
\<close>

theorem coded_writes_in_bounds:
  assumes "cb_wf b"
  shows "cb_contents (writeVarint v b) = cb_contents b @ writeVarint64ToArray v
    \<and> length (cb_buffer (writeVarint v b)) = length (cb_buffer (cb_reserve 10 b))
    \<and> cb_contents (writeFixed32 w b) = cb_contents b @ fixed32_bytes w
    \<and> length (cb_buffer (writeFixed32 w b)) = length (cb_buffer (cb_reserve 4 b))
    \<and> cb_contents (writeStringDataWithoutLengthPrefix s b) = cb_contents b @ s
    \<and> length (cb_buffer (writeStringDataWithoutLengthPrefix s b)) = length (cb_buffer (cb_reserve (length s + 10) b))
    \<and> cb_contents (writeString s b) = cb_contents b @ string_bytes s
    \<and> length (cb_buffer (writeString s b)) = length (cb_buffer (cb_reserve (length s + 10) b))"
proof -
  have v: "length (writeVarint64ToArray v) \<le> cb_remaining (cb_reserve 10 b)"
    using cb_reserve(2) [OF assms, of 10] varint_roundtrip_10(2) [of v] by linarith
  have f: "length (fixed32_bytes w) \<le> cb_remaining (cb_reserve 4 b)"
    using cb_reserve(2) [OF assms, of 4] by simp
  have d: "length s \<le> cb_remaining (cb_reserve (length s + 10) b)"
    using cb_reserve(2) [OF assms, of "length s + 10"] by linarith
  note st = cb_store [OF cb_reserve(1) [OF assms]]
  show ?thesis
    using st(2,3) [OF v] st(2,3) [OF f] st(2,3) [OF d] st(2,3) [OF writeString_store(2) [OF assms]]
    by (simp add: writeStringData_store writeVarint_store writeFixed32_store writeString_store(1) [OF assms] cb_reserve(3) [OF assms])
qed

theorem coded_writes_in_bounds_witness:
  "cb_contents (writeVarint 300 cb_new) = cb_contents cb_new @ writeVarint64ToArray 300
    \<and> length (cb_buffer (writeVarint 300 cb_new)) = length (cb_buffer (cb_reserve 10 cb_new))
    \<and> cb_contents (writeFixed32 7 cb_new) = cb_contents cb_new @ fixed32_bytes 7
    \<and> length (cb_buffer (writeFixed32 7 cb_new)) = length (cb_buffer (cb_reserve 4 cb_new))
    \<and> cb_contents (writeStringDataWithoutLengthPrefix [1, 2] cb_new) = cb_contents cb_new @ [1, 2]
    \<and> length (cb_buffer (writeStringDataWithoutLengthPrefix [1, 2] cb_new)) = length (cb_buffer (cb_reserve (length [1, 2 :: u8] + 10) cb_new))
    \<and> cb_contents (writeString [1, 2] cb_new) = cb_contents cb_new @ string_bytes [1, 2]
    \<and> length (cb_buffer (writeString [1, 2] cb_new)) = length (cb_buffer (cb_reserve (length [1, 2 :: u8] + 10) cb_new))"
  by (rule coded_writes_in_bounds) simp

end
