(* ===== verification/StringPieces.thy ===== *)
theory StringPieces
  imports Prelude
begin

text \<open>
  \<open>src/src/util/string_piece.h\<close>, \<open>string_piece.cc\<close> and \<open>parse_utils.cc\<close>: slices and comparison of
  string pieces, and the parser of decimal numbers. A piece is its bytes.
\<close>

text \<open>Slices are clamped to the end of the piece.\<close>

definition sp_slice :: "byte_string \<Rightarrow> nat \<Rightarrow> nat \<Rightarrow> byte_string" where
  "sp_slice sp f t =
     (let begin_new = min f (length sp); end_new = min t (length sp)
      in take (end_new - begin_new) (drop begin_new sp))"

definition sp_from :: "byte_string \<Rightarrow> nat \<Rightarrow> byte_string" where
  "sp_from sp f = drop (min f (length sp)) sp"

definition sp_take :: "byte_string \<Rightarrow> nat \<Rightarrow> byte_string" where
  "sp_take sp num = take (min num (length sp)) sp"

text \<open>
  \<open>strncmp\<close> of the C library: the sign of the first difference among the first \<open>n\<close> characters, where a
  NUL in both ends the comparison.
\<close>

fun strncmp :: "nat \<Rightarrow> byte_string \<Rightarrow> byte_string \<Rightarrow> int" where
  "strncmp 0 l r = 0"
| "strncmp (Suc n) (a # l) (b # r) =
     (if a \<noteq> b then (if a < b then -1 else 1) else if a = 0 then 0 else strncmp n l r)"
| "strncmp (Suc n) _ _ = 0"

definition sp_eq :: "byte_string \<Rightarrow> byte_string \<Rightarrow> bool" where
  "sp_eq l r \<longleftrightarrow> (if length l \<noteq> length r then False else strncmp (length l) l r = 0)"

definition sp_less :: "byte_string \<Rightarrow> byte_string \<Rightarrow> bool" where
  "sp_less l r \<longleftrightarrow>
     (let min_size = min (length l) (length r); res = strncmp min_size l r
      in if res = 0 then length l < length r else res < 0)"

text \<open>
  \<open>parseU64\<close>: \<open>x - '0'\<close> is an \<open>int\<close> between 0 and 9; the value wraps around at \<open>2^64\<close>. \<open>char\<close> is signed,
  so a byte above 0x7f is below \<open>'0'\<close>.
\<close>

fun parseU64_loop :: "u64 \<Rightarrow> byte_string \<Rightarrow> u64 option" where
  "parseU64_loop val [] = Some val"
| "parseU64_loop val (x # c) =
     (if 0x30 \<le> x \<and> x \<le> 0x39 then parseU64_loop (val * 10 + ucast (x - 0x30)) c else None)"

definition parseU64 :: "byte_string \<Rightarrow> u64 option" where
  "parseU64 sp = (if sp = [] then None else parseU64_loop 0 sp)"

subsection \<open>Comparison\<close>

lemma strncmp_eq_iff:
  "length l = length r \<Longrightarrow> 0 \<notin> set l \<Longrightarrow> strncmp (length l) l r = 0 \<longleftrightarrow> l = r"
  by (induction l r rule: list_induct2) auto

lemma sp_eq_iff: "0 \<notin> set l \<Longrightarrow> sp_eq l r \<longleftrightarrow> l = r"
  by (metis sp_eq_def strncmp_eq_iff)

lemma sp_eq_refl [simp]: "sp_eq l l"
proof -
  have "strncmp (length l) l l = 0" by (induction l) auto
  then show ?thesis by (simp add: sp_eq_def)
qed

lemma sp_less_lexord:
  "0 \<notin> set l \<Longrightarrow> 0 \<notin> set r \<Longrightarrow> sp_less l r \<longleftrightarrow> (l, r) \<in> lexord {(a, b). a < b}"
proof (induction l arbitrary: r)
  case Nil
  then show ?case by (cases r) (auto simp: sp_less_def)
next
  case (Cons a l)
  show ?case
  proof (cases r)
    case Nil
    then show ?thesis by (simp add: sp_less_def)
  next
    case (Cons b r')
    have "sp_less (a # l) (b # r') \<longleftrightarrow> (if a \<noteq> b then a < b else sp_less l r')"
      using Cons.prems by (auto simp: sp_less_def Let_def)
    then show ?thesis using Cons.IH [of r'] Cons.prems Cons by auto
  qed
qed

subsection \<open>Numbers\<close>

text \<open>The value of a string of digits.\<close>

definition digits_value :: "nat \<Rightarrow> byte_string \<Rightarrow> nat" where
  "digits_value = foldl (\<lambda>v x. v * 10 + (unat x - 0x30))"

definition is_digit :: "u8 \<Rightarrow> bool" where
  "is_digit x \<longleftrightarrow> 0x30 \<le> x \<and> x \<le> 0x39"

lemma parseU64_loop_value:
  "parseU64_loop (of_nat n) sp = (if list_all is_digit sp then Some (of_nat (digits_value n sp)) else None)"
proof (induction sp arbitrary: n)
  case (Cons x sp)
  have x: "(ucast (x - 0x30) :: u64) = of_nat (unat x - 0x30)" if "is_digit x"
  proof -
    have le: "0x30 \<le> x" using that by (simp add: is_digit_def)
    then have "unat (x - 0x30) = unat x - unat (0x30 :: u8)" by (rule unat_sub)
    then have "unat (x - 0x30) = unat x - 0x30" by simp
    moreover have "(ucast (x - 0x30) :: u64) = of_nat (unat (x - 0x30))"
      by (rule bit_word_eqI) (simp add: bit_simps)
    ultimately show ?thesis by simp
  qed
  show ?case
  proof (cases "is_digit x")
    case True
    have "(of_nat n * 10 + ucast (x - 0x30) :: u64) = of_nat (n * 10 + (unat x - 0x30))"
      unfolding x [OF True] by (simp only: of_nat_add of_nat_mult of_nat_numeral)
    then show ?thesis using Cons.IH [of "n * 10 + (unat x - 0x30)"] True
      by (simp add: is_digit_def digits_value_def)
  qed (auto simp add: is_digit_def)
qed (simp add: digits_value_def)

text \<open>\<open>parseU64\<close> accepts exactly the nonempty strings of ASCII digits, and gives their decimal value
  modulo \<open>2^64\<close>: an overflow is not an error.
\<close>

theorem parseU64_value:
  "parseU64 sp = (if sp \<noteq> [] \<and> list_all is_digit sp then Some (of_nat (digits_value 0 sp)) else None)"
  using parseU64_loop_value [of 0 sp] by (simp add: parseU64_def)

end
