(* ===== verification/CsvReader.thy ===== *)
theory CsvReader
  imports Prelude
begin

text \<open>
  \<open>src/src/util/char_buffer.h\<close> and \<open>src/src/util/csv_reader.h\<close>, \<open>csv_reader.cc\<close>: the page buffer
  that keeps interned strings, and the reader that splits a file in memory into lines of fields.

  Pointers into the file are offsets; a field is kept as its bytes. \<open>char\<close> is a byte.
\<close>

subsection \<open>The character buffer\<close>

text \<open>
  \<open>storage_\<close> holds the bytes of the pages, \<open>npage\<close> the index of the current one (-1 before the
  first), so \<open>current_\<close> is \<open>storage_[npage]\<close>. \<open>ps\<close> is the template argument \<open>PageSize\<close>. A slice that is handed
  out is a page, an offset and a length.
\<close>

record char_buffer =
  chb_storage :: "byte_string list"
  chb_position :: nat
  chb_npage :: int

type_synonym char_slice = "int \<times> nat \<times> nat"

definition chb_new :: "nat \<Rightarrow> char_buffer" where
  "chb_new ps = \<lparr>chb_storage = [], chb_position = ps, chb_npage = -1\<rparr>"

definition ensure_size :: "nat \<Rightarrow> nat \<Rightarrow> char_buffer \<Rightarrow> bool \<times> char_buffer" where
  "ensure_size ps sz b =
     (if sz > ps then (False, b)
      else if ps - chb_position b < sz then
        let b = b\<lparr>chb_npage := chb_npage b + 1\<rparr>;
            b = (if chb_npage b < int (length (chb_storage b)) then b
                 else b\<lparr>chb_storage := chb_storage b @ [replicate ps 0]\<rparr>)
        in (True, b\<lparr>chb_position := 0\<rparr>)
      else (True, b))"

definition prepareMemory :: "nat \<Rightarrow> nat \<Rightarrow> char_buffer \<Rightarrow> char_slice option \<times> char_buffer" where
  "prepareMemory ps psize b =
     (case ensure_size ps psize b of
        (False, b) \<Rightarrow> (None, b)
      | (True, b) \<Rightarrow> (Some (chb_npage b, chb_position b, psize),
                      b\<lparr>chb_position := chb_position b + psize\<rparr>))"

definition chb_write :: "char_slice \<Rightarrow> byte_string \<Rightarrow> char_buffer \<Rightarrow> char_buffer" where
  "chb_write s bs b =
     (case s of (page, off, n) \<Rightarrow>
        if page < 0 then b
        else b\<lparr>chb_storage := (chb_storage b)[nat page :=
               take off (chb_storage b ! nat page) @ bs @ drop (off + length bs) (chb_storage b ! nat page)]\<rparr>)"

definition chb_read :: "char_slice \<Rightarrow> char_buffer \<Rightarrow> byte_string" where
  "chb_read s b =
     (case s of (page, off, n) \<Rightarrow>
        if n = 0 then [] else take n (drop off (chb_storage b ! nat page)))"

definition chb_import :: "nat \<Rightarrow> byte_string \<Rightarrow> char_buffer \<Rightarrow> char_slice option \<times> char_buffer" where
  "chb_import ps sp b =
     (case prepareMemory ps (length sp) b of
        (None, b) \<Rightarrow> (None, b)
      | (Some s, b) \<Rightarrow> (Some s, chb_write s sp b))"

definition chb_reset :: "nat \<Rightarrow> char_buffer \<Rightarrow> char_buffer" where
  "chb_reset ps b = b\<lparr>chb_npage := -1, chb_position := ps\<rparr>"

definition chb_empty :: "char_buffer \<Rightarrow> bool" where
  "chb_empty b \<longleftrightarrow> chb_npage b = -1"

subsection \<open>The reader\<close>

record csv_reader =
  csv_data :: byte_string
  csv_fields :: "byte_string list"
  csv_temp :: char_buffer
  csv_separator :: u8
  csv_quote :: u8
  csv_lineStart :: nat
  csv_position :: nat
  csv_line_number :: int

definition csv_temp_page :: nat where
  "csv_temp_page = 16 * 1024"

definition csv_new :: "u8 \<Rightarrow> u8 \<Rightarrow> csv_reader" where
  "csv_new sep quot =
     \<lparr>csv_data = [], csv_fields = [], csv_temp = chb_new csv_temp_page, csv_separator = sep, csv_quote = quot,
      csv_lineStart = 0, csv_position = 0, csv_line_number = 0\<rparr>"

definition csv_initFromMemory :: "byte_string \<Rightarrow> csv_reader \<Rightarrow> csv_reader" where
  "csv_initFromMemory data r =
     r\<lparr>csv_data := data, csv_lineStart := 0, csv_position := 0, csv_line_number := 0\<rparr>"

definition csv_numFields :: "csv_reader \<Rightarrow> nat" where
  "csv_numFields r = length (csv_fields r)"

definition csv_field :: "csv_reader \<Rightarrow> nat \<Rightarrow> byte_string" where
  "csv_field r idx = csv_fields r ! idx"

definition csv_rowHadQuoted :: "csv_reader \<Rightarrow> bool" where
  "csv_rowHadQuoted r \<longleftrightarrow> \<not> chb_empty (csv_temp r)"

definition csv_line :: "csv_reader \<Rightarrow> byte_string" where
  "csv_line r = take (csv_position r - csv_lineStart r) (drop (csv_lineStart r) (csv_data r))"

definition slice_of :: "byte_string \<Rightarrow> nat \<Rightarrow> nat \<Rightarrow> byte_string" where
  "slice_of data start till = take (till - start) (drop start data)"

text \<open>
  \<open>handleQuote\<close>: from the first byte behind an opening quote to the closing one. The answer is
  whether there were escaped quotes and the offset of the closing quote, \<open>None\<close> when there is none.
\<close>

function handleQuote :: "byte_string \<Rightarrow> u8 \<Rightarrow> bool \<Rightarrow> nat \<Rightarrow> bool \<times> nat option" where
  "handleQuote data quot wasQuoted position =
     (if position < length data then
        if data ! position = quot then
          if position + 1 = length data then (wasQuoted, Some position)
          else if data ! (position + 1) = quot then handleQuote data quot True (position + 2)
          else (wasQuoted, Some position)
        else handleQuote data quot wasQuoted (position + 1)
      else (False, None))"
  by pat_completeness auto
termination
  by (relation "measure (\<lambda>(data, quot, w, position). length data - position)") auto

declare handleQuote.simps [simp del]

text \<open>The main cycle of \<open>unescapeString\<close>: copies, while skipping the first quote of each pair.\<close>

fun unescape_loop :: "u8 \<Rightarrow> byte_string \<Rightarrow> byte_string option" where
  "unescape_loop quot [] = Some []"
| "unescape_loop quot (c # source) =
     (if c = quot then
        (case source of
           [] \<Rightarrow> None
         | c' # source' \<Rightarrow>
             if c' \<noteq> quot then None else map_option ((#) c') (unescape_loop quot source'))
      else map_option ((#) c) (unescape_loop quot source))"

definition unescapeString :: "u8 \<Rightarrow> byte_string \<Rightarrow> char_buffer \<Rightarrow> byte_string option \<times> char_buffer" where
  "unescapeString quot sp temp =
     (let source = length (takeWhile (\<lambda>c. c \<noteq> quot) sp)
      in if source + 1 = length sp then (None, temp)
         else if source + 2 = length sp then (Some (take (source + 1) sp), temp)
         else case prepareMemory csv_temp_page (length sp) temp of
           (None, temp) \<Rightarrow> (None, temp)
         | (Some data, temp) \<Rightarrow>
             (case unescape_loop quot (drop (source + 2) sp) of
                None \<Rightarrow> (None, temp)
              | Some rest \<Rightarrow> (Some (take (source + 1) sp @ rest),
                              chb_write data (take (source + 1) sp @ rest) temp)))"

text \<open>
  The cycle of \<open>nextLine\<close>. The answer is \<open>False\<close> where the code returns \<open>false\<close> in the middle, which
  leaves \<open>position_\<close> alone; otherwise the cycle was left by \<open>break\<close>.
\<close>

definition csv_emit :: "bool \<Rightarrow> nat \<Rightarrow> nat \<Rightarrow> csv_reader \<Rightarrow> csv_reader" where
  "csv_emit shouldEmit field_start position r =
     (if shouldEmit then r\<lparr>csv_fields := csv_fields r @ [slice_of (csv_data r) field_start position]\<rparr> else r)"

text \<open>
  A quoted field that starts at \<open>position\<close>: \<open>None\<close> where the code returns \<open>false\<close>, and otherwise the
  offset of the closing quote and the reader with the field emitted.
\<close>

definition csv_quoted :: "nat \<Rightarrow> csv_reader \<Rightarrow> nat option \<times> csv_reader" where
  "csv_quoted position r =
     (let data = csv_data r; endp = length data
      in case handleQuote data (csv_quote r) False (position + 1) of
           (_, None) \<Rightarrow> (None, r)
         | (containsEscapes, Some resEnd) \<Rightarrow>
             let nextp = resEnd + 1
             in if nextp \<noteq> endp \<and> data ! nextp \<notin> {0x0a, 0x0d, csv_separator r} then (None, r)
                else
                  let result = slice_of data (position + 1) resEnd
                  in if containsEscapes then
                       (case unescapeString (csv_quote r) result (csv_temp r) of
                          (None, temp) \<Rightarrow> (None, r\<lparr>csv_temp := temp\<rparr>)
                        | (Some unescaped, temp) \<Rightarrow>
                            (Some resEnd, r\<lparr>csv_temp := temp, csv_fields := csv_fields r @ [unescaped]\<rparr>))
                     else (Some resEnd, r\<lparr>csv_fields := csv_fields r @ [result]\<rparr>))"

lemma handleQuote_bounds:
  "handleQuote data quot w position = (w', Some e) \<Longrightarrow> position \<le> e \<and> e < length data \<and> data ! e = quot"
proof (induction data quot w position arbitrary: w' rule: handleQuote.induct)
  case (1 data quot w position)
  note p = "1.prems" [unfolded handleQuote.simps [of data quot w position]]
  from p "1.IH" show ?case by (fastforce split: if_splits)
qed

lemma csv_quoted_bounds:
  "csv_quoted position r = (Some e, r') \<Longrightarrow> position < e \<and> e < length (csv_data r) \<and> csv_data r' = csv_data r"
  by (auto simp: csv_quoted_def Let_def split: prod.splits option.splits if_splits dest!: handleQuote_bounds)

function nextLine_loop :: "nat \<Rightarrow> nat \<Rightarrow> bool \<Rightarrow> csv_reader \<Rightarrow> bool \<times> csv_reader" where
  "nextLine_loop position field_start shouldEmit r =
     (let data = csv_data r; endp = length data
      in if position \<ge> endp then
           (if field_start \<noteq> position
            then (True, (csv_emit shouldEmit field_start position r)\<lparr>csv_position := position\<rparr>)
            else (True, r))
         else let ch = data ! position
         in if ch = 0x0a then
              let nextp = position + 1;
                  nextp = (if nextp < endp \<and> data ! nextp = 0x0d then nextp + 1 else nextp)
              in (True, (csv_emit shouldEmit field_start position r)\<lparr>csv_position := nextp\<rparr>)
            else if ch = 0x0d \<and> position + 1 < endp \<and> data ! (position + 1) = 0x0a then
              (True, (csv_emit shouldEmit field_start position r)\<lparr>csv_position := position + 2\<rparr>)
            else if ch = csv_separator r then
              nextLine_loop (position + 1) (position + 1) True (csv_emit shouldEmit field_start position r)
            else if ch = csv_quote r then
              if position \<noteq> field_start then (False, r)
              else case csv_quoted position r of
                     (None, r') \<Rightarrow> (False, r')
                   | (Some resEnd, r') \<Rightarrow> nextLine_loop (resEnd + 1) field_start False r'
            else nextLine_loop (position + 1) field_start shouldEmit r)"
  by pat_completeness auto
termination
  by (relation "measure (\<lambda>(position, fs, e, r). length (csv_data r) - position)")
    (auto simp: csv_emit_def dest!: sym [of _ "csv_quoted _ _"] csv_quoted_bounds)

declare nextLine_loop.simps [simp del]

definition nextLine :: "csv_reader \<Rightarrow> bool \<times> csv_reader" where
  "nextLine r =
     (let r = r\<lparr>csv_lineStart := csv_position r\<rparr>
      in if csv_position r = length (csv_data r) then (False, r)
         else
           let r = r\<lparr>csv_temp := chb_reset csv_temp_page (csv_temp r), csv_fields := [],
                     csv_line_number := csv_line_number r + 1\<rparr>
           in case nextLine_loop (csv_position r) (csv_position r) True r of
                (False, r') \<Rightarrow> (False, r')
              | (True, r') \<Rightarrow> (csv_fields r' \<noteq> [], r'))"

subsection \<open>Interned strings stay\<close>

definition chb_wf :: "nat \<Rightarrow> char_buffer \<Rightarrow> bool" where
  "chb_wf ps b \<longleftrightarrow> -1 \<le> chb_npage b \<and> chb_npage b < int (length (chb_storage b))
     \<and> (\<forall>p \<in> set (chb_storage b). length p = ps) \<and> chb_position b \<le> ps
     \<and> (chb_npage b = -1 \<longrightarrow> chb_position b = ps)"

fun chb_used :: "char_buffer \<Rightarrow> char_slice \<Rightarrow> bool" where
  "chb_used b (page, off, n) \<longleftrightarrow> n = 0 \<or>
     (0 \<le> page \<and> (page < chb_npage b \<or> page = chb_npage b \<and> off + n \<le> chb_position b))"

lemma ensure_size_wf:
  assumes "chb_wf ps b" and "ensure_size ps sz b = (True, b')"
  shows "chb_wf ps b'" "chb_position b' + sz \<le> ps"
    "\<And>s. chb_used b s \<Longrightarrow> chb_used b' s \<and> chb_read s b' = chb_read s b"
    "0 < sz \<Longrightarrow> 0 \<le> chb_npage b'"
proof -
  consider "ps - chb_position b < sz" "sz \<le> ps" | "sz \<le> ps - chb_position b" "b' = b"
    using assms(2) by (auto simp: ensure_size_def Let_def split: if_splits)
  then have "chb_wf ps b' \<and> chb_position b' + sz \<le> ps
    \<and> (\<forall>s. chb_used b s \<longrightarrow> chb_used b' s \<and> chb_read s b' = chb_read s b) \<and> (0 < sz \<longrightarrow> 0 \<le> chb_npage b')"
  proof cases
    case 1
    have b': "b' = (if chb_npage b + 1 < int (length (chb_storage b)) then b
        else b\<lparr>chb_storage := chb_storage b @ [replicate ps 0]\<rparr>)
        \<lparr>chb_npage := chb_npage b + 1, chb_position := 0\<rparr>"
      using assms(2) 1 by (auto simp: ensure_size_def Let_def split: if_splits)
    have "chb_used b' s \<and> chb_read s b' = chb_read s b" if "chb_used b s" for s
    proof (cases s)
      case (fields page off n)
      then show ?thesis using that assms(1)
        by (auto simp: b' chb_read_def chb_wf_def nth_append nat_less_iff)
    qed
    then show ?thesis using 1 assms(1) by (auto simp: b' chb_wf_def)
  next
    case 2
    then show ?thesis using assms(1) by (auto simp: chb_wf_def)
  qed
  then show "chb_wf ps b'" "chb_position b' + sz \<le> ps"
    "\<And>s. chb_used b s \<Longrightarrow> chb_used b' s \<and> chb_read s b' = chb_read s b"
    "0 < sz \<Longrightarrow> 0 \<le> chb_npage b'" by blast+
qed

lemma chb_import_keeps:
  assumes wf: "chb_wf ps b" and imp: "chb_import ps sp b = (Some s, b')"
  shows "chb_wf ps b'" "chb_used b' s" "chb_read s b' = sp"
    "\<And>t. chb_used b t \<Longrightarrow> chb_used b' t \<and> chb_read t b' = chb_read t b"
proof -
  obtain c where e: "ensure_size ps (length sp) b = (True, c)"
    and s: "s = (chb_npage c, chb_position c, length sp)"
    and b': "b' = chb_write s sp (c\<lparr>chb_position := chb_position c + length sp\<rparr>)"
    using imp by (auto simp: chb_import_def prepareMemory_def split: prod.splits bool.splits option.splits)
  note c = ensure_size_wf [OF wf e]
  have "chb_wf ps b' \<and> chb_used b' s \<and> chb_read s b' = sp \<and>
    (\<forall>t. chb_used b t \<longrightarrow> chb_used b' t \<and> chb_read t b' = chb_read t b)"
  proof (cases "chb_npage c < 0")
    case True
    then have sp: "sp = []" using c(4) by fastforce
    have "b' = c" using True by (simp add: b' s chb_write_def sp)
    then show ?thesis using c sp by (simp add: s chb_read_def)
  next
    case False
    let ?n = "nat (chb_npage c)"
    have n: "?n < length (chb_storage c)" and len: "length (chb_storage c ! ?n) = ps"
      using c(1) False by (auto simp: chb_wf_def nat_less_iff)
    define pg where "pg = take (chb_position c) (chb_storage c ! ?n) @ sp
      @ drop (chb_position c + length sp) (chb_storage c ! ?n)"
    have st: "b' = c\<lparr>chb_storage := (chb_storage c)[?n := pg], chb_position := chb_position c + length sp\<rparr>"
      using False by (simp add: b' s chb_write_def pg_def)
    have pl: "length pg = ps" using len c(2) by (simp add: pg_def)
    have rd: "take (length sp) (drop (chb_position c) pg) = sp"
      using c(2) len by (simp add: pg_def)
    have keep: "take k (drop off pg) = take k (drop off (chb_storage c ! ?n))"
      if "off + k \<le> chb_position c" for off k
      using that c(2) len by (simp add: pg_def take_drop min_absorb1)
    have all: "\<forall>p \<in> set ((chb_storage c)[?n := pg]). length p = ps"
      using c(1) pl set_update_subset_insert [of "chb_storage c" ?n pg] unfolding chb_wf_def by blast
    have "chb_wf ps b'"
      using c(1,2) all False by (simp add: st chb_wf_def)
    moreover have "chb_used b' s"
      using False by (simp add: st s)
    moreover have "chb_read s b' = sp"
      using n rd by (simp add: st s chb_read_def)
    moreover have "chb_used b' t \<and> chb_read t b' = chb_read t b" if "chb_used b t" for t
    proof (cases t)
      case (fields page off k)
      have u: "chb_used c t" "chb_read t c = chb_read t b" using c(3) [OF that] by simp_all
      have "chb_read t b' = chb_read t c"
      proof (cases "k = 0 \<or> page \<noteq> chb_npage c")
        case True
        then show ?thesis using u(1) fields False n by (auto simp: st chb_read_def nth_list_update)
      next
        case False
        then have "off + k \<le> chb_position c" using u(1) fields by auto
        from keep [OF this] show ?thesis using False n by (simp add: chb_read_def fields st)
      qed
      then show ?thesis using u fields by (auto simp: st)
    qed
    ultimately show ?thesis by blast
  qed
  then show "chb_wf ps b'" "chb_used b' s" "chb_read s b' = sp"
    "\<And>t. chb_used b t \<Longrightarrow> chb_used b' t \<and> chb_read t b' = chb_read t b" by blast+
qed

subsection \<open>Printing a row\<close>

text \<open>
  The format of RFC 4180 that the class comment describes: a field with a separator, a quote or an end of line in it is
  put into quotes and its quotes are doubled.
\<close>

definition csv_escape :: "u8 \<Rightarrow> byte_string \<Rightarrow> byte_string" where
  "csv_escape quot s = concat (map (\<lambda>c. if c = quot then [c, c] else [c]) s)"

definition csv_plain :: "u8 \<Rightarrow> u8 \<Rightarrow> byte_string \<Rightarrow> bool" where
  "csv_plain sep quot s \<longleftrightarrow> set s \<inter> {sep, quot, 0x0a, 0x0d} = {}"

definition csv_field_text :: "u8 \<Rightarrow> u8 \<Rightarrow> byte_string \<Rightarrow> byte_string" where
  "csv_field_text sep quot s =
     (if csv_plain sep quot s then s else quot # csv_escape quot s @ [quot])"

fun csv_row_text :: "u8 \<Rightarrow> u8 \<Rightarrow> byte_string list \<Rightarrow> byte_string" where
  "csv_row_text sep quot [] = []"
| "csv_row_text sep quot [f] = csv_field_text sep quot f"
| "csv_row_text sep quot (f # g # fs) = csv_field_text sep quot f @ sep # csv_row_text sep quot (g # fs)"

definition csv_chars_ok :: "u8 \<Rightarrow> u8 \<Rightarrow> bool" where
  "csv_chars_ok sep quot \<longleftrightarrow> sep \<noteq> quot \<and> sep \<notin> {0x0a, 0x0d} \<and> quot \<notin> {0x0a, 0x0d}"

lemma csv_escape_simps [simp]:
  "csv_escape quot [] = []"
  "csv_escape quot (c # s) = (if c = quot then [c, c] else [c]) @ csv_escape quot s"
  by (simp_all add: csv_escape_def)

lemma csv_escape_id: "quot \<notin> set s \<Longrightarrow> csv_escape quot s = s"
  by (induction s) auto

lemma drop_Cons_nth: "drop p xs = y # ys \<Longrightarrow> p < length xs \<and> xs ! p = y \<and> drop (Suc p) xs = ys"
  by (metis Cons_nth_drop_Suc drop_all linorder_not_less list.discI list.inject)

lemma handleQuote_escape:
  "drop p data = csv_escape quot s @ quot # t \<Longrightarrow> (t \<noteq> [] \<longrightarrow> hd t \<noteq> quot) \<Longrightarrow>
   handleQuote data quot w p = (w \<or> quot \<in> set s, Some (p + length (csv_escape quot s)))"
proof (induction s arbitrary: p w)
  case Nil
  then have p: "p < length data" "data ! p = quot" "drop (Suc p) data = t"
    using drop_Cons_nth by force+
  show ?case
  proof (cases t)
    case Nil
    then have "p + 1 = length data" using p by simp
    then show ?thesis using p by (subst handleQuote.simps) simp
  next
    case (Cons c t')
    then have "data ! (p + 1) = c" "Suc p < length data" using drop_Cons_nth [of "Suc p" data c t'] p by auto
    then show ?thesis using p Cons Nil.prems(2) by (subst handleQuote.simps) simp
  qed
next
  case (Cons c s)
  show ?case
  proof (cases "c = quot")
    case True
    then have d: "drop p data = quot # quot # csv_escape quot s @ quot # t" using Cons.prems by simp
    then have p: "p < length data" "data ! p = quot" and d1: "drop (Suc p) data = quot # csv_escape quot s @ quot # t"
      using drop_Cons_nth by force+
    then have p1: "Suc p < length data" "data ! Suc p = quot" and "drop (p + 2) data = csv_escape quot s @ quot # t"
      using drop_Cons_nth [OF d1] by simp_all
    with Cons.IH [of "p + 2" True] Cons.prems(2) p show ?thesis
      by (subst handleQuote.simps) (simp add: True)
  next
    case False
    then have d: "drop p data = c # csv_escape quot s @ quot # t" using Cons.prems by simp
    note p = drop_Cons_nth [OF d]
    with Cons.IH [of "p + 1" w] Cons.prems(2) False show ?thesis
      by (subst handleQuote.simps) simp
  qed
qed

lemma unescape_loop_escape: "unescape_loop quot (csv_escape quot s) = Some s"
  by (induction s) auto

lemma takeWhile_escape: 
  "quot \<in> set s \<Longrightarrow> \<exists>a b. s = a @ quot # b \<and> quot \<notin> set a \<and> csv_escape quot s = a @ quot # quot # csv_escape quot b
    \<and> length (takeWhile (\<lambda>c. c \<noteq> quot) (csv_escape quot s)) = length a"
proof -
  assume "quot \<in> set s"
  then obtain a b where s: "s = a @ quot # b" "quot \<notin> set a" by (meson split_list_first)
  have "csv_escape quot s = csv_escape quot a @ quot # quot # csv_escape quot b"
    unfolding s(1) by (simp add: csv_escape_def)
  then have e: "csv_escape quot s = a @ quot # quot # csv_escape quot b"
    using csv_escape_id [OF s(2)] by simp
  moreover have "takeWhile (\<lambda>c. c \<noteq> quot) (csv_escape quot s) = a"
    unfolding e using s(2) by (subst takeWhile_append2) auto
  ultimately show ?thesis using s by auto
qed

lemma prepareMemory_ok:
  assumes "sz \<le> ps" shows "\<exists>s b'. prepareMemory ps sz b = (Some s, b')"
proof -
  have "fst (ensure_size ps sz b)" using assms by (simp add: ensure_size_def Let_def)
  then show ?thesis by (auto simp: prepareMemory_def split: prod.splits bool.splits)
qed

lemma unescapeString_escape:
  assumes "quot \<in> set s" and "length (csv_escape quot s) \<le> csv_temp_page"
  shows "fst (unescapeString quot (csv_escape quot s) temp) = Some s"
proof -
  obtain a b where s: "s = a @ quot # b" and e: "csv_escape quot s = a @ quot # quot # csv_escape quot b"
    and l: "length (takeWhile (\<lambda>c. c \<noteq> quot) (csv_escape quot s)) = length a"
    using takeWhile_escape [OF assms(1)] by auto
  obtain sl temp' where pm: "prepareMemory csv_temp_page (length (csv_escape quot s)) temp = (Some sl, temp')"
    using prepareMemory_ok [OF assms(2)] by blast
  have nb: "csv_escape quot b = [] \<longleftrightarrow> b = []" by (cases b) auto
  show ?thesis
    unfolding unescapeString_def Let_def l pm unfolding e
    by (auto simp: unescape_loop_escape nb s)
qed

subsection \<open>Reading it back\<close>

lemma loop_plain:
  assumes "csv_chars_ok sep quot" "csv_separator r = sep" "csv_quote r = quot"
  shows "csv_plain sep quot s \<Longrightarrow> drop p (csv_data r) = s @ t \<Longrightarrow>
    nextLine_loop p fs e r = nextLine_loop (p + length s) fs e r"
proof (induction s arbitrary: p)
  case (Cons c s)
  from Cons.prems(2) have d: "drop p (csv_data r) = c # (s @ t)" by simp
  note p = drop_Cons_nth [OF d]
  have c: "c \<notin> {sep, quot, 0x0a, 0x0d}" and s: "csv_plain sep quot s"
    using Cons.prems(1) by (auto simp: csv_plain_def)
  have "nextLine_loop p fs e r = nextLine_loop (Suc p) fs e r"
    using p c assms by (subst nextLine_loop.simps) (simp add: Let_def)
  with Cons.IH [OF s] p show ?case by simp
qed simp

lemma csv_quoted_eq:
  "handleQuote (csv_data r) (csv_quote r) False (p + 1) = (esc, Some e) \<Longrightarrow>
   \<not> (Suc e \<noteq> length (csv_data r) \<and> csv_data r ! Suc e \<notin> {0x0a, 0x0d, csv_separator r}) \<Longrightarrow>
   csv_quoted p r =
     (if esc then
        (case unescapeString (csv_quote r) (slice_of (csv_data r) (p + 1) e) (csv_temp r) of
           (None, temp) \<Rightarrow> (None, r\<lparr>csv_temp := temp\<rparr>)
         | (Some unescaped, temp) \<Rightarrow>
             (Some e, r\<lparr>csv_temp := temp, csv_fields := csv_fields r @ [unescaped]\<rparr>))
      else (Some e, r\<lparr>csv_fields := csv_fields r @ [slice_of (csv_data r) (p + 1) e]\<rparr>))"
  by (auto simp add: csv_quoted_def Let_def)

text \<open>After a field there is a separator or the end of the line.\<close>

lemma loop_field:
  assumes ok: "csv_chars_ok sep quot" "csv_separator r = sep" "csv_quote r = quot"
    and d: "drop p (csv_data r) = csv_field_text sep quot f @ c # t" and c: "c \<in> {sep, 0x0a, 0x0d}"
    and small: "quot \<in> set f \<Longrightarrow> length (csv_escape quot f) \<le> csv_temp_page"
  shows "\<exists>e r'. nextLine_loop p p True r = nextLine_loop (p + length (csv_field_text sep quot f)) p e r'
     \<and> csv_data r' = csv_data r \<and> csv_separator r' = sep \<and> csv_quote r' = quot
     \<and> csv_line_number r' = csv_line_number r \<and> csv_lineStart r' = csv_lineStart r \<and> csv_position r' = csv_position r
     \<and> csv_fields (csv_emit e p (p + length (csv_field_text sep quot f)) r') = csv_fields r @ [f]"
proof (cases "csv_plain sep quot f")
  case True
  then have t: "csv_field_text sep quot f = f" by (simp add: csv_field_text_def)
  have "slice_of (csv_data r) p (p + length f) = f"
    using d by (simp add: slice_of_def t)
  then show ?thesis
    using loop_plain [OF ok True d [unfolded t]] ok
    by (intro exI [of _ True] exI [of _ r]) (simp add: t csv_emit_def)
next
  case False
  then have t: "csv_field_text sep quot f = quot # csv_escape quot f @ [quot]"
    by (simp add: csv_field_text_def)
  let ?n = "length (csv_escape quot f)"
  from d have d0: "drop p (csv_data r) = quot # (csv_escape quot f @ quot # c # t)" by (simp add: t)
  note p0 = drop_Cons_nth [OF d0]
  then have d1: "drop (p + 1) (csv_data r) = csv_escape quot f @ quot # c # t" by simp
  have c': "c \<noteq> quot" using c ok(1) by (auto simp: csv_chars_ok_def)
  have hq: "handleQuote (csv_data r) quot False (p + 1) = (quot \<in> set f, Some (p + 1 + ?n))"
    using handleQuote_escape [OF d1, of False] c' by simp
  have "drop (p + 1 + ?n) (csv_data r) = drop ?n (drop (p + 1) (csv_data r))" by (simp add: add.commute)
  also have "\<dots> = quot # c # t" by (simp only: d1) simp
  finally have "drop (p + 1 + ?n) (csv_data r) = quot # c # t" .
  note d2 = drop_Cons_nth [OF this]
  note d3 = drop_Cons_nth [OF d2 [THEN conjunct2, THEN conjunct2]]
  have nx: "Suc (p + 1 + ?n) < length (csv_data r)" "csv_data r ! Suc (p + 1 + ?n) = c"
    using d3 by (simp_all only:)
  have sl: "slice_of (csv_data r) (p + 1) (p + 1 + ?n) = csv_escape quot f"
    by (simp only: slice_of_def d1) simp
  have go: "\<not> (Suc (p + 1 + ?n) \<noteq> length (csv_data r)
      \<and> csv_data r ! Suc (p + 1 + ?n) \<notin> {0x0a, 0x0d, csv_separator r})"
    using nx c ok(2) by auto
  have hq': "handleQuote (csv_data r) (csv_quote r) False (p + 1) = (quot \<in> set f, Some (p + 1 + ?n))"
    by (simp only: ok(3) hq)
  have q: "\<exists>temp. csv_quoted p r = (Some (p + 1 + ?n), r\<lparr>csv_temp := temp, csv_fields := csv_fields r @ [f]\<rparr>)"
  proof (cases "quot \<in> set f")
    case True
    obtain temp where u: "unescapeString quot (csv_escape quot f) (csv_temp r) = (Some f, temp)"
      using unescapeString_escape [OF True small [OF True], of "csv_temp r"] by (metis prod.collapse)
    then have "csv_quoted p r = (Some (p + 1 + ?n), r\<lparr>csv_temp := temp, csv_fields := csv_fields r @ [f]\<rparr>)"
      using csv_quoted_eq [OF hq' go] sl True by (simp only: ok(3) if_True prod.case option.case)
    then show ?thesis by blast
  next
    case False
    then have "csv_quoted p r = (Some (p + 1 + ?n), r\<lparr>csv_temp := csv_temp r, csv_fields := csv_fields r @ [f]\<rparr>)"
      using csv_quoted_eq [OF hq' go] sl csv_escape_id [OF False] by (simp only: if_False) simp
    then show ?thesis by blast
  qed
  then obtain temp where q: "csv_quoted p r = (Some (p + 1 + ?n), r\<lparr>csv_temp := temp, csv_fields := csv_fields r @ [f]\<rparr>)"
    by blast
  have "nextLine_loop p p True r
      = nextLine_loop (p + 1 + ?n + 1) p False (r\<lparr>csv_temp := temp, csv_fields := csv_fields r @ [f]\<rparr>)"
    using p0 ok q by (subst nextLine_loop.simps) (auto simp: Let_def csv_chars_ok_def)
  then show ?thesis using ok
    by (intro exI [of _ False] exI [of _ "r\<lparr>csv_temp := temp, csv_fields := csv_fields r @ [f]\<rparr>"])
      (simp add: t csv_emit_def)
qed


text \<open>The line ends the reader knows; it takes a \<open>0x0d\<close> behind a \<open>0x0a\<close> for a part of the line end.\<close>

definition csv_eols :: "byte_string set" where
  "csv_eols = {[0x0a], [0x0d, 0x0a], [0x0a, 0x0d]}"

definition eol_before :: "byte_string \<Rightarrow> byte_string \<Rightarrow> bool" where
  "eol_before eol rest \<longleftrightarrow> (eol = [0x0a] \<longrightarrow> rest = [] \<or> hd rest \<noteq> 0x0d)"

lemma loop_newline:
  assumes "drop p (csv_data r) = 0x0a # rest"
  shows "nextLine_loop p fs e r =
    (True, (csv_emit e fs p r)\<lparr>csv_position := p + (if rest \<noteq> [] \<and> hd rest = 0x0d then 2 else 1)\<rparr>)"
proof -
  note p = drop_Cons_nth [OF assms]
  show ?thesis
  proof (cases rest)
    case Nil
    then have "Suc p = length (csv_data r)" using p by simp
    then show ?thesis using p Nil
      by (subst nextLine_loop.simps) (simp add: Let_def)
  next
    case (Cons c rest')
    then have "Suc p < length (csv_data r)" "csv_data r ! Suc p = c"
      using drop_Cons_nth [of "Suc p" "csv_data r" c rest'] p by auto
    then show ?thesis using p Cons
      by (subst nextLine_loop.simps) (simp add: Let_def)
  qed
qed

lemma loop_return_newline:
  assumes "drop p (csv_data r) = 0x0d # 0x0a # rest"
  shows "nextLine_loop p fs e r = (True, (csv_emit e fs p r)\<lparr>csv_position := p + 2\<rparr>)"
  using drop_Cons_nth [OF assms] drop_Cons_nth [of "Suc p" "csv_data r" "0x0a" rest]
  by (subst nextLine_loop.simps) (simp add: Let_def)

lemma loop_eol:
  assumes "eol \<in> csv_eols" and "eol_before eol rest" and "drop p (csv_data r) = eol @ rest"
  shows "nextLine_loop p fs e r = (True, (csv_emit e fs p r)\<lparr>csv_position := p + length eol\<rparr>)"
proof -
  consider "eol = [0x0a]" | "eol = [0x0d, 0x0a]" | "eol = [0x0a, 0x0d]" using assms(1) by (auto simp: csv_eols_def)
  then show ?thesis
  proof cases
    case 1
    then show ?thesis using loop_newline [of p r rest] assms(2,3) by (auto simp: eol_before_def)
  next
    case 2
    then show ?thesis using loop_return_newline [of p r rest] assms(3) by simp
  next
    case 3
    then show ?thesis using loop_newline [of p r "0x0d # rest"] assms(3) by simp
  qed
qed

lemma loop_separator:
  assumes ok: "csv_chars_ok sep quot" "csv_separator r = sep" "csv_quote r = quot"
    and d: "drop p (csv_data r) = sep # t"
  shows "nextLine_loop p fs e r = nextLine_loop (p + 1) (p + 1) True (csv_emit e fs p r)"
  using drop_Cons_nth [OF d] ok by (subst nextLine_loop.simps) (auto simp: Let_def csv_chars_ok_def)

lemma csv_emit_simps [simp]:
  "csv_data (csv_emit e fs p r) = csv_data r" "csv_separator (csv_emit e fs p r) = csv_separator r"
  "csv_quote (csv_emit e fs p r) = csv_quote r" "csv_line_number (csv_emit e fs p r) = csv_line_number r"
  "csv_lineStart (csv_emit e fs p r) = csv_lineStart r" "csv_position (csv_emit e fs p r) = csv_position r"
  by (simp_all add: csv_emit_def)

lemma drop_plus_append: "drop p d = xs @ ys \<Longrightarrow> drop (p + length xs) d = ys"
  by (metis add.commute append_eq_conv_conj drop_drop)

text \<open>
  A field with a quote in it is copied to \<open>temp_\<close>, so its text between the outer quotes has to fit a page.
\<close>

definition csv_fits :: "u8 \<Rightarrow> byte_string \<Rightarrow> bool" where
  "csv_fits quot f \<longleftrightarrow> (quot \<in> set f \<longrightarrow> length (csv_escape quot f) \<le> csv_temp_page)"

text \<open>The fields of a row, up to the byte behind the last one.\<close>

lemma loop_fields:
  assumes ok: "csv_chars_ok sep quot" and c: "c \<in> {sep, 0x0a, 0x0d}"
  shows "fs \<noteq> [] \<Longrightarrow> \<forall>f \<in> set fs. csv_fits quot f \<Longrightarrow>
    csv_separator r = sep \<Longrightarrow> csv_quote r = quot \<Longrightarrow>
    drop p (csv_data r) = csv_row_text sep quot fs @ c # rest \<Longrightarrow>
    \<exists>q e r'. nextLine_loop p p True r = nextLine_loop (p + length (csv_row_text sep quot fs)) q e r'
      \<and> csv_data r' = csv_data r \<and> csv_separator r' = sep \<and> csv_quote r' = quot
      \<and> csv_line_number r' = csv_line_number r \<and> csv_lineStart r' = csv_lineStart r \<and> csv_position r' = csv_position r
      \<and> csv_fields (csv_emit e q (p + length (csv_row_text sep quot fs)) r') = csv_fields r @ fs"
proof (induction fs arbitrary: p r)
  case (Cons f fs)
  note okr = ok Cons.prems(3,4)
  have small: "quot \<in> set f \<Longrightarrow> length (csv_escape quot f) \<le> csv_temp_page"
    using Cons.prems(2) by (simp add: csv_fits_def)
  let ?n = "length (csv_field_text sep quot f)"
  show ?case
  proof (cases fs)
    case Nil
    then have d: "drop p (csv_data r) = csv_field_text sep quot f @ c # rest"
      using Cons.prems(5) by simp
    from loop_field [OF okr d c small] show ?thesis by (auto simp: Nil)
  next
    case (Cons g fs')
    then have d: "drop p (csv_data r) = csv_field_text sep quot f @ sep # csv_row_text sep quot fs @ c # rest"
      using Cons.prems(5) by simp
    obtain e r' where l: "nextLine_loop p p True r = nextLine_loop (p + ?n) p e r'"
      and r': "csv_data r' = csv_data r" "csv_separator r' = sep" "csv_quote r' = quot"
        "csv_line_number r' = csv_line_number r" "csv_lineStart r' = csv_lineStart r" "csv_position r' = csv_position r"
      and f: "csv_fields (csv_emit e p (p + ?n) r') = csv_fields r @ [f]"
      using loop_field [OF okr d _ small] by auto
    have d': "drop (p + ?n) (csv_data r') = sep # csv_row_text sep quot fs @ c # rest"
      using drop_plus_append [OF d] by (simp add: r')
    have sep: "nextLine_loop (p + ?n) p e r' = nextLine_loop (p + ?n + 1) (p + ?n + 1) True (csv_emit e p (p + ?n) r')"
      by (rule loop_separator [OF ok r'(2,3) d'])
    have d'': "drop (p + ?n + 1) (csv_data (csv_emit e p (p + ?n) r')) = csv_row_text sep quot fs @ c # rest"
      using drop_Cons_nth [OF d'] by simp
    have "csv_row_text sep quot (f # fs) = csv_field_text sep quot f @ sep # csv_row_text sep quot fs"
      by (simp add: Cons)
    then have len: "p + ?n + 1 + length (csv_row_text sep quot fs) = p + length (csv_row_text sep quot (f # fs))"
      by simp
    have IH: "\<exists>q e' r''. nextLine_loop (p + ?n + 1) (p + ?n + 1) True (csv_emit e p (p + ?n) r')
          = nextLine_loop (p + ?n + 1 + length (csv_row_text sep quot fs)) q e' r''
      \<and> csv_data r'' = csv_data r \<and> csv_separator r'' = sep \<and> csv_quote r'' = quot
      \<and> csv_line_number r'' = csv_line_number r \<and> csv_lineStart r'' = csv_lineStart r \<and> csv_position r'' = csv_position r
      \<and> csv_fields (csv_emit e' q (p + ?n + 1 + length (csv_row_text sep quot fs)) r'') = (csv_fields r @ [f]) @ fs"
      using Cons.IH [of "csv_emit e p (p + ?n) r'" "p + ?n + 1"] Cons.prems(2) d'' Cons f
      by (simp only: csv_emit_simps r') simp
    show ?thesis unfolding l sep using IH by (simp only: len append_assoc append_Cons append_Nil)
  qed
qed simp

text \<open>\<open>nextLine\<close> on a row and a line end, and on a row behind which the file ends with a separator.\<close>

lemma nextLine_row:
  assumes ok: "csv_chars_ok (csv_separator r) (csv_quote r)" and eol: "eol \<in> csv_eols" "eol_before eol rest"
    and "fs \<noteq> []" and small: "\<forall>f \<in> set fs. csv_fits (csv_quote r) f"
    and d: "drop (csv_position r) (csv_data r) = csv_row_text (csv_separator r) (csv_quote r) fs @ eol @ rest"
  shows "\<exists>r'. nextLine r = (True, r') \<and> csv_fields r' = fs
      \<and> csv_data r' = csv_data r \<and> csv_separator r' = csv_separator r \<and> csv_quote r' = csv_quote r
      \<and> csv_position r' = csv_position r + length (csv_row_text (csv_separator r) (csv_quote r) fs) + length eol"
proof -
  let ?r = "r\<lparr>csv_lineStart := csv_position r, csv_temp := chb_reset csv_temp_page (csv_temp r), csv_fields := [],
              csv_line_number := csv_line_number r + 1\<rparr>"
  let ?p = "csv_position r + length (csv_row_text (csv_separator r) (csv_quote r) fs)"
  have ne: "csv_position r \<noteq> length (csv_data r)" using d eol(1) by (auto simp: csv_eols_def)
  obtain c t where c: "eol @ rest = c # t" "c \<in> {csv_separator r, 0x0a, 0x0d}"
    using eol(1) by (auto simp: csv_eols_def)
  have d0: "drop (csv_position r) (csv_data ?r) = csv_row_text (csv_separator r) (csv_quote r) fs @ c # t"
    using d c(1) by simp
  obtain q e r' where l: "nextLine_loop (csv_position r) (csv_position r) True ?r = nextLine_loop ?p q e r'"
    and r': "csv_data r' = csv_data r" "csv_separator r' = csv_separator r" "csv_quote r' = csv_quote r"
    and f: "csv_fields (csv_emit e q ?p r') = fs"
    using loop_fields [OF ok c(2) assms(4) small _ _ d0] by auto
  have "drop ?p (csv_data r') = eol @ rest" using drop_plus_append [OF d] by (simp add: r')
  from loop_eol [OF eol this] show ?thesis
    using ne f assms(4) by (simp add: nextLine_def Let_def l r')
qed

lemma nextLine_stuck:
  assumes ok: "csv_chars_ok (csv_separator r) (csv_quote r)"
    and "fs \<noteq> []" and small: "\<forall>f \<in> set fs. csv_fits (csv_quote r) f"
    and d: "drop (csv_position r) (csv_data r) = csv_row_text (csv_separator r) (csv_quote r) fs @ [csv_separator r]"
  shows "\<exists>r'. nextLine r = (True, r') \<and> csv_fields r' = fs
      \<and> csv_data r' = csv_data r \<and> csv_separator r' = csv_separator r \<and> csv_quote r' = csv_quote r
      \<and> csv_position r' = csv_position r"
proof -
  let ?r = "r\<lparr>csv_lineStart := csv_position r, csv_temp := chb_reset csv_temp_page (csv_temp r), csv_fields := [],
              csv_line_number := csv_line_number r + 1\<rparr>"
  let ?p = "csv_position r + length (csv_row_text (csv_separator r) (csv_quote r) fs)"
  have ne: "csv_position r \<noteq> length (csv_data r)" using d by auto
  have d0: "drop (csv_position r) (csv_data ?r) = csv_row_text (csv_separator r) (csv_quote r) fs @ csv_separator r # []"
    using d by simp
  obtain q e r' where l: "nextLine_loop (csv_position r) (csv_position r) True ?r = nextLine_loop ?p q e r'"
    and r': "csv_data r' = csv_data r" "csv_separator r' = csv_separator r" "csv_quote r' = csv_quote r"
      "csv_position r' = csv_position r"
    and f: "csv_fields (csv_emit e q ?p r') = fs"
    using loop_fields [OF ok _ assms(2) small _ _ d0] by auto
  have d1: "drop ?p (csv_data r') = csv_separator r # []" using drop_plus_append [OF d] by (simp add: r')
  have "nextLine_loop ?p q e r' = nextLine_loop (?p + 1) (?p + 1) True (csv_emit e q ?p r')"
    by (rule loop_separator [OF ok r'(2,3) d1])
  also have "\<dots> = (True, csv_emit e q ?p r')"
    using drop_Cons_nth [OF d1] by (subst nextLine_loop.simps) (simp add: Let_def)
  finally show ?thesis
    using ne f assms(2) by (simp add: nextLine_def Let_def l r')
qed

text \<open>Reading all lines of a reader, with at most \<open>n\<close> calls of \<open>nextLine\<close>.\<close>

fun read_rows :: "nat \<Rightarrow> csv_reader \<Rightarrow> byte_string list list \<times> bool" where
  "read_rows 0 r = ([], True)"
| "read_rows (Suc n) r =
     (case nextLine r of
        (False, r') \<Rightarrow> ([], False)
      | (True, r') \<Rightarrow> (case read_rows n r' of (rows, left) \<Rightarrow> (csv_fields r' # rows, left)))"

definition csv_text :: "byte_string \<Rightarrow> u8 \<Rightarrow> u8 \<Rightarrow> byte_string list list \<Rightarrow> byte_string" where
  "csv_text eol sep quot rows = concat (map (\<lambda>fs. csv_row_text sep quot fs @ eol) rows)"

lemma csv_field_text_hd: "csv_chars_ok sep quot \<Longrightarrow> csv_field_text sep quot f \<noteq> [] \<Longrightarrow>
  hd (csv_field_text sep quot f) \<noteq> 0x0d"
  by (cases f) (auto simp: csv_field_text_def csv_plain_def csv_chars_ok_def)

lemma csv_row_text_hd: "csv_chars_ok sep quot \<Longrightarrow> c \<noteq> 0x0d \<Longrightarrow> hd (csv_row_text sep quot fs @ c # rest) \<noteq> 0x0d"
  using csv_field_text_hd [of sep quot]
  by (cases "(sep, quot, fs)" rule: csv_row_text.cases)
    (auto simp: hd_append csv_chars_ok_def split: if_splits)

lemma eol_before_text:
  assumes "csv_chars_ok sep quot" and "eol_before eol tail"
  shows "eol_before eol (csv_text eol sep quot rows @ tail)"
proof (cases rows)
  case (Cons fs rows')
  then show ?thesis
    using csv_row_text_hd [OF assms(1), of "0x0a" fs "csv_text [0x0a] sep quot rows' @ tail"]
    by (auto simp: eol_before_def csv_text_def)
qed (simp add: csv_text_def assms(2))

text \<open>The rows of a table, in front of anything.\<close>

lemma read_rows_text:
  assumes ok: "csv_chars_ok sep quot" and eol: "eol \<in> csv_eols" "eol_before eol tail"
  shows "\<forall>fs \<in> set rows. fs \<noteq> [] \<and> (\<forall>f \<in> set fs. csv_fits quot f) \<Longrightarrow>
    csv_separator r = sep \<Longrightarrow> csv_quote r = quot \<Longrightarrow> csv_position r \<le> length (csv_data r) \<Longrightarrow>
    drop (csv_position r) (csv_data r) = csv_text eol sep quot rows @ tail \<Longrightarrow>
    \<exists>r'. (\<forall>n. read_rows (length rows + n) r = (case read_rows n r' of (rs, left) \<Rightarrow> (rows @ rs, left)))
      \<and> csv_separator r' = sep \<and> csv_quote r' = quot \<and> csv_position r' \<le> length (csv_data r')
      \<and> drop (csv_position r') (csv_data r') = tail"
proof (induction rows arbitrary: r)
  case Nil
  then show ?case by (intro exI [of _ r]) (simp add: csv_text_def)
next
  case (Cons fs rows)
  have d: "drop (csv_position r) (csv_data r) = csv_row_text sep quot fs @ eol @ csv_text eol sep quot rows @ tail"
    using Cons.prems(5) by (simp add: csv_text_def)
  obtain r' where n: "nextLine r = (True, r')" and f: "csv_fields r' = fs" "csv_data r' = csv_data r"
    "csv_separator r' = sep" "csv_quote r' = quot"
    and p: "csv_position r' = csv_position r + length (csv_row_text sep quot fs) + length eol"
    using nextLine_row [of r eol "csv_text eol sep quot rows @ tail" fs] Cons.prems ok d eol(1)
      eol_before_text [OF ok eol(2)] by auto
  have d': "drop (csv_position r') (csv_data r') = csv_text eol sep quot rows @ tail"
    using drop_plus_append [of "csv_position r" "csv_data r" "csv_row_text sep quot fs @ eol" "csv_text eol sep quot rows @ tail"] d
    by (simp add: p f add.assoc)
  have le: "csv_position r' \<le> length (csv_data r')"
    using arg_cong [OF d, of length] Cons.prems(4) by (simp add: p f)
  have rest: "\<forall>fs \<in> set rows. fs \<noteq> [] \<and> (\<forall>f \<in> set fs. csv_fits quot f)" using Cons.prems(1) by simp
  obtain r'' where "\<forall>n. read_rows (length rows + n) r' = (case read_rows n r'' of (rs, left) \<Rightarrow> (rows @ rs, left))"
    "csv_separator r'' = sep" "csv_quote r'' = quot" "csv_position r'' \<le> length (csv_data r'')"
    "drop (csv_position r'') (csv_data r'') = tail"
    using Cons.IH [OF rest f(3,4) le d'] by blast
  then show ?case
    by (intro exI [of _ r'']) (simp add: n f(1) split: prod.splits)
qed

lemma read_rows_stuck:
  assumes ok: "csv_chars_ok sep quot" and "fs \<noteq> []" and small: "\<forall>f \<in> set fs. csv_fits quot f"
  shows "csv_separator r = sep \<Longrightarrow> csv_quote r = quot \<Longrightarrow>
    drop (csv_position r) (csv_data r) = csv_row_text sep quot fs @ [sep] \<Longrightarrow>
    read_rows n r = (replicate n fs, True)"
proof (induction n arbitrary: r)
  case (Suc n)
  obtain r' where "nextLine r = (True, r')" "csv_fields r' = fs" "csv_data r' = csv_data r"
    "csv_separator r' = sep" "csv_quote r' = quot" "csv_position r' = csv_position r"
    using nextLine_stuck [of r fs] Suc.prems ok assms(2) small by auto
  with Suc show ?case by simp
qed simp

lemma csv_fresh:
  "csv_data (csv_initFromMemory d (csv_new sep quot)) = d" "csv_position (csv_initFromMemory d (csv_new sep quot)) = 0"
  "csv_separator (csv_initFromMemory d (csv_new sep quot)) = sep" "csv_quote (csv_initFromMemory d (csv_new sep quot)) = quot"
  by (simp_all add: csv_initFromMemory_def csv_new_def)

text \<open>C18: Reading back the RFC 4180 text of a table whose rows all have fields gives the table, whichever of the
  three line ends the reader knows (newline, return and newline, newline and return) the file uses throughout:
  every call of \<open>nextLine\<close> delivers one
  row, quoted and escaped fields included, and the call behind the last row answers false. The one limit is
  the page of the buffer that escaped fields are copied to: a field with quotes in it has at most 16 KiB with its quotes doubled.
\<close>

theorem csv_roundtrip:
  assumes "sep \<noteq> quot" "sep \<notin> {0x0a, 0x0d}" "quot \<notin> {0x0a, 0x0d}"
    and "eol \<in> {[0x0a], [0x0d, 0x0a], [0x0a, 0x0d]}"
    and "\<forall>fs \<in> set rows. fs \<noteq> [] \<and> (\<forall>f \<in> set fs. quot \<in> set f \<longrightarrow> length (csv_escape quot f) \<le> csv_temp_page)"
  shows "read_rows (Suc (length rows)) (csv_initFromMemory (csv_text eol sep quot rows) (csv_new sep quot))
    = (rows, False)"
proof -
  let ?r = "csv_initFromMemory (csv_text eol sep quot rows) (csv_new sep quot)"
  have ok: "csv_chars_ok sep quot" using assms(1-3) by (simp add: csv_chars_ok_def)
  have eol: "eol \<in> csv_eols" "eol_before eol []" using assms(4) by (simp_all add: csv_eols_def eol_before_def)
  have rows: "\<forall>fs \<in> set rows. fs \<noteq> [] \<and> (\<forall>f \<in> set fs. csv_fits quot f)"
    using assms(5) by (simp add: csv_fits_def)
  have start: "csv_position ?r \<le> length (csv_data ?r)"
    "drop (csv_position ?r) (csv_data ?r) = csv_text eol sep quot rows @ []"
    by (simp_all add: csv_fresh)
  obtain r' where r: "\<forall>n. read_rows (length rows + n) ?r = (case read_rows n r' of (rs, left) \<Rightarrow> (rows @ rs, left))"
    and r': "csv_position r' \<le> length (csv_data r')" "drop (csv_position r') (csv_data r') = []"
    using read_rows_text [OF ok eol rows csv_fresh(3,4) start] by blast
  have "nextLine r' = (False, r'\<lparr>csv_lineStart := csv_position r'\<rparr>)"
    using r' by (simp add: nextLine_def Let_def)
  with spec [OF r, of 1] show ?thesis by simp
qed

theorem csv_roundtrip_witness:
  "read_rows (Suc (length [[[97, 0x22], []], [[0x2c, 10 :: u8]]]))
     (csv_initFromMemory (csv_text [13, 10] 0x2c 0x22 [[[97, 0x22], []], [[0x2c, 10]]]) (csv_new 0x2c 0x22))
   = ([[[97, 0x22], []], [[0x2c, 10]]], False)"
  by (rule csv_roundtrip) (simp_all add: csv_temp_page_def)

text \<open>C40: When a file (of rows and fields as in the round trip) ends, instead of with a line end, with a last row and a separator behind it,
  \<open>nextLine\<close> delivers the rows before it and then, in every further call, answers true with the fields of the
  last row, without moving: a caller that reads until the answer is false never ends.
\<close>

theorem csv_trailing_separator_stuck:
  assumes "sep \<noteq> quot" "sep \<notin> {0x0a, 0x0d}" "quot \<notin> {0x0a, 0x0d}"
    and "eol \<in> {[0x0a], [0x0d, 0x0a], [0x0a, 0x0d]}"
    and "\<forall>row \<in> set (rows @ [fs]). row \<noteq> [] \<and> (\<forall>f \<in> set row. quot \<in> set f \<longrightarrow> length (csv_escape quot f) \<le> csv_temp_page)"
  shows "read_rows (length rows + n)
      (csv_initFromMemory (csv_text eol sep quot rows @ csv_row_text sep quot fs @ [sep]) (csv_new sep quot))
    = (rows @ replicate n fs, True)"
proof -
  let ?tail = "csv_row_text sep quot fs @ [sep]"
  let ?r = "csv_initFromMemory (csv_text eol sep quot rows @ ?tail) (csv_new sep quot)"
  have ok: "csv_chars_ok sep quot" using assms(1-3) by (simp add: csv_chars_ok_def)
  have eol: "eol \<in> csv_eols" "eol_before eol ?tail"
    using assms(4) csv_row_text_hd [OF ok, of sep fs "[]"] assms(2) by (simp_all add: csv_eols_def eol_before_def)
  have rows: "\<forall>fs \<in> set rows. fs \<noteq> [] \<and> (\<forall>f \<in> set fs. csv_fits quot f)"
    using assms(5) by (simp add: csv_fits_def)
  have start: "csv_position ?r \<le> length (csv_data ?r)"
    "drop (csv_position ?r) (csv_data ?r) = csv_text eol sep quot rows @ ?tail"
    by (simp_all add: csv_fresh)
  obtain r' where r: "\<forall>n. read_rows (length rows + n) ?r = (case read_rows n r' of (rs, left) \<Rightarrow> (rows @ rs, left))"
    and r': "csv_separator r' = sep" "csv_quote r' = quot" "drop (csv_position r') (csv_data r') = ?tail"
    using read_rows_text [OF ok eol rows csv_fresh(3,4) start] by blast
  have "read_rows n r' = (replicate n fs, True)"
    by (rule read_rows_stuck [OF ok _ _ r']) (use assms(5) in \<open>simp_all add: csv_fits_def\<close>)
  with r show ?thesis by simp
qed

theorem csv_trailing_separator_stuck_witness:
  "read_rows (length [[[98 :: u8]]] + 3)
      (csv_initFromMemory (csv_text [10] 0x2c 0x22 [[[98]]] @ csv_row_text 0x2c 0x22 [[97]] @ [0x2c]) (csv_new 0x2c 0x22))
    = ([[[98]]] @ replicate 3 [[97]], True)"
  by (rule csv_trailing_separator_stuck) simp_all

text \<open>C31: Interning a string keeps every string that was interned before: the slice handed out reads
  back the string, and all slices handed out before it still read the same bytes.
\<close>

theorem interned_strings_stay:
  assumes "chb_wf ps b" and "chb_import ps sp b = (Some s, b')"
  shows "chb_read s b' = sp \<and> chb_wf ps b' \<and> chb_used b' s
    \<and> (\<forall>t. chb_used b t \<longrightarrow> chb_used b' t \<and> chb_read t b' = chb_read t b)"
  using chb_import_keeps [OF assms] by blast

theorem interned_strings_stay_witness:
  "\<exists>s b s' b'. chb_import 4 [1, 2] (chb_new 4) = (Some s, b) \<and> chb_import 4 [3, 4, 5] b = (Some s', b')
    \<and> chb_read s b' = [1, 2] \<and> chb_read s' b' = [3, 4, 5]"
proof -
  have wf: "chb_wf 4 (chb_new 4)" by (simp add: chb_wf_def chb_new_def)
  obtain s b where imp: "chb_import 4 [1, 2] (chb_new 4) = (Some s, b)"
    by (simp add: chb_import_def prepareMemory_def ensure_size_def chb_new_def Let_def)
  obtain s' b' where imp': "chb_import 4 [3, 4, 5] b = (Some s', b')"
    by (cases "chb_import 4 [3, 4, 5] b")
      (auto simp: chb_import_def prepareMemory_def ensure_size_def Let_def split: if_splits)
  from interned_strings_stay [OF wf imp] have 1: "chb_read s b = [1, 2]" "chb_wf 4 b" "chb_used b s" by blast+
  from interned_strings_stay [OF 1(2) imp'] have 2: "chb_read s' b' = [3, 4, 5]"
    and "chb_used b s \<longrightarrow> chb_used b' s \<and> chb_read s b' = chb_read s b" by blast+
  with 1 have "chb_read s b' = [1, 2]" by simp
  with 2 imp imp' show ?thesis by blast
qed

end
