(* ===== verification/CoreTypes.thy ===== *)
theory CoreTypes
  imports Prelude
begin

text \<open>
  \<open>src/src/core/core_types.h\<close> and \<open>src/src/core/analysis/lattice_config.h\<close>: entry pointers, which
  join dictionary positions and the indices of nodes made during the analysis in one signed
  integer, and the small records of the lattice.
\<close>

subsection \<open>Entry pointers\<close>

text \<open>\<open>EntryPtr\<close> wraps a signed 32 bit \<open>value_\<close>; \<open>sint\<close> reads the sign.\<close>

record entry_ptr =
  ep_value :: i32

definition mk_entry :: "i32 \<Rightarrow> entry_ptr" where
  "mk_entry v = \<lparr>ep_value = v\<rparr>"

definition isSpecial :: "entry_ptr \<Rightarrow> bool" where
  "isSpecial p \<longleftrightarrow> sint (ep_value p) < 0"

definition isDic :: "entry_ptr \<Rightarrow> bool" where
  "isDic p \<longleftrightarrow> sint (ep_value p) \<ge> 0"

definition isAlias :: "entry_ptr \<Rightarrow> bool" where
  "isAlias p \<longleftrightarrow> isDic p \<and> ep_value p AND 0x1 = 1"

text \<open>\<open>value_ >> 1\<close> on a signed integer keeps the sign; the pointer has none when it is asked for.\<close>

definition dicPtr :: "entry_ptr \<Rightarrow> i32" where
  "dicPtr p = signed_drop_bit 1 (ep_value p)"

definition extPtr :: "entry_ptr \<Rightarrow> i32" where
  "extPtr p = NOT (ep_value p)"

definition i32_min :: i32 where
  "i32_min = push_bit 31 1"

definition EntryPtr_BOS :: entry_ptr where
  "EntryPtr_BOS = mk_entry (i32_min AND 0xfffffffe)"

definition EntryPtr_EOS :: entry_ptr where
  "EntryPtr_EOS = mk_entry ((i32_min + 2) AND 0xfffffffe)"

definition EntryPtr_Invalid :: entry_ptr where
  "EntryPtr_Invalid = mk_entry ((i32_min + 4) AND 0xfffffffe)"

definition rawValue :: "entry_ptr \<Rightarrow> i32" where
  "rawValue p = ep_value p"

record node_info =
  ni_entryPtr :: entry_ptr
  ni_start :: u16
  ni_end :: u16

definition mk_node_info :: "entry_ptr \<Rightarrow> u16 \<Rightarrow> u16 \<Rightarrow> node_info" where
  "mk_node_info e s t = \<lparr>ni_entryPtr = e, ni_start = s, ni_end = t\<rparr>"

definition ni_numCodepoints :: "node_info \<Rightarrow> i32" where
  "ni_numCodepoints n = ucast (ni_end n) - ucast (ni_start n)"

subsection \<open>The records of the lattice\<close>

record lattice_node_ptr =
  np_boundary :: u16
  np_position :: u16

definition mk_node_ptr :: "u16 \<Rightarrow> u16 \<Rightarrow> lattice_node_ptr" where
  "mk_node_ptr b p = \<lparr>np_boundary = b, np_position = p\<rparr>"

text \<open>
  \<open>ConnectionPtr\<close>: \<open>previous\<close> points to the connection the path came from, or is null. Connections
  are written once, so the pointer is the value it points to.
\<close>

datatype connection_ptr =
  ConnectionPtr (cn_boundary: u16) (cn_left: u16) (cn_right: u16) (cn_beam: u16)
    (cn_previous: "connection_ptr option")

definition latticeNodePtr :: "connection_ptr \<Rightarrow> lattice_node_ptr" where
  "latticeNodePtr c = mk_node_ptr (cn_boundary c) (cn_right c)"

text \<open>\<open>operator==\<close> leaves the previous connection out.\<close>

definition connection_eq :: "connection_ptr \<Rightarrow> connection_ptr \<Rightarrow> bool" where
  "connection_eq p1 p2 \<longleftrightarrow> cn_boundary p1 = cn_boundary p2 \<and> cn_left p1 = cn_left p2
     \<and> cn_right p1 = cn_right p2 \<and> cn_beam p1 = cn_beam p2"

record lattice_config =
  lc_entrySize :: u32
  lc_numFeaturePatterns :: u32
  lc_beamSize :: u32
  lc_scoreCnt :: u32
  lc_globalBeamSize :: u32

record lattice_boundary_config =
  lbc_boundary :: u32
  lbc_endNodes :: u32
  lbc_beginNodes :: u32

definition mk_lbc :: "u32 \<Rightarrow> u32 \<Rightarrow> u32 \<Rightarrow> lattice_boundary_config" where
  "mk_lbc b e s = \<lparr>lbc_boundary = b, lbc_endNodes = e, lbc_beginNodes = s\<rparr>"

text \<open>\<open>std::hash<LatticeNodePtr>\<close>.\<close>

definition hash_node_ptr :: "lattice_node_ptr \<Rightarrow> u64" where
  "hash_node_ptr p =
     (let result = ucast (np_boundary p) * 0xda121512fa23245c
                 + ucast (np_position p) * 0x125123215191fa99 :: u64;
          shift = unat (ucast (drop_bit 59 result) :: u8)
      in result XOR drop_bit shift result)"

subsection \<open>Lemmas\<close>

lemma special_or_dic: "isSpecial p \<longleftrightarrow> \<not> isDic p"
  by (auto simp: isSpecial_def isDic_def)

end
