(* ===== verification/FieldStorage.thy ===== *)
theory FieldStorage
  imports CodedIO Characters CoreTypes
begin

text \<open>
  \<open>src/src/core/dic/field_reader.h\<close>: reading the string and integer storages of a built dictionary.

  A storage is the byte string \<open>data_\<close>. The traversals of integers read until their count is used
  up and give back a truth value; a read that fails leaves the variable it would fill as it was, so
  the variable's old value is an argument and its new value a result.
\<close>

subsection \<open>String storage\<close>

record string_storage_reader =
  ssr_data :: byte_string
  ssr_alignPower :: nat

text \<open>
  \<open>ptr << alignPower_\<close> on \<open>ptrdiff_t\<close>. The code checks in debug builds that the result is inside of
  the data; the model reads a negative one as 0.
\<close>

definition ssr_realPtr :: "string_storage_reader \<Rightarrow> i32 \<Rightarrow> nat" where
  "ssr_realPtr r ptr = nat (push_bit (ssr_alignPower r) (sint ptr))"

definition ssr_readAt :: "string_storage_reader \<Rightarrow> i32 \<Rightarrow> byte_string option" where
  "ssr_readAt r ptr = fst (readStringPiece (cp_reset (drop (ssr_realPtr r ptr) (ssr_data r))))"

definition ssr_lengthOf :: "string_storage_reader \<Rightarrow> i32 \<Rightarrow> i32" where
  "ssr_lengthOf r ptr =
     (case fst (readInt_i32 (cp_reset (drop (ssr_realPtr r ptr) (ssr_data r)))) of
        Some v \<Rightarrow> v
      | None \<Rightarrow> -1)"

definition ssr_numCodepoints :: "string_storage_reader \<Rightarrow> i32 \<Rightarrow> i32" where
  "ssr_numCodepoints r ptr =
     (case fst (readStringPiece (cp_reset (drop (ssr_realPtr r ptr) (ssr_data r)))) of
        Some result \<Rightarrow> numCodepoints result
      | None \<Rightarrow> -1)"

record string_storage_traversal =
  sst_parser :: coded_parser
  sst_lastPosition :: i32
  sst_alignPower :: nat
  sst_alignment :: u32

definition sst_new :: "byte_string \<Rightarrow> nat \<Rightarrow> string_storage_traversal" where
  "sst_new data alignPower =
     \<lparr>sst_parser = cp_reset data, sst_lastPosition = 0, sst_alignPower = alignPower,
      sst_alignment = push_bit alignPower 1\<rparr>"

definition sst_hasNext :: "string_storage_traversal \<Rightarrow> bool" where
  "sst_hasNext t \<longleftrightarrow> \<not> cp_atEnd (sst_parser t)"

definition sst_next :: "string_storage_traversal \<Rightarrow> byte_string option \<times> string_storage_traversal" where
  "sst_next t =
     (let t = t\<lparr>sst_lastPosition := word_of_nat (drop_bit (sst_alignPower t) (cp_numReadBytes (sst_parser t)))\<rparr>
      in case readStringPiece (sst_parser t) of
           (Some result, p) \<Rightarrow> (Some result, t\<lparr>sst_parser := cp_alignPointer (ucast (sst_alignment t)) p\<rparr>)
         | (None, p) \<Rightarrow> (None, t\<lparr>sst_parser := p\<rparr>))"

subsection \<open>Integer lists\<close>

record int_list_traversal =
  ilt_length :: i32
  ilt_position :: i32
  ilt_parser :: coded_parser

definition ilt_new :: "i32 \<Rightarrow> coded_parser \<Rightarrow> int_list_traversal" where
  "ilt_new len parser = \<lparr>ilt_length = len, ilt_position = 0, ilt_parser = parser\<rparr>"

definition ilt_empty_new :: int_list_traversal where
  "ilt_empty_new = \<lparr>ilt_length = 0, ilt_position = 0, ilt_parser = cp_reset []\<rparr>"

definition ilt_remaining :: "int_list_traversal \<Rightarrow> i32" where
  "ilt_remaining t = ilt_length t - ilt_position t"

definition ilt_empty :: "int_list_traversal \<Rightarrow> bool" where
  "ilt_empty t \<longleftrightarrow> sint (ilt_position t) \<ge> sint (ilt_length t)"

definition ilt_didRead :: "int_list_traversal \<Rightarrow> bool" where
  "ilt_didRead t \<longleftrightarrow> sint (ilt_position t) \<ge> 0"

text \<open>The integer is read, and the variable set, also when the count is used up.\<close>

definition readOne :: "i32 \<Rightarrow> int_list_traversal \<Rightarrow> bool \<times> i32 \<times> int_list_traversal" where
  "readOne result t =
     (case readInt_i32 (ilt_parser t) of
        (r, p) \<Rightarrow>
          (r \<noteq> None \<and> sint (ilt_position t) < sint (ilt_length t),
           (case r of Some v \<Rightarrow> v | None \<Rightarrow> result),
           t\<lparr>ilt_parser := p, ilt_position := ilt_position t + 1\<rparr>))"

text \<open>\<open>i32 diff\<close> is not initialised; it is only used when it was read.\<close>

definition readOneCumulative :: "i32 \<Rightarrow> int_list_traversal \<Rightarrow> bool \<times> i32 \<times> int_list_traversal" where
  "readOneCumulative result t =
     (case readOne 0 t of
        (True, diff, t') \<Rightarrow> (True, result + diff, t')
      | (False, _, t') \<Rightarrow> (False, result, t'))"

text \<open>
  \<open>fill(c)\<close> appends what it reads until a read fails; \<open>fill(c, cnt)\<close> reads at most \<open>cnt\<close> values to
  the start of \<open>c\<close>. Both give back the values in the model; the second one's count is their number.
\<close>

function ilt_fill :: "int_list_traversal \<Rightarrow> i32 list \<times> int_list_traversal" where
  "ilt_fill t =
     (case readOne 0 t of
        (True, v, t') \<Rightarrow> (case ilt_fill t' of (vs, t'') \<Rightarrow> (v # vs, t''))
      | (False, _, t') \<Rightarrow> ([], t'))"
  by pat_completeness auto

lemma readOne_True:
  assumes "readOne x t = (True, v, t')"
  shows "sint (ilt_position t) < sint (ilt_length t)"
    and "ilt_length t' = ilt_length t" and "sint (ilt_position t') = sint (ilt_position t) + 1"
proof -
  have lt: "sint (ilt_position t) < sint (ilt_length t)" "ilt_length t' = ilt_length t"
    "ilt_position t' = ilt_position t + 1"
    using assms by (auto simp: readOne_def split: prod.splits)
  then show "sint (ilt_position t) < sint (ilt_length t)" "ilt_length t' = ilt_length t"
    "sint (ilt_position t') = sint (ilt_position t) + 1"
    using sint_inc [of "ilt_position t" "ilt_length t"] by simp_all
qed

termination ilt_fill
  by (relation "measure (\<lambda>t. nat (sint (ilt_length t) - sint (ilt_position t)))")
    (auto dest!: sym [of _ "readOne 0 _"] simp: readOne_True)

declare ilt_fill.simps [simp del]

fun ilt_fill_cnt :: "nat \<Rightarrow> int_list_traversal \<Rightarrow> i32 list \<times> int_list_traversal" where
  "ilt_fill_cnt 0 t = ([], t)"
| "ilt_fill_cnt (Suc cnt) t =
     (case readOne 0 t of
        (True, v, t') \<Rightarrow> (case ilt_fill_cnt cnt t' of (vs, t'') \<Rightarrow> (v # vs, t''))
      | (False, _, t') \<Rightarrow> ([], t'))"

definition ilt_numReadBytes :: "int_list_traversal \<Rightarrow> i32" where
  "ilt_numReadBytes t = word_of_nat (cp_numReadBytes (ilt_parser t))"

definition ilt_clear :: "int_list_traversal \<Rightarrow> int_list_traversal" where
  "ilt_clear t = t\<lparr>ilt_length := 0, ilt_position := 0\<rparr>"

subsection \<open>Key-value lists\<close>

record key_value_traversal =
  kv_length :: i32
  kv_position :: i32
  kv_parser :: coded_parser
  kv_lastKey :: i32
  kv_key :: i32
  kv_value :: i32
  kv_hasValue :: bool

definition kv_new :: "i32 \<Rightarrow> coded_parser \<Rightarrow> key_value_traversal" where
  "kv_new len parser =
     \<lparr>kv_length = len, kv_position = 0, kv_parser = parser, kv_lastKey = 0, kv_key = 0, kv_value = 0,
      kv_hasValue = False\<rparr>"

definition kv_hasNext :: "key_value_traversal \<Rightarrow> bool" where
  "kv_hasNext t \<longleftrightarrow> sint (kv_position t) < sint (kv_length t)"

definition kv_moveNext :: "key_value_traversal \<Rightarrow> bool \<times> key_value_traversal" where
  "kv_moveNext t =
     (if \<not> kv_hasNext t then (False, t)
      else case readVarint64 (kv_parser t) of
        (None, p) \<Rightarrow> (False, t\<lparr>kv_parser := p\<rparr>)
      | (Some data, p) \<Rightarrow>
          let key = kv_lastKey t + ucast (drop_bit 1 data);
              t = t\<lparr>kv_parser := p, kv_position := kv_position t + 1, kv_key := key, kv_lastKey := key,
                    kv_hasValue := (data AND 0x1 \<noteq> 0)\<rparr>
          in if \<not> kv_hasValue t then (True, t)
             else case readVarint64 p of
               (None, p') \<Rightarrow> (False, t\<lparr>kv_parser := p'\<rparr>)
             | (Some data', p') \<Rightarrow> (True, t\<lparr>kv_parser := p', kv_value := ucast data'\<rparr>))"

subsection \<open>Integer storage\<close>

text \<open>\<open>IntStorageReader\<close> is its \<open>data_\<close>; pointers into it are checked to be inside in debug builds.\<close>

record int_storage_reader =
  isr_data :: byte_string

definition isr_from :: "int_storage_reader \<Rightarrow> i32 \<Rightarrow> coded_parser" where
  "isr_from r ptr = cp_reset (drop (nat (sint ptr)) (isr_data r))"

definition isr_rawWithLimit :: "int_storage_reader \<Rightarrow> i32 \<Rightarrow> i32 \<Rightarrow> int_list_traversal" where
  "isr_rawWithLimit r ptr len = ilt_new len (isr_from r ptr)"

definition isr_raw :: "int_storage_reader \<Rightarrow> int_list_traversal" where
  "isr_raw r = isr_rawWithLimit r 0 (word_of_nat (length (isr_data r)))"

definition isr_listAt :: "int_storage_reader \<Rightarrow> i32 \<Rightarrow> int_list_traversal" where
  "isr_listAt r ptr =
     (case readInt_i32 (isr_from r ptr) of
        (None, p) \<Rightarrow> ilt_new (-1) (snd (cp_limit 0 p))
      | (Some sz, p) \<Rightarrow> ilt_new sz p)"

definition isr_kvListAt :: "int_storage_reader \<Rightarrow> i32 \<Rightarrow> key_value_traversal" where
  "isr_kvListAt r ptr =
     (case readInt_i32 (isr_from r ptr) of
        (None, p) \<Rightarrow> kv_new (-1) (snd (cp_limit 0 p))
      | (Some sz, p) \<Rightarrow> kv_new sz p)"

definition isr_lengthOf :: "int_storage_reader \<Rightarrow> i32 \<Rightarrow> i32" where
  "isr_lengthOf r ptr =
     (case fst (readInt_i32 (isr_from r ptr)) of Some v \<Rightarrow> v | None \<Rightarrow> -1)"

end
