(* ===== verification/FieldImport.thy ===== *)
theory FieldImport
  imports FieldStorage CsvReader StringPieces "HOL-Library.AList"
begin

text \<open>
  \<open>src/src/core/dic/field_import.h\<close>, \<open>field_import.cc\<close> and \<open>src/src/util/lru_cache.h\<close>: the importers that
  turn the columns of a dictionary into string storages, lists of pointers and key-value lists.

  A \<open>FlatMap\<close> is an association list with one entry for a key. The order in which its iterator runs and the
  order \<open>std::sort\<close> gives to equal elements depend on hash values and on the library; where one of
  them shows, the definition takes a rearrangement \<open>order\<close> of the entries as an argument.
\<close>

subsection \<open>The double barrel cache\<close>

record ('k, 'v) lru_cache =
  lru_map1 :: "('k \<times> 'v) list"
  lru_map2 :: "('k \<times> 'v) list"
  lru_capacity :: nat

definition lru_new :: "nat \<Rightarrow> ('k, 'v) lru_cache" where
  "lru_new capacity = \<lparr>lru_map1 = [], lru_map2 = [], lru_capacity = capacity\<rparr>"

definition maybe_swap :: "('k, 'v) lru_cache \<Rightarrow> ('k, 'v) lru_cache" where
  "maybe_swap c =
     (if length (lru_map1 c) \<ge> lru_capacity c then c\<lparr>lru_map1 := [], lru_map2 := lru_map1 c\<rparr> else c)"

text \<open>\<open>FlatMap::insert\<close> keeps the value of a key that is already there.\<close>

definition flat_insert :: "'k \<Rightarrow> 'v \<Rightarrow> ('k \<times> 'v) list \<Rightarrow> ('k \<times> 'v) list" where
  "flat_insert k v m = (if map_of m k = None then m @ [(k, v)] else m)"

definition lru_tryFind :: "'k \<Rightarrow> ('k, 'v) lru_cache \<Rightarrow> 'v option \<times> ('k, 'v) lru_cache" where
  "lru_tryFind key c =
     (case map_of (lru_map1 c) key of
        Some v \<Rightarrow> (Some v, c)
      | None \<Rightarrow>
          (case map_of (lru_map2 c) key of
             Some v \<Rightarrow> (Some v, maybe_swap (c\<lparr>lru_map1 := flat_insert key v (lru_map1 c)\<rparr>))
           | None \<Rightarrow> (None, c)))"

definition lru_insert :: "'k \<Rightarrow> 'v \<Rightarrow> ('k, 'v) lru_cache \<Rightarrow> ('k, 'v) lru_cache" where
  "lru_insert key val c = maybe_swap (c\<lparr>lru_map1 := flat_insert key val (lru_map1 c)\<rparr>)"

subsection \<open>String storage\<close>

definition import_page :: nat where
  "import_page = 2 ^ 20"

record string_storage =
  ss_mapping :: "(byte_string \<times> i32) list"
  ss_contents :: char_buffer
  ss_alignmentPower :: nat
  ss_alignment :: u64

definition ss_new :: string_storage where
  "ss_new = \<lparr>ss_mapping = [], ss_contents = chb_new import_page, ss_alignmentPower = 0, ss_alignment = 1\<rparr>"

definition setAlignment :: "nat \<Rightarrow> string_storage \<Rightarrow> string_storage" where
  "setAlignment pw s = s\<lparr>ss_alignmentPower := pw, ss_alignment := push_bit pw 1\<rparr>"

definition increaseFieldValueCount :: "byte_string \<Rightarrow> string_storage \<Rightarrow> bool \<times> string_storage" where
  "increaseFieldValueCount sp s =
     (case map_of (ss_mapping s) sp of
        None \<Rightarrow>
          (case chb_import import_page sp (ss_contents s) of
             (None, b) \<Rightarrow> (False, s\<lparr>ss_contents := b\<rparr>)
           | (Some _, b) \<Rightarrow> (True, s\<lparr>ss_contents := b, ss_mapping := AList.update sp 1 (ss_mapping s)\<rparr>))
      | Some n \<Rightarrow> (True, s\<lparr>ss_mapping := AList.update sp (n + 1) (ss_mapping s)\<rparr>))"

definition valueOf :: "byte_string \<Rightarrow> string_storage \<Rightarrow> i32" where
  "valueOf sp s = (case map_of (ss_mapping s) sp of None \<Rightarrow> -1 | Some v \<Rightarrow> v)"

definition ss_size :: "string_storage \<Rightarrow> nat" where
  "ss_size s = length (ss_mapping s)"

text \<open>
  \<open>makeStorage\<close>: \<open>forSort\<close> is the mapping by falling counts. Every string is put behind padding zeros at
  the next aligned position, and its count is replaced by that position in units of the alignment.
\<close>

definition makeStorage_one ::
  "nat \<Rightarrow> u64 \<Rightarrow> byte_string \<Rightarrow> coded_buffer \<times> (byte_string \<times> i32) list
   \<Rightarrow> coded_buffer \<times> (byte_string \<times> i32) list" where
  "makeStorage_one pw alignment str st =
     (case st of (buf, mapping) \<Rightarrow>
        let position = cb_position buf;
            alignedPosition = Align (word_of_nat position) alignment;
            buf = (writeVarint 0 ^^ (unat alignedPosition - position)) buf;
            ptr = ucast (drop_bit pw alignedPosition)
        in (writeString str buf, AList.update str ptr mapping))"

definition ss_makeStorage ::
  "((byte_string \<times> i32) list \<Rightarrow> (byte_string \<times> i32) list) \<Rightarrow> coded_buffer \<Rightarrow> string_storage
   \<Rightarrow> coded_buffer \<times> string_storage" where
  "ss_makeStorage order buf s =
     (let forSort = sort_key (\<lambda>(str, n). - sint n) (order (ss_mapping s));
          buf = writeString [] buf;
          (buf, mapping) = fold (\<lambda>(str, n). makeStorage_one (ss_alignmentPower s) (ss_alignment s) str)
                             forSort (buf, ss_mapping s)
      in (buf, s\<lparr>ss_mapping := mapping\<rparr>))"

subsection \<open>Importers of strings\<close>

text \<open>
  The fields of \<open>StringFieldImporter\<close> besides the storage, which is an argument: the column and the value that is
  ignored.
\<close>

record field_importer =
  fi_field :: nat
  fi_ignore :: byte_string

definition str_importFieldValue :: "field_importer \<Rightarrow> csv_reader \<Rightarrow> string_storage \<Rightarrow> bool \<times> string_storage" where
  "str_importFieldValue fi csv s =
     (let sp = csv_field csv (fi_field fi)
      in if sp_eq (fi_ignore fi) sp \<or> sp = [] then (True, s) else increaseFieldValueCount sp s)"

definition str_fieldPointer :: "field_importer \<Rightarrow> csv_reader \<Rightarrow> string_storage \<Rightarrow> i32" where
  "str_fieldPointer fi csv s =
     (let sp = csv_field csv (fi_field fi)
      in if sp = [] \<or> sp_eq (fi_ignore fi) sp then 0 else valueOf sp s)"

text \<open>The strings between the spaces of a field; both loops of the list importer run over them.\<close>

function space_list :: "byte_string \<Rightarrow> byte_string list" where
  "space_list sp =
     (if sp = [] then []
      else let key = takeWhile (\<lambda>c. c \<noteq> 0x20) sp; space = drop (length key) sp
           in key # (if space = [] then [] else space_list (tl space)))"
  by pat_completeness auto
termination
  by (relation "measure length") (auto simp: length_takeWhile_le le_imp_less_Suc Suc_le_eq [symmetric])

declare space_list.simps [simp del]

definition list_importFieldValue :: "field_importer \<Rightarrow> csv_reader \<Rightarrow> string_storage \<Rightarrow> bool \<times> string_storage" where
  "list_importFieldValue fi csv s =
     (let sp = csv_field csv (fi_field fi)
      in if sp_eq (fi_ignore fi) sp then (True, s)
         else (True, fold (\<lambda>key s. snd (increaseFieldValueCount key s)) (space_list sp) s))"

definition injectFieldBuffer :: "coded_buffer \<Rightarrow> coded_buffer" where
  "injectFieldBuffer buf = writeVarint 0 buf"

text \<open>
  \<open>writePtrsAsDeltas\<close> sorts the values in place and replaces all but the first by their distance to the one
  before; a value is widened to 64 bits with its sign.
\<close>

definition deltas :: "i32 list \<Rightarrow> i32 list" where
  "deltas vs = (case vs of [] \<Rightarrow> [] | v # _ \<Rightarrow> v # map2 (\<lambda>right left. right - left) (tl vs) vs)"

definition writePtrsAsDeltas :: "i32 list \<Rightarrow> coded_buffer \<Rightarrow> coded_buffer" where
  "writePtrsAsDeltas vals buf =
     (let vals = deltas (sort_key sint vals);
          buf = writeVarint (word_of_nat (length vals)) buf
      in fold (\<lambda>v. writeVarint (scast v)) vals buf)"

definition list_fieldPointer ::
  "field_importer \<Rightarrow> csv_reader \<Rightarrow> string_storage \<Rightarrow> coded_buffer \<Rightarrow> i32 \<times> coded_buffer" where
  "list_fieldPointer fi csv s buf =
     (let sp = csv_field csv (fi_field fi)
      in if sp_eq (fi_ignore fi) sp \<or> sp = [] then (0, buf)
         else let vals = map (\<lambda>key. valueOf key s) (space_list sp);
                  result = word_of_nat (cb_position buf)
              in (result, writePtrsAsDeltas vals buf))"

subsection \<open>Importers of key-value lists\<close>

text \<open>\<open>std::search\<close>: the offset of the first occurrence, or the length when there is none.\<close>

fun search_sub :: "byte_string \<Rightarrow> byte_string \<Rightarrow> nat" where
  "search_sub pat [] = 0"
| "search_sub pat (c # sp) =
     (if take (length pat) (c # sp) = pat then 0 else Suc (search_sub pat sp))"

text \<open>
  The entries of a field: a key, and a value when the separator of keys and values is in it. An
  empty entry separator is found at once and the loop stays where it is, so its value is \<open>None\<close>.
\<close>

partial_function (option) kv_entries ::
  "byte_string \<Rightarrow> byte_string \<Rightarrow> byte_string \<Rightarrow> (byte_string \<times> byte_string option) list option" where
  "kv_entries entrySep kvSep sp =
     (if sp = [] then Some []
      else let space = search_sub entrySep sp;
               entry = take space sp;
               sepIter = search_sub kvSep entry;
               e = (if sepIter = space then (entry, None)
                    else (take sepIter sp, Some (drop (sepIter + length kvSep) entry)))
           in if space = length sp then Some [e]
              else Option.bind (kv_entries entrySep kvSep (drop (space + length entrySep) sp))
                     (\<lambda>es. Some (e # es)))"

record kv_importer =
  kvi_field :: field_importer
  kvi_entrySeparator :: byte_string
  kvi_kvSeparator :: byte_string
  kvi_charBuf :: char_buffer
  kvi_positionCache :: "(byte_string, i32) lru_cache"

definition kvi_new :: "field_importer \<Rightarrow> byte_string \<Rightarrow> byte_string \<Rightarrow> kv_importer" where
  "kvi_new fi entrySep kvSep =
     \<lparr>kvi_field = fi, kvi_entrySeparator = entrySep, kvi_kvSeparator = kvSep,
      kvi_charBuf = chb_new import_page, kvi_positionCache = lru_new 50000\<rparr>"

definition kv_count_entry :: "byte_string \<times> byte_string option \<Rightarrow> string_storage \<Rightarrow> string_storage" where
  "kv_count_entry e s =
     (case e of
        (entry, None) \<Rightarrow> snd (increaseFieldValueCount entry s)
      | (key, Some val) \<Rightarrow> snd (increaseFieldValueCount val (snd (increaseFieldValueCount key s))))"

definition kv_importFieldValue ::
  "kv_importer \<Rightarrow> csv_reader \<Rightarrow> string_storage \<Rightarrow> (bool \<times> string_storage) option" where
  "kv_importFieldValue k csv s =
     (let sp = csv_field csv (fi_field (kvi_field k))
      in if sp_eq (fi_ignore (kvi_field k)) sp then Some (True, s)
         else map_option (\<lambda>es. (True, fold kv_count_entry es s))
                (kv_entries (kvi_entrySeparator k) (kvi_kvSeparator k) sp))"

text \<open>
  The serialized form: the number of pairs, then for each pair the distance of its key to the last key,
  doubled, with the lowest bit telling whether a value follows. The value -1 stands for none.
\<close>

fun kv_write_pairs :: "i32 \<Rightarrow> (i32 \<times> i32) list \<Rightarrow> coded_buffer \<Rightarrow> coded_buffer" where
  "kv_write_pairs lastKey [] buf = buf"
| "kv_write_pairs lastKey ((key, val) # ps) buf =
     (let keyFlag = (if val = -1 then 0 else 1);
          keyDiff = scast (key - lastKey) :: u64;
          buf = writeVarint (push_bit 1 keyDiff OR keyFlag) buf;
          buf = (if keyFlag \<noteq> 0 then writeVarint (scast val) buf else buf)
      in kv_write_pairs key ps buf)"

definition kv_serialize :: "(i32 \<times> i32) list \<Rightarrow> byte_string" where
  "kv_serialize vals =
     cb_contents (kv_write_pairs 0 vals (writeVarint (word_of_nat (length vals)) cb_new))"

definition kv_fieldPointer ::
  "((i32 \<times> i32) list \<Rightarrow> (i32 \<times> i32) list) \<Rightarrow> kv_importer \<Rightarrow> csv_reader \<Rightarrow> string_storage \<Rightarrow> coded_buffer
   \<Rightarrow> (i32 \<times> kv_importer \<times> coded_buffer) option" where
  "kv_fieldPointer order k csv s buf =
     (let sp = csv_field csv (fi_field (kvi_field k))
      in if sp_eq (fi_ignore (kvi_field k)) sp \<or> sp = [] then Some (0, k, buf)
         else Option.bind (kv_entries (kvi_entrySeparator k) (kvi_kvSeparator k) sp) (\<lambda>es.
           let vals = map (\<lambda>(key, v). (valueOf key s, case v of None \<Rightarrow> -1 | Some x \<Rightarrow> valueOf x s)) es;
               vals = sort_key (sint \<circ> fst) (order vals);
               serialized = kv_serialize vals
           in case lru_tryFind serialized (kvi_positionCache k) of
                (Some ptr, cache) \<Rightarrow> Some (ptr, k\<lparr>kvi_positionCache := cache\<rparr>, buf)
              | (None, cache) \<Rightarrow>
                  let ptr = word_of_nat (cb_position buf);
                      buf = writeStringDataWithoutLengthPrefix serialized buf
                  in case chb_import import_page serialized (kvi_charBuf k) of
                       (None, b) \<Rightarrow> Some (-1, k\<lparr>kvi_charBuf := b, kvi_positionCache := cache\<rparr>, buf)
                     | (Some _, b) \<Rightarrow>
                         Some (ptr, k\<lparr>kvi_charBuf := b, kvi_positionCache := lru_insert serialized ptr cache\<rparr>, buf)))"

subsection \<open>Importer of integers\<close>

text \<open>
  The regular expression is \<open>^\d+$\<close>. \<open>strtol\<close> skips white space, takes a sign and the digits that follow,
  and saturates at the bounds of \<open>long\<close>. It stops at the first byte that is no digit: at the end of the
  field that is the separator behind it. \<open>end\<close> is only written to.
\<close>

definition int_importString :: "byte_string \<Rightarrow> bool" where
  "int_importString sp \<longleftrightarrow> sp = [] \<or> list_all is_digit sp"

definition strtol10 :: "byte_string \<Rightarrow> int" where
  "strtol10 sp =
     (let sp = dropWhile (\<lambda>c. c = 0x20 \<or> (9 \<le> c \<and> c \<le> 13)) sp;
          (neg, sp) = (case sp of c # t \<Rightarrow> if c = 0x2d then (True, t) else if c = 0x2b then (False, t) else (False, sp)
                       | [] \<Rightarrow> (False, []));
          n = int (digits_value 0 (takeWhile is_digit sp))
      in if neg then max (- n) (- (2 ^ 63)) else min n (2 ^ 63 - 1))"

definition int_fieldPointer :: "nat \<Rightarrow> csv_reader \<Rightarrow> i32" where
  "int_fieldPointer fld csv =
     (let sp = csv_field csv fld
      in if sp = [] then 0 else word_of_int (strtol10 sp))"

subsection \<open>Integers survive the widening\<close>

lemma ucast_scast_i32 [simp]: "(ucast (scast (v :: i32) :: u64) :: i32) = v"
  by (rule bit_word_eqI) (auto simp: bit_simps)

lemma readInt_i32_enc:
  "cp_wf p \<Longrightarrow> cp_rest p = writeVarint64ToArray v @ r \<Longrightarrow>
   readInt_i32 p = (Some (ucast v), cp_advance (length (writeVarint64ToArray v)) p)"
  by (simp add: readInt_i32_def varint.rd_enc)

lemma readOne_enc:
  assumes "cp_wf (ilt_parser t)" and "cp_rest (ilt_parser t) = writeVarint64ToArray v @ r"
  shows "readOne x t = (sint (ilt_position t) < sint (ilt_length t), ucast v,
    t\<lparr>ilt_parser := cp_advance (length (writeVarint64ToArray v)) (ilt_parser t),
      ilt_position := ilt_position t + 1\<rparr>)"
  by (simp add: readOne_def readInt_i32_enc [OF assms])

subsection \<open>Reading back a string storage\<close>

lemma cb_position_contents: "cb_wf b \<Longrightarrow> cb_position b = length (cb_contents b)"
  by (simp add: cb_position_def cb_wf_def cb_contents_def)

lemma pad_contents:
  "cb_wf b \<Longrightarrow> cb_wf ((writeVarint 0 ^^ n) b) \<and> cb_contents ((writeVarint 0 ^^ n) b) = cb_contents b @ replicate n 0"
proof (induction n)
  case (Suc n)
  then show ?case
    by (simp add: varint.put_inv varint.put_contents writeVarint64ToArray.simps [of 0] replicate_append_same)
qed simp

text \<open>The padding in front of a string, and its pointer.\<close>

definition ss_pad :: "nat \<Rightarrow> coded_buffer \<Rightarrow> nat" where
  "ss_pad pw b = unat (Align (word_of_nat (cb_position b)) (2 ^ pw)) - cb_position b"

definition ss_ptr :: "nat \<Rightarrow> coded_buffer \<Rightarrow> i32" where
  "ss_ptr pw b = ucast (drop_bit pw (Align (word_of_nat (cb_position b)) (2 ^ pw)))"

lemma makeStorage_one_eq:
  assumes "cb_wf b"
  shows "cb_wf (fst (makeStorage_one pw (2 ^ pw) str (b, m)))"
    "cb_contents (fst (makeStorage_one pw (2 ^ pw) str (b, m)))
      = cb_contents b @ replicate (ss_pad pw b) 0 @ string_bytes str"
    "snd (makeStorage_one pw (2 ^ pw) str (b, m)) = AList.update str (ss_ptr pw b) m"
  using pad_contents [OF assms, of "ss_pad pw b"] coded_string.put_inv coded_string.put_contents
  by (simp_all add: makeStorage_one_def Let_def ss_pad_def ss_ptr_def)

lemma ss_ptr_position:
  assumes "cb_wf b" and pw: "pw < 32" and len: "length (cb_contents b) + 2 ^ pw \<le> 2 ^ 33"
    and fits: "length (cb_contents b) + ss_pad pw b < 2 ^ 31"
  shows "unat (ss_ptr pw b) * 2 ^ pw = length (cb_contents b) + ss_pad pw b"
    and "unat (ss_ptr pw b) < 2 ^ 31"
proof -
  let ?n = "length (cb_contents b)"
  have un: "unat (word_of_nat (cb_position b) :: u64) = ?n"
    using len by (subst unat_of_nat_small) (simp_all add: cb_position_contents [OF assms(1)])
  have al: "unat (Align (word_of_nat (cb_position b)) (2 ^ pw)) = (?n + 2 ^ pw - 1) div 2 ^ pw * 2 ^ pw"
    using len pw by (subst unat_Align) (simp_all add: un)
  have lo: "?n \<le> (?n + 2 ^ pw - 1) div 2 ^ pw * 2 ^ pw" by (rule round_up_bounds) simp
  have pad: "?n + ss_pad pw b = (?n + 2 ^ pw - 1) div 2 ^ pw * 2 ^ pw"
    using lo al unfolding ss_pad_def cb_position_contents [OF assms(1)] by linarith
  let ?q = "(?n + 2 ^ pw - 1) div 2 ^ pw"
  have "?q * 1 \<le> ?q * 2 ^ pw" by (rule mult_le_mono2) simp
  then have q: "?q < 2 ^ 31" using fits pad by linarith
  have "unat (drop_bit pw (Align (word_of_nat (cb_position b)) (2 ^ pw))) = ?q"
    by (simp only: unat_drop_bit_div al) simp
  then have "unat (ss_ptr pw b) = ?q"
    using q by (simp add: ss_ptr_def unsigned_ucast_eq take_bit_nat_eq_self del: One_nat_def)
  with q pad show "unat (ss_ptr pw b) * 2 ^ pw = ?n + ss_pad pw b" "unat (ss_ptr pw b) < 2 ^ 31"
    by simp_all
qed

lemma fold_prefix:
  "cb_wf b \<Longrightarrow> \<exists>r. cb_contents (fst (fold (\<lambda>(str, n). makeStorage_one pw (2 ^ pw) str) L (b, m)))
     = cb_contents b @ r"
proof (induction L arbitrary: b m)
  case (Cons e L)
  obtain str n where e: "e = (str, n)" by (cases e)
  obtain b' m' where s: "makeStorage_one pw (2 ^ pw) str (b, m) = (b', m')" by fastforce
  note st = makeStorage_one_eq [OF Cons.prems, of pw str m, unfolded s fst_conv snd_conv]
  from Cons.IH [OF st(1), of m'] show ?case by (auto simp: e s st(2))
qed simp

text \<open>A string stands where its pointer says.\<close>

definition stored_at :: "nat \<Rightarrow> byte_string \<Rightarrow> i32 \<Rightarrow> byte_string \<Rightarrow> bool" where
  "stored_at pw str ptr data \<longleftrightarrow> unat ptr < 2 ^ 31
     \<and> (\<exists>pre post. data = pre @ string_bytes str @ post \<and> length pre = unat ptr * 2 ^ pw)"

lemma stored_at_append: "stored_at pw str ptr data \<Longrightarrow> stored_at pw str ptr (data @ r)"
  unfolding stored_at_def by (metis append.assoc)

lemma fold_stored:
  assumes pw: "pw < 32"
  shows "cb_wf b \<Longrightarrow> distinct (map fst L) \<Longrightarrow> set (map fst L) \<inter> done = {} \<Longrightarrow>
    fold (\<lambda>(str, n). makeStorage_one pw (2 ^ pw) str) L (b, m) = (b', m') \<Longrightarrow>
    length (cb_contents b') < 2 ^ 31 \<Longrightarrow>
    \<forall>k \<in> done. \<exists>v. map_of m k = Some v \<and> stored_at pw k v (cb_contents b) \<Longrightarrow>
    \<forall>k \<in> done \<union> set (map fst L). \<exists>v. map_of m' k = Some v \<and> stored_at pw k v (cb_contents b')"
proof (induction L arbitrary: b m "done")
  case Nil
  then show ?case by simp
next
  case (Cons e L)
  obtain str n where e: "e = (str, n)" by (cases e)
  obtain b1 m1 where s: "makeStorage_one pw (2 ^ pw) str (b, m) = (b1, m1)" by fastforce
  note st = makeStorage_one_eq [OF Cons.prems(1), of pw str m, unfolded s fst_conv snd_conv]
  have rest: "fold (\<lambda>(str, n). makeStorage_one pw (2 ^ pw) str) L (b1, m1) = (b', m')"
    using Cons.prems(4) by (simp add: e s)
  obtain r where r: "cb_contents b' = cb_contents b1 @ r"
    using fold_prefix [OF st(1), of pw L m1] by (auto simp: rest)
  have fits: "length (cb_contents b) + ss_pad pw b < 2 ^ 31"
    using Cons.prems(5) by (simp add: r st(2))
  have "(2 :: nat) ^ pw \<le> 2 ^ 32" using pw by (intro power_increasing) simp_all
  then have "length (cb_contents b) + 2 ^ pw \<le> 2 ^ 33" using fits by simp
  note ptr = ss_ptr_position [OF Cons.prems(1) pw this fits]
  have new: "stored_at pw str (ss_ptr pw b) (cb_contents b1)"
    unfolding stored_at_def
    by (intro conjI ptr(2) exI [of _ "cb_contents b @ replicate (ss_pad pw b) 0"] exI [of _ "[]"])
      (simp_all add: st(2) ptr(1))
  have old: "\<forall>k \<in> insert str done. \<exists>v. map_of m1 k = Some v \<and> stored_at pw k v (cb_contents b1)"
  proof
    fix k assume k: "k \<in> insert str done"
    show "\<exists>v. map_of m1 k = Some v \<and> stored_at pw k v (cb_contents b1)"
    proof (cases "k = str")
      case True
      then show ?thesis using new by (simp add: st(3) update_conv')
    next
      case False
      then show ?thesis using Cons.prems(6) k stored_at_append
        by (fastforce simp: st(3) update_conv' st(2))
    qed
  qed
  have "\<forall>k \<in> insert str done \<union> set (map fst L). \<exists>v. map_of m' k = Some v \<and> stored_at pw k v (cb_contents b')"
    by (rule Cons.IH [OF st(1) _ _ rest Cons.prems(5) old]) (use Cons.prems(2,3) e in auto)
  then show ?case by (simp add: e)
qed

lemma stored_at_read:
  assumes "stored_at pw str ptr data" and "length data < 2 ^ 64"
  shows "ssr_readAt \<lparr>ssr_data = data, ssr_alignPower = pw\<rparr> ptr = Some str"
proof -
  obtain pre post where d: "data = pre @ string_bytes str @ post" and l: "length pre = unat ptr * 2 ^ pw"
    using assms(1) by (auto simp: stored_at_def)
  have "sint ptr = int (unat ptr)"
    using assms(1) by (intro sint_small) (simp add: stored_at_def)
  then have "ssr_realPtr \<lparr>ssr_data = data, ssr_alignPower = pw\<rparr> ptr = nat (int (unat ptr * 2 ^ pw))"
    by (simp only: ssr_realPtr_def string_storage_reader.simps push_bit_eq_mult) simp
  then have p: "ssr_realPtr \<lparr>ssr_data = data, ssr_alignPower = pw\<rparr> ptr = length pre"
    by (simp only: l nat_int)
  have "length (string_bytes str @ post) < 2 ^ 64" using assms(2) by (simp add: d)
  from coded_string.rd_enc [OF cp_reset_wf(1) [OF this] cp_reset_wf(2)] show ?thesis
    by (simp add: ssr_readAt_def p) (simp add: d)
qed


subsection \<open>Reading back lists of pointers\<close>

text \<open>What was written to a buffer in front of other data, and a parser that starts in it.\<close>

lemma fold_varint_contents:
  "cb_wf b \<Longrightarrow> cb_wf (fold (\<lambda>v. writeVarint (f v)) vs b)
     \<and> cb_contents (fold (\<lambda>v. writeVarint (f v)) vs b)
       = cb_contents b @ concat (map (\<lambda>v. writeVarint64ToArray (f v)) vs)"
  by (induction vs arbitrary: b) (simp_all add: varint.put_inv varint.put_contents)

lemma varint_nonempty: "writeVarint64ToArray v \<noteq> []"
  by (subst writeVarint64ToArray.simps) simp

lemma length_concat_varint: "length vs \<le> length (concat (map (\<lambda>v. writeVarint64ToArray (f v)) vs))"
proof (induction vs)
  case (Cons v vs)
  have "1 \<le> length (writeVarint64ToArray (f v))" using varint_nonempty [of "f v"] by (cases "writeVarint64ToArray (f v)") auto
  then show ?case using Cons by simp
qed simp

text \<open>Reading \<open>n\<close> entries of a traversal that keeps running sums.\<close>

fun read_cumulative :: "nat \<Rightarrow> i32 \<Rightarrow> int_list_traversal \<Rightarrow> i32 list" where
  "read_cumulative 0 lastv t = []"
| "read_cumulative (Suc n) lastv t =
     (case readOneCumulative lastv t of
        (True, v, t') \<Rightarrow> v # read_cumulative n v t'
      | (False, _, _) \<Rightarrow> [])"

fun running_sums :: "i32 \<Rightarrow> i32 list \<Rightarrow> i32 list" where
  "running_sums a [] = []"
| "running_sums a (v # vs) = (a + v) # running_sums (a + v) vs"

lemma running_sums_map2:
  "running_sums a (map2 (\<lambda>right left. right - left) vs (a # vs)) = vs"
  by (induction vs arbitrary: a) auto

lemma running_sums_deltas: "running_sums 0 (deltas vs) = vs"
proof (cases vs)
  case (Cons v vs')
  then show ?thesis using running_sums_map2 [of v vs'] by (simp add: deltas_def)
qed (simp add: deltas_def)

lemma length_deltas [simp]: "length (deltas vs) = length vs"
  by (cases vs) (simp_all add: deltas_def)

lemma read_cumulative_enc:
  "cp_wf (ilt_parser t) \<Longrightarrow>
   cp_rest (ilt_parser t) = concat (map (\<lambda>v. writeVarint64ToArray (scast v)) vs) @ r \<Longrightarrow>
   sint (ilt_position t) + int (length vs) \<le> sint (ilt_length t) \<Longrightarrow>
   read_cumulative (length vs) a t = running_sums a vs"
proof (induction vs arbitrary: a t)
  case (Cons v vs)
  let ?e = "writeVarint64ToArray (scast v)"
  have rest: "cp_rest (ilt_parser t) = ?e @ (concat (map (\<lambda>v. writeVarint64ToArray (scast v)) vs) @ r)"
    using Cons.prems(2) by simp
  have lt: "sint (ilt_position t) < sint (ilt_length t)" using Cons.prems(3) by simp
  note one = readOne_enc [OF Cons.prems(1) rest]
  note adv = cp_advance_wf [OF Cons.prems(1) rest]
  let ?t = "t\<lparr>ilt_parser := cp_advance (length ?e) (ilt_parser t), ilt_position := ilt_position t + 1\<rparr>"
  have "sint (ilt_position t + 1) = sint (ilt_position t) + 1" using lt by (intro sint_inc) simp_all
  then have "read_cumulative (length vs) (a + v) ?t = running_sums (a + v) vs"
    using Cons.prems(3) adv by (intro Cons.IH) simp_all
  then show ?case using lt by (simp add: readOneCumulative_def one)
qed simp

text \<open>A parser at the position where a buffer was when it was written on.\<close>

lemma isr_from_append:
  assumes "length c < 2 ^ 31"
  shows "isr_from \<lparr>isr_data = c @ d\<rparr> (word_of_nat (length c)) = cp_reset d"
  using sint_of_nat_small [of "length c", where 'a=32] assms by (simp add: isr_from_def)

lemma listAt_deltas:
  assumes b: "cb_wf b" and len: "length (cb_contents (writePtrsAsDeltas vs b) @ r) < 2 ^ 31"
  shows "read_cumulative (length vs) 0
     (isr_listAt \<lparr>isr_data = cb_contents (writePtrsAsDeltas vs b) @ r\<rparr> (word_of_nat (cb_position b)))
    = sort_key sint vs"
    and "ilt_length (isr_listAt \<lparr>isr_data = cb_contents (writePtrsAsDeltas vs b) @ r\<rparr> (word_of_nat (cb_position b)))
      = word_of_nat (length vs)"
proof -
  let ?ds = "deltas (sort_key sint vs)"
  let ?enc = "concat (map (\<lambda>v. writeVarint64ToArray (scast v)) ?ds)"
  let ?n = "writeVarint64ToArray (word_of_nat (length vs))"
  have c: "cb_contents (writePtrsAsDeltas vs b) = cb_contents b @ ?n @ ?enc"
    using fold_varint_contents [OF varint.put_inv [OF b], where f = "scast :: i32 \<Rightarrow> u64"]
    by (simp add: writePtrsAsDeltas_def varint.put_contents [OF b])
  have lens: "length (cb_contents b) < 2 ^ 31" "length ((?n @ ?enc) @ r) < 2 ^ 64"
    using len by (simp_all add: c)
  have from0: "isr_from \<lparr>isr_data = cb_contents (writePtrsAsDeltas vs b) @ r\<rparr> (word_of_nat (cb_position b))
      = cp_reset (?n @ ?enc @ r)"
    using isr_from_append [OF lens(1), of "?n @ ?enc @ r"] by (simp add: c cb_position_contents [OF b])
  have "length (?n @ ?enc @ r) < 2 ^ 64" using lens(2) by simp
  note wf = cp_reset_wf(1) [OF this] cp_reset_wf(2) [of "?n @ ?enc @ r"]
  have nlen: "length vs < 2 ^ 31"
    using length_concat_varint [of ?ds "scast :: i32 \<Rightarrow> u64"] len by (simp add: c)
  let ?p = "cp_advance (length ?n) (cp_reset (?n @ ?enc @ r))"
  have read: "readInt_i32 (cp_reset (?n @ ?enc @ r)) = (Some (ucast (word_of_nat (length vs) :: u64)), ?p)"
    by (rule readInt_i32_enc [OF wf])
  have u: "(ucast (word_of_nat (length vs) :: u64) :: i32) = word_of_nat (length vs)"
    using nlen by (intro unat_eqI)
      (simp add: unsigned_ucast_eq unsigned_of_nat take_bit_nat_eq_self)
  have at: "isr_listAt \<lparr>isr_data = cb_contents (writePtrsAsDeltas vs b) @ r\<rparr> (word_of_nat (cb_position b))
      = ilt_new (word_of_nat (length vs)) ?p"
    by (simp only: isr_listAt_def from0 read u prod.case option.case)
  then show "ilt_length (isr_listAt \<lparr>isr_data = cb_contents (writePtrsAsDeltas vs b) @ r\<rparr> (word_of_nat (cb_position b)))
      = word_of_nat (length vs)" by (simp add: ilt_new_def)
  note adv = cp_advance_wf [OF wf]
  have "sint (word_of_nat (length vs) :: i32) = int (length vs)"
    using nlen by (intro sint_of_nat_small) simp
  then have "read_cumulative (length ?ds) 0 (ilt_new (word_of_nat (length vs)) ?p) = running_sums 0 ?ds"
    by (intro read_cumulative_enc [where r = r]) (simp_all add: ilt_new_def adv)
  then show "read_cumulative (length vs) 0
     (isr_listAt \<lparr>isr_data = cb_contents (writePtrsAsDeltas vs b) @ r\<rparr> (word_of_nat (cb_position b)))
    = sort_key sint vs"
    by (simp add: at running_sums_deltas)
qed


subsection \<open>Reading back key-value lists\<close>

fun read_kv :: "nat \<Rightarrow> key_value_traversal \<Rightarrow> (i32 \<times> i32 option) list" where
  "read_kv 0 t = []"
| "read_kv (Suc n) t =
     (case kv_moveNext t of
        (True, t') \<Rightarrow> (kv_key t', if kv_hasValue t' then Some (kv_value t') else None) # read_kv n t'
      | (False, _) \<Rightarrow> [])"

definition kv_none :: "i32 \<times> i32 \<Rightarrow> i32 \<times> i32 option" where
  "kv_none p = (fst p, if snd p = -1 then None else Some (snd p))"

definition kv_word :: "i32 \<Rightarrow> i32 \<Rightarrow> u64" where
  "kv_word diff val = push_bit 1 (scast diff) OR (if val = -1 then 0 else 1)"

fun kv_pair_bytes :: "i32 \<Rightarrow> (i32 \<times> i32) list \<Rightarrow> byte_string" where
  "kv_pair_bytes lastKey [] = []"
| "kv_pair_bytes lastKey ((key, val) # ps) =
     writeVarint64ToArray (kv_word (key - lastKey) val)
     @ (if val = -1 then [] else writeVarint64ToArray (scast val)) @ kv_pair_bytes key ps"

lemma kv_write_pairs_contents:
  "cb_wf b \<Longrightarrow> cb_wf (kv_write_pairs lastKey ps b)
     \<and> cb_contents (kv_write_pairs lastKey ps b) = cb_contents b @ kv_pair_bytes lastKey ps"
  by (induction lastKey ps b rule: kv_write_pairs.induct)
    (simp_all add: Let_def varint.put_inv varint.put_contents kv_word_def)

lemma kv_word_flag: "(kv_word d val AND 1 = 0) = (val = -1)"
proof -
  have "kv_word d val AND 1 = (if val = -1 then 0 else 1)"
  proof (rule bit_word_eqI)
    fix n show "bit (kv_word d val AND 1) n = bit (if val = -1 then 0 else 1 :: u64) n"
      unfolding kv_word_def
      by (cases "val = -1") (simp_all only: if_True if_False or.right_neutral bit_and_iff bit_or_iff bit_push_bit_iff bit_1_iff bit_0_eq bot_apply, auto)
  qed
  then show ?thesis by auto
qed

lemma kv_word_key: "(ucast (drop_bit 1 (kv_word d val)) :: i32) = d"
proof (rule bit_word_eqI)
  fix n assume "n < LENGTH(32)"
  moreover have "(if val = -1 then 0 else 1 :: u64) = of_bool (val \<noteq> -1)" by simp
  ultimately show "bit (ucast (drop_bit 1 (kv_word d val)) :: i32) n = bit d n"
    by (simp only: kv_word_def bit_unsigned_iff bit_drop_bit_eq o_apply bit_or_iff bit_push_bit_iff bit_of_bool_iff
      bit_signed_iff) (cases "n = 31"; auto simp: min_def)
qed

lemma read_kv_enc:
  "cp_wf (kv_parser t) \<Longrightarrow>
   cp_rest (kv_parser t) = kv_pair_bytes (kv_lastKey t) ps @ r \<Longrightarrow>
   sint (kv_position t) + int (length ps) \<le> sint (kv_length t) \<Longrightarrow>
   read_kv (length ps) t = map kv_none ps"
proof (induction ps arbitrary: t)
  case (Cons p ps)
  obtain key val where p: "p = (key, val)" by (cases p)
  let ?w = "kv_word (key - kv_lastKey t) val"
  let ?v = "if val = -1 then [] else writeVarint64ToArray (scast val)"
  have rest: "cp_rest (kv_parser t) = writeVarint64ToArray ?w @ (?v @ kv_pair_bytes key ps @ r)"
    using Cons.prems(2) by (simp add: p)
  have lt: "sint (kv_position t) < sint (kv_length t)" using Cons.prems(3) by simp
  have inc: "sint (kv_position t + 1) = sint (kv_position t) + 1" using lt by (intro sint_inc) simp_all
  have key: "kv_lastKey t + ucast (drop_bit 1 ?w) = key" by (simp only: kv_word_key) simp
  note one = varint.rd_enc [OF Cons.prems(1) rest]
  note adv = cp_advance_wf [OF Cons.prems(1) rest]
  let ?p = "cp_advance (length (writeVarint64ToArray ?w)) (kv_parser t)"
  show ?case
  proof (cases "val = -1")
    case True
    let ?t = "t\<lparr>kv_parser := ?p, kv_position := kv_position t + 1, kv_key := key, kv_lastKey := key,
                kv_hasValue := False\<rparr>"
    have mv: "kv_moveNext t = (True, ?t)"
      using lt True key by (simp add: kv_moveNext_def kv_hasNext_def one Let_def kv_word_flag)
    have "read_kv (length ps) ?t = map kv_none ps"
      using Cons.prems(3) adv inc True by (intro Cons.IH) simp_all
    then show ?thesis by (simp add: mv p kv_none_def True)
  next
    case False
    have rest2: "cp_rest ?p = writeVarint64ToArray (scast val) @ (kv_pair_bytes key ps @ r)"
      using adv(2) False by simp
    note two = varint.rd_enc [OF adv(1) rest2]
    note adv2 = cp_advance_wf [OF adv(1) rest2]
    let ?t = "t\<lparr>kv_parser := cp_advance (length (writeVarint64ToArray (scast val))) ?p,
                kv_position := kv_position t + 1, kv_key := key, kv_lastKey := key,
                kv_hasValue := True, kv_value := val\<rparr>"
    have mv: "kv_moveNext t = (True, ?t)"
      using lt False key by (simp add: kv_moveNext_def kv_hasNext_def one two Let_def kv_word_flag)
    have "read_kv (length ps) ?t = map kv_none ps"
      using Cons.prems(3) adv2 inc by (intro Cons.IH) simp_all
    then show ?thesis by (simp add: mv p kv_none_def False)
  qed
qed simp

lemma length_kv_pair_bytes: "length ps \<le> length (kv_pair_bytes k ps)"
proof (induction k ps rule: kv_pair_bytes.induct)
  case (2 lastKey key val ps)
  let ?w = "kv_word (key - lastKey) val"
  have "1 \<le> length (writeVarint64ToArray ?w)" using varint_nonempty [of ?w] by (cases "writeVarint64ToArray ?w") auto
  then show ?case using 2 by simp
qed simp

lemma kvListAt_serialized:
  assumes len: "length (c @ kv_serialize ps @ r) < 2 ^ 31"
  shows "read_kv (length ps) (isr_kvListAt \<lparr>isr_data = c @ kv_serialize ps @ r\<rparr> (word_of_nat (length c)))
    = map kv_none ps"
proof -
  let ?n = "writeVarint64ToArray (word_of_nat (length ps))"
  let ?enc = "kv_pair_bytes 0 ps"
  have ser: "kv_serialize ps = ?n @ ?enc"
    using kv_write_pairs_contents [OF varint.put_inv [OF cb_new_wf(1)]]
    by (simp add: kv_serialize_def varint.put_contents)
  have from0: "isr_from \<lparr>isr_data = c @ kv_serialize ps @ r\<rparr> (word_of_nat (length c)) = cp_reset (?n @ ?enc @ r)"
    using isr_from_append [of c "?n @ ?enc @ r"] len by (simp add: ser)
  have "length (?n @ ?enc @ r) < 2 ^ 64" using len by (simp add: ser)
  note wf = cp_reset_wf(1) [OF this] cp_reset_wf(2) [of "?n @ ?enc @ r"]
  have nlen: "length ps < 2 ^ 31"
    using length_kv_pair_bytes [of ps 0] len by (simp add: ser)
  let ?p = "cp_advance (length ?n) (cp_reset (?n @ ?enc @ r))"
  have read: "readInt_i32 (cp_reset (?n @ ?enc @ r)) = (Some (ucast (word_of_nat (length ps) :: u64)), ?p)"
    by (rule readInt_i32_enc [OF wf])
  have u: "(ucast (word_of_nat (length ps) :: u64) :: i32) = word_of_nat (length ps)"
    using nlen by (intro unat_eqI)
      (simp add: unsigned_ucast_eq unsigned_of_nat take_bit_nat_eq_self)
  have at: "isr_kvListAt \<lparr>isr_data = c @ kv_serialize ps @ r\<rparr> (word_of_nat (length c))
      = kv_new (word_of_nat (length ps)) ?p"
    by (simp only: isr_kvListAt_def from0 read u prod.case option.case)
  note adv = cp_advance_wf [OF wf]
  have "sint (word_of_nat (length ps) :: i32) = int (length ps)"
    using nlen by (intro sint_of_nat_small) simp
  then show ?thesis unfolding at
    by (intro read_kv_enc [where r = r]) (simp_all add: kv_new_def adv)
qed

subsection \<open>Properties\<close>

text \<open>C19: After \<open>makeStorage\<close> every string that was counted is found in the storage that was built: reading at the
  pointer the mapping now gives for it returns the string, for every alignment and every order in
  which the hash map and the sort arrange the strings.
\<close>

theorem string_storage_readable:
  assumes "distinct (map fst (ss_mapping s))" and "\<forall>xs. mset (order xs) = mset xs"
    and "ss_alignment s = 2 ^ ss_alignmentPower s" and "ss_alignmentPower s < 32"
    and "ss_makeStorage order cb_new s = (buf, s')" and "length (cb_contents buf) < 2 ^ 31"
    and "str \<in> fst ` set (ss_mapping s)"
  shows "ssr_readAt \<lparr>ssr_data = cb_contents buf, ssr_alignPower = ss_alignmentPower s\<rparr> (valueOf str s') = Some str"
proof -
  let ?L = "sort_key (\<lambda>(str, n). - sint n) (order (ss_mapping s))"
  have ms: "mset ?L = mset (ss_mapping s)" using assms(2) by simp
  then have "mset (map fst ?L) = mset (map fst (ss_mapping s))" by (metis mset_map)
  then have L: "distinct (map fst ?L)" "set (map fst ?L) = set (map fst (ss_mapping s))"
    using assms(1) by (metis mset_eq_imp_distinct_iff, metis mset_eq_setD)
  have f: "fold (\<lambda>(str, n). makeStorage_one (ss_alignmentPower s) (2 ^ ss_alignmentPower s) str) ?L
      (writeString [] cb_new, ss_mapping s) = (buf, ss_mapping s')"
    using assms(5) by (auto simp: ss_makeStorage_def Let_def assms(3) split: prod.splits)
  have "cb_wf (writeString [] cb_new)" by (rule coded_string.put_inv) simp
  from fold_stored [OF assms(4) this L(1) _ f assms(6), of "{}"]
  have "\<forall>k \<in> set (map fst ?L). \<exists>v. map_of (ss_mapping s') k = Some v
      \<and> stored_at (ss_alignmentPower s) k v (cb_contents buf)" by simp
  moreover have "str \<in> set (map fst ?L)" using assms(7) unfolding L(2) by simp
  ultimately obtain v where "map_of (ss_mapping s') str = Some v" "stored_at (ss_alignmentPower s) str v (cb_contents buf)"
    by blast
  then show ?thesis using stored_at_read [of "ss_alignmentPower s" str v "cb_contents buf"] assms(6)
    by (simp add: valueOf_def)
qed

theorem string_storage_readable_witness:
  "let s = ss_new\<lparr>ss_mapping := [([97], 1), ([98, 99], 5)], ss_alignmentPower := 2, ss_alignment := 4\<rparr>;
       (buf, s') = ss_makeStorage rev cb_new s
   in ssr_readAt \<lparr>ssr_data = cb_contents buf, ssr_alignPower = 2\<rparr> (valueOf [98, 99] s') = Some [98, 99]"
proof -
  let ?s = "ss_new\<lparr>ss_mapping := [([97], 1), ([98, 99], 5)], ss_alignmentPower := 2, ss_alignment := 4\<rparr>"
  obtain buf s' where m: "ss_makeStorage rev cb_new ?s = (buf, s')" by fastforce
  have l: "length (cb_contents (fst (makeStorage_one 2 4 [97]
      (makeStorage_one 2 4 [98, 99] (writeString [] cb_new, [([97], 1), ([98, 99], 5)]))))) < 50"
    by code_simp
  have o: "sort_key (\<lambda>(str, n). - sint n) (rev [([97 :: u8], 1 :: i32), ([98, 99], 5)])
      = [([98, 99], 5), ([97], 1)]"
    by code_simp
  have "length (cb_contents (fst (ss_makeStorage rev cb_new ?s))) < 50"
    using l by (simp add: ss_makeStorage_def ss_new_def Let_def o [unfolded case_prod_unfold] case_prod_unfold
        del: rev.simps)
  then have "ssr_readAt \<lparr>ssr_data = cb_contents buf, ssr_alignPower = ss_alignmentPower ?s\<rparr> (valueOf [98, 99] s')
      = Some [98, 99]"
    by (intro string_storage_readable [of ?s rev, OF _ _ _ _ m]) (simp_all add: m)
  then show ?thesis by (simp add: m)
qed

text \<open>C20: A list of pointers that \<open>writePtrsAsDeltas\<close> appended to a buffer, whatever is appended behind it, is read back by \<open>listAt\<close> at the
  position it was written at: as many running sums as there were values give the values in ascending order.
\<close>

theorem pointer_list_roundtrip:
  assumes "cb_wf b" and "length (cb_contents (writePtrsAsDeltas vs b) @ r) < 2 ^ 31"
  shows "read_cumulative (length vs) 0
     (isr_listAt \<lparr>isr_data = cb_contents (writePtrsAsDeltas vs b) @ r\<rparr> (word_of_nat (cb_position b)))
    = sort_key sint vs"
  by (rule listAt_deltas(1) [OF assms])

theorem pointer_list_roundtrip_witness:
  "read_cumulative (length [70, 5, 9 :: i32]) 0
     (isr_listAt \<lparr>isr_data = cb_contents (writePtrsAsDeltas [70, 5, 9] cb_new) @ [1, 2]\<rparr> (word_of_nat (cb_position cb_new)))
    = sort_key sint [70, 5, 9]"
proof (rule pointer_list_roundtrip)
  have "length (cb_contents (writePtrsAsDeltas [70, 5, 9] cb_new) @ [1, 2]) = 6" by code_simp
  then show "length (cb_contents (writePtrsAsDeltas [70, 5, 9] cb_new) @ [1, 2]) < 2 ^ 31"
    by (simp only:) simp
qed simp

text \<open>C21: A serialized key-value list at any place of an integer storage is read back by \<open>kvListAt\<close> and \<open>moveNext\<close>: the
  keys in order, each with its value, or with none where the value was -1.
\<close>

theorem kv_list_roundtrip:
  assumes "length (c @ kv_serialize ps @ r) < 2 ^ 31"
  shows "read_kv (length ps) (isr_kvListAt \<lparr>isr_data = c @ kv_serialize ps @ r\<rparr> (word_of_nat (length c)))
    = map (\<lambda>(key, val). (key, if val = -1 then None else Some val)) ps"
  using kvListAt_serialized [OF assms] by (simp add: kv_none_def case_prod_unfold)

theorem kv_list_roundtrip_witness:
  "read_kv (length [(3, -1), (900 :: i32, 17 :: i32)])
     (isr_kvListAt \<lparr>isr_data = [0, 0] @ kv_serialize [(3, -1), (900, 17)] @ [5]\<rparr> (word_of_nat (length [0, 0 :: u8])))
    = map (\<lambda>(key, val). (key, if val = -1 then None else Some val)) [(3, -1), (900, 17)]"
proof (rule kv_list_roundtrip)
  have "length ([0, 0] @ kv_serialize [(3, -1), (900, 17)] @ [5]) = 8" by code_simp
  then show "length ([0, 0] @ kv_serialize [(3, -1), (900, 17)] @ [5]) < 2 ^ 31"
    by (simp only:) simp
qed

end
