(* ===== verification/Hashing.thy ===== *)
theory Hashing
  imports Prelude
begin

text \<open>
  The hash functions of \<open>src/src/util\<close>: \<open>murmur_hash.h\<close>, \<open>hashing.h\<close>, \<open>seahash.h\<close>, \<open>fast_hash.h\<close> and
  \<open>fast_hash_rot.h\<close>. A SIMD register is the list of its 64-bit lanes, the lowest first; each intrinsic
  the code calls is a function on lanes. The variadic templates are functions on lists.
\<close>

subsection \<open>Murmur hash\<close>

type_synonym oword = "u64 \<times> u64"

definition rotl64 :: "u64 \<Rightarrow> nat \<Rightarrow> u64" where
  "rotl64 x r = (push_bit r x OR drop_bit (64 - r) x)"

definition fmix64 :: "u64 \<Rightarrow> u64" where
  "fmix64 k =
     (let k = k XOR drop_bit 33 k;
          k = k * 0xff51afd7ed558ccd;
          k = k XOR drop_bit 33 k;
          k = k * 0xc4ceb9fe1a85ec53
      in k XOR drop_bit 33 k)"

definition MURMUR_CONSTANT :: oword where
  "MURMUR_CONSTANT = (0x87c37b91114253d5, 0x4cf5ad432745937f)"

definition mur1_oword :: "oword \<Rightarrow> oword" where
  "mur1_oword block =
     (rotl64 (fst block * fst MURMUR_CONSTANT) 31 * snd MURMUR_CONSTANT,
      rotl64 (snd block * snd MURMUR_CONSTANT) 33 * fst MURMUR_CONSTANT)"

definition mur2_oword :: "oword \<Rightarrow> oword \<Rightarrow> oword" where
  "mur2_oword block val =
     (let f = rotl64 (fst val XOR fst block) 27;
          f = f + snd val;
          f = f * 5 + 0x52dce729;
          s = rotl64 (snd val XOR snd block) 31;
          s = s + f;
          s = s * 5 + 0x38495ab5
      in (f, s))"

definition murmur_oword :: "oword \<Rightarrow> oword \<Rightarrow> oword" where
  "murmur_oword block val = mur2_oword (mur1_oword block) val"

text \<open>
  The \<open>switch\<close> of \<open>get_tail\<close> falls through: a tail of \<open>n\<close> bytes enters the first \<open>n\<close> cases from below,
  the first eight bytes go to \<open>first\<close>, the others to \<open>second\<close>.
\<close>

definition get_tail :: "byte_string \<Rightarrow> nat \<Rightarrow> oword \<Rightarrow> oword" where
  "get_tail tail len key =
     (let n = len mod 16;
          second = fold (\<lambda>i k. k XOR push_bit (8 * (i - 8)) (ucast (tail ! i))) (rev [8..<n]) (snd key);
          first = fold (\<lambda>i k. k XOR push_bit (8 * i) (ucast (tail ! i))) (rev [0..<min 8 n]) (fst key)
      in (first, second))"

definition murmur_combine :: "u64 \<Rightarrow> u64 \<Rightarrow> u64" where
  "murmur_combine hash1 hash2 = fst (murmur_oword (hash1, hash2) (0, 0))"

text \<open>
  \<open>memcpy\<close> of \<open>sizeof(OWORDSIZE)\<close> bytes into a block. \<open>OWORDSIZE\<close> is a \<open>size_t\<close>, so eight bytes are copied; the
  second half of the \<open>std::pair\<close> keeps the zero it is constructed with.
\<close>

definition le_u64 :: "byte_string \<Rightarrow> u64" where
  "le_u64 bs = foldr (\<lambda>b v. push_bit 8 v OR ucast b) bs 0"

definition load_oword :: "byte_string \<Rightarrow> oword" where
  "load_oword p = (le_u64 (take 8 p), 0)"

definition murmur_blocks :: "byte_string \<Rightarrow> oword \<Rightarrow> oword" where
  "murmur_blocks data val =
     fold (\<lambda>i val. murmur_oword (load_oword (drop (i * 16) data)) val) [0..<length data div 16] val"

definition murmurhash3_memory :: "byte_string \<Rightarrow> u64 \<Rightarrow> u64" where
  "murmurhash3_memory data seed =
     (let len = length data;
          val = murmur_blocks data (seed, seed);
          tail = get_tail (drop (len div 16 * 16) data) len (0, 0);
          tail = mur1_oword tail;
          f = fst val XOR fst tail;
          s = snd val XOR snd tail;
          f = f XOR word_of_nat len;
          s = s XOR word_of_nat len;
          f = f + s;
          s = s + f;
          f = fmix64 f;
          s = fmix64 s;
          f = f + s
      in f)"

definition StringPieceHash :: "byte_string \<Rightarrow> u64" where
  "StringPieceHash p = murmurhash3_memory p 0x4adf325"

subsection \<open>Sequence hasher\<close>

definition hasher_new :: "u64 \<Rightarrow> oword" where
  "hasher_new seed = (seed, seed)"

definition hasher_merge1 :: "u64 \<Rightarrow> oword \<Rightarrow> oword" where
  "hasher_merge1 one h = murmur_oword (one, 0) h"

definition hasher_merge2 :: "u64 \<Rightarrow> u64 \<Rightarrow> oword \<Rightarrow> oword" where
  "hasher_merge2 one two h = murmur_oword (one, two) h"

definition hasher_result :: "oword \<Rightarrow> u64" where
  "hasher_result h = fmix64 (fst h) + fmix64 (snd h)"

definition hashIndexedSeq :: "u64 \<Rightarrow> u64 list \<Rightarrow> nat list \<Rightarrow> u64" where
  "hashIndexedSeq seed sq idx =
     (let h = hasher_new seed;
          numIndices = length idx;
          h = fold (\<lambda>i. hasher_merge2 (sq ! (idx ! i)) (sq ! (idx ! (i + 1)))) [0..<numIndices div 2] h;
          h = (if odd numIndices then hasher_merge2 (sq ! (idx ! (numIndices - 1))) (word_of_nat numIndices) h
               else hasher_merge1 (word_of_nat numIndices) h)
      in hasher_result h)"

fun hashCtSeqImpl :: "oword \<Rightarrow> u64 list \<Rightarrow> oword" where
  "hashCtSeqImpl h [] = h"
| "hashCtSeqImpl h [one] = hasher_merge1 one h"
| "hashCtSeqImpl h (one # two # args) = hashCtSeqImpl (hasher_merge2 one two h) args"

definition hashCtSeq :: "u64 \<Rightarrow> u64 list \<Rightarrow> u64" where
  "hashCtSeq seed args = hasher_result (hashCtSeqImpl (hasher_new seed) (args @ [word_of_nat (length args)]))"

subsection \<open>SeaHash\<close>

definition SeaHashSeed0 :: u64 where "SeaHashSeed0 = 0x16f11fe89b0d677c"
definition SeaHashSeed1 :: u64 where "SeaHashSeed1 = 0xb480a793d8e6c86c"
definition SeaHashMult :: u64 where "SeaHashMult = 0x6eed0e9da4d94a4f"

text \<open>\<open>SeaHashState\<close>: two words of state, multiplied before and after the shift.\<close>

definition diffuse :: "u64 \<Rightarrow> u64" where
  "diffuse v =
     (let v = v * SeaHashMult;
          a = drop_bit 32 v;
          b = unat (drop_bit 60 v);
          v = v XOR drop_bit b a
      in v * SeaHashMult)"

record seahash_state =
  s0 :: u64
  s1 :: u64

definition sea_withSeed :: "u64 \<Rightarrow> seahash_state" where
  "sea_withSeed seed = \<lparr>s0 = SeaHashSeed0 XOR diffuse seed, s1 = SeaHashSeed1 XOR diffuse seed\<rparr>"

definition sea_mix2 :: "u64 \<Rightarrow> u64 \<Rightarrow> seahash_state \<Rightarrow> seahash_state" where
  "sea_mix2 v1 v2 s = \<lparr>s0 = diffuse (s0 s XOR v1), s1 = diffuse (s1 s XOR v2)\<rparr>"

definition sea_mix1 :: "u64 \<Rightarrow> seahash_state \<Rightarrow> seahash_state" where
  "sea_mix1 v0 s = \<lparr>s0 = s1 s, s1 = diffuse (v0 XOR s0 s)\<rparr>"

definition sea_finish :: "seahash_state \<Rightarrow> u64" where
  "sea_finish s = diffuse (s0 s XOR s1 s)"

text \<open>\<open>SeaHashLite\<close>: one word of state.\<close>

definition lite_diffuse :: "u64 \<Rightarrow> u64" where
  "lite_diffuse v =
     (let v = v * SeaHashMult;
          a = drop_bit 32 v;
          b = unat (drop_bit 60 v)
      in v XOR drop_bit b a)"

definition lite_mix :: "u64 \<Rightarrow> u64 \<Rightarrow> u64" where
  "lite_mix v state = lite_diffuse (state XOR v)"

definition lite_finish :: "u64 \<Rightarrow> u64" where
  "lite_finish state = lite_diffuse (state XOR SeaHashSeed1)"

fun seaHashSeqImpl :: "u64 \<Rightarrow> u64 list \<Rightarrow> u64" where
  "seaHashSeqImpl h [] = h"
| "seaHashSeqImpl h (arg # args) = seaHashSeqImpl (lite_mix arg h) args"

definition seaHashSeq :: "u64 list \<Rightarrow> u64" where
  "seaHashSeq args = lite_finish (seaHashSeqImpl SeaHashSeed0 (word_of_nat (length args) # args))"

definition rawSeahashStart :: "u64 \<Rightarrow> u64 list \<Rightarrow> u64" where
  "rawSeahashStart n args = seaHashSeqImpl SeaHashSeed0 (n # args)"

definition rawSeahashContinue :: "u64 \<Rightarrow> u64 list \<Rightarrow> u64" where
  "rawSeahashContinue state args = seaHashSeqImpl state args"

definition rawSeahashFinish :: "u64 \<Rightarrow> u64 list \<Rightarrow> u64" where
  "rawSeahashFinish state args = lite_finish (seaHashSeqImpl state args)"

definition seaHashSeq2 :: "u64 list \<Rightarrow> u64" where
  "seaHashSeq2 args = lite_finish (seaHashSeqImpl SeaHashSeed0 (args @ [word_of_nat (length args)]))"

definition seaHashIndexedSeq :: "u64 \<Rightarrow> u64 list \<Rightarrow> nat list \<Rightarrow> u64" where
  "seaHashIndexedSeq seed sq idx =
     (let state = word_of_nat (length idx);
          state = lite_mix seed state;
          state = fold (\<lambda>i. lite_mix (sq ! i)) idx state
      in lite_finish state)"

subsection \<open>The fast hashes\<close>

definition fh1_mix :: "u64 \<Rightarrow> u64 \<Rightarrow> u64" where
  "fh1_mix dat state =
     (let v = state XOR dat;
          v = v * SeaHashMult
      in v XOR drop_bit 32 v)"

definition rotl32 :: "u64 \<Rightarrow> u64" where
  "rotl32 v = (push_bit 32 v OR drop_bit 32 v)"

definition fhr_mix :: "u64 \<Rightarrow> u64 \<Rightarrow> u64" where
  "fhr_mix dat state =
     (let v = state XOR dat;
          v = v * SeaHashMult
      in rotl32 v)"

definition masked :: "u32 \<Rightarrow> u64 \<Rightarrow> u32" where
  "masked msk state = (ucast state AND msk)"

text \<open>
  The intrinsics on lanes. \<open>lanes32\<close> splits the 64-bit lanes, \<open>lanes64\<close> joins them. \<open>MM_SHUFFLE z y x w\<close> picks
  lane \<open>w\<close> for the lowest place of every group of four 32-bit lanes.
\<close>

type_synonym register = "u64 list"

definition lanes32 :: "register \<Rightarrow> u32 list" where
  "lanes32 r = concat (map (\<lambda>x. [ucast x, ucast (drop_bit 32 x)]) r)"

fun lanes64 :: "u32 list \<Rightarrow> register" where
  "lanes64 (a # b # r) = (push_bit 32 (ucast b) OR ucast a) # lanes64 r"
| "lanes64 r = []"

fun shuffle4 :: "nat \<Rightarrow> nat \<Rightarrow> nat \<Rightarrow> nat \<Rightarrow> u32 list \<Rightarrow> u32 list" where
  "shuffle4 z y x w (a # b # c # d # r) =
     (let g = [a, b, c, d] in [g ! w, g ! x, g ! y, g ! z] @ shuffle4 z y x w r)"
| "shuffle4 z y x w r = []"

definition mm_shuffle_epi32 :: "nat \<Rightarrow> nat \<Rightarrow> nat \<Rightarrow> nat \<Rightarrow> register \<Rightarrow> register" where
  "mm_shuffle_epi32 z y x w r = lanes64 (shuffle4 z y x w (lanes32 r))"

definition mm_mul_epu32 :: "register \<Rightarrow> register \<Rightarrow> register" where
  "mm_mul_epu32 = map2 (\<lambda>a b. take_bit 32 a * take_bit 32 b)"

definition mm_slli_epi64 :: "register \<Rightarrow> nat \<Rightarrow> register" where
  "mm_slli_epi64 r n = map (push_bit n) r"

definition mm_srli_epi64 :: "register \<Rightarrow> nat \<Rightarrow> register" where
  "mm_srli_epi64 r n = map (drop_bit n) r"

definition mm_add_epi64 :: "register \<Rightarrow> register \<Rightarrow> register" where
  "mm_add_epi64 = map2 (+)"

definition mm_xor :: "register \<Rightarrow> register \<Rightarrow> register" where
  "mm_xor = map2 (XOR)"

definition mm_and32 :: "u32 \<Rightarrow> register \<Rightarrow> register" where
  "mm_and32 msk r = lanes64 (map (\<lambda>x. x AND msk) (lanes32 r))"

definition mm_permute32 :: "nat list \<Rightarrow> register \<Rightarrow> register" where
  "mm_permute32 is r = lanes64 (map (\<lambda>i. lanes32 r ! i) is)"

fun unpackhi4 :: "u32 list \<Rightarrow> u32 list \<Rightarrow> u32 list" where
  "unpackhi4 (a0 # a1 # a2 # a3 # a) (b0 # b1 # b2 # b3 # b) = [a2, b2, a3, b3] @ unpackhi4 a b"
| "unpackhi4 _ _ = []"

definition mm_unpackhi_epi32 :: "register \<Rightarrow> register \<Rightarrow> register" where
  "mm_unpackhi_epi32 a b = lanes64 (unpackhi4 (lanes32 a) (lanes32 b))"

text \<open>\<open>FastHash2\<close>, the SSE version on two lanes.\<close>

definition fh2_new :: register where
  "fh2_new = [SeaHashSeed0, SeaHashSeed0]"

definition fh2_Multiply64Bit :: "register \<Rightarrow> register \<Rightarrow> register" where
  "fh2_Multiply64Bit a b =
     (let ax1 = mm_shuffle_epi32 3 3 1 1 a;
          bx1 = mm_shuffle_epi32 3 3 1 1 b;
          ax0bx0 = mm_mul_epu32 a b;
          ax0bx1 = mm_mul_epu32 a bx1;
          ax1bx0 = mm_mul_epu32 ax1 b;
          ax0bx1_32 = mm_slli_epi64 ax0bx1 32;
          ax1bx0_32 = mm_slli_epi64 ax1bx0 32
      in mm_add_epi64 ax0bx0 (mm_add_epi64 ax0bx1_32 ax1bx0_32))"

definition fh2_mixImpl :: "register \<Rightarrow> register \<Rightarrow> register" where
  "fh2_mixImpl arg state =
     (let v = mm_xor state arg;
          v = fh2_Multiply64Bit v [SeaHashMult, SeaHashMult];
          x = mm_srli_epi64 v 32
      in mm_xor v x)"

definition fh2_mixMem :: "u64 list \<Rightarrow> register \<Rightarrow> register" where
  "fh2_mixMem dat state = fh2_mixImpl (take 2 dat) state"

definition fh2_mixGather :: "u64 list \<Rightarrow> nat list \<Rightarrow> register \<Rightarrow> register" where
  "fh2_mixGather dat indices state = fh2_mixImpl [dat ! (indices ! 0), dat ! (indices ! 1)] state"

definition fh2_jointMaskStore :: "register \<Rightarrow> u32 \<Rightarrow> register \<Rightarrow> u32 list" where
  "fh2_jointMaskStore other msk state =
     (let v1 = mm_shuffle_epi32 2 0 2 0 state;
          v2 = mm_shuffle_epi32 0 2 0 2 other;
          s = take 1 v1 @ drop 1 v2
      in lanes32 (mm_and32 msk s))"

text \<open>\<open>FastHash4\<close>, the AVX2 version on four lanes.\<close>

definition fh4_new :: register where
  "fh4_new = [SeaHashSeed0, SeaHashSeed0, SeaHashSeed0, SeaHashSeed0]"

definition fh4_Multiply64Bit :: "register \<Rightarrow> register \<Rightarrow> register" where
  "fh4_Multiply64Bit a b =
     (let ax1 = mm_shuffle_epi32 3 3 1 1 a;
          bx1 = mm_shuffle_epi32 3 3 1 1 b;
          ax0bx0 = mm_mul_epu32 a b;
          ax0bx1 = mm_mul_epu32 a bx1;
          ax1bx0 = mm_mul_epu32 ax1 b;
          ax0bx1_32 = mm_slli_epi64 ax0bx1 32;
          ax1bx0_32 = mm_slli_epi64 ax1bx0 32
      in mm_add_epi64 ax0bx0 (mm_add_epi64 ax0bx1_32 ax1bx0_32))"

definition fh4_mixImpl :: "register \<Rightarrow> register \<Rightarrow> register" where
  "fh4_mixImpl arg state =
     (let v = mm_xor state arg;
          v = fh4_Multiply64Bit v [SeaHashMult, SeaHashMult, SeaHashMult, SeaHashMult];
          x = mm_srli_epi64 v 32
      in mm_xor v x)"

definition fh4_mixMem :: "u64 list \<Rightarrow> register \<Rightarrow> register" where
  "fh4_mixMem dat state = fh4_mixImpl (take 4 dat) state"

definition fh4_mixBcast :: "u64 \<Rightarrow> register \<Rightarrow> register" where
  "fh4_mixBcast dat state = fh4_mixImpl [dat, dat, dat, dat] state"

definition fh4_mixGatherNaive :: "u64 list \<Rightarrow> nat list \<Rightarrow> register \<Rightarrow> register" where
  "fh4_mixGatherNaive base indices state =
     fh4_mixImpl [base ! (indices ! 0), base ! (indices ! 1), base ! (indices ! 2), base ! (indices ! 3)] state"

text \<open>\<open>_mm256_set_epi32\<close> lists the lanes from the highest.\<close>

definition fh4_maskCompact :: "u32 \<Rightarrow> register \<Rightarrow> register" where
  "fh4_maskCompact msk state = mm_and32 msk (mm_permute32 (rev [0, 2, 4, 6, 0, 2, 4, 6]) state)"

definition fh4_maskCompact2 :: "u32 \<Rightarrow> register \<Rightarrow> register" where
  "fh4_maskCompact2 msk state = mm_and32 msk (mm_shuffle_epi32 2 0 3 1 state)"

definition fh4_merge :: "register \<Rightarrow> register \<Rightarrow> register" where
  "fh4_merge o' state = mm_unpackhi_epi32 state o'"

definition fh4_joinStore :: "register \<Rightarrow> u32 \<Rightarrow> register \<Rightarrow> u32 list" where
  "fh4_joinStore other msk state = lanes32 (take 2 state @ drop 2 other)"

definition fh4_jointMaskStore :: "register \<Rightarrow> u32 \<Rightarrow> register \<Rightarrow> u32 list" where
  "fh4_jointMaskStore other msk state =
     (let v1 = mm_permute32 (rev [0, 2, 4, 6, 0, 2, 4, 6]) state;
          v2 = mm_permute32 (rev [0, 2, 4, 6, 0, 2, 4, 6]) other;
          s = take 2 v1 @ drop 2 v2
      in map (\<lambda>x. x OR msk) (lanes32 s))"

subsection \<open>Mixing loses nothing\<close>

lemma mult_inverse: "SeaHashMult * 0x2f72b4215a3d8caf = 1"
  by (simp add: SeaHashMult_def)

lemma mult_inj: "x * SeaHashMult = y * SeaHashMult \<longleftrightarrow> x = y"
proof
  assume "x * SeaHashMult = y * SeaHashMult"
  then have "x * (SeaHashMult * 0x2f72b4215a3d8caf) = y * (SeaHashMult * 0x2f72b4215a3d8caf)"
    by (simp only: mult.assoc [symmetric])
  then show "x = y" by (simp only: mult_inverse mult_1_right)
qed simp

lemma xor_cancel_left: "(s XOR x = s XOR y) \<longleftrightarrow> (x :: u64) = y"
proof
  assume "s XOR x = s XOR y"
  then have "s XOR (s XOR x) = s XOR (s XOR y)" by simp
  then show "x = y" by (simp only: xor.assoc [symmetric] xor_self_eq xor.left_neutral)
qed simp

lemma xor_cancel_right: "(x XOR s = y XOR s) \<longleftrightarrow> (x :: u64) = y"
  by (metis xor.commute xor_cancel_left)

text \<open>A word whose upper half is xored, shifted by something the upper half determines, into the lower half.\<close>

lemma drop_bit_add: "drop_bit (m + n) (x :: u64) = drop_bit n (drop_bit m x)"
  by (simp add: drop_bit_drop_bit add.commute)

lemma xor_shift_inj:
  fixes x y :: u64
  assumes "x XOR drop_bit (32 + f (drop_bit 32 x)) x = y XOR drop_bit (32 + f (drop_bit 32 y)) y"
  shows "x = y"
proof -
  have hi: "drop_bit 32 (z XOR drop_bit (32 + k) z) = drop_bit 32 z" for z :: u64 and k
    by (rule bit_word_eqI) (auto simp: bit_simps)
  have "drop_bit 32 x = drop_bit 32 y"
    using arg_cong [OF assms, of "drop_bit 32"] by (simp only: hi)
  moreover from this have "drop_bit (32 + f (drop_bit 32 x)) x = drop_bit (32 + f (drop_bit 32 x)) y"
    by (simp only: drop_bit_add)
  ultimately show ?thesis using assms by (simp only: xor_cancel_right)
qed

lemma lite_diffuse_inj: "lite_diffuse x = lite_diffuse y \<longleftrightarrow> x = y"
proof -
  have "lite_diffuse z = (let v = z * SeaHashMult
      in v XOR drop_bit (32 + unat (drop_bit 28 (drop_bit 32 v))) v)" for z
    by (simp add: lite_diffuse_def Let_def drop_bit_drop_bit add.commute)
  then show ?thesis
    using xor_shift_inj [where f = "\<lambda>h. unat (drop_bit 28 h)"] mult_inj by (metis (mono_tags, lifting))
qed

lemma fh1_step_inj: "(x XOR drop_bit 32 x = y XOR drop_bit 32 y) \<longleftrightarrow> (x :: u64) = y"
  using xor_shift_inj [where f = "\<lambda>_. 0"] by auto

lemma rotl32_inverse: "rotl32 (rotl32 v) = v"
  by (rule bit_word_eqI) (auto simp: rotl32_def bit_simps)

lemma rotl32_inj: "rotl32 x = rotl32 y \<longleftrightarrow> x = y"
  by (metis rotl32_inverse)

lemma inj_bij_word: "inj f \<Longrightarrow> bij (f :: u64 \<Rightarrow> u64)"
  by (simp add: bij_def finite_UNIV_inj_surj)

subsection \<open>The vector versions\<close>

lemma mult_halves:
  "take_bit 32 a * take_bit 32 b + (push_bit 32 (take_bit 32 a * take_bit 32 (drop_bit 32 b))
     + push_bit 32 (take_bit 32 (drop_bit 32 a) * take_bit 32 b)) = a * (b :: u64)"
proof -
  let ?la = "take_bit 32 a" and ?lb = "take_bit 32 b" and ?ha = "drop_bit 32 a" and ?hb = "drop_bit 32 b"
  have h: "take_bit 32 (drop_bit 32 x) = drop_bit 32 x" for x :: u64
    by (rule bit_word_eqI) (auto simp: bit_simps dest: bit_imp_le_length)
  have s: "x = push_bit 32 (drop_bit 32 x) + take_bit 32 x" for x :: u64 by (simp add: bits_ident)
  have z: "(2 :: u64) ^ 32 * 2 ^ 32 = 0" by simp
  have "a * b = (2 ^ 32 * ?ha + ?la) * (2 ^ 32 * ?hb + ?lb)"
    using s [of a] s [of b] by (simp only: push_bit_eq_mult mult.commute)
  also have "\<dots> = (2 ^ 32 * 2 ^ 32) * (?ha * ?hb) + (?la * ?lb + (2 ^ 32 * (?la * ?hb) + 2 ^ 32 * (?ha * ?lb)))"
    by (simp only: algebra_simps)
  finally show ?thesis unfolding h push_bit_eq_mult z by (simp only: mult_zero_left add_0 mult.commute [of "2 ^ 32"])
qed

lemma lane_low [simp]: "(ucast (ucast (x :: u64) :: u32) :: u64) = take_bit 32 x"
  by (rule bit_word_eqI) (auto simp: bit_simps)


lemma lane_pushed [simp]: "take_bit 32 (push_bit 32 (x :: u64)) = 0"
  by (simp add: take_bit_push_bit)

lemma register2: "length r = 2 \<longleftrightarrow> (\<exists>a b. r = [a, b])"
  by (auto simp: numeral_2_eq_2 length_Suc_conv)

lemma register4: "length r = 4 \<longleftrightarrow> (\<exists>a b c d. r = [a, b, c, d])"
  by (auto simp: eval_nat_numeral length_Suc_conv)

lemmas intrinsics = mm_shuffle_epi32_def mm_mul_epu32_def mm_slli_epi64_def mm_srli_epi64_def mm_add_epi64_def
  mm_xor_def lanes32_def Let_def

lemma fh2_Multiply: "fh2_Multiply64Bit [a, b] [m, m] = [a * m, b * m]"
  using mult_halves [of a m] mult_halves [of b m] by (simp add: fh2_Multiply64Bit_def intrinsics)

lemma fh4_Multiply: "fh4_Multiply64Bit [a, b, c, d] [m, m, m, m] = [a * m, b * m, c * m, d * m]"
  using mult_halves [of a m] mult_halves [of b m] mult_halves [of c m] mult_halves [of d m]
  by (simp add: fh4_Multiply64Bit_def intrinsics)


lemma fh2_mixImpl_lanes:
  "length s = 2 \<Longrightarrow> length d = 2 \<Longrightarrow> fh2_mixImpl d s = map2 fh1_mix d s"
  by (auto simp: register2 fh2_mixImpl_def mm_xor_def mm_srli_epi64_def fh2_Multiply fh1_mix_def Let_def)

lemma fh4_mixImpl_lanes:
  "length s = 4 \<Longrightarrow> length d = 4 \<Longrightarrow> fh4_mixImpl d s = map2 fh1_mix d s"
  by (auto simp: register4 fh4_mixImpl_def mm_xor_def mm_srli_epi64_def fh4_Multiply fh1_mix_def Let_def)

text \<open>A chain of mixing steps in a register is as many chains of the scalar hash.\<close>

lemma fold_lanes:
  assumes "\<And>s d. length s = n \<Longrightarrow> length d = n \<Longrightarrow> f d s = map2 fh1_mix d s"
    and "\<forall>d \<in> set ds. length d = n" and "length s = n" and "i < n"
  shows "length (fold f ds s) = n \<and> fold f ds s ! i = fold (\<lambda>d. fh1_mix (d ! i)) ds (s ! i)"
  using assms(2,3)
proof (induction ds arbitrary: s)
  case (Cons d ds)
  then have "f d s = map2 fh1_mix d s" by (simp add: assms(1))
  with Cons assms(4) show ?case by simp
qed simp

subsection \<open>Murmur\<close>

lemma load_oword_half: "length a = 8 \<Longrightarrow> load_oword (a @ x) = load_oword (a @ y)"
  by (simp add: load_oword_def)

lemma murmur_blocks_Cons:
  assumes "length b = 16"
  shows "murmur_blocks (b @ r) val = murmur_blocks r (murmur_oword (load_oword b) val)"
proof -
  have "length (b @ r) div 16 = Suc (length r div 16)" using assms by simp
  then have u: "[0..<length (b @ r) div 16] = 0 # map Suc [0..<length r div 16]"
    by (simp only: map_Suc_upt upt_conv_Cons zero_less_Suc)
  have l: "load_oword (drop (0 * 16) (b @ r)) = load_oword b" using assms by (simp add: load_oword_def)
  have d: "drop (Suc i * 16) (b @ r) = drop (i * 16) r" for i using assms by simp
  show ?thesis unfolding murmur_blocks_def u by (simp only: fold_map comp_def fold.simps l d)
qed

subsection \<open>Properties\<close>

text \<open>The mixing step of the pattern and n-gram hashes (\<open>FastHashRot\<close>, \<open>FastHash1\<close>) and of \<open>SeaHashLite\<close> loses nothing: for a fixed datum it permutes the
  64-bit states, and for a fixed state different data give different states.
\<close>

theorem hash_mixing_permutes:
  "bij (fhr_mix d) \<and> bij (\<lambda>x. fhr_mix x s) \<and> bij (fh1_mix d) \<and> bij (\<lambda>x. fh1_mix x s)
   \<and> bij (lite_mix d) \<and> bij (\<lambda>x. lite_mix x s)"
  by (intro conjI inj_bij_word injI)
    (simp_all add: fhr_mix_def fh1_mix_def lite_mix_def Let_def rotl32_inj fh1_step_inj lite_diffuse_inj
      mult_inj xor_cancel_left xor_cancel_right)

text \<open>C24: The vector hashes are the scalar one on every lane: whatever sequence of data is mixed into a register of two or four
  lanes, lane \<open>i\<close> holds what \<open>FastHash1\<close> computes from the data of lane \<open>i\<close>, although the
  code builds the 64-bit product from three 32-bit multiplications.
\<close>

theorem vector_hash_is_scalar:
  assumes "\<forall>d \<in> set ds. length d = 2" "\<forall>d \<in> set es. length d = 4" "i < 2" "j < 4"
  shows "fold fh2_mixImpl ds fh2_new ! i = fold (\<lambda>d. fh1_mix (d ! i)) ds SeaHashSeed0
     \<and> fold fh4_mixImpl es fh4_new ! j = fold (\<lambda>d. fh1_mix (d ! j)) es SeaHashSeed0"
proof -
  have "fh2_new ! i = SeaHashSeed0" "fh4_new ! j = SeaHashSeed0"
    using assms(3,4) by (auto simp: fh2_new_def fh4_new_def less_Suc_eq numeral_eq_Suc)
  then show ?thesis
    using fold_lanes [of 2 fh2_mixImpl ds fh2_new i] fold_lanes [of 4 fh4_mixImpl es fh4_new j] assms
    by (simp add: fh2_mixImpl_lanes fh4_mixImpl_lanes fh2_new_def fh4_new_def)
qed

theorem vector_hash_is_scalar_witness:
  "fold fh2_mixImpl [[50, 80], [1, 2]] fh2_new ! 1 = fold (\<lambda>d. fh1_mix (d ! 1)) [[50, 80], [1, 2]] SeaHashSeed0
   \<and> fold fh4_mixImpl [[50, 80, 105, 241]] fh4_new ! 3 = fold (\<lambda>d. fh1_mix (d ! 3)) [[50, 80, 105, 241]] SeaHashSeed0"
  by (rule vector_hash_is_scalar) simp_all

text \<open>\<open>murmurhash3_memory\<close> never sees the second half of a full 16-byte block: strings that differ only there have the
  same hash under every seed, because \<open>memcpy\<close> copies the size of a \<open>size_t\<close> and not of a block.
\<close>

theorem murmur_ignores_half_block:
  assumes "length p mod 16 = 0" "length a = 8" "length x = 8" "length y = 8"
  shows "murmurhash3_memory (p @ a @ x @ r) seed = murmurhash3_memory (p @ a @ y @ r) seed"
proof -
  have "murmur_blocks (p @ a @ x @ r) v = murmur_blocks (p @ a @ y @ r) v" for v
    using assms(1)
  proof (induction "length p div 16" arbitrary: p v)
    case 0
    then have "p = []" by (metis div_mod_decomp length_0_conv mult_0 add_0)
    then show ?case
      using assms by (simp add: murmur_blocks_Cons [of "a @ x" r, simplified] murmur_blocks_Cons [of "a @ y" r, simplified]
          load_oword_half [of a x y])
  next
    case (Suc n)
    then have l: "16 \<le> length p" by (cases "length p < 16") auto
    then have p: "p = take 16 p @ drop 16 p" "length (take 16 p) = 16" by simp_all
    have "n = length (drop 16 p) div 16" "length (drop 16 p) mod 16 = 0"
      using Suc.hyps(2) Suc.prems l by (simp_all add: le_div_geq le_mod_geq)
    from Suc.hyps(1) [OF this] show ?case
      by (subst (1 2) p(1)) (simp only: append_assoc murmur_blocks_Cons [OF p(2)])
  qed
  moreover have "drop (length (p @ a @ z @ r) div 16 * 16) (p @ a @ z @ r) = drop (length r div 16 * 16) r"
    if "length z = 8" for z
  proof -
    obtain k where "length p = 16 * k" using assms(1) by (metis mod_0_imp_dvd dvdE)
    with that assms(2) have k: "length p = 16 * k" "length (p @ a @ z @ r) = length r + (k + 1) * 16" by simp_all
    have "length (p @ a @ z @ r) div 16 = k + 1 + length r div 16"
      unfolding k(2) by (rule div_mult_self1) simp
    then have "length (p @ a @ z @ r) div 16 * 16 = length p + 16 + length r div 16 * 16"
      by (simp only: k(1) add_mult_distrib)
    then show ?thesis using that assms(2) by (simp only:) simp
  qed
  ultimately show ?thesis using assms by (simp add: murmurhash3_memory_def Let_def)
qed

end
