(* ===== verification/Arrays.thy ===== *)
theory Arrays
  imports Prelude
begin

text \<open>
  The array algorithms of \<open>src/src/util/stl_util.h\<close> (partial selection) and
  \<open>src/src/util/array_slice_util.h\<close> (removal of given positions). An array is a list, an iterator an index into it; the
  comparison is an argument, as it is in the code.
\<close>

definition swap :: "nat \<Rightarrow> nat \<Rightarrow> 'a list \<Rightarrow> 'a list" where
  "swap i j a = a[i := a ! j, j := a ! i]"

subsection \<open>Selection\<close>

text \<open>
  The loop of \<open>part_step\<close> around the pivot. The code tests \<open>start != end\<close>; \<open>start\<close> is never behind \<open>end\<close>.
\<close>

function part_loop :: "('a \<Rightarrow> 'a \<Rightarrow> bool) \<Rightarrow> nat \<Rightarrow> 'a list \<Rightarrow> nat \<Rightarrow> nat \<Rightarrow> 'a list \<times> nat" where
  "part_loop lt pivot a start end' =
     (if start \<ge> end' then (a, end')
      else if lt (a ! start) (a ! pivot) then part_loop lt pivot a (start + 1) end'
      else part_loop lt pivot (swap start end' a) start (end' - 1))"
  by pat_completeness auto
termination by (relation "measure (\<lambda>(lt, pivot, a, start, end'). end' - start)") auto

declare part_loop.simps [simp del]

definition part_step :: "('a \<Rightarrow> 'a \<Rightarrow> bool) \<Rightarrow> 'a list \<Rightarrow> nat \<Rightarrow> nat \<Rightarrow> 'a list \<times> nat" where
  "part_step lt a start end' =
     (let sz = end' - start
      in if sz = 1 then (a, end')
         else if sz = 2 then
           (let n = start + 1;
                a = (if lt (a ! n) (a ! start) then swap n start a else a)
            in (a, n))
         else if sz = 3 then
           (let n0 = start; n1 = start + 1; n2 = start + 2;
                a = (if lt (a ! n1) (a ! n0) then swap n1 n0 a else a);
                a = (if lt (a ! n2) (a ! n1) then swap n2 n1 a else a);
                a = (if lt (a ! n1) (a ! n0) then swap n1 n0 a else a)
            in (a, n1))
         else
           (let pivot = start + sz div 2;
                end' = end' - 1;
                a = swap pivot end' a;
                pivot = end';
                (a, end') = part_loop lt pivot a start (end' - 1)
            in if lt (a ! pivot) (a ! end') then (swap pivot end' a, end')
               else (swap pivot (end' + 1) a, end' + 1)))"

text \<open>
  The loop of \<open>partition\<close> may run forever (when \<open>maxSize\<close> is 0), so the result is an option.
\<close>

partial_function (option) util_partition ::
  "('a \<Rightarrow> 'a \<Rightarrow> bool) \<Rightarrow> 'a list \<Rightarrow> nat \<Rightarrow> nat \<Rightarrow> nat \<Rightarrow> nat \<Rightarrow> ('a list \<times> nat) option" where
  "util_partition lt a start end' minSize maxSize =
     (let (a, mid) = part_step lt a start end'; sz = mid - start
      in if minSize \<le> sz \<and> sz \<le> maxSize then Some (a, mid)
         else if sz > maxSize then util_partition lt a start mid minSize maxSize
         else if minSize - (sz + 1) = 0 then Some (a, mid + 1)
         else util_partition lt a (mid + 1) end' (minSize - (sz + 1)) (maxSize - (sz + 1)))"

subsection \<open>Removal\<close>

text \<open>
  The \<open>for\<close> loop of \<open>compact\<close> ends when the last position to erase has been passed, the \<open>while\<close> loop moves the rest.
\<close>

function compact_for :: "nat list \<Rightarrow> 'a list \<Rightarrow> nat \<Rightarrow> nat \<Rightarrow> nat \<Rightarrow> 'a list \<times> nat \<times> nat" where
  "compact_for toErase a erasingIdx copyTarget copySrc =
     (if copySrc < length a \<and> erasingIdx < length toErase then
        if copySrc = toErase ! erasingIdx then compact_for toErase a (erasingIdx + 1) copyTarget (copySrc + 1)
        else compact_for toErase (swap copyTarget copySrc a) erasingIdx (copyTarget + 1) (copySrc + 1)
      else (a, copyTarget, copySrc))"
  by pat_completeness auto
termination
  by (relation "measure (\<lambda>(toErase, a, erasingIdx, copyTarget, copySrc). length a - copySrc)") (auto simp: swap_def)

function compact_while :: "'a list \<Rightarrow> nat \<Rightarrow> nat \<Rightarrow> 'a list" where
  "compact_while a copyTarget copySrc =
     (if copySrc < length a then compact_while (swap copyTarget copySrc a) (copyTarget + 1) (copySrc + 1) else a)"
  by pat_completeness auto
termination
  by (relation "measure (\<lambda>(a, copyTarget, copySrc). length a - copySrc)") (auto simp: swap_def)

declare compact_for.simps [simp del] compact_while.simps [simp del]

definition compact :: "'a list \<Rightarrow> nat list \<Rightarrow> 'a list" where
  "compact a toErase =
     (if toErase = [] then a
      else let copyTarget = toErase ! 0;
               (a, copyTarget, copySrc) = compact_for toErase a 1 copyTarget (copyTarget + 1)
           in compact_while a copyTarget copySrc)"

definition contains :: "'a list \<Rightarrow> 'a \<Rightarrow> bool" where
  "contains c i = list_ex (\<lambda>x. x = i) c"

subsection \<open>Swapping\<close>

lemma length_swap [simp]: "length (swap i j a) = length a"
  by (simp add: swap_def)

lemma mset_swap' [simp]: "i < length a \<Longrightarrow> j < length a \<Longrightarrow> mset (swap i j a) = mset a"
  by (simp add: swap_def mset_swap)

lemma swap_nth: "i < length a \<Longrightarrow> j < length a \<Longrightarrow>
    swap i j a ! k = (if k = i then a ! j else if k = j then a ! i else a ! k)"
  by (auto simp: swap_def nth_list_update)

text \<open>
  An array that differs from another only by a permutation of the positions \<open>s\<close> to \<open>e - 1\<close>.
\<close>

definition permutes_range :: "'a list \<Rightarrow> 'a list \<Rightarrow> nat \<Rightarrow> nat \<Rightarrow> bool" where
  "permutes_range a b s e \<longleftrightarrow> length b = length a \<and> mset b = mset a
     \<and> (\<forall>k. k \<notin> {s..<e} \<longrightarrow> b ! k = a ! k) \<and> (\<forall>i \<in> {s..<e}. \<exists>j \<in> {s..<e}. b ! i = a ! j)"

lemma permutes_range_refl [simp]: "permutes_range a a s e"
  by (auto simp: permutes_range_def)

lemma permutes_range_trans: "permutes_range a b s e \<Longrightarrow> permutes_range b c s e \<Longrightarrow> permutes_range a c s e"
  unfolding permutes_range_def by (metis (no_types, lifting))

lemma permutes_range_mono:
  assumes "permutes_range a b s' e'" and "s \<le> s'" "e' \<le> e"
  shows "permutes_range a b s e"
proof -
  have "\<exists>j \<in> {s..<e}. b ! i = a ! j" if "i \<in> {s..<e}" for i
  proof (cases "i \<in> {s'..<e'}")
    case True
    with assms(1) obtain j where "j \<in> {s'..<e'}" "b ! i = a ! j" unfolding permutes_range_def by blast
    with assms(2,3) show ?thesis by (intro bexI [of _ j]) auto
  next
    case False
    with assms(1) that show ?thesis by (auto simp: permutes_range_def)
  qed
  with assms show ?thesis by (auto simp: permutes_range_def)
qed

lemma permutes_range_swap [intro]:
  "s \<le> i \<Longrightarrow> i < e \<Longrightarrow> s \<le> j \<Longrightarrow> j < e \<Longrightarrow> e \<le> length a \<Longrightarrow> permutes_range a (swap i j a) s e"
  by (auto simp: permutes_range_def swap_nth)

lemma permutes_range_nth:
  assumes "permutes_range a b s e" "\<And>j. s \<le> j \<Longrightarrow> j < e \<Longrightarrow> P (a ! j)" "s \<le> i" "i < e"
  shows "P (b ! i)"
  using assms unfolding permutes_range_def by (metis atLeastLessThan_iff)

lemma part_loop_spec:
  assumes "start \<le> e" "e < pivot" "pivot < length a" "part_loop lt pivot a start e = (b, m)"
  shows "permutes_range a b start (Suc e) \<and> start \<le> m \<and> m \<le> e
    \<and> (\<forall>i. start \<le> i \<and> i < m \<longrightarrow> lt (b ! i) (b ! pivot))
    \<and> (\<forall>i. m < i \<and> i \<le> e \<longrightarrow> \<not> lt (b ! i) (b ! pivot))"
  using assms
proof (induction lt pivot a start e rule: part_loop.induct)
  case (1 lt pivot a start e)
  consider "start \<ge> e" | "start < e" "lt (a ! start) (a ! pivot)" | "start < e" "\<not> lt (a ! start) (a ! pivot)"
    by linarith
  then show ?case
  proof cases
    case 1
    with "1.prems" show ?thesis by (auto simp: part_loop.simps [of lt])
  next
    case 2
    with "1.prems" have r: "part_loop lt pivot a (start + 1) e = (b, m)" by (simp add: part_loop.simps [of lt _ _ start])
    have IH: "permutes_range a b (start + 1) (Suc e) \<and> start + 1 \<le> m \<and> m \<le> e
      \<and> (\<forall>i. start + 1 \<le> i \<and> i < m \<longrightarrow> lt (b ! i) (b ! pivot))
      \<and> (\<forall>i. m < i \<and> i \<le> e \<longrightarrow> \<not> lt (b ! i) (b ! pivot))"
      using "1.IH"(1) 2 "1.prems" r by simp
    then have "b ! start = a ! start" "b ! pivot = a ! pivot" using "1.prems" by (auto simp: permutes_range_def)
    with 2 IH have "lt (b ! i) (b ! pivot)" if "start \<le> i" "i < m" for i
      using that by (cases "i = start") auto
    moreover have "permutes_range a b start (Suc e)" using IH by (auto intro: permutes_range_mono)
    ultimately show ?thesis using IH by simp
  next
    case 3
    let ?a = "swap start e a"
    from 3 "1.prems" have r: "part_loop lt pivot ?a start (e - 1) = (b, m)" by (simp add: part_loop.simps [of lt _ a])
    have IH: "permutes_range ?a b start (Suc (e - 1)) \<and> start \<le> m \<and> m \<le> e - 1
      \<and> (\<forall>i. start \<le> i \<and> i < m \<longrightarrow> lt (b ! i) (b ! pivot))
      \<and> (\<forall>i. m < i \<and> i \<le> e - 1 \<longrightarrow> \<not> lt (b ! i) (b ! pivot))"
      using "1.IH"(2) 3 "1.prems" r by simp
    then have "b ! e = ?a ! e" "b ! pivot = ?a ! pivot" using 3 "1.prems" by (auto simp: permutes_range_def)
    then have "b ! e = a ! start" "b ! pivot = a ! pivot" using 3 "1.prems" by (auto simp: swap_nth)
    with 3 IH have "\<not> lt (b ! i) (b ! pivot)" if "m < i" "i \<le> e" for i
      using that by (cases "i = e") auto
    moreover have "permutes_range a b start (Suc e)"
    proof (rule permutes_range_trans)
      show "permutes_range a ?a start (Suc e)" using 3 "1.prems" by (intro permutes_range_swap) auto
      show "permutes_range ?a b start (Suc e)" 
        using permutes_range_mono [OF IH [THEN conjunct1]] 3 by simp
    qed
    moreover have "start \<le> m" "m \<le> e" using IH by auto
    ultimately show ?thesis using IH by blast
  qed
qed

text \<open>The laws of a comparison that \<open>std::sort\<close> and \<open>partition\<close> rely on.\<close>

locale weak_order =
  fixes lt :: "'a \<Rightarrow> 'a \<Rightarrow> bool"
  assumes irrefl: "\<not> lt x x"
    and neg_trans: "\<not> lt x y \<Longrightarrow> \<not> lt y z \<Longrightarrow> \<not> lt x z"
    and asym: "lt x y \<Longrightarrow> \<not> lt y x"
begin

lemma part_step_spec:
  assumes "s < e" "e \<le> length a" "part_step lt a s e = (b, m)"
  shows "permutes_range a b s e"
    and "if e - s = 1 then m = e else s \<le> m \<and> m < e
      \<and> (\<forall>i. s \<le> i \<and> i < m \<longrightarrow> \<not> lt (b ! m) (b ! i)) \<and> (\<forall>j. m \<le> j \<and> j < e \<longrightarrow> \<not> lt (b ! j) (b ! m))"
proof -
  consider "e - s = 1" | "e - s = 2" | "e - s = 3" | "4 \<le> e - s" using assms(1) by linarith
  then have "permutes_range a b s e \<and> (if e - s = 1 then m = e else s \<le> m \<and> m < e
      \<and> (\<forall>i. s \<le> i \<and> i < m \<longrightarrow> \<not> lt (b ! m) (b ! i)) \<and> (\<forall>j. m \<le> j \<and> j < e \<longrightarrow> \<not> lt (b ! j) (b ! m)))"
  proof cases
    case 1
    with assms show ?thesis by (auto simp: part_step_def)
  next
    case 2
    then have e: "e = s + 2" by simp
    from 2 assms have b: "b = (if lt (a ! (s + 1)) (a ! s) then swap (s + 1) s a else a)" and m: "m = s + 1"
      by (auto simp: part_step_def Let_def)
    have "permutes_range a b s e" using b assms(2) by (auto simp: e)
    moreover have "\<not> lt (b ! (s + 1)) (b ! s)" using b assms(2) asym by (auto simp: swap_nth e)
    moreover have "i = s" if "s \<le> i" "i < s + 1" for i using that by simp
    moreover have "j = s + 1" if "s + 1 \<le> j" "j < s + 2" for j using that by simp
    ultimately have "\<forall>i. s \<le> i \<and> i < m \<longrightarrow> \<not> lt (b ! m) (b ! i)" "\<forall>j. m \<le> j \<and> j < e \<longrightarrow> \<not> lt (b ! j) (b ! m)"
      "permutes_range a b s e"
      using irrefl unfolding m e by metis+
    then show ?thesis using 2 by (auto simp: m e)
  next
    case 3
    then have e: "e = s + 3" by simp
    define a1 where "a1 = (if lt (a ! (s + 1)) (a ! s) then swap (s + 1) s a else a)"
    define a2 where "a2 = (if lt (a1 ! (s + 2)) (a1 ! (s + 1)) then swap (s + 2) (s + 1) a1 else a1)"
    have b: "b = (if lt (a2 ! (s + 1)) (a2 ! s) then swap (s + 1) s a2 else a2)" and m: "m = s + 1"
      using 3 assms(3) by (auto simp: part_step_def Let_def a1_def a2_def)
    have p: "permutes_range a a1 s e" "permutes_range a1 a2 s e" "permutes_range a2 b s e"
      "length a1 = length a" "length a2 = length a"
      using assms(1,2) by (auto simp: a1_def a2_def b e)
    have 1: "\<not> lt (a1 ! (s + 1)) (a1 ! s)" using assms(2) asym by (auto simp: a1_def swap_nth e)
    have 2: "\<not> lt (a2 ! (s + 2)) (a2 ! (s + 1)) \<and> \<not> lt (a2 ! (s + 2)) (a2 ! s)"
    proof (cases "lt (a1 ! (s + 2)) (a1 ! (s + 1))")
      case True
      then show ?thesis using 1 assms(2) p(4) asym by (simp add: a2_def swap_nth e)
    next
      case False
      then show ?thesis using neg_trans [OF False 1] by (simp add: a2_def)
    qed
    then have "\<not> lt (b ! (s + 1)) (b ! s) \<and> \<not> lt (b ! (s + 2)) (b ! (s + 1))"
      using assms(2) p(5) asym by (auto simp: b swap_nth e)
    moreover have "i = s" if "s \<le> i" "i < s + 1" for i using that by simp
    moreover have "j = s + 1 \<or> j = s + 2" if "s + 1 \<le> j" "j < s + 3" for j using that by linarith
    ultimately have "\<forall>i. s \<le> i \<and> i < m \<longrightarrow> \<not> lt (b ! m) (b ! i)" "\<forall>j. m \<le> j \<and> j < e \<longrightarrow> \<not> lt (b ! j) (b ! m)"
      using irrefl unfolding m e by metis+
    with p(1-3) 3 show ?thesis by (auto simp: m e intro: permutes_range_trans)
  next
    case 4
    define p where "p = e - 1"
    define a1 where "a1 = swap (s + (e - s) div 2) p a"
    obtain a2 n where l: "part_loop lt p a1 s (p - 1) = (a2, n)" by fastforce
    have bounds: "s \<le> p - 1" "p - 1 < p" "p < length a1" "s < p" "s + (e - s) div 2 < e"
      using 4 assms(1,2) by (auto simp: p_def a1_def)
    from part_loop_spec [OF bounds(1-3) l]
    have sp: "permutes_range a1 a2 s (Suc (p - 1))" "s \<le> n" "n \<le> p - 1"
      "\<And>i. s \<le> i \<Longrightarrow> i < n \<Longrightarrow> lt (a2 ! i) (a2 ! p)" "\<And>i. n < i \<Longrightarrow> i \<le> p - 1 \<Longrightarrow> \<not> lt (a2 ! i) (a2 ! p)"
      by blast+
    have r: "(b, m) = (if lt (a2 ! p) (a2 ! n) then (swap p n a2, n) else (swap p (n + 1) a2, n + 1))"
      using 4 assms(3) l by (auto simp: part_step_def Let_def p_def a1_def)
    have a1: "permutes_range a a1 s e" unfolding a1_def using bounds assms(1,2) by (intro permutes_range_swap) (auto simp: p_def)
    have a2: "permutes_range a1 a2 s e" using sp(1) bounds by (auto intro!: permutes_range_mono [OF sp(1)] simp: p_def)
    have len: "length a2 = length a" using a1 a2 by (simp add: permutes_range_def)
    have pe: "p < e" "e \<le> length a2" "Suc p = e" using assms(1,2) len by (auto simp: p_def)
    define x where "x = a2 ! p"
    have left: "\<not> lt x (a2 ! i)" if "s \<le> i" "i < n" for i using sp(4) [OF that] asym by (simp add: x_def)
    show ?thesis
    proof (cases "lt (a2 ! p) (a2 ! n)")
      case True
      then have b: "b = swap p n a2" and m: "m = n" using r by simp_all
      have nth: "b ! k = (if k = p then a2 ! n else if k = n then x else a2 ! k)" for k
        using pe sp(3) bounds by (simp add: b swap_nth x_def)
      have "permutes_range a2 b s e" unfolding b using sp(2,3) pe bounds by (intro permutes_range_swap) auto
      then have "permutes_range a b s e" by (rule permutes_range_trans [OF permutes_range_trans [OF a1 a2]])
      moreover have "s \<le> m" "m < e" "e - s \<noteq> 1" using sp(2,3) 4 pe bounds by (auto simp: m)
      moreover have "\<not> lt (b ! j) (b ! m)" if "m \<le> j" "j < e" for j
      proof -
        note h = that
        consider "j = n" | "j = p" "j \<noteq> n" | "n < j" "j \<le> p - 1" using h pe m by linarith
        then show ?thesis
          using sp(5) [of j] asym [OF True] irrefl sp(3) bounds unfolding m nth by cases (simp_all add: x_def)
      qed
      moreover have "\<not> lt (b ! m) (b ! i)" if "s \<le> i" "i < m" for i
        using that left [of i] sp(3) bounds unfolding m nth by auto
      ultimately show ?thesis by simp
    next
      case False
      then have b: "b = swap p (n + 1) a2" and m: "m = n + 1" using r by simp_all
      have nth: "b ! k = (if k = p then a2 ! (n + 1) else if k = n + 1 then x else a2 ! k)" for k
        using pe sp(3) bounds by (simp add: b swap_nth x_def)
      have "permutes_range a2 b s e" unfolding b using sp(2,3) pe bounds by (intro permutes_range_swap) auto
      then have "permutes_range a b s e" by (rule permutes_range_trans [OF permutes_range_trans [OF a1 a2]])
      moreover have "s \<le> m" "m < e" "e - s \<noteq> 1" using sp(2,3) 4 pe bounds by (auto simp: m)
      moreover have "\<not> lt (b ! j) (b ! m)" if "m \<le> j" "j < e" for j
      proof -
        note h = that
        consider "j = n + 1" "j = p" | "j = n + 1" "j \<noteq> p" | "j = p" "j \<noteq> n + 1" | "n + 1 < j" "j \<le> p - 1"
          using h pe m by linarith
        then show ?thesis
          using sp(5) [of j] sp(5) [of "n + 1"] irrefl sp(3) bounds unfolding m nth by cases (simp_all add: x_def)
      qed
      moreover have "\<not> lt (b ! m) (b ! i)" if "s \<le> i" "i < m" for i
        using that left [of i] False sp(3) bounds pe unfolding m nth by (auto simp: x_def less_Suc_eq)
      ultimately show ?thesis by simp
    qed
  qed
  then show "permutes_range a b s e"
    and "if e - s = 1 then m = e else s \<le> m \<and> m < e
      \<and> (\<forall>i. s \<le> i \<and> i < m \<longrightarrow> \<not> lt (b ! m) (b ! i)) \<and> (\<forall>j. m \<le> j \<and> j < e \<longrightarrow> \<not> lt (b ! j) (b ! m))"
    by blast+
qed


text \<open>
  Selection ends and leaves a permutation of the range in which no element of the first part comes after one
  of the second part; the first part has a size in the given bounds.
\<close>

lemma util_partition_ok:
  assumes "s < e" "e \<le> length a" "1 \<le> mn" "mn \<le> mx" "mx \<le> e - s"
  shows "\<exists>b m. util_partition lt a s e mn mx = Some (b, m) \<and> permutes_range a b s e
    \<and> s + mn \<le> m \<and> m \<le> s + mx \<and> (\<forall>i j. s \<le> i \<and> i < m \<and> m \<le> j \<and> j < e \<longrightarrow> \<not> lt (b ! j) (b ! i))"
  using assms
proof (induction "e - s" arbitrary: a s e mn mx rule: less_induct)
  case less
  obtain b m where ps: "part_step lt a s e = (b, m)" by fastforce
  note pr = part_step_spec(1) [OF less.prems(1,2) ps] and sp = part_step_spec(2) [OF less.prems(1,2) ps]
  have len: "length b = length a" using pr by (simp add: permutes_range_def)
  have m: "s \<le> m" "m \<le> e" using sp less.prems(1) by (auto split: if_splits)
  have split: "\<not> lt (b ! j) (b ! i)" if "s \<le> i" "i < m" "m \<le> j" "j < e" for i j
    using that sp neg_trans [of "b ! j" "b ! m" "b ! i"] by (auto split: if_splits)
  consider "mn \<le> m - s" "m - s \<le> mx" | "m - s > mx" | "m - s < mn" "mn = m - s + 1" | "m - s + 1 < mn" by linarith
  then show ?case
  proof cases
    case 1
    then have "util_partition lt a s e mn mx = Some (b, m)" by (subst util_partition.simps) (simp add: ps)
    with pr 1 m split show ?thesis by (intro exI [of _ b] exI [of _ m]) auto
  next
    case 2
    then have u: "util_partition lt a s e mn mx = util_partition lt b s m mn mx" using less.prems(4)
      by (subst util_partition.simps) (simp add: ps)
    have "m < e" using 2 sp less.prems m by (auto split: if_splits)
    then have "s < m" "m - s < e - s" "m \<le> length b" "mx \<le> m - s" using 2 less.prems len by linarith+
    then obtain c k where c: "util_partition lt b s m mn mx = Some (c, k)" "permutes_range b c s m" "s + mn \<le> k" "k \<le> s + mx"
      "\<And>i j. s \<le> i \<Longrightarrow> i < k \<Longrightarrow> k \<le> j \<Longrightarrow> j < m \<Longrightarrow> \<not> lt (c ! j) (c ! i)"
      using less.hyps [of m s b mn mx] less.prems(3,4) by blast
    have "\<not> lt (c ! j) (c ! i)" if "s \<le> i" "i < k" "k \<le> j" "j < e" for i j
    proof (cases "j < m")
      case False
      then have "c ! j = b ! j" using c(2) by (auto simp: permutes_range_def)
      moreover have "\<not> lt (b ! j) (c ! i)"
        using False that 2 c(4) split by (intro permutes_range_nth [OF c(2), where P = "\<lambda>x. \<not> lt (b ! j) x"]) auto
      ultimately show ?thesis by simp
    qed (use that c(5) in blast)
    moreover have "permutes_range a c s e"
      using permutes_range_trans [OF pr permutes_range_mono [OF c(2)]] m by simp
    ultimately show ?thesis unfolding u c(1) using c(3,4) by auto
  next
    case 3
    then have "util_partition lt a s e mn mx = Some (b, m + 1)" using less.prems(4)
      by (subst util_partition.simps) (simp add: ps)
    moreover have "m < e" "e - s \<noteq> 1" using 3 sp less.prems m by (auto split: if_splits)
    moreover have "\<not> lt (b ! j) (b ! i)" if "s \<le> i" "i < m + 1" "m + 1 \<le> j" "j < e" for i j
      using that sp split [of i j] by (cases "i = m") (auto split: if_splits)
    ultimately show ?thesis using pr 3 m less.prems(4) by (intro exI [of _ b] exI [of _ "m + 1"]) auto
  next
    case 4
    then have u: "util_partition lt a s e mn mx
        = util_partition lt b (m + 1) e (mn - (m - s + 1)) (mx - (m - s + 1))" using less.prems(4)
      by (subst util_partition.simps) (simp add: ps Let_def)
    have me: "m + 1 < e" using 4 m less.prems by linarith
    then have piv: "\<not> lt (b ! m) (b ! i)" if "s \<le> i" "i < m" for i using that sp by (auto split: if_splits)
    have pir: "\<not> lt (b ! j) (b ! m)" if "m \<le> j" "j < e" for j using that sp me m by (auto split: if_splits)
    have ar: "e - (m + 1) < e - s" "m + 1 < e" "e \<le> length b" "1 \<le> mn - (m - s + 1)"
      "mn - (m - s + 1) \<le> mx - (m - s + 1)" "mx - (m - s + 1) \<le> e - (m + 1)"
      using less.prems 4 m me len by linarith+
    obtain c k where c: "util_partition lt b (m + 1) e (mn - (m - s + 1)) (mx - (m - s + 1)) = Some (c, k)"
      "permutes_range b c (m + 1) e" "m + 1 + (mn - (m - s + 1)) \<le> k" "k \<le> m + 1 + (mx - (m - s + 1))"
      "\<And>i j. m + 1 \<le> i \<Longrightarrow> i < k \<Longrightarrow> k \<le> j \<Longrightarrow> j < e \<Longrightarrow> \<not> lt (c ! j) (c ! i)"
      using less.hyps [OF ar] by blast
    have "\<not> lt (c ! j) (c ! i)" if "s \<le> i" "i < k" "k \<le> j" "j < e" for i j
    proof (cases "i \<le> m")
      case True
      then have "c ! i = b ! i" using c(2) by (auto simp: permutes_range_def)
      moreover have "\<not> lt (c ! j) (b ! i)"
      proof (rule permutes_range_nth [OF c(2), where P = "\<lambda>x. \<not> lt x (b ! i)"])
        fix j' assume j': "m + 1 \<le> j'" "j' < e"
        show "\<not> lt (b ! j') (b ! i)"
        proof (cases "i = m")
          case False
          with True that(1) show ?thesis using neg_trans [OF pir piv, of j' i] j' by simp
        qed (use pir j' in simp)
      qed (use that c(3) in simp_all)
      ultimately show ?thesis by simp
    qed (use that c(5) in simp)
    moreover have "permutes_range a c s e"
      using permutes_range_trans [OF pr permutes_range_mono [OF c(2)]] m by simp
    moreover have "s + mn \<le> k" "k \<le> s + mx" using c(3,4) 4 m less.prems(4) by linarith+
    ultimately show ?thesis unfolding u c(1) by auto
  qed
qed

end

interpretation greater_u64: weak_order "\<lambda>x y :: u64. x > y"
  by unfold_locales auto

text \<open>The first part of a split array, sorted, is a prefix of the sorted array.\<close>

lemma sorted_split:
  fixes a b :: "'a::linorder list"
  assumes "mset a = mset b" "\<And>x y. x \<in> set (take m b) \<Longrightarrow> y \<in> set (drop m b) \<Longrightarrow> y \<le> x"
  shows "rev (sort a) = rev (sort (take m b)) @ rev (sort (drop m b))"
proof -
  have "sorted (sort (drop m b) @ sort (take m b))" using assms(2) by (auto simp: sorted_append)
  moreover have "mset (sort (drop m b) @ sort (take m b)) = mset a"
    unfolding assms(1) by (metis append_take_drop_id mset_append mset_sort union_commute)
  ultimately have "sort a = sort (drop m b) @ sort (take m b)"
    by (metis properties_for_sort)
  then show ?thesis by simp
qed

lemma split_take_drop:
  assumes "\<forall>i j. i < m \<and> m \<le> j \<and> j < length b \<longrightarrow> P (b ! i) (b ! j)" "x \<in> set (take m b)" "y \<in> set (drop m b)"
  shows "P x y"
proof -
  obtain i where "i < m" "x = b ! i" using assms(2) by (auto simp: in_set_conv_nth)
  moreover obtain j where "j < length b - m" "y = b ! (m + j)" using assms(3) by (auto simp: in_set_conv_nth)
  ultimately show ?thesis using assms(1) by simp
qed

subsection \<open>Removal keeps the rest in order\<close>

definition compact_inv :: "nat set \<Rightarrow> 'a list \<Rightarrow> 'a list \<Rightarrow> nat \<Rightarrow> nat \<Rightarrow> bool" where
  "compact_inv E a0 a tgt src \<longleftrightarrow> length a = length a0 \<and> mset a = mset a0 \<and> tgt < src \<and> src \<le> length a0
     \<and> take tgt a = nths (take src a0) (- E) \<and> drop src a = drop src a0"

lemma nths_take_Suc:
  "src < length a \<Longrightarrow> nths (take (Suc src) a) A = nths (take src a) A @ (if src \<in> A then [a ! src] else [])"
  by (simp add: take_Suc_conv_app_nth nths_append)

lemma compact_inv_skip:
  "compact_inv E a0 a tgt src \<Longrightarrow> src < length a \<Longrightarrow> src \<in> E \<Longrightarrow> compact_inv E a0 a tgt (Suc src)"
  by (auto simp: compact_inv_def nths_take_Suc) (metis drop_Suc tl_drop)

lemma compact_inv_move:
  assumes "compact_inv E a0 a tgt src" "src < length a" "src \<notin> E"
  shows "compact_inv E a0 (swap tgt src a) (Suc tgt) (Suc src)"
proof -
  have i: "length a = length a0" "mset a = mset a0" "tgt < src" "take tgt a = nths (take src a0) (- E)"
    "drop src a = drop src a0" using assms(1) by (auto simp: compact_inv_def)
  have "a ! src = a0 ! src" using i(5) assms(2) i(1) by (metis Cons_nth_drop_Suc list.inject)
  moreover have "take (Suc tgt) (swap tgt src a) = take tgt a @ [a ! src]"
    using i(3) assms(2) by (simp add: take_Suc_conv_app_nth swap_def)
  moreover have "drop (Suc src) (swap tgt src a) = drop (Suc src) a0"
    using i(3,5) by (simp add: swap_def) (metis drop_Suc tl_drop)
  ultimately show ?thesis using i assms(2,3) by (simp add: compact_inv_def nths_take_Suc)
qed

lemma compact_while_spec:
  "compact_inv E a0 a tgt src \<Longrightarrow> \<forall>e \<in> E. e < src \<Longrightarrow>
    \<exists>tgt'. compact_inv E a0 (compact_while a tgt src) tgt' (length a0)"
proof (induction a tgt src rule: compact_while.induct)
  case (1 a tgt src)
  show ?case
  proof (cases "src < length a")
    case True
    then have "compact_inv E a0 (swap tgt src a) (Suc tgt) (Suc src)"
      using "1.prems" by (intro compact_inv_move) auto
    then show ?thesis using "1.IH" True "1.prems" by (subst compact_while.simps) (simp add: less_SucI)
  next
    case False
    then have "src = length a0" using "1.prems" by (auto simp: compact_inv_def)
    then show ?thesis using "1.prems" False by (subst compact_while.simps) auto
  qed
qed

lemma compact_for_spec:
  assumes "compact_inv (set er) a0 a tgt src" "sorted_wrt (<) er" "\<forall>e \<in> set er. e < length a0"
    and "k \<le> length er" "\<forall>i < k. er ! i < src" "\<forall>i. k \<le> i \<and> i < length er \<longrightarrow> src \<le> er ! i"
    and "compact_for er a k tgt src = (b, tgt', src')"
  shows "compact_inv (set er) a0 b tgt' src' \<and> (\<forall>e \<in> set er. e < src')"
  using assms
proof (induction er a k tgt src rule: compact_for.induct)
  case (1 er a k tgt src)
  have len: "length a = length a0" using "1.prems"(1) by (simp add: compact_inv_def)
  consider "src < length a" "k < length er" "src = er ! k" | "src < length a" "k < length er" "src \<noteq> er ! k"
    | "\<not> (src < length a \<and> k < length er)" by linarith
  then show ?case
  proof cases
    case 1
    from 1 "1.prems"(7) have r: "compact_for er a (k + 1) tgt (src + 1) = (b, tgt', src')"
      by (subst (asm) compact_for.simps) simp
    have "compact_inv (set er) a0 a tgt (src + 1)"
      using 1 "1.prems"(1) compact_inv_skip [of "set er" a0 a tgt src] by simp
    moreover have "\<forall>i < k + 1. er ! i < src + 1"
      using "1.prems"(5) 1 by (auto simp: less_Suc_eq)
    moreover have "\<forall>i. k + 1 \<le> i \<and> i < length er \<longrightarrow> src + 1 \<le> er ! i"
      using sorted_wrt_nth_less [OF "1.prems"(2), of k] 1 by (simp add: Suc_le_eq)
    ultimately show ?thesis using "1.IH"(1) 1 "1.prems"(2-4) r by simp
  next
    case 2
    from 2 "1.prems"(7) have r: "compact_for er (swap tgt src a) k (tgt + 1) (src + 1) = (b, tgt', src')"
      by (subst (asm) compact_for.simps) simp
    have ne: "src \<noteq> er ! i" if "i < length er" for i
      using "1.prems"(5) "1.prems"(6) sorted_wrt_nth_less [OF "1.prems"(2), of k i] 2 that
      by (metis leI le_neq_implies_less less_irrefl not_le)
    then have "src \<notin> set er" by (auto simp: in_set_conv_nth)
    then have "compact_inv (set er) a0 (swap tgt src a) (tgt + 1) (src + 1)"
      using 2 "1.prems"(1) compact_inv_move [of "set er" a0 a tgt src] by simp
    moreover have "src + 1 \<le> er ! i" if "k \<le> i" "i < length er" for i
      using "1.prems"(6) that ne [OF that(2)] by fastforce
    ultimately show ?thesis using "1.IH"(2) 2 "1.prems"(2-5) r by (simp add: less_SucI)
  next
    case 3
    with "1.prems"(7) have r: "b = a" "tgt' = tgt" "src' = src" by (simp_all add: compact_for.simps [of er a])
    have "er ! i < src" if i: "i < length er" for i
    proof (cases "k < length er")
      case True
      then have "length a0 \<le> src" using 3 len by simp
      then show ?thesis using "1.prems"(3) i by (metis nth_mem order_less_le_trans)
    qed (use "1.prems"(4,5) i in simp)
    then show ?thesis using "1.prems"(1) r by (auto simp: in_set_conv_nth)
  qed
qed

lemma compact_spec:
  assumes "sorted_wrt (<) er" "\<forall>e \<in> set er. e < length a"
  shows "take (length a - length er) (compact a er) = nths a (- set er)" "mset (compact a er) = mset a"
proof -
  have "length (nths a (- set er)) = length a - length er"
  proof -
    have "{i. i < length a \<and> i \<in> - set er} = {..<length a} - set er" by auto
    moreover have "card ({..<length a} - set er) = card {..<length a} - card (set er)"
      using assms(2) by (intro card_Diff_subset) auto
    moreover have "distinct er" using assms(1) by (simp add: strict_sorted_iff)
    ultimately show ?thesis by (simp add: length_nths distinct_card)
  qed
  moreover have "\<exists>tgt. compact_inv (set er) a (compact a er) tgt (length a)" if "er \<noteq> []"
  proof -
    from that have e0: "er ! 0 \<in> set er" "er ! 0 < length a" using assms(2) by simp_all
    have "nths (take (er ! 0) a) (- set er) = take (er ! 0) a"
    proof (intro nths_all ballI allI impI)
      fix i assume "i < length (take (er ! 0) a)"
      then have i: "i < er ! 0" by simp
      have "er ! 0 \<le> e" if "e \<in> set er" for e
        using that sorted_wrt_nth_less [OF assms(1), of 0] by (auto simp: in_set_conv_nth) (metis gr0I less_imp_le order_refl)
      with i show "i \<in> - set er" by (meson ComplI leD)
    qed
    then have "compact_inv (set er) a a (er ! 0) (er ! 0 + 1)"
      using e0 by (simp add: compact_inv_def nths_take_Suc)
    moreover obtain b tgt src where f: "compact_for er a 1 (er ! 0) (er ! 0 + 1) = (b, tgt, src)"
      by (metis surj_pair)
    moreover have "\<forall>i. 1 \<le> i \<and> i < length er \<longrightarrow> er ! 0 + 1 \<le> er ! i"
      using sorted_wrt_nth_less [OF assms(1), of 0] by (simp add: Suc_le_eq)
    moreover have "1 \<le> length er" using that by (simp add: Suc_le_eq)
    ultimately have "compact_inv (set er) a b tgt src \<and> (\<forall>e \<in> set er. e < src)"
      using assms by (intro compact_for_spec [OF _ assms]) auto
    then obtain t where "compact_inv (set er) a (compact_while b tgt src) t (length a)"
      using compact_while_spec [of "set er" a b tgt src] by blast
    then show ?thesis using that f by (auto simp: compact_def Let_def)
  qed
  ultimately have "take (length a - length er) (compact a er) = nths a (- set er) \<and> mset (compact a er) = mset a"
  proof (cases "er = []")
    case True
    then show ?thesis by (simp add: compact_def nths_all)
  next
    case False
    with \<open>er \<noteq> [] \<Longrightarrow> _\<close> obtain tgt where t: "compact_inv (set er) a (compact a er) tgt (length a)" by blast
    then have n: "take tgt (compact a er) = nths a (- set er)" "mset (compact a er) = mset a" "tgt < length a"
      by (auto simp: compact_inv_def)
    moreover have "length (compact a er) = length a" using n(2) by (metis size_mset)
    ultimately have "tgt = length a - length er"
      using \<open>length (nths a (- set er)) = _\<close> by (metis length_take min.absorb2 less_imp_le)
    with n show ?thesis by simp
  qed
  then show "take (length a - length er) (compact a er) = nths a (- set er)" "mset (compact a er) = mset a" by blast+
qed

subsection \<open>Properties\<close>

text \<open>C23: Selection of between \<open>mn\<close> and \<open>mx\<close> elements of an array returns for all bounds \<open>1 \<le> mn \<le> mx \<le> n\<close>: the result
  is a permutation of the array, cut at a size within the bounds, and no element of the second part comes before an element of the
  first.
\<close>

theorem partition_selects:
  assumes "\<forall>x y z. \<not> lt x x \<and> (lt x y \<longrightarrow> \<not> lt y x) \<and> (\<not> lt x y \<longrightarrow> \<not> lt y z \<longrightarrow> \<not> lt x z)"
    and "1 \<le> mn" "mn \<le> mx" "mx \<le> length a"
  shows "\<exists>b m. util_partition lt a 0 (length a) mn mx = Some (b, m) \<and> mset b = mset a \<and> m \<in> {mn..mx}
    \<and> list_all (\<lambda>x. list_all (\<lambda>y. \<not> lt y x) (drop m b)) (take m b)"
proof -
  have "weak_order lt" using assms(1) by unfold_locales blast+
  moreover have "0 < length a" using assms(2-4) by linarith
  ultimately obtain b m where u: "util_partition lt a 0 (length a) mn mx = Some (b, m)" "permutes_range a b 0 (length a)"
    "0 + mn \<le> m" "m \<le> 0 + mx" "\<forall>i j. 0 \<le> i \<and> i < m \<and> m \<le> j \<and> j < length a \<longrightarrow> \<not> lt (b ! j) (b ! i)"
    using weak_order.util_partition_ok [of lt 0 "length a" a mn mx] assms(2-4) by auto
  have "length b = length a" "mset b = mset a" using u(2) by (auto simp: permutes_range_def)
  moreover have "\<not> lt y x" if "x \<in> set (take m b)" "y \<in> set (drop m b)" for x y
    using split_take_drop [of m b "\<lambda>x y. \<not> lt y x", OF _ that] u(5) calculation(1) by simp
  ultimately show ?thesis using u by (auto simp: list_all_iff)
qed

theorem partition_selects_witness:
  "\<exists>b m. util_partition (\<lambda>x y. y < x) [5, 1, 4, 2, 3 :: nat] 0 (length [5, 1, 4, 2, 3 :: nat]) 2 3 = Some (b, m)
    \<and> mset b = mset [5, 1, 4, 2, 3] \<and> m \<in> {2..3}
    \<and> list_all (\<lambda>x. list_all (\<lambda>y. \<not> y > x) (drop m b)) (take m b)"
  by (rule partition_selects) auto

text \<open>Removing a strictly ascending list of positions moves what is kept to the front without changing its order and
  loses no element.
\<close>

theorem compact_keeps_order:
  assumes "sorted_wrt (<) er" "\<forall>e \<in> set er. e < length a"
  shows "take (length a - length er) (compact a er) = nths a (- set er) \<and> mset (compact a er) = mset a"
  using compact_spec [OF assms] by blast

theorem compact_keeps_order_witness:
  "take (length [10, 11, 12, 13, 14 :: nat] - length [1, 2 :: nat]) (compact [10, 11, 12, 13, 14 :: nat] [1, 2])
     = nths [10, 11, 12, 13, 14] (- set [1, 2])
   \<and> mset (compact [10, 11, 12, 13, 14 :: nat] [1, 2]) = mset [10, 11, 12, 13, 14]"
  by (rule compact_keeps_order) simp_all

end
