(* ===== verification/Lattice.thy ===== *)
theory Lattice
  imports CoreTypes
begin

text \<open>
  The lattice of \<open>src/src/core/analysis/lattice_types.h\<close> and \<open>lattice_types.cc\<close>. A \<open>Score\<close> is a \<open>float\<close>; the model keeps its
  32 bits. A two-dimensional array is the list of its rows. Fresh memory of the pool is the argument \<open>fresh\<close> of the
  operations that allocate: an arbitrary value for each type of element, which stands in all new elements of that type. Memory with different leftovers in
  different elements is not covered.
\<close>

type_synonym score = "32 word"

record beam_element =
  be_ptr :: connection_ptr
  be_totalScore :: score

record fresh_memory =
  fm_ptr :: lattice_node_ptr
  fm_info :: node_info
  fm_beam :: beam_element
  fm_i32 :: i32
  fm_u64 :: u64
  fm_score :: score

text \<open>A pointer to an element of a beam: its boundary, its node and its place in the beam of the node.\<close>

type_synonym beam_address = "nat \<times> nat \<times> nat"

record left_boundary =
  lb_endingNodes :: "lattice_node_ptr list"
  lb_globalBeam :: "beam_address list"

record right_boundary =
  rb_nodeInfo :: "node_info list"
  rb_entryData :: "i32 list list"
  rb_patterns :: "u64 list list"
  rb_beam :: "beam_element list list"

record boundary_scores =
  bs_scores :: "score list list"
  bs_scoresPerItem :: u32
  bs_numLeft :: u32
  bs_numBeam :: u32
  bs_numScorers :: u32

record lattice_boundary =
  bd_cfg :: lattice_boundary_config
  bd_left :: left_boundary
  bd_right :: right_boundary
  bd_scores :: boundary_scores
  bd_currentEnding :: nat

record lattice =
  lt_boundaries :: "lattice_boundary list"
  lt_config :: lattice_config

subsection \<open>Construction\<close>

definition allocate2d :: "u32 \<Rightarrow> u32 \<Rightarrow> 'a \<Rightarrow> 'a list list" where
  "allocate2d rows cols x = replicate (unat rows) (replicate (unat cols) x)"

text \<open>The global beam is an empty slice until \<open>setGlobalBeamSize\<close>; its room is \<open>globalBeamSize\<close> pointers.\<close>

definition mk_left_boundary :: "fresh_memory \<Rightarrow> lattice_config \<Rightarrow> lattice_boundary_config \<Rightarrow> left_boundary" where
  "mk_left_boundary fresh lc lbc =
     \<lparr>lb_endingNodes = replicate (unat (lbc_endNodes lbc)) (fm_ptr fresh),
      lb_globalBeam = (if lc_globalBeamSize lc > 0 then replicate (unat (lc_globalBeamSize lc)) (0, 0, 0) else [])\<rparr>"

definition mk_right_boundary :: "fresh_memory \<Rightarrow> lattice_config \<Rightarrow> lattice_boundary_config \<Rightarrow> right_boundary" where
  "mk_right_boundary fresh lc lbc =
     \<lparr>rb_nodeInfo = replicate (unat (lbc_beginNodes lbc)) (fm_info fresh),
      rb_entryData = allocate2d (lbc_beginNodes lbc) (lc_entrySize lc) (fm_i32 fresh),
      rb_patterns = allocate2d (lbc_beginNodes lbc) (lc_numFeaturePatterns lc) (fm_u64 fresh),
      rb_beam = allocate2d (lbc_beginNodes lbc) (lc_beamSize lc) (fm_beam fresh)\<rparr>"

definition mk_boundary_scores :: "fresh_memory \<Rightarrow> lattice_config \<Rightarrow> lattice_boundary_config \<Rightarrow> boundary_scores" where
  "mk_boundary_scores fresh lc lbc =
     (let perItem = lc_beamSize lc * lbc_endNodes lbc * lc_scoreCnt lc
      in \<lparr>bs_scores = replicate (unat (lbc_beginNodes lbc)) (replicate (unat perItem) (fm_score fresh)),
          bs_scoresPerItem = perItem, bs_numLeft = lbc_endNodes lbc, bs_numBeam = lc_beamSize lc,
          bs_numScorers = lc_scoreCnt lc\<rparr>)"

definition mk_boundary :: "fresh_memory \<Rightarrow> lattice_config \<Rightarrow> lattice_boundary_config \<Rightarrow> lattice_boundary" where
  "mk_boundary fresh lc lbc =
     \<lparr>bd_cfg = lbc, bd_left = mk_left_boundary fresh lc lbc, bd_right = mk_right_boundary fresh lc lbc,
      bd_scores = mk_boundary_scores fresh lc lbc, bd_currentEnding = 0\<rparr>"

definition lattice_new :: "lattice_config \<Rightarrow> lattice" where
  "lattice_new lc = \<lparr>lt_boundaries = [], lt_config = lc\<rparr>"

text \<open>\<open>makeBoundary\<close> appends the boundary; the pointer it returns is the index of the last one.\<close>

definition makeBoundary :: "fresh_memory \<Rightarrow> lattice_boundary_config \<Rightarrow> lattice \<Rightarrow> nat \<times> lattice" where
  "makeBoundary fresh lbc l =
     (length (lt_boundaries l), l\<lparr>lt_boundaries := lt_boundaries l @ [mk_boundary fresh (lt_config l) lbc]\<rparr>)"

definition createdBoundaryCount :: "lattice \<Rightarrow> nat" where
  "createdBoundaryCount l = length (lt_boundaries l)"

definition lattice_reset :: "lattice \<Rightarrow> lattice" where
  "lattice_reset l = l\<lparr>lt_boundaries := []\<rparr>"

definition boundary :: "lattice \<Rightarrow> nat \<Rightarrow> lattice_boundary" where
  "boundary l i = lt_boundaries l ! i"

definition update_boundary :: "nat \<Rightarrow> (lattice_boundary \<Rightarrow> lattice_boundary) \<Rightarrow> lattice \<Rightarrow> lattice" where
  "update_boundary i f l = l\<lparr>lt_boundaries := (lt_boundaries l)[i := f (lt_boundaries l ! i)]\<rparr>"

subsection \<open>Operations of a boundary\<close>

definition bd_entry :: "lattice_boundary \<Rightarrow> nat \<Rightarrow> entry_ptr" where
  "bd_entry b position = ni_entryPtr (rb_nodeInfo (bd_right b) ! position)"

definition endingsFilled :: "lattice_boundary \<Rightarrow> bool" where
  "endingsFilled b \<longleftrightarrow> length (lb_endingNodes (bd_left b)) = bd_currentEnding b"

definition isActive :: "lattice_boundary \<Rightarrow> bool" where
  "isActive b \<longleftrightarrow> lbc_beginNodes (bd_cfg b) \<noteq> 0 \<and> lbc_endNodes (bd_cfg b) \<noteq> 0"

definition localNodeCount :: "lattice_boundary \<Rightarrow> u32" where
  "localNodeCount b = lbc_beginNodes (bd_cfg b)"

text \<open>\<open>at\<close> is a checked access in a debug build only; a write outside the slice would not be a write of this list.\<close>

definition addEnd :: "lattice_node_ptr \<Rightarrow> lattice_boundary \<Rightarrow> lattice_boundary" where
  "addEnd p b =
     b\<lparr>bd_left := (bd_left b)\<lparr>lb_endingNodes := (lb_endingNodes (bd_left b))[bd_currentEnding b := p]\<rparr>,
       bd_currentEnding := bd_currentEnding b + 1\<rparr>"

definition setGlobalBeamSize :: "nat \<Rightarrow> left_boundary \<Rightarrow> left_boundary" where
  "setGlobalBeamSize sz b = b\<lparr>lb_globalBeam := take sz (lb_globalBeam b)\<rparr>"

text \<open>The place of a score in the buffer of its node: \<open>nodeScores(right).beamLeft(beam, left).at(scorer)\<close>.\<close>

definition score_index :: "boundary_scores \<Rightarrow> nat \<Rightarrow> nat \<Rightarrow> nat \<Rightarrow> nat" where
  "score_index s beam left scorer =
     unat (bs_numLeft s * bs_numScorers s) * beam + unat (word_of_nat left * bs_numScorers s) + scorer"

definition beamLeft :: "boundary_scores \<Rightarrow> nat \<Rightarrow> nat \<Rightarrow> nat \<Rightarrow> score list" where
  "beamLeft s right beam left =
     map (\<lambda>i. bs_scores s ! right ! score_index s beam left i) [0..<unat (bs_numScorers s)]"

definition forPtr :: "boundary_scores \<Rightarrow> connection_ptr \<Rightarrow> score list" where
  "forPtr s p = beamLeft s (unat (cn_right p)) (unat (cn_beam p)) (unat (cn_left p))"

definition set_score :: "nat \<Rightarrow> nat \<Rightarrow> nat \<Rightarrow> nat \<Rightarrow> score \<Rightarrow> boundary_scores \<Rightarrow> boundary_scores" where
  "set_score right beam left scorer v s =
     s\<lparr>bs_scores := (bs_scores s)[right := (bs_scores s ! right)[score_index s beam left scorer := v]]\<rparr>"

definition importBeamScore :: "nat \<Rightarrow> nat \<Rightarrow> nat \<Rightarrow> score list \<Rightarrow> boundary_scores \<Rightarrow> boundary_scores" where
  "importBeamScore left scorer beam scores s =
     fold (\<lambda>el. set_score el beam left scorer (scores ! el)) [0..<length scores] s"

definition scores_fill :: "nat \<Rightarrow> score \<Rightarrow> boundary_scores \<Rightarrow> boundary_scores" where
  "scores_fill right v s =
     s\<lparr>bs_scores := (bs_scores s)[right := map (\<lambda>_. v) (bs_scores s ! right)]\<rparr>"

end
