(* ===== verification/LatticeBuild.thy ===== *)
theory LatticeBuild
  imports Lattice Arrays Hashing
begin

text \<open>
  \<open>src/src/core/analysis/lattice_builder.h\<close> and \<open>lattice_builder.cc\<close>: the seeds of the lattice nodes, the
  counts of nodes per boundary, connectability and the filling of the lattice.
\<close>

record node_seed =
  sd_entryPtr :: entry_ptr
  sd_start :: u16
  sd_end :: u16

definition seed_eq :: "node_seed \<Rightarrow> node_seed \<Rightarrow> bool" where
  "seed_eq a1 a2 \<longleftrightarrow> sd_entryPtr a1 = sd_entryPtr a2 \<and> sd_start a1 = sd_start a2 \<and> sd_end a1 = sd_end a2"

record boundary_info =
  bi_number :: u16
  bi_startCount :: u16
  bi_endCount :: u16
  bi_firstNodeOffset :: u32

record lattice_builder =
  lbd_seeds :: "node_seed list"
  lbd_boundaries :: "boundary_info list"
  lbd_connectible :: "bool list"
  lbd_maxBoundaries :: u16

definition info0 :: boundary_info where
  "info0 = \<lparr>bi_number = 0, bi_startCount = 0, bi_endCount = 0, bi_firstNodeOffset = 0\<rparr>"

definition appendSeed :: "entry_ptr \<Rightarrow> u16 \<Rightarrow> u16 \<Rightarrow> lattice_builder \<Rightarrow> lattice_builder" where
  "appendSeed e s t b = b\<lparr>lbd_seeds := lbd_seeds b @ [\<lparr>sd_entryPtr = e, sd_start = s, sd_end = t\<rparr>]\<rparr>"

text \<open>\<open>maxCodepoints\<close> is a 16-bit number: 65535 code points wrap around to no boundary at all.\<close>

definition builder_reset :: "u16 \<Rightarrow> lattice_builder \<Rightarrow> lattice_builder" where
  "builder_reset maxCodepoints b =
     b\<lparr>lbd_seeds := [], lbd_boundaries := [], lbd_maxBoundaries := maxCodepoints + 1\<rparr>"

definition sortSeeds :: "lattice_builder \<Rightarrow> lattice_builder" where
  "sortSeeds b = b\<lparr>lbd_seeds := sort_key sd_start (lbd_seeds b)\<rparr>"

definition checkConnectability :: "lattice_builder \<Rightarrow> bool \<times> lattice_builder" where
  "checkConnectability b =
     (let b = sortSeeds b;
          connectible = (replicate (unat (lbd_maxBoundaries b)) False)[0 := True];
          connectible = fold (\<lambda>s c. if c ! unat (sd_start s) then c[unat (sd_end s) := True] else c)
                          (lbd_seeds b) connectible
      in (last connectible, b\<lparr>lbd_connectible := connectible\<rparr>))"

subsection \<open>Counting the nodes of the boundaries\<close>

definition add_start :: "boundary_info \<Rightarrow> boundary_info" where
  "add_start i = i\<lparr>bi_startCount := bi_startCount i + 1\<rparr>"

definition add_end :: "boundary_info \<Rightarrow> boundary_info" where
  "add_end i = i\<lparr>bi_endCount := bi_endCount i + 1\<rparr>"

definition upd :: "nat \<Rightarrow> ('a \<Rightarrow> 'a) \<Rightarrow> 'a list \<Rightarrow> 'a list" where
  "upd i f xs = xs[i := f (xs ! i)]"

definition count_seed :: "node_seed \<Rightarrow> boundary_info list \<Rightarrow> boundary_info list" where
  "count_seed s bs = upd (unat (sd_end s)) add_end (upd (unat (sd_start s)) add_start bs)"

definition number_boundary :: "nat \<Rightarrow> boundary_info list \<Rightarrow> boundary_info list" where
  "number_boundary i bs =
     upd i (\<lambda>b. b\<lparr>bi_number := word_of_nat i,
       bi_firstNodeOffset := bi_firstNodeOffset (bs ! (i - 1)) + ucast (bi_startCount (bs ! (i - 1)))\<rparr>) bs"

definition prepare :: "lattice_builder \<Rightarrow> lattice_builder" where
  "prepare b =
     (if lbd_maxBoundaries b = 0 then b
      else let n = unat (lbd_maxBoundaries b);
               bs = replicate n info0;
               bs = upd 0 (\<lambda>i. i\<lparr>bi_endCount := 1\<rparr>) bs;
               bs = upd (n - 1) (\<lambda>i. i\<lparr>bi_startCount := 1\<rparr>) bs;
               bs = fold count_seed (lbd_seeds b) bs;
               bs = fold number_boundary [1..<n] bs
           in b\<lparr>lbd_boundaries := bs\<rparr>)"

definition infoAt :: "lattice_builder \<Rightarrow> nat \<Rightarrow> boundary_info" where
  "infoAt b i = lbd_boundaries b ! i"

definition isAccessible :: "lattice_builder \<Rightarrow> nat \<Rightarrow> bool" where
  "isAccessible b i = lbd_connectible b ! i"

subsection \<open>Filling the lattice\<close>

definition set_node :: "nat \<Rightarrow> node_info \<Rightarrow> lattice_boundary \<Rightarrow> lattice_boundary" where
  "set_node i n b = b\<lparr>bd_right := (bd_right b)\<lparr>rb_nodeInfo := (rb_nodeInfo (bd_right b))[i := n]\<rparr>\<rparr>"

text \<open>\<open>addBos\<close> also fills the pattern features of the node with the value of the BOS pointer.\<close>

definition addBos :: "lattice_boundary \<Rightarrow> lattice_boundary" where
  "addBos b =
     (let b = set_node 0 (mk_node_info EntryPtr_BOS 0 0) b
      in b\<lparr>bd_right := (bd_right b)\<lparr>rb_patterns :=
             map (map (\<lambda>_. ucast (rawValue EntryPtr_BOS))) (rb_patterns (bd_right b))\<rparr>\<rparr>)"

definition addEos :: "u16 \<Rightarrow> lattice_boundary \<Rightarrow> lattice_boundary" where
  "addEos position b = set_node 0 (mk_node_info EntryPtr_EOS position position) b"

definition makeBos :: "fresh_memory \<Rightarrow> lattice \<Rightarrow> lattice" where
  "makeBos fresh l =
     (let (lb, l) = makeBoundary fresh (mk_lbc 0 0 1) l;
          l = update_boundary lb addBos l;
          (lb, l) = makeBoundary fresh (mk_lbc 1 1 1) l
      in update_boundary lb addBos l)"

definition makeEos :: "fresh_memory \<Rightarrow> lattice_builder \<Rightarrow> lattice \<Rightarrow> lattice" where
  "makeEos fresh b l =
     (let ends = bi_endCount (lbd_boundaries b ! (unat (lbd_maxBoundaries b) - 1));
          (lb, l) = makeBoundary fresh (mk_lbc (ucast (lbd_maxBoundaries b) + 2) (ucast ends) 1) l
      in update_boundary lb (addEos (lbd_maxBoundaries b - 1)) l)"

definition seed_node :: "node_seed \<Rightarrow> node_info" where
  "seed_node s = mk_node_info (sd_entryPtr s) (sd_start s) (sd_end s)"

definition constructSingleBoundary ::
  "fresh_memory \<Rightarrow> nat \<Rightarrow> lattice_builder \<times> lattice \<Rightarrow> nat \<times> lattice_builder \<times> lattice" where
  "constructSingleBoundary fresh boundaryIdx st =
     (case st of (b, l) \<Rightarrow>
        let bndInfo = lbd_boundaries b ! boundaryIdx;
            lbc = mk_lbc (word_of_nat boundaryIdx + 2) (ucast (bi_endCount bndInfo)) (ucast (bi_startCount bndInfo));
            (bnd, l) = makeBoundary fresh lbc l;
            seeds = drop (unat (bi_firstNodeOffset bndInfo)) (lbd_seeds b);
            l = update_boundary bnd (\<lambda>bd. fold (\<lambda>i. set_node i (seed_node (seeds ! i)))
                  [0..<length (rb_nodeInfo (bd_right bd))] bd) l;
            b = b\<lparr>lbd_connectible := (lbd_connectible b)[boundaryIdx :=
                  lbc_beginNodes lbc \<noteq> 0 \<and> lbc_endNodes lbc \<noteq> 0]\<rparr>
        in (bnd, b, l))"

text \<open>
  The seed at index \<open>i\<close> ends at a boundary. \<open>bndPtr\<close> and \<open>endOffset\<close> are cut to 16 bits, \<open>i - firstNodeOffset\<close> is computed
  on 32 bits.
\<close>

definition fill_end :: "lattice_builder \<Rightarrow> nat \<Rightarrow> lattice \<Rightarrow> lattice" where
  "fill_end b i l =
     (let seed = lbd_seeds b ! i
      in if sd_start seed = sd_end seed then l
         else let idx = unat (sd_end seed) + 2;
                  bndPtr = sd_start seed + 2;
                  binfo = lbd_boundaries b ! unat (sd_start seed);
                  offset = word_of_nat i - bi_firstNodeOffset binfo;
                  endOffset = ucast offset
              in update_boundary idx (addEnd (mk_node_ptr bndPtr endOffset)) l)"

definition fillEnds :: "lattice_builder \<Rightarrow> lattice \<Rightarrow> lattice" where
  "fillEnds b l =
     (let l = update_boundary 1 (addEnd (mk_node_ptr 0 0)) l;
          l = update_boundary 2 (addEnd (mk_node_ptr 1 0)) l
      in fold (fill_end b) [0..<length (lbd_seeds b)] l)"

text \<open>
  \<open>AnalyzerImpl::buildLattice\<close> when the patterns are generated code, so that no feature is computed while the lattice is
  built.
\<close>

definition buildLattice :: "fresh_memory \<Rightarrow> nat \<Rightarrow> lattice_builder \<times> lattice \<Rightarrow> lattice_builder \<times> lattice" where
  "buildLattice fresh totalBnds st =
     (let st = (fst st, makeBos fresh (snd st));
          st = fold (\<lambda>i st. snd (constructSingleBoundary fresh i st)) [0..<totalBnds] st;
          l = makeEos fresh (fst st) (snd st);
          l = fillEnds (fst st) l
      in (fst st, l))"

subsection \<open>Connectability is reachability\<close>

definition mark_seed :: "node_seed \<Rightarrow> bool list \<Rightarrow> bool list" where
  "mark_seed s c = (if c ! unat (sd_start s) then c[unat (sd_end s) := True] else c)"

definition seed_edges :: "node_seed list \<Rightarrow> (nat \<times> nat) set" where
  "seed_edges ss = (\<lambda>s. (unat (sd_start s), unat (sd_end s))) ` set ss"

lemma length_mark1 [simp]: "length (mark_seed s c) = length c"
  by (simp add: mark_seed_def)

lemma mark_nth: "j < length c \<Longrightarrow> mark_seed s c ! j \<longleftrightarrow> c ! j \<or> (c ! unat (sd_start s) \<and> j = unat (sd_end s))"
  by (cases "unat (sd_end s) < length c") (auto simp: mark_seed_def nth_list_update)

lemma length_mark [simp]: "length (fold mark_seed ss c) = length c"
  by (induction ss arbitrary: c) auto

lemma mark_mono: "c ! j \<Longrightarrow> j < length c \<Longrightarrow> fold mark_seed ss c ! j"
proof (induction ss arbitrary: c)
  case (Cons s ss)
  then have "mark_seed s c ! j" "j < length (mark_seed s c)" by (auto simp: mark_nth)
  with Cons.IH show ?case by simp
qed simp

lemma mark_sound:
  assumes "set ss \<subseteq> set ss0" "\<forall>j < length c. c ! j \<longrightarrow> (0, j) \<in> (seed_edges ss0)\<^sup>*"
    "\<forall>s \<in> set ss. unat (sd_start s) < length c"
  shows "\<forall>j < length c. fold mark_seed ss c ! j \<longrightarrow> (0, j) \<in> (seed_edges ss0)\<^sup>*"
  using assms
proof (induction ss arbitrary: c)
  case (Cons s ss)
  have e: "(unat (sd_start s), unat (sd_end s)) \<in> seed_edges ss0" using Cons.prems(1) by (auto simp: seed_edges_def)
  have "\<forall>j < length (mark_seed s c). mark_seed s c ! j \<longrightarrow> (0, j) \<in> (seed_edges ss0)\<^sup>*"
    using Cons.prems(2,3) rtrancl_into_rtrancl [OF _ e, of 0] by (auto simp: mark_nth)
  from Cons.IH [OF _ this] Cons.prems show ?case by simp
qed simp

lemma mark_stable:
  assumes "\<forall>s \<in> set ss. j \<le> unat (sd_start s) \<and> unat (sd_start s) \<le> unat (sd_end s)" "j < length c"
  shows "fold mark_seed ss c ! j = c ! j"
  using assms
proof (induction ss arbitrary: c)
  case (Cons s ss)
  have "mark_seed s c ! j = c ! j" using Cons.prems by (auto simp: mark_nth)
  with Cons show ?case by simp
qed simp

lemma mark_complete:
  assumes "sorted (map (\<lambda>s. unat (sd_start s)) ss)" "s \<in> set ss" "fold mark_seed ss c ! unat (sd_start s)"
    "\<forall>s \<in> set ss. unat (sd_start s) \<le> unat (sd_end s) \<and> unat (sd_end s) < length c"
  shows "fold mark_seed ss c ! unat (sd_end s)"
  using assms
proof (induction ss arbitrary: c)
  case (Cons t ss)
  show ?case
  proof (cases "s \<in> set ss")
    case True
    with Cons show ?thesis by simp
  next
    case False
    then have t: "s = t" using Cons.prems(2) by simp
    have lt: "unat (sd_start t) < length c" "unat (sd_end t) < length c"
      using Cons.prems(4) by (auto intro: le_less_trans)
    have "fold mark_seed ss (mark_seed t c) ! unat (sd_start t) = mark_seed t c ! unat (sd_start t)"
      using Cons.prems(1,4) lt by (intro mark_stable) auto
    then have "c ! unat (sd_start t)"
      using Cons.prems(3) lt by (auto simp: t mark_nth)
    then have "mark_seed t c ! unat (sd_end t)" using lt by (simp add: mark_nth)
    then show ?thesis using mark_mono lt by (simp add: t)
  qed
qed simp

lemma sorted_unat_key: "sorted (map sd_start ss) = sorted (map (\<lambda>s. unat (sd_start s)) ss)"
  by (simp add: sorted_iff_nth_mono_less word_le_nat_alt)

lemma checkConnectability_reachable:
  assumes "\<forall>s \<in> set (lbd_seeds b). sd_start s \<le> sd_end s \<and> sd_end s < lbd_maxBoundaries b" "0 < lbd_maxBoundaries b"
  shows "fst (checkConnectability b) \<longleftrightarrow> (0, unat (lbd_maxBoundaries b) - 1) \<in> (seed_edges (lbd_seeds b))\<^sup>*"
proof -
  let ?n = "unat (lbd_maxBoundaries b)" and ?ss = "sort_key sd_start (lbd_seeds b)"
  let ?c = "(replicate ?n False)[0 := True]"
  have n: "0 < ?n" using assms(2) by (simp add: word_less_nat_alt)
  have bd: "\<forall>s \<in> set ?ss. unat (sd_start s) \<le> unat (sd_end s) \<and> unat (sd_end s) < length ?c"
    using assms(1) by (simp add: word_less_nat_alt word_le_nat_alt)
  have so: "sorted (map (\<lambda>s. unat (sd_start s)) ?ss)" using sorted_unat_key sorted_sort_key by blast
  have "fold mark_seed ?ss ?c \<noteq> []" using n by (metis length_mark length_list_update length_replicate list.size(3) less_irrefl)
  then have "last (fold mark_seed ?ss ?c) = fold mark_seed ?ss ?c ! (?n - 1)" by (simp add: last_conv_nth)
  then have res: "fst (checkConnectability b) = fold mark_seed ?ss ?c ! (?n - 1)"
    by (simp add: checkConnectability_def sortSeeds_def Let_def flip: mark_seed_def)
  have ed: "seed_edges ?ss = seed_edges (lbd_seeds b)" by (simp add: seed_edges_def)
  have "\<forall>j < length ?c. fold mark_seed ?ss ?c ! j \<longrightarrow> (0, j) \<in> (seed_edges ?ss)\<^sup>*"
    using bd by (intro mark_sound) (auto simp: nth_list_update)
  then have 1: "fold mark_seed ?ss ?c ! j \<Longrightarrow> j < ?n \<Longrightarrow> (0, j) \<in> (seed_edges (lbd_seeds b))\<^sup>*" for j
    unfolding ed by simp
  have 2: "fold mark_seed ?ss ?c ! j" if "(0, j) \<in> (seed_edges (lbd_seeds b))\<^sup>*" for j
    using that
  proof (induction rule: rtrancl_induct)
    case base
    have "?c ! 0" using n by simp
    then show ?case by (rule mark_mono) (use n in simp)
  next
    case (step j k)
    then obtain s where "s \<in> set ?ss" "j = unat (sd_start s)" "k = unat (sd_end s)" by (auto simp: seed_edges_def)
    with mark_complete [OF so _ _ bd] step.IH show ?case by blast
  qed
  show ?thesis unfolding res using 1 2 n by auto
qed

subsection \<open>The counts\<close>

definition starts_at :: "nat \<Rightarrow> node_seed \<Rightarrow> bool" where
  "starts_at i s \<longleftrightarrow> unat (sd_start s) = i"

definition ends_at :: "nat \<Rightarrow> node_seed \<Rightarrow> bool" where
  "ends_at i s \<longleftrightarrow> unat (sd_end s) = i"

definition num :: "('a \<Rightarrow> bool) \<Rightarrow> 'a list \<Rightarrow> nat" where
  "num P xs = length (filter P xs)"

lemma num_simps [simp]: "num P [] = 0" "num P (x # xs) = (if P x then 1 else 0) + num P xs"
  "num P (xs @ ys) = num P xs + num P ys"
  by (simp_all add: num_def)

lemma num_le: "num P xs \<le> length xs"
  by (simp add: num_def)

lemma length_upd [simp]: "length (upd i f xs) = length xs"
  by (simp add: upd_def)

lemma upd_nth: "j < length xs \<Longrightarrow> upd i f xs ! j = (if i = j then f (xs ! j) else xs ! j)"
  by (simp add: upd_def nth_list_update)

lemma count_seeds:
  assumes "j < length bs" "\<forall>s \<in> set ss. unat (sd_start s) < length bs \<and> unat (sd_end s) < length bs"
  shows "length (fold count_seed ss bs) = length bs
    \<and> fold count_seed ss bs ! j = (bs ! j)\<lparr>bi_startCount := bi_startCount (bs ! j) + word_of_nat (num (starts_at j) ss),
        bi_endCount := bi_endCount (bs ! j) + word_of_nat (num (ends_at j) ss)\<rparr>"
  using assms
proof (induction ss arbitrary: bs)
  case (Cons s ss)
  then show ?case
    by (auto simp: count_seed_def upd_nth add_start_def add_end_def starts_at_def ends_at_def)
qed simp

lemma length_number [simp]: "length (number_boundary k bs) = length bs"
  by (simp add: number_boundary_def)

lemma number_nth:
  "j < length bs \<Longrightarrow> number_boundary k bs ! j =
     (if j = k then (bs ! k)\<lparr>bi_number := word_of_nat k,
        bi_firstNodeOffset := bi_firstNodeOffset (bs ! (k - 1)) + ucast (bi_startCount (bs ! (k - 1)))\<rparr> else bs ! j)"
  by (simp add: number_boundary_def upd_nth)

lemma number_boundaries:
  assumes "k \<le> length bs" "1 \<le> k" "bi_number (bs ! 0) = 0" "bi_firstNodeOffset (bs ! 0) = 0"
  shows "length (fold number_boundary [1..<k] bs) = length bs
    \<and> (\<forall>j < length bs. bi_startCount (fold number_boundary [1..<k] bs ! j) = bi_startCount (bs ! j)
         \<and> bi_endCount (fold number_boundary [1..<k] bs ! j) = bi_endCount (bs ! j))
    \<and> (\<forall>j < k. bi_number (fold number_boundary [1..<k] bs ! j) = word_of_nat j
         \<and> bi_firstNodeOffset (fold number_boundary [1..<k] bs ! j)
           = (\<Sum>i<j. ucast (bi_startCount (bs ! i))))"
  using assms
proof (induction k)
  case (Suc k)
  show ?case
  proof (cases "k = 0")
    case False
    then have IH: "length (fold number_boundary [1..<k] bs) = length bs"
      "\<And>j. j < length bs \<Longrightarrow> bi_startCount (fold number_boundary [1..<k] bs ! j) = bi_startCount (bs ! j)
         \<and> bi_endCount (fold number_boundary [1..<k] bs ! j) = bi_endCount (bs ! j)"
      "\<And>j. j < k \<Longrightarrow> bi_number (fold number_boundary [1..<k] bs ! j) = word_of_nat j
         \<and> bi_firstNodeOffset (fold number_boundary [1..<k] bs ! j) = (\<Sum>i<j. ucast (bi_startCount (bs ! i)))"
      using Suc by auto
    have "[1..<Suc k] = [1..<k] @ [k]" using False by simp
    moreover have "(\<Sum>i<k. ucast (bi_startCount (bs ! i)) :: u32)
        = (\<Sum>i<k - 1. ucast (bi_startCount (bs ! i))) + ucast (bi_startCount (bs ! (k - 1)))"
      using False by (cases k) auto
    ultimately show ?thesis
      using IH False Suc.prems(1) by (auto simp: number_nth less_Suc_eq)
  qed (use Suc.prems in auto)
qed simp

text \<open>
  A prepared builder: the seeds are sorted, each covers at least one code point and ends inside the input, and
  the 16-bit counters cannot overflow.
\<close>

definition seeds_ok :: "lattice_builder \<Rightarrow> nat \<Rightarrow> bool" where
  "seeds_ok b n \<longleftrightarrow> unat (lbd_maxBoundaries b) = n + 1 \<and> n + 3 < 2 ^ 16
     \<and> sorted (map (\<lambda>s. unat (sd_start s)) (lbd_seeds b)) \<and> length (lbd_seeds b) + 1 < 2 ^ 16
     \<and> list_all (\<lambda>s. unat (sd_start s) < unat (sd_end s) \<and> unat (sd_end s) \<le> n) (lbd_seeds b)"

lemma sum_num_starts:
  "(\<Sum>i<j. num (starts_at i) ss) = num (\<lambda>s. unat (sd_start s) < j) ss"
  by (induction ss) (auto simp: starts_at_def sum.distrib simp flip: sum.inter_filter)

lemma ucast_u16_of_nat: "k < 2 ^ 16 \<Longrightarrow> (ucast (word_of_nat k :: u16) :: u32) = word_of_nat k"
  by (simp add: unsigned_of_nat take_bit_nat_eq_self)

lemma unat_u16: "k < 2 ^ 16 \<Longrightarrow> unat (word_of_nat k :: u16) = k"
  by (rule unat_of_nat_small) simp

lemma prepare_facts:
  assumes "seeds_ok b n"
  defines "bs \<equiv> lbd_boundaries (prepare b)"
  shows "length bs = n + 1"
    and "i \<le> n \<Longrightarrow> unat (bi_startCount (bs ! i)) = num (starts_at i) (lbd_seeds b) + (if i = n then 1 else 0)"
    and "i \<le> n \<Longrightarrow> unat (bi_endCount (bs ! i)) = num (ends_at i) (lbd_seeds b) + (if i = 0 then 1 else 0)"
    and "i \<le> n \<Longrightarrow> bi_number (bs ! i) = word_of_nat i"
    and "i \<le> n \<Longrightarrow> bi_firstNodeOffset (bs ! i) = word_of_nat (num (\<lambda>s. unat (sd_start s) < i) (lbd_seeds b))"
proof -
  let ?ss = "lbd_seeds b"
  have n: "unat (lbd_maxBoundaries b) = n + 1" "length ?ss + 1 < 2 ^ 16" using assms(1) by (auto simp: seeds_ok_def)
  then have nz: "lbd_maxBoundaries b \<noteq> 0" by auto
  define b0 where "b0 = upd n (\<lambda>i. i\<lparr>bi_startCount := 1\<rparr>) (upd 0 (\<lambda>i. i\<lparr>bi_endCount := 1\<rparr>) (replicate (n + 1) info0))"
  define b1 where "b1 = fold count_seed ?ss b0"
  have bs: "bs = fold number_boundary [1..<n + 1] b1"
    using n nz by (simp add: bs_def prepare_def Let_def b1_def b0_def)
  have in0: "\<forall>s \<in> set ?ss. unat (sd_start s) < length b0 \<and> unat (sd_end s) < length b0"
    using assms(1) by (auto simp: seeds_ok_def list_all_iff b0_def)
  have f1: "length b1 = n + 1" "\<And>j. j \<le> n \<Longrightarrow> b1 ! j = (b0 ! j)\<lparr>bi_startCount := bi_startCount (b0 ! j) + word_of_nat (num (starts_at j) ?ss),
        bi_endCount := bi_endCount (b0 ! j) + word_of_nat (num (ends_at j) ?ss)\<rparr>"
    using count_seeds [OF _ in0] unfolding b1_def by (auto simp: b0_def)
  have f0: "b0 ! j = info0\<lparr>bi_startCount := (if j = n then 1 else 0), bi_endCount := (if j = 0 then 1 else 0)\<rparr>"
    if "j \<le> n" for j
    using that by (simp add: b0_def upd_nth info0_def del: replicate_Suc)
  have c: "num P ?ss + (if Q then 1 else 0) < 2 ^ 16" for P Q using num_le [of P ?ss] n(2) by (simp split: if_splits)
  have st: "bi_startCount (b1 ! j) = word_of_nat (num (starts_at j) ?ss + (if j = n then 1 else 0))"
    "bi_endCount (b1 ! j) = word_of_nat (num (ends_at j) ?ss + (if j = 0 then 1 else 0))"
    "bi_number (b1 ! j) = 0" "bi_firstNodeOffset (b1 ! j) = 0" if "j \<le> n" for j
    using that by (simp_all add: f1(2) f0 info0_def)
  have nb: "length bs = n + 1" "\<And>j. j \<le> n \<Longrightarrow> bi_startCount (bs ! j) = bi_startCount (b1 ! j) \<and> bi_endCount (bs ! j) = bi_endCount (b1 ! j)"
    "\<And>j. j \<le> n \<Longrightarrow> bi_number (bs ! j) = word_of_nat j \<and> bi_firstNodeOffset (bs ! j) = (\<Sum>i<j. ucast (bi_startCount (b1 ! i)))"
    unfolding bs using number_boundaries [of "n + 1" b1] f1(1) st(3,4) [of 0] by auto
  show "length bs = n + 1" by (rule nb(1))
  assume i: "i \<le> n"
  show "unat (bi_startCount (bs ! i)) = num (starts_at i) ?ss + (if i = n then 1 else 0)"
    "unat (bi_endCount (bs ! i)) = num (ends_at i) ?ss + (if i = 0 then 1 else 0)"
    using nb(2) [OF i] st [OF i] c [of "starts_at i" "i = n"] c [of "ends_at i" "i = 0"]
    by (simp_all only: unat_u16)
  show "bi_number (bs ! i) = word_of_nat i" using nb(3) [OF i] by blast
  have "(\<Sum>k<i. ucast (bi_startCount (b1 ! k)) :: u32) = (\<Sum>k<i. word_of_nat (num (starts_at k) ?ss))"
    using i st(1) c [of _ False] by (intro sum.cong) (simp_all add: ucast_u16_of_nat)
  then show "bi_firstNodeOffset (bs ! i) = word_of_nat (num (\<lambda>s. unat (sd_start s) < i) ?ss)"
    using nb(3) [OF i] by (simp flip: sum_num_starts)
qed

text \<open>The seeds that start at a boundary are a slice of the sorted seeds.\<close>

lemma sorted_slice:
  fixes f :: "'a \<Rightarrow> nat"
  assumes "sorted (map f xs)"
  shows "filter (\<lambda>x. f x = i) xs = take (num (\<lambda>x. f x = i) xs) (drop (num (\<lambda>x. f x < i) xs) xs)"
proof -
  have "xs = filter (\<lambda>x. f x < i) xs @ filter (\<lambda>x. f x = i) xs @ filter (\<lambda>x. i < f x) xs"
    using assms
  proof (induction xs)
    case (Cons x xs)
    consider "f x < i" | "f x = i" | "i < f x" by linarith
    then show ?case
    proof cases
      case 2
      then have "filter (\<lambda>x. f x < i) xs = []" using Cons.prems by (auto simp: filter_empty_conv)
      with 2 Cons show ?thesis by simp
    next
      case 3
      then have "filter (\<lambda>x. f x < i) xs = []" "filter (\<lambda>x. f x = i) xs = []"
        using Cons.prems by (auto simp: filter_empty_conv)
      with 3 Cons show ?thesis by simp
    qed (use Cons in simp)
  qed simp
  then have "drop (num (\<lambda>x. f x < i) xs) xs = filter (\<lambda>x. f x = i) xs @ filter (\<lambda>x. i < f x) xs"
    by (metis append_eq_conv_conj num_def)
  then show ?thesis by (simp add: num_def)
qed

text \<open>A seed is found among the seeds of its boundary at its index less the number of seeds before the boundary.\<close>

lemma slice_index:
  fixes f :: "'a \<Rightarrow> nat"
  assumes "sorted (map f xs)" "k < length xs"
  shows "num (\<lambda>x. f x < f (xs ! k)) xs \<le> k"
    and "k - num (\<lambda>x. f x < f (xs ! k)) xs < num (\<lambda>x. f x = f (xs ! k)) xs"
    and "filter (\<lambda>x. f x = f (xs ! k)) xs ! (k - num (\<lambda>x. f x < f (xs ! k)) xs) = xs ! k"
proof -
  let ?i = "f (xs ! k)"
  have "num (\<lambda>x. f x < ?i) xs = num (\<lambda>x. f x < ?i) (take k xs) + num (\<lambda>x. f x < ?i) (drop k xs)"
    by (metis append_take_drop_id num_simps(3))
  moreover have "num (\<lambda>x. f x < ?i) (drop k xs) = 0"
    using assms by (auto simp: num_def filter_empty_conv in_set_conv_nth sorted_iff_nth_mono not_less)
  ultimately show le: "num (\<lambda>x. f x < ?i) xs \<le> k" using num_le [of _ "take k xs"] assms(2) by simp
  have "num (\<lambda>x. f x \<le> i) ys = num (\<lambda>x. f x < i) ys + num (\<lambda>x. f x = i) ys" for i ys
    by (induction ys) (auto simp: num_def)
  note this [of ?i xs]
  moreover have "num (\<lambda>x. f x \<le> ?i) xs \<ge> num (\<lambda>x. f x \<le> ?i) (take (Suc k) xs)"
    by (metis append_take_drop_id num_simps(3) le_add1)
  moreover have "filter (\<lambda>x. f x \<le> ?i) (take (Suc k) xs) = take (Suc k) xs"
    using assms by (intro filter_True) (auto simp: in_set_conv_nth sorted_iff_nth_mono)
  ultimately show lt: "k - num (\<lambda>x. f x < ?i) xs < num (\<lambda>x. f x = ?i) xs" using assms(2) le by (simp add: num_def)
  show "filter (\<lambda>x. f x = ?i) xs ! (k - num (\<lambda>x. f x < ?i) xs) = xs ! k"
    using sorted_slice [OF assms(1), of ?i] lt le assms(2) by simp
qed

subsection \<open>The boundaries that are built\<close>

definition set_nodes :: "node_info list \<Rightarrow> lattice_boundary \<Rightarrow> lattice_boundary" where
  "set_nodes ns b = b\<lparr>bd_right := (bd_right b)\<lparr>rb_nodeInfo := ns\<rparr>\<rparr>"

lemma fold_set_node:
  "k \<le> length (rb_nodeInfo (bd_right b)) \<Longrightarrow> fold (\<lambda>i. set_node i (g i)) [0..<k] b
     = set_nodes (map g [0..<k] @ drop k (rb_nodeInfo (bd_right b))) b"
proof (induction k)
  case (Suc k)
  then have d: "drop k (rb_nodeInfo (bd_right b)) = rb_nodeInfo (bd_right b) ! k # drop (Suc k) (rb_nodeInfo (bd_right b))"
    by (simp add: Cons_nth_drop_Suc)
  have "fold (\<lambda>i. set_node i (g i)) [0..<Suc k] b
      = set_node k (g k) (set_nodes (map g [0..<k] @ drop k (rb_nodeInfo (bd_right b))) b)"
    using Suc by simp
  also have "\<dots> = set_nodes (map g [0..<Suc k] @ drop (Suc k) (rb_nodeInfo (bd_right b))) b"
    by (simp add: set_node_def set_nodes_def d list_update_append)
  finally show ?case .
qed (simp add: set_nodes_def)

definition built_boundary :: "fresh_memory \<Rightarrow> lattice_config \<Rightarrow> node_seed list \<Rightarrow> nat \<Rightarrow> lattice_boundary" where
  "built_boundary fresh cfg ss i =
     set_nodes (map seed_node (filter (starts_at i) ss))
       (mk_boundary fresh cfg (mk_lbc (word_of_nat i + 2) (word_of_nat (num (ends_at i) ss + (if i = 0 then 1 else 0)))
         (word_of_nat (num (starts_at i) ss))))"

lemma ucast_u32_unat: "(ucast (v :: u16) :: u32) = word_of_nat (unat v)"
  by (rule bit_word_eqI) (simp add: bit_simps)

lemma unat_u32: "k < 2 ^ 32 \<Longrightarrow> unat (word_of_nat k :: u32) = k"
  by (rule unat_of_nat_small) simp

lemma ucast_u32_nonzero: "((ucast (v :: u16) :: u32) \<noteq> 0) = (unat v \<noteq> 0)"
proof -
  have "unat v < 2 ^ 16" using unsigned_less [of v, where 'a=nat] by simp
  then have "unat (ucast v :: u32) = unat v" unfolding ucast_u32_unat by (intro unat_u32) simp
  moreover have "(w \<noteq> 0) = (unat w \<noteq> 0)" for w :: u32 by (simp add: unat_eq_0)
  ultimately show ?thesis by simp
qed

lemma starts_slice:
  assumes "seeds_ok b n" "i \<le> n"
  shows "map (\<lambda>k. seed_node (drop (num (\<lambda>s. unat (sd_start s) < i) (lbd_seeds b)) (lbd_seeds b) ! k))
      [0..<num (starts_at i) (lbd_seeds b)] = map seed_node (filter (starts_at i) (lbd_seeds b))"
proof -
  let ?d = "drop (num (\<lambda>s. unat (sd_start s) < i) (lbd_seeds b)) (lbd_seeds b)" and ?k = "num (starts_at i) (lbd_seeds b)"
  have "sorted (map (\<lambda>s. unat (sd_start s)) (lbd_seeds b))" using assms(1) by (simp add: seeds_ok_def)
  from sorted_slice [OF this, of i] have f: "filter (starts_at i) (lbd_seeds b) = take ?k ?d"
    by (simp add: starts_at_def [abs_def])
  then have "?k \<le> length ?d" by (metis num_def length_take min.cobounded1)
  then have "map (\<lambda>k. ?d ! k) [0..<?k] = take ?k ?d" by (intro nth_equalityI) auto
  moreover have "map (\<lambda>k. seed_node (?d ! k)) [0..<?k] = map seed_node (map (\<lambda>k. ?d ! k) [0..<?k])" by simp
  ultimately show ?thesis unfolding f by (simp only:)
qed

lemma prepare_seeds [simp]: "lbd_seeds (prepare b) = lbd_seeds b" "lbd_maxBoundaries (prepare b) = lbd_maxBoundaries b"
  by (simp_all add: prepare_def Let_def)

lemma mk_boundary_sizes [simp]:
  "length (rb_nodeInfo (bd_right (mk_boundary fresh cfg lbc))) = unat (lbc_beginNodes lbc)"
  "length (lb_endingNodes (bd_left (mk_boundary fresh cfg lbc))) = unat (lbc_endNodes lbc)"
  "bd_currentEnding (mk_boundary fresh cfg lbc) = 0"
  by (simp_all add: mk_boundary_def mk_right_boundary_def mk_left_boundary_def)

lemma num_u32: "length ss + 1 < 2 ^ 16 \<Longrightarrow> unat (word_of_nat (num P ss) :: u32) = num P ss"
  using num_le [of P ss] by (intro unat_u32) simp

lemma construct_step:
  assumes ok: "seeds_ok b n" and i: "i < n" and b': "lbd_boundaries b' = lbd_boundaries (prepare b)" "lbd_seeds b' = lbd_seeds b"
  shows "snd (constructSingleBoundary fresh i (b', l))
    = (b'\<lparr>lbd_connectible := (lbd_connectible b')[i := num (starts_at i) (lbd_seeds b) \<noteq> 0
          \<and> num (ends_at i) (lbd_seeds b) + (if i = 0 then 1 else 0) \<noteq> 0]\<rparr>,
       l\<lparr>lt_boundaries := lt_boundaries l @ [built_boundary fresh (lt_config l) (lbd_seeds b) i]\<rparr>)"
proof -
  let ?ss = "lbd_seeds b" and ?bi = "lbd_boundaries (prepare b) ! i"
  note pf = prepare_facts [OF ok]
  have s: "unat (bi_startCount ?bi) = num (starts_at i) ?ss"
    and e: "unat (bi_endCount ?bi) = num (ends_at i) ?ss + (if i = 0 then 1 else 0)"
    and o: "bi_firstNodeOffset ?bi = word_of_nat (num (\<lambda>s. unat (sd_start s) < i) ?ss)"
    using pf(2,3,5) [of i] i by auto
  have len: "length ?ss + 1 < 2 ^ 16" using ok by (simp add: seeds_ok_def)
  let ?lbc = "mk_lbc (word_of_nat i + 2) (ucast (bi_endCount ?bi)) (ucast (bi_startCount ?bi))"
  have lbc: "?lbc = mk_lbc (word_of_nat i + 2) (word_of_nat (num (ends_at i) ?ss + (if i = 0 then 1 else 0)))
      (word_of_nat (num (starts_at i) ?ss))"
    unfolding ucast_u32_unat s e ..
  let ?bd = "mk_boundary fresh (lt_config l) ?lbc"
  have sz: "length (rb_nodeInfo (bd_right ?bd)) = num (starts_at i) ?ss"
    unfolding lbc mk_boundary_sizes by (simp only: mk_lbc_def lattice_boundary_config.simps num_u32 [OF len])
  have uo: "unat (bi_firstNodeOffset ?bi) = num (\<lambda>s. unat (sd_start s) < i) ?ss"
    unfolding o by (rule num_u32 [OF len])
  have nodes: "fold (\<lambda>k. set_node k (seed_node (drop (unat (bi_firstNodeOffset ?bi)) ?ss ! k)))
      [0..<length (rb_nodeInfo (bd_right ?bd))] ?bd = built_boundary fresh (lt_config l) ?ss i"
    unfolding fold_set_node [OF order_refl] unfolding sz uo starts_slice [OF ok less_imp_le [OF i]]
    by (simp only: built_boundary_def lbc drop_all [OF eq_imp_le [OF sz [unfolded lbc]]] append_Nil2)
  have "(lbc_beginNodes ?lbc \<noteq> 0) = (num (starts_at i) ?ss \<noteq> 0)"
    "(lbc_endNodes ?lbc \<noteq> 0) = (num (ends_at i) ?ss + (if i = 0 then 1 else 0) \<noteq> 0)"
    using s e by (simp_all only: mk_lbc_def lattice_boundary_config.simps ucast_u32_nonzero)
  with nodes show ?thesis
    by (simp add: constructSingleBoundary_def makeBoundary_def update_boundary_def Let_def b')
qed

subsection \<open>The ends that are filled\<close>

definition add_ends :: "lattice_node_ptr list \<Rightarrow> lattice_boundary \<Rightarrow> lattice_boundary" where
  "add_ends ps b = fold addEnd ps b"

lemma add_ends_facts:
  assumes "bd_currentEnding b + length ps \<le> length (lb_endingNodes (bd_left b))"
  shows "bd_currentEnding (add_ends ps b) = bd_currentEnding b + length ps
    \<and> bd_right (add_ends ps b) = bd_right b
    \<and> length (lb_endingNodes (bd_left (add_ends ps b))) = length (lb_endingNodes (bd_left b))
    \<and> take (bd_currentEnding b + length ps) (lb_endingNodes (bd_left (add_ends ps b)))
      = take (bd_currentEnding b) (lb_endingNodes (bd_left b)) @ ps"
  using assms
proof (induction ps arbitrary: b)
  case (Cons p ps)
  let ?b = "addEnd p b"
  have "bd_currentEnding ?b + length ps \<le> length (lb_endingNodes (bd_left ?b))"
    using Cons.prems by (simp add: addEnd_def)
  from Cons.IH [OF this]
  have IH: "bd_currentEnding (add_ends ps ?b) = bd_currentEnding b + 1 + length ps"
    "bd_right (add_ends ps ?b) = bd_right b"
    "length (lb_endingNodes (bd_left (add_ends ps ?b))) = length (lb_endingNodes (bd_left b))"
    "take (bd_currentEnding b + 1 + length ps) (lb_endingNodes (bd_left (add_ends ps ?b)))
      = take (bd_currentEnding b + 1) ((lb_endingNodes (bd_left b))[bd_currentEnding b := p]) @ ps"
    by (simp_all add: addEnd_def)
  have "take (bd_currentEnding b + 1) ((lb_endingNodes (bd_left b))[bd_currentEnding b := p])
      = take (bd_currentEnding b) (lb_endingNodes (bd_left b)) @ [p]"
    using Cons.prems by (simp add: take_Suc_conv_app_nth)
  moreover have "add_ends (p # ps) b = add_ends ps ?b" by (simp add: add_ends_def)
  ultimately show ?case using IH by simp
qed (simp add: add_ends_def)

lemma fold_update_boundary:
  assumes "k < length (lt_boundaries l)"
  shows "length (lt_boundaries (fold (\<lambda>(i, p). update_boundary i (addEnd p)) ts l)) = length (lt_boundaries l)
    \<and> boundary (fold (\<lambda>(i, p). update_boundary i (addEnd p)) ts l) k
      = add_ends (map snd (filter (\<lambda>t. fst t = k) ts)) (boundary l k)"
  using assms
proof (induction ts arbitrary: l)
  case (Cons t ts)
  obtain i p where t: "t = (i, p)" by (cases t)
  have "k < length (lt_boundaries (update_boundary i (addEnd p) l))" using Cons.prems by (simp add: update_boundary_def)
  from Cons.IH [OF this] Cons.prems show ?case
    by (auto simp: t update_boundary_def boundary_def add_ends_def nth_list_update)
qed (simp add: add_ends_def)

text \<open>The pointer that the seed at index \<open>k\<close> puts among the ends of a boundary.\<close>

definition end_ptr :: "node_seed list \<Rightarrow> nat \<Rightarrow> lattice_node_ptr" where
  "end_ptr ss k = mk_node_ptr (sd_start (ss ! k) + 2)
     (ucast (word_of_nat k - word_of_nat (num (\<lambda>s. unat (sd_start s) < unat (sd_start (ss ! k))) ss) :: u32))"

definition end_targets :: "node_seed list \<Rightarrow> (nat \<times> lattice_node_ptr) list" where
  "end_targets ss = (1, mk_node_ptr 0 0) # (2, mk_node_ptr 1 0)
     # map (\<lambda>k. (unat (sd_end (ss ! k)) + 2, end_ptr ss k)) [0..<length ss]"

lemma fold_cong_set: "(\<And>x s. x \<in> set xs \<Longrightarrow> f x s = g x s) \<Longrightarrow> fold f xs s = fold g xs s"
  by (induction xs arbitrary: s) auto

lemma fillEnds_targets:
  assumes ok: "seeds_ok b n" and b': "lbd_boundaries b' = lbd_boundaries (prepare b)" "lbd_seeds b' = lbd_seeds b"
  shows "fillEnds b' l = fold (\<lambda>(i, p). update_boundary i (addEnd p)) (end_targets (lbd_seeds b)) l"
proof -
  have st: "fill_end b' k l = update_boundary (unat (sd_end (lbd_seeds b ! k)) + 2) (addEnd (end_ptr (lbd_seeds b) k)) l"
    if "k < length (lbd_seeds b)" for k l
  proof -
    let ?s = "lbd_seeds b ! k"
    have "unat (sd_start ?s) < unat (sd_end ?s)" "unat (sd_end ?s) \<le> n"
      using ok that by (auto simp: seeds_ok_def list_all_iff)
    then have "sd_start ?s \<noteq> sd_end ?s" "unat (sd_start ?s) \<le> n" by auto
    then show ?thesis
      using prepare_facts(5) [OF ok, of "unat (sd_start ?s)"] by (simp add: fill_end_def Let_def b' end_ptr_def)
  qed
  have "fold (fill_end b') [0..<length (lbd_seeds b)] m
      = fold (\<lambda>k. update_boundary (unat (sd_end (lbd_seeds b ! k)) + 2) (addEnd (end_ptr (lbd_seeds b) k)))
          [0..<length (lbd_seeds b)] m" for m
    by (rule fold_cong_set) (use st in simp)
  then show ?thesis by (simp add: fillEnds_def Let_def end_targets_def b'(2) fold_map comp_def)
qed

lemma end_targets_of:
  "map snd (filter (\<lambda>t. fst t = i + 2) (end_targets ss))
    = (if i = 0 then [mk_node_ptr 1 0] else []) @ map (end_ptr ss) (filter (\<lambda>k. ends_at i (ss ! k)) [0..<length ss])"
  by (simp add: end_targets_def filter_map comp_def ends_at_def)

lemma length_filter_nth: "length (filter (\<lambda>k. P (xs ! k)) [0..<length xs]) = num P xs"
  using arg_cong [OF filter_map [of P "nth xs" "[0..<length xs]"], of length]
  by (simp add: map_nth num_def comp_def)


subsection \<open>The whole lattice\<close>

definition connect :: "node_seed list \<Rightarrow> nat \<Rightarrow> lattice_builder \<Rightarrow> lattice_builder" where
  "connect ss i b = b\<lparr>lbd_connectible := (lbd_connectible b)[i := num (starts_at i) ss \<noteq> 0
     \<and> num (ends_at i) ss + (if i = 0 then 1 else 0) \<noteq> 0]\<rparr>"

lemma fold_connect [simp]:
  "lbd_boundaries (fold (connect ss) xs b) = lbd_boundaries b" "lbd_seeds (fold (connect ss) xs b) = lbd_seeds b"
  "lbd_maxBoundaries (fold (connect ss) xs b) = lbd_maxBoundaries b"
  by (induction xs arbitrary: b) (simp_all add: connect_def)

lemma fold_construct:
  assumes "seeds_ok b n" "m \<le> n"
  shows "fold (\<lambda>i st. snd (constructSingleBoundary fresh i st)) [0..<m] (prepare b, l)
    = (fold (connect (lbd_seeds b)) [0..<m] (prepare b),
       l\<lparr>lt_boundaries := lt_boundaries l @ map (built_boundary fresh (lt_config l) (lbd_seeds b)) [0..<m]\<rparr>)"
  using assms(2)
proof (induction m)
  case (Suc m)
  let ?b' = "fold (connect (lbd_seeds b)) [0..<m] (prepare b)"
  have "snd (constructSingleBoundary fresh m (?b', l'))
      = (connect (lbd_seeds b) m ?b', l'\<lparr>lt_boundaries := lt_boundaries l' @ [built_boundary fresh (lt_config l') (lbd_seeds b) m]\<rparr>)" for l'
    unfolding connect_def [of _ m] by (rule construct_step [OF assms(1)]) (use Suc.prems in simp_all)
  with Suc show ?case by simp
qed simp

definition bos_boundary :: "fresh_memory \<Rightarrow> lattice_config \<Rightarrow> u32 \<Rightarrow> lattice_boundary" where
  "bos_boundary fresh cfg k = addBos (mk_boundary fresh cfg (mk_lbc k k 1))"

definition eos_boundary :: "fresh_memory \<Rightarrow> lattice_config \<Rightarrow> node_seed list \<Rightarrow> nat \<Rightarrow> lattice_boundary" where
  "eos_boundary fresh cfg ss n = addEos (word_of_nat n)
     (mk_boundary fresh cfg (mk_lbc (word_of_nat (n + 1) + 2) (word_of_nat (num (ends_at n) ss + (if n = 0 then 1 else 0))) 1))"

definition lattice_skeleton :: "fresh_memory \<Rightarrow> lattice_config \<Rightarrow> node_seed list \<Rightarrow> nat \<Rightarrow> lattice_boundary list" where
  "lattice_skeleton fresh cfg ss n =
     [bos_boundary fresh cfg 0, bos_boundary fresh cfg 1] @ map (built_boundary fresh cfg ss) [0..<n]
     @ [eos_boundary fresh cfg ss n]"

lemma makeBos_skeleton:
  "makeBos fresh (lattice_new cfg)
    = \<lparr>lt_boundaries = [bos_boundary fresh cfg 0, bos_boundary fresh cfg 1], lt_config = cfg\<rparr>"
  by (simp add: makeBos_def makeBoundary_def lattice_new_def update_boundary_def bos_boundary_def Let_def)

lemma makeEos_skeleton:
  assumes ok: "seeds_ok b n" and b': "lbd_boundaries b' = lbd_boundaries (prepare b)" "lbd_maxBoundaries b' = lbd_maxBoundaries b"
  shows "makeEos fresh b' l
    = l\<lparr>lt_boundaries := lt_boundaries l @ [eos_boundary fresh (lt_config l) (lbd_seeds b) n]\<rparr>"
proof -
  have m: "unat (lbd_maxBoundaries b) = n + 1" "n + 1 < 2 ^ 16" using ok by (auto simp: seeds_ok_def)
  have "lbd_maxBoundaries b = word_of_nat (unat (lbd_maxBoundaries b))" by simp
  then have mw: "lbd_maxBoundaries b = word_of_nat (n + 1)" unfolding m(1) .
  have "lbd_maxBoundaries b - 1 = word_of_nat n" unfolding mw by simp
  moreover have "(ucast (lbd_maxBoundaries b) :: u32) = word_of_nat (n + 1)" unfolding ucast_u32_unat m ..
  moreover have "(ucast (bi_endCount (lbd_boundaries (prepare b) ! n)) :: u32)
      = word_of_nat (num (ends_at n) (lbd_seeds b) + (if n = 0 then 1 else 0))"
    unfolding ucast_u32_unat prepare_facts(3) [OF ok order_refl] ..
  ultimately show ?thesis
    by (simp only: makeEos_def makeBoundary_def update_boundary_def eos_boundary_def Let_def b' m add_diff_cancel_right'
        prod.case) simp
qed

lemma buildLattice_skeleton:
  assumes ok: "seeds_ok b n"
  shows "snd (buildLattice fresh n (prepare b, lattice_new cfg))
    = fold (\<lambda>(i, p). update_boundary i (addEnd p)) (end_targets (lbd_seeds b))
        \<lparr>lt_boundaries = lattice_skeleton fresh cfg (lbd_seeds b) n, lt_config = cfg\<rparr>"
  by (simp add: buildLattice_def Let_def makeBos_skeleton fold_construct [OF ok order_refl]
      makeEos_skeleton [OF ok] fillEnds_targets [OF ok] lattice_skeleton_def)


text \<open>The node an ending pointer refers to.\<close>

definition node_at :: "lattice \<Rightarrow> lattice_node_ptr \<Rightarrow> node_info" where
  "node_at l p = rb_nodeInfo (bd_right (boundary l (unat (np_boundary p)))) ! unat (np_position p)"

lemma skeleton_boundary:
  "length (lattice_skeleton fresh cfg ss n) = n + 3"
  "i < n \<Longrightarrow> lattice_skeleton fresh cfg ss n ! (i + 2) = built_boundary fresh cfg ss i"
  "lattice_skeleton fresh cfg ss n ! (n + 2) = eos_boundary fresh cfg ss n"
  "lattice_skeleton fresh cfg ss n ! 0 = bos_boundary fresh cfg 0"
  "lattice_skeleton fresh cfg ss n ! 1 = bos_boundary fresh cfg 1"
  by (simp_all add: lattice_skeleton_def nth_append)

lemma set_nodes_simps [simp]:
  "bd_currentEnding (set_nodes ns b) = bd_currentEnding b" "bd_left (set_nodes ns b) = bd_left b"
  "rb_nodeInfo (bd_right (set_nodes ns b)) = ns"
  by (simp_all add: set_nodes_def)

lemma addEos_simps [simp]:
  "bd_currentEnding (addEos k b) = bd_currentEnding b" "bd_left (addEos k b) = bd_left b"
  by (simp_all add: addEos_def set_node_def)

lemma skeleton_ends:
  fixes fresh cfg
  assumes ok: "seeds_ok b n" and i: "i \<le> n"
  defines "bd \<equiv> lattice_skeleton fresh cfg (lbd_seeds b) n ! (i + 2)"
  shows "bd_currentEnding bd = 0"
    and "length (lb_endingNodes (bd_left bd)) = num (ends_at i) (lbd_seeds b) + (if i = 0 then 1 else 0)"
proof -
  let ?e = "num (ends_at i) (lbd_seeds b) + (if i = 0 then 1 else 0)"
  have "?e < 2 ^ 32" using num_le [of "ends_at i" "lbd_seeds b"] ok by (auto simp: seeds_ok_def)
  then have u: "unat (word_of_nat ?e :: u32) = ?e" by (rule unat_u32)
  consider "i < n" | "i = n" using i by linarith
  then have "bd_currentEnding bd = 0 \<and> length (lb_endingNodes (bd_left bd)) = ?e"
  proof cases
    case 1
    then have bd: "bd = built_boundary fresh cfg (lbd_seeds b) i" by (simp only: bd_def skeleton_boundary)
    show ?thesis unfolding bd
      by (simp only: built_boundary_def set_nodes_simps mk_boundary_sizes mk_lbc_def lattice_boundary_config.simps u)
  next
    case 2
    then have bd: "bd = eos_boundary fresh cfg (lbd_seeds b) n" by (simp only: bd_def skeleton_boundary)
    show ?thesis using u unfolding bd 2
      by (simp only: eos_boundary_def addEos_simps mk_boundary_sizes mk_lbc_def lattice_boundary_config.simps)
  qed
  then show "bd_currentEnding bd = 0" "length (lb_endingNodes (bd_left bd)) = ?e" by blast+
qed

lemma built_ends:
  fixes fresh cfg
  assumes ok: "seeds_ok b n" and i: "i \<le> n"
  defines "l \<equiv> snd (buildLattice fresh n (prepare b, lattice_new cfg))"
  shows "lb_endingNodes (bd_left (boundary l (i + 2)))
      = (if i = 0 then [mk_node_ptr 1 0] else [])
        @ map (end_ptr (lbd_seeds b)) (filter (\<lambda>k. ends_at i (lbd_seeds b ! k)) [0..<length (lbd_seeds b)])"
    and "endingsFilled (boundary l (i + 2))"
    and "bd_right (boundary l (i + 2)) = bd_right (lattice_skeleton fresh cfg (lbd_seeds b) n ! (i + 2))"
proof -
  let ?ps = "(if i = 0 then [mk_node_ptr 1 0] else [])
        @ map (end_ptr (lbd_seeds b)) (filter (\<lambda>k. ends_at i (lbd_seeds b ! k)) [0..<length (lbd_seeds b)])"
  let ?bd = "lattice_skeleton fresh cfg (lbd_seeds b) n ! (i + 2)"
  have len: "length ?ps = num (ends_at i) (lbd_seeds b) + (if i = 0 then 1 else 0)"
    by (simp add: length_filter_nth)
  have "boundary l (i + 2) = add_ends (map snd (filter (\<lambda>t. fst t = i + 2) (end_targets (lbd_seeds b)))) ?bd"
    unfolding l_def buildLattice_skeleton [OF ok]
    using fold_update_boundary [of "i + 2" "\<lparr>lt_boundaries = lattice_skeleton fresh cfg (lbd_seeds b) n, lt_config = cfg\<rparr>"
        "end_targets (lbd_seeds b)"] i
    by (simp add: skeleton_boundary(1) boundary_def)
  then have l: "boundary l (i + 2) = add_ends ?ps ?bd" unfolding end_targets_of .
  note sk = skeleton_ends [OF ok i, of fresh cfg]
  have "bd_currentEnding ?bd + length ?ps \<le> length (lb_endingNodes (bd_left ?bd))" unfolding sk len by simp
  from add_ends_facts [OF this] show "endingsFilled (boundary l (i + 2))" "bd_right (boundary l (i + 2)) = bd_right ?bd"
    "lb_endingNodes (bd_left (boundary l (i + 2))) = ?ps"
    unfolding l endingsFilled_def sk(1) by (simp_all only: sk(2) len add_0 take_0 append_Nil)
      (metis len order_refl sk(2) take_all)
qed

lemma end_ptr_node:
  assumes ok: "seeds_ok b n" and k: "k < length (lbd_seeds b)"
  shows "node_at (snd (buildLattice fresh n (prepare b, lattice_new cfg))) (end_ptr (lbd_seeds b) k)
    = seed_node (lbd_seeds b ! k)"
proof -
  let ?ss = "lbd_seeds b" and ?s = "lbd_seeds b ! k"
  let ?f = "num (\<lambda>s. unat (sd_start s) < unat (sd_start ?s)) ?ss"
  have so: "sorted (map (\<lambda>s. unat (sd_start s)) ?ss)" using ok by (simp add: seeds_ok_def)
  note sl = slice_index [OF so k]
  have "?s \<in> set ?ss" using k by simp
  then have st: "unat (sd_start ?s) < n" "n + 3 < 2 ^ 16" "length ?ss + 1 < 2 ^ 16"
    using ok by (auto simp: seeds_ok_def list_all_iff dest!: bspec [of _ _ ?s])
  have bnd: "unat (sd_start ?s + 2) = unat (sd_start ?s) + 2"
    using st(1,2) by (intro trans [OF unat_add_small]) simp_all
  have "(word_of_nat k - word_of_nat ?f :: u32) = word_of_nat (k - ?f)" using sl(1) by (simp add: of_nat_diff)
  moreover have "unat (ucast (word_of_nat (k - ?f) :: u32) :: u16) = k - ?f"
    using st(3) k by (simp add: unsigned_ucast_eq unsigned_of_nat take_bit_nat_eq_self)
  ultimately have pos: "unat (np_position (end_ptr ?ss k)) = k - ?f" by (simp add: end_ptr_def mk_node_ptr_def)
  have "node_at (snd (buildLattice fresh n (prepare b, lattice_new cfg))) (end_ptr ?ss k)
      = rb_nodeInfo (bd_right (built_boundary fresh cfg ?ss (unat (sd_start ?s)))) ! (k - ?f)"
  proof -
    have "np_boundary (end_ptr ?ss k) = sd_start ?s + 2" by (simp add: end_ptr_def mk_node_ptr_def)
    then show ?thesis
      unfolding node_at_def pos by (simp only: bnd built_ends(3) [OF ok less_imp_le [OF st(1)]] skeleton_boundary(2) [OF st(1)])
  qed
  also have "\<dots> = seed_node ?s"
    using sl(2,3) by (simp add: built_boundary_def starts_at_def [abs_def] num_def)
  finally show ?thesis .
qed

subsection \<open>Properties\<close>

text \<open>C15: \<open>checkConnectability\<close> answers true exactly when the seeds contain a path of adjacent nodes from the start to the end of the
  input.
\<close>

theorem connectability_is_reachability:
  assumes "\<forall>s \<in> set (lbd_seeds b). sd_start s \<le> sd_end s \<and> sd_end s < lbd_maxBoundaries b" "0 < lbd_maxBoundaries b"
  shows "fst (checkConnectability b) \<longleftrightarrow> (0, unat (lbd_maxBoundaries b) - 1) \<in> (seed_edges (lbd_seeds b))\<^sup>*"
  by (rule checkConnectability_reachable [OF assms])

definition sample_builder :: lattice_builder where
  "sample_builder = \<lparr>lbd_seeds = [\<lparr>sd_entryPtr = mk_entry 2, sd_start = 0, sd_end = 2\<rparr>, \<lparr>sd_entryPtr = mk_entry 4, sd_start = 0, sd_end = 1\<rparr>,
     \<lparr>sd_entryPtr = mk_entry 6, sd_start = 1, sd_end = 2\<rparr>, \<lparr>sd_entryPtr = mk_entry 8, sd_start = 2, sd_end = 3\<rparr>],
     lbd_boundaries = [], lbd_connectible = [], lbd_maxBoundaries = 4\<rparr>"

theorem connectability_is_reachability_witness:
  "fst (checkConnectability sample_builder) \<longleftrightarrow> (0, unat (lbd_maxBoundaries sample_builder) - 1) \<in> (seed_edges (lbd_seeds sample_builder))\<^sup>*"
  by (rule connectability_is_reachability) (simp_all add: sample_builder_def)

text \<open>C4: The lattice built from sorted seeds is complete and consistent: at every position of the input the nodes that start there are
  exactly the seeds that start there, every array of ending nodes is exactly filled, and the pointers in it lead to exactly the nodes
  of the seeds that end there, in the order of the seeds.
\<close>

theorem lattice_is_complete:
  assumes "seeds_ok b n"
  shows "let l = snd (buildLattice fresh n (prepare b, lattice_new cfg))
    in createdBoundaryCount l = n + 3
     \<and> list_all (\<lambda>i. rb_nodeInfo (bd_right (boundary l (i + 2)))
          = map seed_node (filter (\<lambda>s. unat (sd_start s) = i) (lbd_seeds b))) [0..<n]
     \<and> list_all (\<lambda>i. endingsFilled (boundary l (i + 2))) [0..<n + 1]
     \<and> list_all (\<lambda>i. map (node_at l) (lb_endingNodes (bd_left (boundary l (i + 2))))
          = map seed_node (filter (\<lambda>s. unat (sd_end s) = i) (lbd_seeds b))) [1..<n + 1]"
proof -
  let ?l = "snd (buildLattice fresh n (prepare b, lattice_new cfg))" and ?ss = "lbd_seeds b"
  have "createdBoundaryCount ?l = n + 3"
    unfolding createdBoundaryCount_def buildLattice_skeleton [OF assms]
    using fold_update_boundary [of 0 "\<lparr>lt_boundaries = lattice_skeleton fresh cfg ?ss n, lt_config = cfg\<rparr>"]
    by (simp add: skeleton_boundary(1))
  moreover have "rb_nodeInfo (bd_right (boundary ?l (i + 2))) = map seed_node (filter (\<lambda>s. unat (sd_start s) = i) ?ss)"
    if "i < n" for i
    using built_ends(3) [OF assms, of i fresh cfg] that skeleton_boundary(2) [OF that]
    by (simp add: built_boundary_def starts_at_def [abs_def])
  moreover have "map (node_at ?l) (lb_endingNodes (bd_left (boundary ?l (i + 2))))
      = map seed_node (filter (\<lambda>s. unat (sd_end s) = i) ?ss)" if i: "0 < i" "i \<le> n" for i
  proof -
    have "map (node_at ?l) (lb_endingNodes (bd_left (boundary ?l (i + 2))))
        = map (\<lambda>k. seed_node (?ss ! k)) (filter (\<lambda>k. ends_at i (?ss ! k)) [0..<length ?ss])"
      unfolding built_ends(1) [OF assms i(2)] using i(1) by (auto intro: end_ptr_node [OF assms])
    also have "\<dots> = map seed_node (filter (ends_at i) (map (nth ?ss) [0..<length ?ss]))"
      by (simp add: filter_map comp_def)
    finally show ?thesis by (simp add: map_nth ends_at_def [abs_def])
  qed
  ultimately show ?thesis using built_ends(2) [OF assms] by (simp add: Let_def list_all_iff less_Suc_eq_le del: upt_Suc)
qed

definition fresh0 :: fresh_memory where
  "fresh0 = \<lparr>fm_ptr = mk_node_ptr 7 7, fm_info = mk_node_info (mk_entry 1) 9 9,
     fm_beam = \<lparr>be_ptr = ConnectionPtr 1 2 3 4 None, be_totalScore = 5\<rparr>, fm_i32 = 11, fm_u64 = 12, fm_score = 13\<rparr>"

definition cfg0 :: lattice_config where
  "cfg0 = \<lparr>lc_entrySize = 2, lc_numFeaturePatterns = 3, lc_beamSize = 2, lc_scoreCnt = 1, lc_globalBeamSize = 0\<rparr>"

theorem lattice_is_complete_witness:
  "let l = snd (buildLattice fresh0 3 (prepare sample_builder, lattice_new cfg0))
    in createdBoundaryCount l = 3 + 3
     \<and> list_all (\<lambda>i. rb_nodeInfo (bd_right (boundary l (i + 2)))
          = map seed_node (filter (\<lambda>s. unat (sd_start s) = i) (lbd_seeds sample_builder))) [0..<3]
     \<and> list_all (\<lambda>i. endingsFilled (boundary l (i + 2))) [0..<3 + 1]
     \<and> list_all (\<lambda>i. map (node_at l) (lb_endingNodes (bd_left (boundary l (i + 2))))
          = map seed_node (filter (\<lambda>s. unat (sd_end s) = i) (lbd_seeds sample_builder))) [1..<3 + 1]"
  by (rule lattice_is_complete) (simp add: seeds_ok_def sample_builder_def)

end
