(* ===== verification/Beam.thy ===== *)
theory Beam
  imports LatticeBuild
begin

text \<open>
  The beam search of \<open>src/src/core/analysis/score_processor.h\<close> and \<open>score_processor.cc\<close>: packed candidates, the choice of the best ones,
  the beams of the nodes of a boundary and the global beam. Scores are the bits of a \<open>float\<close>; the addition and the product of the
  machine are the arguments \<open>fadd\<close> and \<open>fmul\<close>.
\<close>

subsection \<open>Floats\<close>

definition is_nan :: "score \<Rightarrow> bool" where
  "is_nan x \<longleftrightarrow> (x AND 0x7fffffff) > 0x7f800000"

text \<open>The order of the magnitudes with their sign; the two zeros are equal.\<close>

definition float_rank :: "score \<Rightarrow> int" where
  "float_rank x = (if x AND 0x80000000 \<noteq> 0 then - int (unat (x AND 0x7fffffff)) else int (unat (x AND 0x7fffffff)))"

definition float_gt :: "score \<Rightarrow> score \<Rightarrow> bool" where
  "float_gt x y \<longleftrightarrow> \<not> is_nan x \<and> \<not> is_nan y \<and> float_rank x > float_rank y"

definition float_lowest :: score where
  "float_lowest = 0xff7fffff"

subsection \<open>Elements of a beam\<close>

definition beam_compare :: "beam_element \<Rightarrow> beam_element \<Rightarrow> bool" where
  "beam_compare left right = float_gt (be_totalScore left) (be_totalScore right)"

definition fake :: beam_element where
  "fake = \<lparr>be_ptr = ConnectionPtr 0xffff 0xffff 0xffff 0xffff None, be_totalScore = float_lowest\<rparr>"

text \<open>The first eight bytes of an element are the four numbers of its connection.\<close>

definition isFake :: "beam_element \<Rightarrow> bool" where
  "isFake e \<longleftrightarrow> cn_boundary (be_ptr e) = 0xffff \<and> cn_left (be_ptr e) = 0xffff
     \<and> cn_right (be_ptr e) = 0xffff \<and> cn_beam (be_ptr e) = 0xffff"

definition initializeBlock :: "beam_element list \<Rightarrow> beam_element list" where
  "initializeBlock elems = map (\<lambda>_. fake) elems"

text \<open>What \<open>memset\<close> with 0xff leaves in an element; its pointer is never followed.\<close>

definition wiped :: beam_element where
  "wiped = \<lparr>be_ptr = ConnectionPtr 0xffff 0xffff 0xffff 0xffff None, be_totalScore = 0xffffffff\<rparr>"

subsection \<open>Candidates\<close>

text \<open>
  \<open>BeamCandidate::pack\<close>: the bits of the score are mapped so that the order of the words is the order of the floats. \<open>left << 16\<close>
  is computed on an \<open>int\<close> and extended with its sign.
\<close>

type_synonym candidate = u64

definition order_bits :: "score \<Rightarrow> u32" where
  "order_bits v = (if v AND 0x80000000 \<noteq> 0 then NOT v else v XOR 0x80000000)"

definition bc_pack :: "score \<Rightarrow> u16 \<Rightarrow> u16 \<Rightarrow> candidate" where
  "bc_pack score left beam =
     (push_bit 32 (ucast (order_bits score)) OR scast (push_bit 16 (ucast left :: i32)) OR ucast beam)"

definition bc_score :: "candidate \<Rightarrow> score" where
  "bc_score d =
     (let v = ucast (drop_bit 32 d) :: u32
      in if v AND 0x80000000 = 0 then NOT v else v XOR 0x80000000)"

definition bc_left :: "candidate \<Rightarrow> u16" where
  "bc_left d = ucast (drop_bit 16 d)"

definition bc_beam :: "candidate \<Rightarrow> u16" where
  "bc_beam d = ucast d"

text \<open>
  \<open>processBeamCandidates\<close>: when there are more than twice as many candidates as needed, the selection leaves between one and two
  times as many. \<open>std::sort\<close> with \<open>std::greater\<close> on words has one result.
\<close>

definition processBeamCandidates :: "candidate list \<Rightarrow> u32 \<Rightarrow> candidate list option" where
  "processBeamCandidates candidates maxBeam =
     map_option (\<lambda>c. take (min (unat maxBeam) (length c)) (rev (sort c)))
       (if length candidates > unat (maxBeam * 2)
        then map_option (\<lambda>(c, iter). take iter c)
               (util_partition (\<lambda>x y. x > y) candidates 0 (length candidates) (unat maxBeam) (unat (maxBeam * 2)))
        else Some candidates)"

subsection \<open>Beams of the nodes\<close>

definition beam_row :: "lattice \<Rightarrow> nat \<Rightarrow> nat \<Rightarrow> beam_element list" where
  "beam_row l bnd node = rb_beam (bd_right (boundary l bnd)) ! node"

definition set_beam_row :: "nat \<Rightarrow> beam_element list \<Rightarrow> lattice_boundary \<Rightarrow> lattice_boundary" where
  "set_beam_row node row b =
     b\<lparr>bd_right := (bd_right b)\<lparr>rb_beam := (rb_beam (bd_right b))[node := row]\<rparr>\<rparr>"

definition node_beam :: "lattice \<Rightarrow> lattice_node_ptr \<Rightarrow> beam_element list" where
  "node_beam l p = beam_row l (unat (np_boundary p)) (unat (np_position p))"

text \<open>\<open>resolveBeamAt\<close>: the elements before the first fake one.\<close>

definition resolveBeamAt :: "lattice \<Rightarrow> nat \<Rightarrow> nat \<Rightarrow> beam_element list" where
  "resolveBeamAt l bnd position = takeWhile (\<lambda>e. \<not> isFake e) (beam_row l bnd position)"

text \<open>
  The counters of the next three cycles are \<open>u16\<close> and are compared with wider numbers: a counter that
  would have to reach \<open>0x10000\<close> starts again at 0 and its cycle never ends, which is \<open>None\<close>.
\<close>

definition u16_counter :: "nat \<Rightarrow> 'a \<Rightarrow> 'a option" where
  "u16_counter n r = (if n < 0x10000 then Some r else None)"

definition left_candidates ::
  "(score \<Rightarrow> score \<Rightarrow> score) \<Rightarrow> boundary_scores \<Rightarrow> nat \<Rightarrow> beam_element list \<Rightarrow> nat \<Rightarrow> candidate list option" where
  "left_candidates fadd scores node leftBeam left =
     (let n = length (takeWhile (\<lambda>e. \<not> isFake e) (take (unat (bs_numBeam scores)) leftBeam))
      in u16_counter n
           (map (\<lambda>beam. bc_pack (fadd (be_totalScore (leftBeam ! beam)) (beamLeft scores node beam left ! 0))
                   (word_of_nat left) (word_of_nat beam))
             [0..<n]))"

definition fillBeamCandidates ::
  "(score \<Rightarrow> score \<Rightarrow> score) \<Rightarrow> lattice \<Rightarrow> lattice_boundary \<Rightarrow> nat \<Rightarrow> candidate list option" where
  "fillBeamCandidates fadd l bnd node =
     (let n = unat (bs_numLeft (bd_scores bnd))
      in Option.bind (u16_counter n [0..<n]) (\<lambda>lefts.
           map_option concat (those (map (\<lambda>left. left_candidates fadd (bd_scores bnd) node
                    (node_beam l (lb_endingNodes (bd_left bnd) ! left)) left) lefts))))"

definition beam_element_of :: "lattice \<Rightarrow> lattice_boundary \<Rightarrow> nat \<Rightarrow> nat \<Rightarrow> candidate \<Rightarrow> beam_element" where
  "beam_element_of l bnd bndIdx node cand =
     (let prevPtr = lb_endingNodes (bd_left bnd) ! unat (bc_left cand);
          prevNode = node_beam l prevPtr
      in \<lparr>be_ptr = ConnectionPtr (word_of_nat bndIdx) (bc_left cand) (word_of_nat node) (bc_beam cand)
                     (Some (be_ptr (prevNode ! unat (bc_beam cand)))),
          be_totalScore = bc_score cand\<rparr>)"

definition makeBeam_node ::
  "(score \<Rightarrow> score \<Rightarrow> score) \<Rightarrow> nat \<Rightarrow> nat \<Rightarrow> lattice \<Rightarrow> lattice option" where
  "makeBeam_node fadd bndIdx node l =
     (let bnd = boundary l bndIdx;
          maxBeam = lc_beamSize (lt_config l)
      in Option.bind (fillBeamCandidates fadd l bnd node) (\<lambda>cands.
         Option.bind (processBeamCandidates cands maxBeam) (\<lambda>res.
         map_option (\<lambda>elems.
           let row = elems @ replicate (unat maxBeam - length res) wiped
           in update_boundary bndIdx (set_beam_row node row) l)
         (u16_counter (length res) (map (beam_element_of l bnd bndIdx node) res)))))"

fun fold_option :: "('a \<Rightarrow> 's \<Rightarrow> 's option) \<Rightarrow> 'a list \<Rightarrow> 's \<Rightarrow> 's option" where
  "fold_option f [] s = Some s"
| "fold_option f (x # xs) s = (case f x s of None \<Rightarrow> None | Some s' \<Rightarrow> fold_option f xs s')"

definition makeBeams :: "(score \<Rightarrow> score \<Rightarrow> score) \<Rightarrow> nat \<Rightarrow> lattice \<Rightarrow> lattice option" where
  "makeBeams fadd bndIdx l =
     fold_option (makeBeam_node fadd bndIdx) [0..<unat (localNodeCount (boundary l bndIdx))] l"

subsection \<open>The global beam\<close>

definition global_candidates :: "lattice \<Rightarrow> lattice_boundary \<Rightarrow> candidate list" where
  "global_candidates l bnd =
     concat (map (\<lambda>left.
         let endBeam = takeWhile (\<lambda>e. \<not> isFake e) (node_beam l (lb_endingNodes (bd_left bnd) ! left))
         in map (\<lambda>beamIdx. bc_pack (be_totalScore (endBeam ! beamIdx)) (word_of_nat left) (word_of_nat beamIdx))
              [0..<length endBeam])
       [0..<length (lb_endingNodes (bd_left bnd))])"

definition candidate_address :: "lattice_boundary \<Rightarrow> candidate \<Rightarrow> beam_address" where
  "candidate_address bnd c =
     (let left = lb_endingNodes (bd_left bnd) ! unat (bc_left c)
      in (unat (np_boundary left), unat (np_position left), unat (bc_beam c)))"

definition makeGlobalBeam :: "nat \<Rightarrow> u32 \<Rightarrow> lattice \<Rightarrow> (candidate list \<times> lattice) option" where
  "makeGlobalBeam bndIdx maxElems l =
     (let bnd = boundary l bndIdx;
          gbptrs = lb_globalBeam (bd_left bnd)
      in Option.bind (u16_counter (length (lb_endingNodes (bd_left bnd))) (global_candidates l bnd)) (\<lambda>cands. map_option (\<lambda>res.
           if gbptrs \<noteq> [] then
             let gb = fold (\<lambda>i gb. gb[i := candidate_address bnd (res ! i)]) [0..<length res] (take (length res) gbptrs)
             in (res, update_boundary bndIdx (\<lambda>b. b\<lparr>bd_left := (bd_left b)\<lparr>lb_globalBeam := gb\<rparr>\<rparr>) l)
           else (res, l))
         (processBeamCandidates cands maxElems)))"

text \<open>\<open>dedupT1\<close> numbers the different left nodes of the candidates in the order they come.\<close>

fun dedup_step ::
  "lattice_node_ptr \<Rightarrow> (lattice_node_ptr \<times> nat) list \<times> nat list \<Rightarrow> (lattice_node_ptr \<times> nat) list \<times> nat list" where
  "dedup_step it (m, sub) =
     (case map_of m it of
        Some idx \<Rightarrow> (m, sub @ [idx])
      | None \<Rightarrow> (m @ [(it, length m)], sub @ [length m]))"

definition dedupT1 :: "lattice_boundary \<Rightarrow> candidate list \<Rightarrow> (lattice_node_ptr \<times> nat) list \<times> nat list" where
  "dedupT1 bnd gbeam =
     fold (\<lambda>c. dedup_step (lb_endingNodes (bd_left bnd) ! unat (bc_left c))) gbeam ([], [])"

definition node_patterns :: "lattice \<Rightarrow> lattice_node_ptr \<Rightarrow> u64 list" where
  "node_patterns l p = rb_patterns (bd_right (boundary l (unat (np_boundary p)))) ! unat (np_position p)"

definition gatherT1 :: "lattice \<Rightarrow> (lattice_node_ptr \<times> nat) list \<Rightarrow> u64 list list \<Rightarrow> u64 list list" where
  "gatherT1 l m buf = fold (\<lambda>(p, i) r. r[i := node_patterns l p]) m (take (length m) buf)"

text \<open>The second-to-last node of a candidate is the one its connection came from.\<close>

definition t2_node :: "lattice \<Rightarrow> lattice_boundary \<Rightarrow> candidate \<Rightarrow> lattice_node_ptr option" where
  "t2_node l bnd c =
     (let pt = lb_endingNodes (bd_left bnd) ! unat (bc_left c);
          beamPtr = node_beam l pt ! unat (bc_beam c)
      in map_option latticeNodePtr (cn_previous (be_ptr beamPtr)))"

definition gatherT2 :: "lattice \<Rightarrow> lattice_boundary \<Rightarrow> candidate list \<Rightarrow> u64 list list option" where
  "gatherT2 l bnd gbeam =
     fold_option (\<lambda>c rows. map_option (\<lambda>p. rows @ [node_patterns l p]) (t2_node l bnd c)) gbeam []"

text \<open>\<open>copyT0Scores\<close> stores the local scores of a node for the candidates and turns them into total scores.\<close>

fun copyT0_loop ::
  "(score \<Rightarrow> score \<Rightarrow> score) \<Rightarrow> nat \<Rightarrow> score \<Rightarrow> candidate list \<Rightarrow> score list \<Rightarrow> boundary_scores
   \<Rightarrow> score list \<times> boundary_scores" where
  "copyT0_loop fadd t0idx t0Score (gb # gbeam) (v # scores) s =
     (let v = fadd v t0Score;
          s = set_score t0idx (unat (bc_beam gb)) (unat (bc_left gb)) 0 v s;
          v = fadd v (bc_score gb);
          (vs, s) = copyT0_loop fadd t0idx t0Score gbeam scores s
      in (v # vs, s))"
| "copyT0_loop fadd t0idx t0Score _ scores s = (scores, s)"

definition copyT0Scores ::
  "(score \<Rightarrow> score \<Rightarrow> score) \<Rightarrow> nat \<Rightarrow> nat \<Rightarrow> candidate list \<Rightarrow> score list \<Rightarrow> score \<Rightarrow> lattice \<Rightarrow> score list \<times> lattice" where
  "copyT0Scores fadd bndIdx t0idx gbeam scores t0Score l =
     (let (vs, s) = copyT0_loop fadd t0idx t0Score gbeam scores (bd_scores (boundary l bndIdx))
      in (vs, update_boundary bndIdx (\<lambda>b. b\<lparr>bd_scores := s\<rparr>) l))"

text \<open>
  \<open>makeT0Beam\<close>: \<open>std::sort\<close> leaves the order of equal scores open, so the sorting of indices by a comparison is an argument.
\<close>

definition t0_element :: "lattice \<Rightarrow> nat \<Rightarrow> nat \<Rightarrow> candidate list \<Rightarrow> score list \<Rightarrow> nat \<Rightarrow> beam_element" where
  "t0_element l bndIdx t0idx gbeam scores i =
     (let prev = gbeam ! i;
          (b, p, k) = lb_globalBeam (bd_left (boundary l bndIdx)) ! i
      in \<lparr>be_ptr = ConnectionPtr (word_of_nat bndIdx) (bc_left prev) (word_of_nat t0idx) (bc_beam prev)
                     (Some (be_ptr (beam_row l b p ! k))),
          be_totalScore = scores ! i\<rparr>)"

definition makeT0Beam ::
  "((nat \<Rightarrow> nat \<Rightarrow> bool) \<Rightarrow> nat list \<Rightarrow> nat list) \<Rightarrow> nat \<Rightarrow> nat \<Rightarrow> candidate list \<Rightarrow> score list \<Rightarrow> lattice \<Rightarrow> lattice option" where
  "makeT0Beam sort_idx bndIdx t0idx gbeam scores l =
     (let maxBeam = lc_beamSize (lt_config l);
          idxes = [0..<length gbeam];
          gt = (\<lambda>i1 i2. float_gt (scores ! i1) (scores ! i2));
          partitionBoundary = unat (maxBeam * 4 div 3)
      in map_option (\<lambda>idxes.
           let idxes = take (unat maxBeam) (sort_idx gt idxes);
               row = map (t0_element l bndIdx t0idx gbeam scores) idxes @ replicate (unat maxBeam - length idxes) wiped
           in update_boundary bndIdx (set_beam_row t0idx row) l)
         (if length idxes > partitionBoundary
          then map_option (\<lambda>(a, itr). take itr a)
                 (util_partition gt idxes 0 (length idxes) (unat maxBeam) partitionBoundary)
          else Some idxes))"

text \<open>\<open>makeT0cutoffBeam\<close>: the first \<open>rightBeam\<close> indices are the nodes to keep; \<open>std::nth_element\<close> is an argument.\<close>

definition makeT0cutoffBeam ::
  "(score \<Rightarrow> score \<Rightarrow> score) \<Rightarrow> ((nat \<Rightarrow> nat \<Rightarrow> bool) \<Rightarrow> nat \<Rightarrow> nat list \<Rightarrow> nat list)
   \<Rightarrow> score list list \<Rightarrow> nat \<Rightarrow> nat \<Rightarrow> nat \<Rightarrow> nat list" where
  "makeT0cutoffBeam fadd nth_element prescores curElemCnt fullAnalysis rightBeam =
     (let idxBuf = [0..<curElemCnt]
      in if curElemCnt \<le> rightBeam then idxBuf
         else let cutoffScores = map (\<lambda>i. fold (\<lambda>j s. fadd s (prescores ! j ! i)) [0..<fullAnalysis] 0) [0..<curElemCnt]
              in nth_element (\<lambda>a b. float_gt (cutoffScores ! a) (cutoffScores ! b)) rightBeam idxBuf)"

subsection \<open>Rescoring\<close>

definition weighted ::
  "(score \<Rightarrow> score \<Rightarrow> score) \<Rightarrow> (score \<Rightarrow> score \<Rightarrow> score) \<Rightarrow> score list \<Rightarrow> score list \<Rightarrow> score" where
  "weighted fadd fmul scores weights =
     fold (\<lambda>i s. fadd s (fmul (scores ! i) (weights ! i))) [0..<length weights] 0"

text \<open>
  The connection an element came from is the element at its \<open>beam\<close> place in the previous node.
\<close>

definition adjust_element ::
  "(score \<Rightarrow> score \<Rightarrow> score) \<Rightarrow> (score \<Rightarrow> score \<Rightarrow> score) \<Rightarrow> score list \<Rightarrow> beam_address \<Rightarrow> lattice \<Rightarrow> lattice option" where
  "adjust_element fadd fmul weights addr l =
     (case addr of (b, p, k) \<Rightarrow>
        let el = beam_row l b p ! k;
            c = be_ptr el;
            scores = forPtr (bd_scores (boundary l (unat (cn_boundary c)))) c;
            localScore = weighted fadd fmul scores weights
        in map_option (\<lambda>prev.
             let prevBeam = beam_row l (unat (cn_boundary prev)) (unat (cn_right prev)) ! unat (cn_beam c);
                 row = (beam_row l b p)[k := el\<lparr>be_totalScore := fadd localScore (be_totalScore prevBeam)\<rparr>]
             in update_boundary b (set_beam_row p row) l)
           (cn_previous c))"

definition adjustBeamScores ::
  "(score \<Rightarrow> score \<Rightarrow> score) \<Rightarrow> (score \<Rightarrow> score \<Rightarrow> score) \<Rightarrow> score list \<Rightarrow> lattice \<Rightarrow> lattice option" where
  "adjustBeamScores fadd fmul weights l =
     fold_option (\<lambda>latBnd l.
         if localNodeCount (boundary l latBnd) = 0 then Some l
         else fold_option (adjust_element fadd fmul weights) (lb_globalBeam (bd_left (boundary l latBnd))) l)
       [3..<createdBoundaryCount l] l"

definition remakeEosBeam ::
  "(score \<Rightarrow> score \<Rightarrow> score) \<Rightarrow> (score \<Rightarrow> score \<Rightarrow> score) \<Rightarrow> ((nat \<Rightarrow> nat \<Rightarrow> bool) \<Rightarrow> nat list \<Rightarrow> nat list)
   \<Rightarrow> score list \<Rightarrow> candidate list \<Rightarrow> lattice \<Rightarrow> lattice option" where
  "remakeEosBeam fadd fmul sort_idx weights lastGbeam l =
     (let eos = createdBoundaryCount l - 1;
          bnd = boundary l eos;
          fullGbeam = lb_globalBeam (bd_left bnd);
          beamScore = (\<lambda>i. case fullGbeam ! i of (b, p, k) \<Rightarrow> be_totalScore (beam_row l b p ! k));
          gb = map (\<lambda>i. bc_pack (beamScore i) (bc_left (lastGbeam ! i)) (bc_beam (lastGbeam ! i))) [0..<length fullGbeam];
          fullScores = map (\<lambda>i. fadd (weighted fadd fmul
                (beamLeft (bd_scores bnd) 0 (unat (bc_beam (lastGbeam ! i))) (unat (bc_left (lastGbeam ! i)))) weights)
              (beamScore i)) [0..<length fullGbeam]
      in makeT0Beam sort_idx eos 0 gb fullScores l)"

subsection \<open>Packing\<close>

lemma bc_pack_bits:
  assumes "left < 0x8000"
  shows "bc_pack score left beam = push_bit 32 (ucast (order_bits score)) OR push_bit 16 (ucast left) OR ucast beam"
proof -
  have "\<not> bit (unat left) 15"
    using assms by (simp add: word_less_nat_alt bit_iff_odd)
  then have "\<not> bit left 15" by (simp add: bit_unsigned_iff)
  then have "(scast (push_bit 16 (ucast left :: i32)) :: u64) = push_bit 16 (ucast left)"
  proof (intro bit_word_eqI)
    fix n assume "n < LENGTH(64)"
    then show "bit (scast (push_bit 16 (ucast left :: i32)) :: u64) n = bit (push_bit 16 (ucast left) :: u64) n"
      using \<open>\<not> bit left 15\<close> by (cases "n \<le> 31") (auto simp: bit_simps min_def dest: bit_imp_le_length)
  qed
  then show ?thesis by (simp add: bc_pack_def)
qed

lemma order_bits_inverse:
  "(if order_bits s AND 0x80000000 = 0 then NOT (order_bits s) else order_bits s XOR 0x80000000) = s"
proof -
  have m: "(v AND 0x80000000 = 0) \<longleftrightarrow> \<not> bit v 31" for v :: u32
    using and_exp_eq_0_iff_not_bit [of v 31] by simp
  have "bit (s XOR push_bit 31 1) 31 = (\<not> bit s 31)" by (simp add: bit_simps del: push_bit_of_1)
  moreover have "push_bit 31 1 = (0x80000000 :: u32)" by simp
  moreover have "(s XOR v) XOR v = s" for v by (simp add: xor.assoc)
  ultimately show ?thesis by (simp add: order_bits_def m bit_not_iff)
qed

lemma bc_pack_parts:
  assumes "left < 0x8000"
  shows "bc_score (bc_pack score left beam) = score" "bc_left (bc_pack score left beam) = left"
    "bc_beam (bc_pack score left beam) = beam"
proof -
  let ?d = "bc_pack score left beam"
  have "(ucast (drop_bit 32 ?d) :: u32) = order_bits score"
    unfolding bc_pack_bits [OF assms] by (rule bit_word_eqI) (auto simp: bit_simps dest: bit_imp_le_length)
  then show "bc_score ?d = score" using order_bits_inverse by (simp add: bc_score_def Let_def)
  show "bc_left ?d = left" "bc_beam ?d = beam"
    unfolding bc_pack_bits [OF assms] bc_left_def bc_beam_def
    by (rule bit_word_eqI; auto simp: bit_simps dest: bit_imp_le_length)+
qed

lemma bc_pack_nat:
  assumes "left < 0x8000"
  shows "unat (bc_pack score left beam) = unat (order_bits score) * 2 ^ 32 + unat left * 2 ^ 16 + unat beam"
proof -
  have b: "unat beam < 2 ^ 16" "unat left < 2 ^ 16" "unat (order_bits score) < 2 ^ 32"
    using unsigned_less [of beam, where 'a=nat] unsigned_less [of left, where 'a=nat]
      unsigned_less [of "order_bits score", where 'a=nat] by simp_all
  have u: "unat (ucast (x :: u16) :: u64) = unat x" "unat (ucast (y :: u32) :: u64) = unat y" for x y
    by (simp_all add: unsigned_ucast_eq take_bit_nat_eq_self order_less_trans [OF unsigned_less])
  have 1: "unat (push_bit 16 (ucast left) OR ucast beam :: u64) = unat left * 2 ^ 16 + unat beam"
    using b by (subst unat_push_or) (simp_all add: u)
  have "unat left * 2 ^ 16 + unat beam < 2 ^ 32" using b by simp
  then show ?thesis unfolding bc_pack_bits [OF assms] or.assoc
    using b 1 by (subst unat_push_or) (simp_all add: u)
qed

text \<open>The order of the mapped bits refines the order of floats.\<close>

lemma order_bits_mono:
  assumes "float_gt x y"
  shows "unat (order_bits y) < unat (order_bits x)"
proof -
  have m: "(v AND 0x80000000 \<noteq> 0) \<longleftrightarrow> bit v 31" for v :: u32
    using and_exp_eq_0_iff_not_bit [of v 31] by simp
  have half: "unat v = (if bit v 31 then 2 ^ 31 else 0) + unat (v AND 0x7fffffff)" for v :: u32
  proof -
    have "v AND 0x7fffffff = take_bit 31 v" by (simp add: take_bit_eq_mask mask_eq_exp_minus_1)
    then have "unat (v AND 0x7fffffff) = unat v mod 2 ^ 31" by (simp add: unat_take_bit)
    moreover have "bit v 31 \<longleftrightarrow> odd (unat v div 2 ^ 31)" 
      using bit_iff_odd [of "unat v" 31] by (simp add: bit_unsigned_iff)
    moreover have "unat v div 2 ^ 31 < 2" using unsigned_less [of v, where 'a=nat] by simp
    moreover have "unat v = unat v div 2 ^ 31 * 2 ^ 31 + unat v mod 2 ^ 31" by (simp only: div_mult_mod_eq)
    moreover have "unat v div 2 ^ 31 = 0 \<or> unat v div 2 ^ 31 = 1" using calculation(3) by linarith
    ultimately show ?thesis by (elim disjE) (simp_all only: odd_one even_zero simp_thms if_True if_False mult_1 mult_0 add_0)
  qed
  have lo: "unat (v AND 0x7fffffff) < 2 ^ 31" for v :: u32
  proof -
    have "v AND 0x7fffffff = take_bit 31 v" by (simp add: take_bit_eq_mask mask_eq_exp_minus_1)
    then show ?thesis by (simp add: unat_take_bit)
  qed
  have ob: "unat (order_bits v) = (if bit v 31 then 2 ^ 31 - 1 - unat (v AND 0x7fffffff) else 2 ^ 31 + unat (v AND 0x7fffffff))"
    for v :: u32
  proof (cases "bit v 31")
    case True
    have "unat (NOT v) = 2 ^ 32 - 1 - unat v" 
    proof -
      have "NOT v = - 1 - v" by (simp add: not_eq_complement)
      moreover have "unat (- 1 - v) = unat (- 1 :: u32) - unat v" by (rule unat_sub) simp
      moreover have "unat (- 1 :: u32) = 2 ^ 32 - 1" by (simp add: unsigned_minus_1_eq_mask mask_eq_exp_minus_1)
      ultimately show ?thesis by simp
    qed
    then show ?thesis using True half [of v] by (simp add: order_bits_def m)
  next
    case False
    have "v XOR push_bit 31 1 = v OR push_bit 31 1"
    proof (rule bit_word_eqI)
      fix n assume "n < LENGTH(32)"
      then consider "n = 31" | "n < 31" by fastforce
      then show "bit (v XOR push_bit 31 1) n = bit (v OR push_bit 31 1) n"
        using False by cases (simp_all add: bit_simps del: push_bit_of_1)
    qed
    moreover have u: "unat v = unat (v AND 0x7fffffff)" using half [of v] False by simp
    then have "v OR push_bit 31 1 = v + push_bit 31 1" using lo [of v] by (intro or_push_bit_add) simp
    moreover have "unat (v + push_bit 31 1) = unat v + 2 ^ 31"
      using lo [of v] u by (subst unat_add_small) simp_all
    ultimately have "unat (v XOR push_bit 31 1) = unat v + 2 ^ 31" by (simp only:)
    then show ?thesis using False u by (simp add: order_bits_def m)
  qed
  define a where "a = unat (x AND 0x7fffffff)"
  define b where "b = unat (y AND 0x7fffffff)"
  have "(if bit y 31 then - int b else int b) < (if bit x 31 then - int a else int a)"
    using assms unfolding float_gt_def float_rank_def m a_def b_def by blast
  moreover have "a < 2 ^ 31" "b < 2 ^ 31" unfolding a_def b_def by (rule lo)+
  ultimately show ?thesis unfolding ob a_def [symmetric] b_def [symmetric] by (auto split: if_splits)
qed


lemma bc_pack_mono:
  assumes "float_gt x y" "left < 0x8000" "left' < 0x8000"
  shows "bc_pack y left' beam' < bc_pack x left beam"
proof -
  have "unat left' < 2 ^ 16" "unat beam' < 2 ^ 16"
    using unsigned_less [of beam', where 'a=nat] unsigned_less [of left', where 'a=nat] by simp_all
  then have "unat left' * 2 ^ 16 + unat beam' < 2 ^ 32" by simp
  moreover have "unat (order_bits y) + 1 \<le> unat (order_bits x)" using order_bits_mono [OF assms(1)] by simp
  then have "(unat (order_bits y) + 1) * 2 ^ 32 \<le> unat (order_bits x) * 2 ^ 32" by (rule mult_right_mono) simp
  ultimately show ?thesis
    unfolding word_less_nat_alt bc_pack_nat [OF assms(2)] bc_pack_nat [OF assms(3)] by simp
qed

subsection \<open>The best candidates\<close>

lemma selected_candidates:
  assumes "1 \<le> mn" "mn \<le> mx" "mx < length (c :: candidate list)"
  shows "\<exists>b m. util_partition (\<lambda>x y. x > y) c 0 (length c) mn mx = Some (b, m) \<and> mn \<le> m
    \<and> take mn (rev (sort (take m b))) = take mn (rev (sort c))"
proof -
  have "0 < length c" "mx \<le> length c - 0" using assms by linarith+
  then obtain b m where u: "util_partition (\<lambda>x y. x > y) c 0 (length c) mn mx = Some (b, m)"
    "permutes_range c b 0 (length c)" "0 + mn \<le> m" "m \<le> 0 + mx"
    "\<forall>i j. 0 \<le> i \<and> i < m \<and> m \<le> j \<and> j < length c \<longrightarrow> \<not> b ! j > b ! i"
    using greater_u64.util_partition_ok [of 0 "length c" c mn mx] assms by blast
  have len: "length b = length c" and ms: "mset c = mset b" using u(2) by (simp_all add: permutes_range_def)
  have "y \<le> x" if "x \<in> set (take m b)" "y \<in> set (drop m b)" for x y
    using split_take_drop [of m b "\<lambda>x y. \<not> y > x", OF _ that] u(5) len by (auto simp: not_less)
  from sorted_split [OF ms this] have "rev (sort c) = rev (sort (take m b)) @ rev (sort (drop m b))" by blast
  moreover have "mn \<le> length (take m b)" using u(3,4) len assms by simp
  ultimately have "take mn (rev (sort (take m b))) = take mn (rev (sort c))" by simp
  with u(1,3) show ?thesis by auto
qed

lemma processBeamCandidates_best:
  assumes "0 < maxBeam" "maxBeam < 0x80000000"
  shows "processBeamCandidates c maxBeam = Some (take (unat maxBeam) (rev (sort c)))"
proof -
  have n: "1 \<le> unat maxBeam" "unat maxBeam < 2 ^ 31"
    using assms by (simp_all add: word_less_nat_alt Suc_le_eq)
  then have d: "unat (maxBeam * 2) = unat maxBeam * 2"
    by (simp add: unat_word_ariths(2))
  show ?thesis
  proof (cases "length c > unat (maxBeam * 2)")
    case True
    with n d obtain b m where "util_partition (\<lambda>x y. x > y) c 0 (length c) (unat maxBeam) (unat maxBeam * 2) = Some (b, m)"
      "take (unat maxBeam) (rev (sort (take m b))) = take (unat maxBeam) (rev (sort c))"
      using selected_candidates [of "unat maxBeam" "unat maxBeam * 2" c] by auto
    then have "processBeamCandidates c maxBeam
        = Some (take (min (unat maxBeam) (length (take m b))) (rev (sort (take m b))))"
      using True by (simp add: processBeamCandidates_def d)
    moreover have "take (min (unat maxBeam) (length xs)) (rev (sort xs)) = take (unat maxBeam) (rev (sort xs))"
      for xs :: "candidate list" by (simp add: min_def)
    ultimately show ?thesis using \<open>take (unat maxBeam) _ = _\<close> by (simp only:)
  next
    case False
    then show ?thesis by (simp add: processBeamCandidates_def min_def)
  qed
qed


subsection \<open>One step of the search\<close>

text \<open>A lattice that agrees with another except for the beams of one boundary.\<close>

definition same_but_beams :: "nat \<Rightarrow> lattice \<Rightarrow> lattice \<Rightarrow> bool" where
  "same_but_beams k l l' \<longleftrightarrow> lt_config l' = lt_config l \<and> length (lt_boundaries l') = length (lt_boundaries l)
     \<and> (\<forall>j. j \<noteq> k \<longrightarrow> boundary l' j = boundary l j) \<and> bd_left (boundary l' k) = bd_left (boundary l k)
     \<and> bd_scores (boundary l' k) = bd_scores (boundary l k) \<and> bd_cfg (boundary l' k) = bd_cfg (boundary l k)
     \<and> bd_currentEnding (boundary l' k) = bd_currentEnding (boundary l k)
     \<and> rb_nodeInfo (bd_right (boundary l' k)) = rb_nodeInfo (bd_right (boundary l k))
     \<and> rb_entryData (bd_right (boundary l' k)) = rb_entryData (bd_right (boundary l k))
     \<and> rb_patterns (bd_right (boundary l' k)) = rb_patterns (bd_right (boundary l k))
     \<and> length (rb_beam (bd_right (boundary l' k))) = length (rb_beam (bd_right (boundary l k)))"

text \<open>The ends of a boundary lie before it, and there are fewer than 2 to the 15 of them.\<close>

definition ends_before :: "lattice \<Rightarrow> nat \<Rightarrow> bool" where
  "ends_before l k \<longleftrightarrow> list_all (\<lambda>p. unat (np_boundary p) \<noteq> k) (lb_endingNodes (bd_left (boundary l k)))
     \<and> unat (bs_numLeft (bd_scores (boundary l k))) = length (lb_endingNodes (bd_left (boundary l k)))
     \<and> length (lb_endingNodes (bd_left (boundary l k))) < 2 ^ 15"

lemma node_beam_same:
  "same_but_beams k l l' \<Longrightarrow> unat (np_boundary p) \<noteq> k \<Longrightarrow> node_beam l' p = node_beam l p"
  by (simp add: node_beam_def beam_row_def same_but_beams_def)

text \<open>The candidates of a node, when the counters reach their ends.\<close>

definition active_count :: "boundary_scores \<Rightarrow> beam_element list \<Rightarrow> nat" where
  "active_count scores leftBeam = length (takeWhile (\<lambda>e. \<not> isFake e) (take (unat (bs_numBeam scores)) leftBeam))"

definition beam_candidates ::
  "(score \<Rightarrow> score \<Rightarrow> score) \<Rightarrow> lattice \<Rightarrow> lattice_boundary \<Rightarrow> nat \<Rightarrow> candidate list" where
  "beam_candidates fadd l bnd node =
     concat (map (\<lambda>left. let leftBeam = node_beam l (lb_endingNodes (bd_left bnd) ! left)
        in map (\<lambda>beam. bc_pack (fadd (be_totalScore (leftBeam ! beam)) (beamLeft (bd_scores bnd) node beam left ! 0))
                   (word_of_nat left) (word_of_nat beam))
             [0..<active_count (bd_scores bnd) leftBeam])
       [0..<unat (bs_numLeft (bd_scores bnd))])"

lemma those_Some: "(\<And>x. x \<in> set xs \<Longrightarrow> f x = Some (g x)) \<Longrightarrow> those (map f xs) = Some (map g xs)"
  by (induction xs) simp_all

lemma active_count_le: "active_count scores leftBeam \<le> unat (bs_numBeam scores)"
  unfolding active_count_def by (rule order_trans [OF length_takeWhile_le]) simp

lemma fillBeamCandidates_eq:
  assumes "unat (bs_numLeft (bd_scores bnd)) < 0x10000" and "bs_numBeam (bd_scores bnd) < 0x10000"
  shows "fillBeamCandidates fadd l bnd node = Some (beam_candidates fadd l bnd node)"
proof -
  have "unat (bs_numBeam (bd_scores bnd)) < 0x10000" using assms(2) by (simp add: word_less_nat_alt)
  then have "active_count (bd_scores bnd) leftBeam < 0x10000" for leftBeam
    by (rule order_le_less_trans [OF active_count_le])
  then have "left_candidates fadd (bd_scores bnd) node leftBeam left
      = Some (map (\<lambda>beam. bc_pack (fadd (be_totalScore (leftBeam ! beam)) (beamLeft (bd_scores bnd) node beam left ! 0))
                   (word_of_nat left) (word_of_nat beam)) [0..<active_count (bd_scores bnd) leftBeam])" for leftBeam left
    by (simp add: left_candidates_def Let_def u16_counter_def active_count_def)
  then show ?thesis
    using assms(1) by (simp add: fillBeamCandidates_def beam_candidates_def Let_def u16_counter_def those_Some)
qed

lemma fill_same:
  assumes "same_but_beams k l l'" "ends_before l k"
  shows "beam_candidates fadd l' (boundary l' k) node = beam_candidates fadd l (boundary l k) node"
proof -
  have "node_beam l' (lb_endingNodes (bd_left (boundary l k)) ! left) = node_beam l (lb_endingNodes (bd_left (boundary l k)) ! left)"
    if "left < unat (bs_numLeft (bd_scores (boundary l k)))" for left
    using that assms by (intro node_beam_same) (auto simp: ends_before_def list_all_length)
  moreover have "bd_left (boundary l' k) = bd_left (boundary l k)" "bd_scores (boundary l' k) = bd_scores (boundary l k)"
    using assms(1) by (simp_all add: same_but_beams_def)
  ultimately show ?thesis
    unfolding beam_candidates_def by (intro arg_cong [where f = concat] map_cong) simp_all
qed

lemma candidate_left:
  assumes "ends_before l k" "c \<in> set (beam_candidates fadd l (boundary l k) node)"
  shows "unat (bc_left c) < length (lb_endingNodes (bd_left (boundary l k)))"
proof -
  from assms(2) obtain left score beam where left: "left < unat (bs_numLeft (bd_scores (boundary l k)))"
    and c: "c = bc_pack score (word_of_nat left) beam"
    by (auto simp: beam_candidates_def Let_def)
  have n: "left < 2 ^ 15" "left < length (lb_endingNodes (bd_left (boundary l k)))"
    using left assms(1) by (auto simp: ends_before_def)
  then have u: "unat (word_of_nat left :: u16) = left" by (intro unat_of_nat_small) simp
  then have "(word_of_nat left :: u16) < 0x8000" using n(1) by (simp add: word_less_nat_alt)
  then have "bc_left c = word_of_nat left" unfolding c by (rule bc_pack_parts(2))
  then show ?thesis using u n(2) by simp
qed

lemma element_same:
  assumes "same_but_beams k l l'" "ends_before l k" "unat (bc_left c) < length (lb_endingNodes (bd_left (boundary l k)))"
  shows "beam_element_of l' (boundary l' k) k node c = beam_element_of l (boundary l k) k node c"
proof -
  have "bd_left (boundary l' k) = bd_left (boundary l k)" using assms(1) by (simp add: same_but_beams_def)
  moreover have "node_beam l' (lb_endingNodes (bd_left (boundary l k)) ! unat (bc_left c))
      = node_beam l (lb_endingNodes (bd_left (boundary l k)) ! unat (bc_left c))"
    using assms by (intro node_beam_same) (auto simp: ends_before_def list_all_length)
  ultimately show ?thesis by (simp add: beam_element_of_def Let_def)
qed

text \<open>The beam a node should get: its best candidates, from the best on, and fake elements behind them.\<close>

definition best_beam :: "(score \<Rightarrow> score \<Rightarrow> score) \<Rightarrow> nat \<Rightarrow> lattice \<Rightarrow> nat \<Rightarrow> beam_element list" where
  "best_beam fadd k l node =
     (let n = unat (lc_beamSize (lt_config l));
          best = take n (rev (sort (beam_candidates fadd l (boundary l k) node)))
      in map (beam_element_of l (boundary l k) k node) best @ replicate (n - length best) wiped)"

lemma makeBeam_node_best:
  assumes sb: "same_but_beams k l l'" and eb: "ends_before l k" and k: "k < length (lt_boundaries l)"
    and bs: "0 < lc_beamSize (lt_config l)" "lc_beamSize (lt_config l) < 0x10000"
    and nb: "bs_numBeam (bd_scores (boundary l k)) < 0x10000"
  shows "makeBeam_node fadd k node l' = Some (update_boundary k (set_beam_row node (best_beam fadd k l node)) l')"
proof -
  let ?c = "beam_candidates fadd l (boundary l k) node" and ?n = "unat (lc_beamSize (lt_config l))"
  have cfg: "lt_config l' = lt_config l" using sb by (simp add: same_but_beams_def)
  have "beam_element_of l' (boundary l' k) k node c = beam_element_of l (boundary l k) k node c"
    if "c \<in> set (take ?n (rev (sort ?c)))" for c
    using that in_set_takeD [of c ?n "rev (sort ?c)"] by (intro element_same [OF sb eb] candidate_left [OF eb]) auto
  then have m: "map (beam_element_of l' (boundary l' k) k node) (take ?n (rev (sort ?c)))
      = map (beam_element_of l (boundary l k) k node) (take ?n (rev (sort ?c)))"
    by (intro map_cong) simp_all
  have "bd_scores (boundary l' k) = bd_scores (boundary l k)" using sb by (simp add: same_but_beams_def)
  then have f: "fillBeamCandidates fadd l' (boundary l' k) node = Some ?c"
    using fillBeamCandidates_eq [of "boundary l' k" fadd l' node] fill_same [OF sb eb, of fadd node] eb nb
    by (simp add: ends_before_def)
  have "lc_beamSize (lt_config l) < 0x80000000" using bs(2) by (rule order_less_trans) simp
  then have p: "processBeamCandidates ?c (lc_beamSize (lt_config l)) = Some (take ?n (rev (sort ?c)))"
    by (rule processBeamCandidates_best [OF bs(1)])
  have "?n < 0x10000" using bs(2) by (simp add: word_less_nat_alt)
  then have "length (take ?n (rev (sort ?c))) < 0x10000" by simp
  then show ?thesis
    by (simp only: makeBeam_node_def Let_def cfg f p m Option.bind.simps u16_counter_def if_True option.map best_beam_def)
qed

lemma same_but_beams_step:
  assumes "same_but_beams k l l'" "k < length (lt_boundaries l)"
  shows "same_but_beams k l (update_boundary k (set_beam_row node row) l')"
  using assms by (simp add: same_but_beams_def update_boundary_def set_beam_row_def boundary_def nth_list_update)

lemma fold_makeBeam:
  assumes eb: "ends_before l k" and k: "k < length (lt_boundaries l)"
    and bs: "0 < lc_beamSize (lt_config l)" "lc_beamSize (lt_config l) < 0x10000"
    and nb: "bs_numBeam (bd_scores (boundary l k)) < 0x10000"
    and n: "n \<le> length (rb_beam (bd_right (boundary l k)))"
  shows "\<exists>l'. fold_option (makeBeam_node fadd k) [0..<n] l = Some l' \<and> same_but_beams k l l'
    \<and> (\<forall>i < n. beam_row l' k i = best_beam fadd k l i)"
  using n
proof (induction n)
  case (Suc n)
  have app: "fold_option f (xs @ [x]) s = (case fold_option f xs s of None \<Rightarrow> None | Some s' \<Rightarrow> f x s')" for f x xs and s :: lattice
    by (induction xs arbitrary: s) (auto split: option.splits)
  from Suc obtain l' where l': "fold_option (makeBeam_node fadd k) [0..<n] l = Some l'" "same_but_beams k l l'"
    "\<forall>i < n. beam_row l' k i = best_beam fadd k l i" by auto
  let ?l = "update_boundary k (set_beam_row n (best_beam fadd k l n)) l'"
  have "fold_option (makeBeam_node fadd k) [0..<Suc n] l = Some ?l"
    using l'(1) makeBeam_node_best [OF l'(2) eb k bs nb] by (simp add: app)
  moreover have "same_but_beams k l ?l" by (rule same_but_beams_step [OF l'(2) k])
  moreover have "k < length (lt_boundaries l')" "n < length (rb_beam (bd_right (boundary l' k)))"
    using l'(2) k Suc.prems by (simp_all add: same_but_beams_def)
  then have "\<forall>i < Suc n. beam_row ?l k i = best_beam fadd k l i"
    using l'(3) by (auto simp: beam_row_def boundary_def update_boundary_def set_beam_row_def nth_list_update less_Suc_eq)
  ultimately show ?case by blast
qed (simp add: same_but_beams_def)

subsection \<open>What a beam has to be\<close>

text \<open>
  A continuation of a boundary is a left node and a place in the beam of that node, up to the first fake
  element and within the beam the scores are for. Nothing here mentions packing or the order of the search.
\<close>

type_synonym continuation = "nat \<times> nat"

definition left_beam :: "lattice \<Rightarrow> nat \<Rightarrow> nat \<Rightarrow> beam_element list" where
  "left_beam l k left = node_beam l (lb_endingNodes (bd_left (boundary l k)) ! left)"

definition continuations :: "lattice \<Rightarrow> nat \<Rightarrow> continuation set" where
  "continuations l k =
     {(left, beam). left < length (lb_endingNodes (bd_left (boundary l k)))
        \<and> beam < unat (bs_numBeam (bd_scores (boundary l k))) \<and> beam < length (left_beam l k left)
        \<and> (\<forall>b \<le> beam. \<not> isFake (left_beam l k left ! b))}"

definition continuation_score :: "(score \<Rightarrow> score \<Rightarrow> score) \<Rightarrow> lattice \<Rightarrow> nat \<Rightarrow> nat \<Rightarrow> continuation \<Rightarrow> score" where
  "continuation_score fadd l k node c =
     (case c of (left, beam) \<Rightarrow>
        fadd (be_totalScore (left_beam l k left ! beam)) (beamLeft (bd_scores (boundary l k)) node beam left ! 0))"

definition continuation_element :: "(score \<Rightarrow> score \<Rightarrow> score) \<Rightarrow> lattice \<Rightarrow> nat \<Rightarrow> nat \<Rightarrow> continuation \<Rightarrow> beam_element" where
  "continuation_element fadd l k node c =
     (case c of (left, beam) \<Rightarrow>
        \<lparr>be_ptr = ConnectionPtr (word_of_nat k) (word_of_nat left) (word_of_nat node) (word_of_nat beam)
                     (Some (be_ptr (left_beam l k left ! beam))),
         be_totalScore = continuation_score fadd l k node c\<rparr>)"

text \<open>
  \<open>cs\<close> are the \<open>n\<close> best elements of a set, or all when there are no more, in an order where none scores
  more than one before it; a beam row holds them and is wiped behind them.
\<close>

definition best_of :: "nat \<Rightarrow> 'a set \<Rightarrow> ('a \<Rightarrow> score) \<Rightarrow> 'a list \<Rightarrow> bool" where
  "best_of n S score cs \<longleftrightarrow> distinct cs \<and> set cs \<subseteq> S \<and> length cs = min n (card S)
     \<and> sorted_wrt (\<lambda>c d. \<not> float_gt (score d) (score c)) cs
     \<and> (\<forall>c \<in> set cs. \<forall>d \<in> S - set cs. \<not> float_gt (score d) (score c))"

definition is_best_beam :: "(score \<Rightarrow> score \<Rightarrow> score) \<Rightarrow> lattice \<Rightarrow> nat \<Rightarrow> nat \<Rightarrow> beam_element list \<Rightarrow> bool" where
  "is_best_beam fadd l k node row \<longleftrightarrow>
     (\<exists>cs. best_of (unat (lc_beamSize (lt_config l))) (continuations l k) (continuation_score fadd l k node) cs
        \<and> row = map (continuation_element fadd l k node) cs
                 @ replicate (unat (lc_beamSize (lt_config l)) - length cs) wiped)"

definition continuation_list :: "lattice \<Rightarrow> nat \<Rightarrow> continuation list" where
  "continuation_list l k =
     concat (map (\<lambda>left. map (Pair left) [0..<active_count (bd_scores (boundary l k)) (left_beam l k left)])
       [0..<length (lb_endingNodes (bd_left (boundary l k)))])"

definition packed :: "(score \<Rightarrow> score \<Rightarrow> score) \<Rightarrow> lattice \<Rightarrow> nat \<Rightarrow> nat \<Rightarrow> continuation \<Rightarrow> candidate" where
  "packed fadd l k node c = bc_pack (continuation_score fadd l k node c) (word_of_nat (fst c)) (word_of_nat (snd c))"

lemma less_takeWhile_iff: "i < length (takeWhile P xs) \<longleftrightarrow> i < length xs \<and> (\<forall>j \<le> i. P (xs ! j))"
proof (induction xs arbitrary: i)
  case (Cons x xs)
  show ?case
  proof (cases i)
    case (Suc m)
    have "(\<forall>j \<le> Suc m. P ((x # xs) ! j)) \<longleftrightarrow> P x \<and> (\<forall>j \<le> m. P (xs ! j))"
      by (auto simp: nth_Cons split: nat.splits)
    then show ?thesis using Cons.IH [of m] by (simp add: Suc)
  qed simp
qed simp

lemma less_active_count:
  "beam < active_count scores row \<longleftrightarrow>
     beam < unat (bs_numBeam scores) \<and> beam < length row \<and> (\<forall>b \<le> beam. \<not> isFake (row ! b))"
  by (auto simp: active_count_def less_takeWhile_iff)

lemma set_continuation_list: "set (continuation_list l k) = continuations l k"
  by (auto simp: continuation_list_def continuations_def less_active_count)

lemma distinct_pairs:
  "distinct xs \<Longrightarrow> (\<And>x. distinct (f x)) \<Longrightarrow> distinct (concat (map (\<lambda>x. map (Pair x) (f x)) xs))"
  by (induction xs) (auto simp: distinct_map inj_on_def)

lemma distinct_continuation_list: "distinct (continuation_list l k)"
  unfolding continuation_list_def by (rule distinct_pairs) simp_all

lemma beam_candidates_packed:
  assumes "ends_before l k"
  shows "beam_candidates fadd l (boundary l k) node = map (packed fadd l k node) (continuation_list l k)"
proof -
  have n: "unat (bs_numLeft (bd_scores (boundary l k))) = length (lb_endingNodes (bd_left (boundary l k)))"
    using assms by (simp add: ends_before_def)
  show ?thesis
    by (simp add: beam_candidates_def continuation_list_def map_concat o_def packed_def
        continuation_score_def left_beam_def Let_def n)
qed

lemma continuation_bounds:
  assumes "ends_before l k" "bs_numBeam (bd_scores (boundary l k)) < 0x10000" "c \<in> continuations l k"
  shows "(word_of_nat (fst c) :: u16) < 0x8000" "unat (word_of_nat (fst c) :: u16) = fst c"
    "unat (word_of_nat (snd c) :: u16) = snd c"
proof -
  have n: "fst c < 2 ^ 15" "snd c < 2 ^ 16"
    using assms by (auto simp: ends_before_def continuations_def word_less_nat_alt)
  then show u: "unat (word_of_nat (fst c) :: u16) = fst c" "unat (word_of_nat (snd c) :: u16) = snd c"
    by (intro unat_of_nat_small; simp)+
  show "(word_of_nat (fst c) :: u16) < 0x8000" using n(1) by (simp add: word_less_nat_alt u(1) del: unat_of_nat)
qed

lemma packed_element:
  assumes "ends_before l k" "bs_numBeam (bd_scores (boundary l k)) < 0x10000" "c \<in> continuations l k"
  shows "beam_element_of l (boundary l k) k node (packed fadd l k node c) = continuation_element fadd l k node c"
  using continuation_bounds [OF assms] bc_pack_parts [OF continuation_bounds(1) [OF assms]]
  by (cases c) (simp add: beam_element_of_def packed_def continuation_element_def left_beam_def Let_def
      del: unat_of_nat)

lemma packed_better:
  assumes "ends_before l k" "bs_numBeam (bd_scores (boundary l k)) < 0x10000" "c \<in> continuations l k" "d \<in> continuations l k"
    and "packed fadd l k node d \<le> packed fadd l k node c"
  shows "\<not> float_gt (continuation_score fadd l k node d) (continuation_score fadd l k node c)"
  using bc_pack_mono [OF _ continuation_bounds(1) [OF assms(1,2,4)] continuation_bounds(1) [OF assms(1,2,3)]] assms(5)
  unfolding packed_def by (meson leD)

text \<open>The first elements of a list sorted by a key from the greatest on.\<close>

lemma best_of_sorted:
  fixes key :: "'a \<Rightarrow> 'b :: linorder"
  assumes "distinct xs" and better: "\<And>c d. c \<in> set xs \<Longrightarrow> d \<in> set xs \<Longrightarrow> key d \<le> key c \<Longrightarrow> \<not> float_gt (score d) (score c)"
  shows "best_of n (set xs) score (take n (rev (sort_key key xs)))"
    and "map key (take n (rev (sort_key key xs))) = take n (rev (sort (map key xs)))"
proof -
  let ?ys = "rev (sort_key key xs)"
  have ys: "distinct ?ys" "set ?ys = set xs" "length ?ys = length xs" using assms(1) by simp_all
  have "sorted_wrt (\<ge>) (map key ?ys)"
    using sorted_sort_key [of key xs] by (simp only: rev_map [symmetric] sorted_wrt_rev)
  then have desc: "sorted_wrt (\<lambda>c d. key d \<le> key c) ?ys" by (simp only: sorted_wrt_map)
  have srt: "sorted_wrt (\<lambda>c d. \<not> float_gt (score d) (score c)) ?ys"
    by (rule sorted_wrt_mono_rel [OF _ desc]) (use better ys(2) in blast)
  then have two: "sorted_wrt (\<lambda>c d. \<not> float_gt (score d) (score c)) (take n ?ys @ drop n ?ys)"
    by (simp only: append_take_drop_id)
  then have split: "sorted_wrt (\<lambda>c d. \<not> float_gt (score d) (score c)) (take n ?ys)"
    "\<forall>c \<in> set (take n ?ys). \<forall>d \<in> set (drop n ?ys). \<not> float_gt (score d) (score c)"
    unfolding sorted_wrt_append by blast+
  have rest: "set xs - set (take n ?ys) = set (drop n ?ys)"
  proof -
    have "set xs = set (take n ?ys) \<union> set (drop n ?ys)" using ys(2) by (metis append_take_drop_id set_append)
    moreover have "set (take n ?ys) \<inter> set (drop n ?ys) = {}" by (rule set_take_disj_set_drop_if_distinct [OF ys(1) order_refl])
    ultimately show ?thesis by blast
  qed
  have "length (take n ?ys) = min n (card (set xs))" using ys(3) distinct_card [OF assms(1)] by simp
  then show "best_of n (set xs) score (take n ?ys)"
    using ys(1,2) split by (auto simp: best_of_def rest dest: in_set_takeD)
  have "map key (sort_key key xs) = sort (map key xs)"
    by (rule properties_for_sort [symmetric]) simp_all
  then show "map key (take n ?ys) = take n (rev (sort (map key xs)))" by (simp add: take_map [symmetric] rev_map [symmetric])
qed

lemma best_beam_is_best:
  assumes "ends_before l k" "bs_numBeam (bd_scores (boundary l k)) < 0x10000"
  shows "is_best_beam fadd l k node (best_beam fadd k l node)"
proof -
  let ?n = "unat (lc_beamSize (lt_config l))" and ?key = "packed fadd l k node" and ?xs = "continuation_list l k"
  define cs where "cs = take ?n (rev (sort_key ?key ?xs))"
  note best = best_of_sorted [OF distinct_continuation_list [of l k], of ?key "continuation_score fadd l k node" ?n,
      folded cs_def, unfolded set_continuation_list]
  have b: "best_of ?n (continuations l k) (continuation_score fadd l k node) cs"
    by (rule best(1)) (rule packed_better [OF assms])
  have m: "map ?key cs = take ?n (rev (sort (beam_candidates fadd l (boundary l k) node)))"
    unfolding beam_candidates_packed [OF assms(1)] by (rule best(2)) (rule packed_better [OF assms])
  have "map (beam_element_of l (boundary l k) k node) (map ?key cs) = map (continuation_element fadd l k node) cs"
    using b packed_element [OF assms] by (auto simp: best_of_def)
  then have "best_beam fadd k l node = map (continuation_element fadd l k node) cs @ replicate (?n - length cs) wiped"
    unfolding best_beam_def Let_def m [symmetric] by simp
  with b show ?thesis unfolding is_best_beam_def by blast
qed

subsection \<open>Properties\<close>

text \<open>C22: The selection of candidates by partial partitioning and sorting is the reference selection: the \<open>maxBeam\<close> greatest candidates in descending order, for
  every list of candidates and every beam size the 32-bit arithmetic can double.
\<close>

theorem best_candidates_selected:
  assumes "0 < maxBeam" "maxBeam < 0x80000000"
  shows "processBeamCandidates c maxBeam = Some (take (unat maxBeam) (rev (sort c)))"
  by (rule processBeamCandidates_best [OF assms])

theorem best_candidates_selected_witness:
  "processBeamCandidates [5, 900, 3, 77, 12, 4, 8] 2 = Some (take (unat (2 :: u32)) (rev (sort [5, 900, 3, 77, 12, 4, 8])))"
  by (rule best_candidates_selected) simp_all

text \<open>C38: As long as the position of the left node is below \<open>0x8000\<close>, a packed candidate gives back its score, whatever float it is,
  its left node and its place in the beam; and of two such candidates the one whose score compares greater
  makes the greater word, so comparing words compares scores.
\<close>

theorem candidate_packing:
  assumes "left < 0x8000" "left' < 0x8000"
  shows "bc_score (bc_pack score left beam) = score \<and> bc_left (bc_pack score left beam) = left
    \<and> bc_beam (bc_pack score left beam) = beam
    \<and> (float_gt score score' \<longrightarrow> bc_pack score left beam > bc_pack score' left' beam')"
  using bc_pack_parts [OF assms(1)] bc_pack_mono [OF _ assms] by blast

theorem candidate_packing_witness:
  "bc_score (bc_pack 0x3f800000 7 3) = 0x3f800000 \<and> bc_left (bc_pack 0x3f800000 7 3) = 7
    \<and> bc_beam (bc_pack 0x3f800000 7 3) = 3 \<and> bc_pack 0x3f800000 7 3 > bc_pack 0xbf800000 9 1"
proof -
  have "float_gt 0x3f800000 0xbf800000" by (simp add: float_gt_def is_nan_def float_rank_def)
  then show ?thesis using candidate_packing [of 7 9 "0x3f800000" 3 "0xbf800000" 1] by simp
qed

text \<open>C8: \<open>makeBeams\<close> gives every node of a boundary the beam of the search. Its row holds, as elements with the connection and the
  score of the continuation, the best of all continuations of the beams of the nodes that end at the boundary, as many as the beam has
  places (all of them when there are fewer), none of them twice, in an order where no element scores more than one before it, and none
  that was left out scores more than one that was taken; the rest of the row is wiped to fake elements. Nothing else in the lattice changes. The
  beam size, the beam the scores are for and the number of left nodes are below \<open>0x10000\<close> (\<open>0x8000\<close> for the left nodes), where the \<open>u16\<close> counters of the code reach their ends
  and candidates keep their scores, and the boundary has a row for each of its nodes.
\<close>

theorem makeBeams_best:
  assumes "ends_before l k" "k < createdBoundaryCount l" "0 < lc_beamSize (lt_config l)" "lc_beamSize (lt_config l) < 0x10000"
    and "bs_numBeam (bd_scores (boundary l k)) < 0x10000"
    and "unat (localNodeCount (boundary l k)) = length (rb_beam (bd_right (boundary l k)))"
  shows "\<exists>l'. makeBeams fadd k l = Some l' \<and> same_but_beams k l l'
    \<and> list_all (\<lambda>i. is_best_beam fadd l k i (beam_row l' k i)) [0..<length (rb_beam (bd_right (boundary l k)))]"
  using fold_makeBeam [OF assms(1) assms(2) [unfolded createdBoundaryCount_def] assms(3,4,5) order_refl, of fadd] assms(6)
    best_beam_is_best [OF assms(1,5), of fadd]
  by (auto simp: makeBeams_def list_all_iff)

definition sample_lattice :: lattice where
  "sample_lattice =
     \<lparr>lt_boundaries = [mk_boundary fresh0 cfg0 (mk_lbc 0 0 1), addEnd (mk_node_ptr 0 0) (mk_boundary fresh0 cfg0 (mk_lbc 1 1 1))],
      lt_config = cfg0\<rparr>"

theorem makeBeams_best_witness:
  "\<exists>l'. makeBeams (\<lambda>x y. x) 1 sample_lattice = Some l' \<and> same_but_beams 1 sample_lattice l'
    \<and> list_all (\<lambda>i. is_best_beam (\<lambda>x y. x) sample_lattice 1 i (beam_row l' 1 i))
        [0..<length (rb_beam (bd_right (boundary sample_lattice 1)))]"
  by (rule makeBeams_best)
    (simp_all add: sample_lattice_def ends_before_def boundary_def addEnd_def mk_boundary_def mk_left_boundary_def mk_lbc_def
      mk_boundary_scores_def mk_right_boundary_def allocate2d_def cfg0_def createdBoundaryCount_def localNodeCount_def
      mk_node_ptr_def Let_def)

text \<open>C39: From the 32768th left node on a packed candidate loses its score: the sign of \<open>left << 16\<close> overwrites the upper half, and
  whatever score is packed a NaN is read back.
\<close>

theorem candidate_left_overflow:
  assumes "0x8000 \<le> left"
  shows "bc_score (bc_pack score left beam) = 0x7fffffff"
proof -
  have "unat left < 2 ^ 16" using unsigned_less [of left, where 'a=nat] by simp
  then have "unat left div 2 ^ 15 = 1" using assms by (simp add: word_le_nat_alt div_nat_eqI)
  then have "bit (unat left) 15" by (simp add: bit_iff_odd)
  then have b: "bit left 15" by (simp add: bit_unsigned_iff)
  have "(ucast (drop_bit 32 (bc_pack score left beam)) :: u32) = - 1"
  proof (rule bit_word_eqI)
    fix n assume "n < LENGTH(32)"
    then have "bit (bc_pack score left beam) (32 + n)"
      using b by (simp add: bc_pack_def bit_simps min_def)
    then show "bit (ucast (drop_bit 32 (bc_pack score left beam)) :: u32) n = bit (- 1 :: u32) n"
      using \<open>n < LENGTH(32)\<close> by (simp add: bit_simps)
  qed
  then show ?thesis by (simp add: bc_score_def Let_def)
qed

theorem candidate_left_overflow_witness: "bc_score (bc_pack 0x3f800000 0x8000 0) = 0x7fffffff"
  by (rule candidate_left_overflow) simp

end
