(* ===== verification/AnalysisPath.thy ===== *)
theory AnalysisPath
  imports Beam
begin

text \<open>
  \<open>src/src/core/analysis/analysis_result.h\<close> and \<open>analysis_result.cc\<close>: the best path is read back from
  the lattice by following the back pointers from EOS; \<open>AnalysisPath\<close> then walks over it from the
  first word to the last. \<open>src/src/core/impl/segmented_format.cc\<close> is the walk that prints the words
  with a separator between them. A read outside an array and a dereferenced null pointer are the result \<open>None\<close>.
\<close>

record analysis_path =
  ap_elems :: "connection_ptr option list"
  ap_offsets :: "u32 list"
  ap_currentChunk :: int
  ap_currentNode :: int

definition at_index :: "'a list \<Rightarrow> int \<Rightarrow> 'a option" where
  "at_index xs i = (if 0 \<le> i \<and> i < int (length xs) then Some (xs ! nat i) else None)"

subsection \<open>Reading the path from the lattice\<close>

fun fill_loop ::
  "lattice \<Rightarrow> connection_ptr option \<Rightarrow> nat \<Rightarrow> connection_ptr option list \<Rightarrow> u32 list
    \<Rightarrow> (connection_ptr option list \<times> u32 list) option" where
  "fill_loop l None myBeam elems offsets = None"
| "fill_loop l (Some (ConnectionPtr bnd left right beam previous)) myBeam elems offsets =
     (if unat bnd > 2 then
        let topItem = beam_row l (unat bnd) (unat right) ! myBeam;
            elems' = elems @ [cn_previous (be_ptr topItem)];
            offsets' = offsets @ [word_of_nat (length elems')]
        in fill_loop l previous (unat beam) elems' offsets'
      else Some (elems, offsets))"

definition fillIn :: "lattice \<Rightarrow> analysis_path \<Rightarrow> (status_code \<times> analysis_path) option" where
  "fillIn l path =
     (let bnds = createdBoundaryCount l;
          path = path\<lparr>ap_elems := [], ap_offsets := []\<rparr>
      in if bnds = 3 then Some (StOk, path)
         else let lastStart = bd_right (boundary l (bnds - 1))
         in if length (rb_nodeInfo lastStart) \<noteq> 1 then Some (StInvalidState, path)
            else if ni_entryPtr (rb_nodeInfo lastStart ! 0) \<noteq> EntryPtr_EOS then Some (StInvalidState, path)
            else case fill_loop l (Some (be_ptr (rb_beam lastStart ! 0 ! 0))) 0 [] [0] of
                   None \<Rightarrow> None
                 | Some (elems, offsets) \<Rightarrow>
                     Some (StOk, path\<lparr>ap_elems := elems, ap_offsets := offsets, ap_currentChunk := -1\<rparr>))"

subsection \<open>Walking over the path\<close>

definition numBoundaries :: "analysis_path \<Rightarrow> int" where
  "numBoundaries path = int (length (ap_offsets path)) - 1"

definition totalNodes :: "analysis_path \<Rightarrow> int" where
  "totalNodes path = int (length (ap_elems path))"

definition nextBoundary :: "analysis_path \<Rightarrow> bool \<times> analysis_path" where
  "nextBoundary path =
     (let path = path\<lparr>ap_currentChunk := ap_currentChunk path + 1, ap_currentNode := -1\<rparr>
      in (ap_currentChunk path < numBoundaries path, path))"

definition totalNodesInChunk :: "analysis_path \<Rightarrow> int option" where
  "totalNodesInChunk path =
     (let idx = int (length (ap_offsets path)) - ap_currentChunk path - 1
      in case (at_index (ap_offsets path) idx, at_index (ap_offsets path) (idx - 1)) of
           (Some hi, Some lo) \<Rightarrow> Some (sint (hi - lo))
         | _ \<Rightarrow> None)"

definition remainingNodesInChunk :: "analysis_path \<Rightarrow> int option" where
  "remainingNodesInChunk path = map_option (\<lambda>n. n - ap_currentNode path) (totalNodesInChunk path)"

definition currentBoundary :: "analysis_path \<Rightarrow> int option" where
  "currentBoundary path =
     (let beginIdx = int (length (ap_offsets path)) - ap_currentChunk path - 2
      in case at_index (ap_offsets path) beginIdx of
           None \<Rightarrow> None
         | Some start \<Rightarrow>
             (case at_index (ap_elems path) (int (unat start)) of
                Some (Some el) \<Rightarrow> Some (int (unat (cn_boundary el)))
              | _ \<Rightarrow> None))"

definition nextNodePtr :: "analysis_path \<Rightarrow> (connection_ptr option \<times> analysis_path) option" where
  "nextNodePtr path =
     (let path = path\<lparr>ap_currentNode := ap_currentNode path + 1\<rparr>
      in case remainingNodesInChunk path of
           None \<Rightarrow> None
         | Some remaining \<Rightarrow>
             if remaining > 0 then
               let beginIdx = int (length (ap_offsets path)) - ap_currentChunk path - 2
               in case at_index (ap_offsets path) beginIdx of
                    None \<Rightarrow> None
                  | Some start \<Rightarrow>
                      map_option (\<lambda>el. (el, path))
                        (at_index (ap_elems path) (int (unat (start + word_of_int (ap_currentNode path)))))
             else Some (None, path))"

text \<open>\<open>nextNode(&result)\<close> leaves the result alone when there is no node.\<close>

definition nextNode :: "analysis_path \<Rightarrow> connection_ptr \<Rightarrow> (bool \<times> connection_ptr \<times> analysis_path) option" where
  "nextNode path result =
     map_option (\<lambda>(ptr, path). case ptr of Some c \<Rightarrow> (True, c, path) | None \<Rightarrow> (False, result, path)) (nextNodePtr path)"

definition path_reset :: "analysis_path \<Rightarrow> analysis_path" where
  "path_reset path = path\<lparr>ap_currentChunk := -1\<rparr>"

definition isLastBoundary :: "analysis_path \<Rightarrow> bool" where
  "isLastBoundary path \<longleftrightarrow> ap_currentChunk path = numBoundaries path - 1"

definition moveToChunk :: "int \<Rightarrow> analysis_path \<Rightarrow> analysis_path" where
  "moveToChunk position path = path\<lparr>ap_currentChunk := position, ap_currentNode := -1\<rparr>"

fun contains_elems :: "connection_ptr option list \<Rightarrow> connection_ptr \<Rightarrow> connection_ptr \<Rightarrow> bool option" where
  "contains_elems [] step0 step1 = Some False"
| "contains_elems (None # els) step0 step1 = None"
| "contains_elems (Some el # els) step0 step1 =
     (if connection_eq el step1 then
        (case cn_previous el of
           None \<Rightarrow> None
         | Some p \<Rightarrow> if connection_eq p step0 then Some True else contains_elems els step0 step1)
      else contains_elems els step0 step1)"

definition contains :: "analysis_path \<Rightarrow> connection_ptr \<Rightarrow> connection_ptr \<Rightarrow> bool option" where
  "contains path step0 step1 = contains_elems (ap_elems path) step0 step1"

function moveToBoundary :: "int \<Rightarrow> analysis_path \<Rightarrow> (bool \<times> analysis_path) option" where
  "moveToBoundary bnd path =
     (let (ok, path') = nextBoundary path
      in if ok then
           (case currentBoundary path' of
              None \<Rightarrow> None
            | Some b \<Rightarrow>
                if b = bnd then Some (True, path')
                else if b > bnd then Some (False, path'\<lparr>ap_currentChunk := ap_currentChunk path' - 1\<rparr>)
                else moveToBoundary bnd path')
         else Some (False, path'))"
  by pat_completeness auto
termination
  by (relation "measure (\<lambda>(bnd, path). nat (numBoundaries path - ap_currentChunk path))")
    (auto simp: nextBoundary_def numBoundaries_def Let_def)

declare moveToBoundary.simps [simp del]

lemma nextNodePtr_chunk:
  "nextNodePtr path = Some (r, path') \<Longrightarrow> path' = path\<lparr>ap_currentNode := ap_currentNode path + 1\<rparr>"
  by (auto simp: nextNodePtr_def Let_def split: option.splits if_splits)

subsection \<open>Printing the words\<close>

text \<open>
  \<open>SegmentedFormat::format\<close>. \<open>locate\<close> is the output manager followed by the surface field: the
  surface of a node, or nothing when the node has no entry. The status of \<open>fillIn\<close> is returned at once when it is an error.
\<close>

function format_loop ::
  "(lattice_node_ptr \<Rightarrow> byte_string option) \<Rightarrow> byte_string \<Rightarrow> analysis_path \<Rightarrow> byte_string
    \<Rightarrow> (status_code \<times> byte_string) option" where
  "format_loop locate separator path printer =
     (let (ok, path') = nextBoundary path
      in if ok then
           (case nextNodePtr path' of
              None \<Rightarrow> None
            | Some (None, path') \<Rightarrow> Some (StInvalidParameter, printer)
            | Some (Some ptr, path') \<Rightarrow>
                (case locate (latticeNodePtr ptr) of
                   None \<Rightarrow> Some (StInvalidParameter, printer)
                 | Some surface \<Rightarrow>
                     format_loop locate separator path'
                       (printer @ surface @ (if isLastBoundary path' then [] else separator))))
         else Some (StOk, printer @ [0x0a]))"
  by pat_completeness auto
termination
  by (relation "measure (\<lambda>(_, _, path, _). nat (numBoundaries path - ap_currentChunk path))")
    (auto simp: nextBoundary_def numBoundaries_def Let_def dest!: nextNodePtr_chunk)

declare format_loop.simps [simp del]

definition segmented_format ::
  "(lattice_node_ptr \<Rightarrow> byte_string option) \<Rightarrow> byte_string \<Rightarrow> lattice \<Rightarrow> analysis_path \<Rightarrow> (status_code \<times> byte_string) option" where
  "segmented_format locate separator l top1 =
     (case fillIn l top1 of
        None \<Rightarrow> None
      | Some (status, top1) \<Rightarrow>
          if status \<noteq> StOk then Some (status, []) else format_loop locate separator top1 [])"
subsection \<open>The chain of back pointers\<close>

text \<open>The words before a connection, from the last to the first; boundaries 0 and 1 hold the two BOS nodes.\<close>

fun best_path :: "connection_ptr \<Rightarrow> connection_ptr list" where
  "best_path (ConnectionPtr bnd left right beam previous) =
     (if unat bnd > 2 then (case previous of None \<Rightarrow> [] | Some p \<Rightarrow> p # best_path p) else [])"

text \<open>
  A connection is linked when it is the element \<open>slot\<close> of the beam of its own node, and its previous
  connection, at a boundary further left, is linked at the slot its \<open>beam\<close> names.
\<close>

fun linked :: "lattice \<Rightarrow> nat \<Rightarrow> connection_ptr \<Rightarrow> bool" where
  "linked l slot (ConnectionPtr bnd left right beam previous) \<longleftrightarrow>
     (unat bnd > 2 \<longrightarrow>
        unat bnd < createdBoundaryCount l \<and> unat right < length (rb_beam (bd_right (boundary l (unat bnd))))
        \<and> slot < length (beam_row l (unat bnd) (unat right))
        \<and> be_ptr (beam_row l (unat bnd) (unat right) ! slot) = ConnectionPtr bnd left right beam previous
        \<and> (case previous of None \<Rightarrow> False | Some p \<Rightarrow> unat (cn_boundary p) < unat bnd \<and> linked l (unat beam) p))"

declare linked.simps [simp del] best_path.simps [simp del]

lemma linked_previous:
  assumes "linked l slot c" "2 < unat (cn_boundary c)"
  obtains p where "cn_previous c = Some p" "unat (cn_boundary p) < unat (cn_boundary c)" "linked l (unat (cn_beam c)) p"
    "be_ptr (beam_row l (unat (cn_boundary c)) (unat (cn_right c)) ! slot) = c" "best_path c = p # best_path p"
  using assms by (cases c) (auto simp: linked.simps best_path.simps split: option.splits)

lemma best_path_start: "unat (cn_boundary c) \<le> 2 \<Longrightarrow> best_path c = []"
  by (cases c) (simp add: best_path.simps)

lemma linked_start: "unat (cn_boundary c) \<le> 2 \<Longrightarrow> linked l slot c"
  by (cases c) (simp add: linked.simps)

lemma best_path_length: "linked l slot c \<Longrightarrow> length (best_path c) \<le> unat (cn_boundary c)"
proof (induction c arbitrary: slot rule: best_path.induct)
  case (1 bnd left right beam previous)
  show ?case
  proof (cases "2 < unat bnd")
    case True
    obtain p where p: "previous = Some p" "unat (cn_boundary p) < unat bnd" "linked l (unat beam) p"
      "best_path (ConnectionPtr bnd left right beam previous) = p # best_path p"
      by (rule linked_previous [OF "1.prems"]) (use True in auto)
    from "1.IH" [OF True p(1,3)] p(2,4) show ?thesis by simp
  qed (simp add: best_path_start)
qed

lemma fill_loop_linked:
  "linked l slot c \<Longrightarrow> fill_loop l (Some c) slot elems offsets =
     Some (elems @ map Some (best_path c),
           offsets @ map word_of_nat [length elems + 1..<length elems + 1 + length (best_path c)])"
proof (induction c arbitrary: slot elems offsets rule: best_path.induct)
  case (1 bnd left right beam previous)
  let ?c = "ConnectionPtr bnd left right beam previous"
  show ?case
  proof (cases "2 < unat bnd")
    case True
    obtain p where p: "previous = Some p" "linked l (unat beam) p" "best_path ?c = p # best_path p"
      and top: "be_ptr (beam_row l (unat bnd) (unat right) ! slot) = ?c"
      by (rule linked_previous [OF "1.prems"]) (use True in auto)
    have u: "[length elems + 1..<length elems + 1 + Suc n] = (length elems + 1) # [length elems + 2..<length elems + 2 + n]" for n
      by (subst upt_conv_Cons) auto
    have "fill_loop l (Some ?c) slot elems offsets
        = fill_loop l (Some p) (unat beam) (elems @ [Some p]) (offsets @ [word_of_nat (length elems + 1)])"
      using True by (simp add: top p(1))
    also have "\<dots> = Some (elems @ map Some (best_path ?c),
        offsets @ word_of_nat (length elems + 1) # map word_of_nat [length elems + 2..<length elems + 2 + length (best_path p)])"
      using "1.IH" [OF True p(1,2), of "elems @ [Some p]"] by (simp add: p(3))
    finally show ?thesis by (simp only: p(3) length_Cons u list.map)
  qed (simp add: best_path_start)
qed

text \<open>The path that holds the given words, last word first.\<close>

definition path_of :: "connection_ptr list \<Rightarrow> int \<Rightarrow> int \<Rightarrow> analysis_path" where
  "path_of cs chunk node =
     \<lparr>ap_elems = map Some cs, ap_offsets = map word_of_nat [0..<Suc (length cs)], ap_currentChunk = chunk, ap_currentNode = node\<rparr>"

lemma path_of_next: "nextBoundary (path_of cs chunk node) = (chunk + 1 < int (length cs), path_of cs (chunk + 1) (-1))"
  by (simp add: nextBoundary_def path_of_def numBoundaries_def)

lemma path_of_node:
  assumes "length cs < 2 ^ 31" "chunk < length cs"
  shows "nextNodePtr (path_of cs (int chunk) (-1)) = Some (Some (rev cs ! chunk), path_of cs (int chunk) 0)"
proof -
  let ?i = "length cs - Suc chunk"
  have i: "nat (int (length cs) - int chunk) = Suc ?i" "nat (int (length cs) - int chunk - 1) = ?i"
    "nat (int (length cs) - 1 - int chunk) = ?i"
    using assms(2) by linarith+
  have n: "[0..<Suc (length cs)] ! Suc ?i = Suc ?i" "[0..<Suc (length cs)] ! ?i = ?i"
    using assms(2) by (subst nth_upt; simp)+
  have o: "at_index (ap_offsets (path_of cs (int chunk) m)) (int (length cs) - int chunk) = Some (word_of_nat (Suc ?i))"
    "at_index (ap_offsets (path_of cs (int chunk) m)) (int (length cs) - int chunk - 1) = Some (word_of_nat ?i)" for m
    using assms(2) by (simp_all only: at_index_def path_of_def analysis_path.simps i length_map length_upt nth_map n) auto
  have "unat (word_of_nat ?i :: u32) = ?i" using assms(1) by (intro unat_of_nat_small) simp
  moreover have "at_index (map Some cs) (int ?i) = Some (Some (rev cs ! chunk))"
    using assms(2) by (simp only: at_index_def length_map nat_int rev_nth) simp
  moreover have "(word_of_nat (Suc ?i) :: u32) - word_of_nat ?i = 1" by (simp only: of_nat_Suc) simp
  ultimately show ?thesis
    using o [of 0] o [of "-1"]
    by (simp add: nextNodePtr_def remainingNodesInChunk_def totalNodesInChunk_def) (simp add: path_of_def)
qed
text \<open>The first element of the beam of the last node, from which the path is read.\<close>

definition eos_top :: "lattice \<Rightarrow> connection_ptr" where
  "eos_top l = be_ptr (rb_beam (bd_right (boundary l (createdBoundaryCount l - 1))) ! 0 ! 0)"

definition ends_in_eos :: "lattice \<Rightarrow> bool" where
  "ends_in_eos l \<longleftrightarrow> map ni_entryPtr (rb_nodeInfo (bd_right (boundary l (createdBoundaryCount l - 1)))) = [EntryPtr_EOS]"

lemma fillIn_linked:
  assumes "3 < createdBoundaryCount l" "ends_in_eos l" "linked l 0 (eos_top l)"
  shows "fillIn l path = Some (StOk, path_of (best_path (eos_top l)) (-1) (ap_currentNode path))"
proof -
  let ?n = "length (best_path (eos_top l))"
  have "rb_nodeInfo (bd_right (boundary l (createdBoundaryCount l - 1))) \<noteq> []"
    using assms(2) by (auto simp: ends_in_eos_def)
  then have eos: "length (rb_nodeInfo (bd_right (boundary l (createdBoundaryCount l - 1)))) = 1"
    "ni_entryPtr (rb_nodeInfo (bd_right (boundary l (createdBoundaryCount l - 1))) ! 0) = EntryPtr_EOS"
    using assms(2) by (auto simp: ends_in_eos_def)
  have offs: "[0] @ map word_of_nat [1..<1 + ?n] = map (word_of_nat :: nat \<Rightarrow> u32) [0..<Suc ?n]"
    by (subst upt_conv_Cons [of 0]) simp_all
  have loop: "fill_loop l (Some (eos_top l)) 0 [] [0] = Some (map Some (best_path (eos_top l)), map word_of_nat [0..<Suc ?n])"
    using fill_loop_linked [OF assms(3), of "[]" "[0]"] offs by simp
  have "be_ptr (rb_beam (bd_right (boundary l (createdBoundaryCount l - 1))) ! 0 ! 0) = eos_top l"
    by (simp only: eos_top_def)
  then show ?thesis
    using assms(1) eos by (simp add: fillIn_def Let_def loop del: fill_loop.simps upt_Suc) (simp add: path_of_def)
qed

fun join_with :: "byte_string \<Rightarrow> byte_string list \<Rightarrow> byte_string" where
  "join_with sep [] = []"
| "join_with sep [w] = w"
| "join_with sep (w # v # ws) = w @ sep @ join_with sep (v # ws)"

lemma format_loop_path:
  assumes "length cs < 2 ^ 31" "list_all (\<lambda>c. locate (latticeNodePtr c) = Some (surf c)) cs" "chunk \<le> length cs"
  shows "format_loop locate sep (path_of cs (int chunk - 1) node) printer
    = Some (StOk, printer @ join_with sep (map surf (drop chunk (rev cs))) @ [0x0a])"
  using assms(3)
proof (induction "length cs - chunk" arbitrary: chunk node printer)
  case 0
  then show ?case by (subst format_loop.simps) (simp add: path_of_next)
next
  case (Suc n)
  then have c: "chunk < length cs" by linarith
  let ?p = "printer @ surf (rev cs ! chunk) @ (if Suc chunk = length cs then [] else sep)"
  have last: "isLastBoundary (path_of cs (int chunk) 0) \<longleftrightarrow> Suc chunk = length cs"
    using c by (auto simp: isLastBoundary_def numBoundaries_def path_of_def)
  have "rev cs ! chunk \<in> set cs" using c by (metis length_rev nth_mem set_rev)
  then have loc: "locate (latticeNodePtr (rev cs ! chunk)) = Some (surf (rev cs ! chunk))"
    using assms(2) by (simp add: list_all_iff)
  have "format_loop locate sep (path_of cs (int chunk - 1) node) printer = format_loop locate sep (path_of cs (int chunk) 0) ?p"
    by (subst format_loop.simps) (simp add: path_of_next path_of_node [OF assms(1) c] loc last c)
  also have "\<dots> = Some (StOk, ?p @ join_with sep (map surf (drop (Suc chunk) (rev cs))) @ [0x0a])"
    using Suc.hyps(1) [of "Suc chunk" 0 ?p] Suc.hyps(2) c by simp
  also have "surf (rev cs ! chunk) @ (if Suc chunk = length cs then [] else sep) @ join_with sep (map surf (drop (Suc chunk) (rev cs)))
      = join_with sep (map surf (drop chunk (rev cs)))"
  proof (cases "drop (Suc chunk) (rev cs)")
    case Nil
    then have "length cs \<le> Suc chunk" by simp
    then have "Suc chunk = length cs" using c by linarith
    then show ?thesis using c Nil by (simp add: Cons_nth_drop_Suc [symmetric])
  next
    case (Cons w ws)
    then have "Suc chunk \<noteq> length cs" by auto
    then show ?thesis using c Cons by (simp add: Cons_nth_drop_Suc [of chunk "rev cs", symmetric])
  qed
  then have "?p @ join_with sep (map surf (drop (Suc chunk) (rev cs))) @ [0x0a]
      = printer @ join_with sep (map surf (drop chunk (rev cs))) @ [0x0a]" by (metis append.assoc)
  finally show ?case .
qed

subsection \<open>The search keeps its back pointers\<close>

text \<open>
  Every element before the first fake one of every beam left of boundary \<open>k\<close> is its own connection: it
  names its node, and its back pointers are linked down to BOS.
\<close>

definition beams_linked :: "lattice \<Rightarrow> nat \<Rightarrow> bool" where
  "beams_linked l k \<longleftrightarrow> (\<forall>j < k. \<forall>i < length (rb_beam (bd_right (boundary l j))).
     \<forall>m < length (resolveBeamAt l j i). let c = be_ptr (beam_row l j i ! m)
       in unat (cn_boundary c) = j \<and> unat (cn_right c) = i \<and> linked l m c)"

lemma linked_same:
  assumes "same_but_beams k l l'"
  shows "linked l slot c \<Longrightarrow> unat (cn_boundary c) < k \<Longrightarrow> linked l' slot c"
proof (induction c arbitrary: slot rule: best_path.induct)
  case (1 bnd left right beam previous)
  have b: "boundary l' (unat bnd) = boundary l (unat bnd)" "createdBoundaryCount l' = createdBoundaryCount l"
    using assms "1.prems"(2) by (simp_all add: same_but_beams_def createdBoundaryCount_def)
  show ?case
  proof (cases "2 < unat bnd")
    case True
    then show ?thesis
      using "1.prems" "1.IH" [OF True]
      by (auto simp: linked.simps [of _ _ bnd] beam_row_def b split: option.splits)
  qed (simp add: linked.simps)
qed

lemma candidate_parts:
  assumes "ends_before l k" "bs_numBeam (bd_scores (boundary l k)) < 0x10000" "c \<in> set (beam_candidates fadd l (boundary l k) node)"
  shows "unat (bc_left c) < length (lb_endingNodes (bd_left (boundary l k)))"
    and "unat (bc_beam c) < length (takeWhile (\<lambda>e. \<not> isFake e)
      (node_beam l (lb_endingNodes (bd_left (boundary l k)) ! unat (bc_left c))))"
proof -
  let ?ends = "lb_endingNodes (bd_left (boundary l k))" and ?nb = "bs_numBeam (bd_scores (boundary l k))"
  from assms(3) obtain left score beam where left: "left < unat (bs_numLeft (bd_scores (boundary l k)))"
    and c: "c = bc_pack score (word_of_nat left) (word_of_nat beam)"
    and beam: "beam < length (takeWhile (\<lambda>e. \<not> isFake e) (take (unat ?nb) (node_beam l (?ends ! left))))"
    by (auto simp: beam_candidates_def Let_def active_count_def)
  have n: "left < 2 ^ 15" "left < length ?ends"
    using left assms(1) by (auto simp: ends_before_def)
  then have u: "unat (word_of_nat left :: u16) = left" by (intro unat_of_nat_small) simp
  then have lt: "(word_of_nat left :: u16) < 0x8000" using n(1) by (simp add: word_less_nat_alt)
  have l: "bc_left c = word_of_nat left" "bc_beam c = word_of_nat beam" unfolding c by (rule bc_pack_parts [OF lt])+
  then show "unat (bc_left c) < length ?ends" using u n(2) by simp
  have "length (takeWhile (\<lambda>e. \<not> isFake e) (take (unat ?nb) (node_beam l (?ends ! left)))) \<le> unat ?nb"
    by (rule order_trans [OF length_takeWhile_le]) simp
  then have "beam < 2 ^ 16" using beam assms(2) by (simp add: word_less_nat_alt)
  then have b: "unat (bc_beam c) = beam" unfolding l by (intro unat_of_nat_small) simp
  have "length (takeWhile P (take n xs)) \<le> length (takeWhile P xs)" for P n and xs :: "beam_element list"
    by (induction xs arbitrary: n) (simp_all add: take_Cons split: nat.splits)
  then show "unat (bc_beam c) < length (takeWhile (\<lambda>e. \<not> isFake e) (node_beam l (?ends ! unat (bc_left c))))"
    using beam b l u by (metis (no_types, lifting) le_trans linorder_not_less)
qed
text \<open>The nodes that end at a boundary start before it, and exist.\<close>

definition ends_exist :: "lattice \<Rightarrow> nat \<Rightarrow> bool" where
  "ends_exist l k \<longleftrightarrow> list_all (\<lambda>p. unat (np_boundary p) < k
     \<and> unat (np_position p) < length (rb_beam (bd_right (boundary l (unat (np_boundary p))))))
     (lb_endingNodes (bd_left (boundary l k)))"

lemma beams_linkedD:
  assumes "beams_linked l k" "j < k" "i < length (rb_beam (bd_right (boundary l j)))" "m < length (resolveBeamAt l j i)"
  shows "unat (cn_boundary (be_ptr (beam_row l j i ! m))) = j" "unat (cn_right (be_ptr (beam_row l j i ! m))) = i"
    "linked l m (be_ptr (beam_row l j i ! m))"
  using assms unfolding beams_linked_def Let_def by blast+

lemma element_linked:
  assumes "beams_linked l k" "ends_before l k" "ends_exist l k" "bs_numBeam (bd_scores (boundary l k)) < 0x10000"
    and "k < 2 ^ 16" "i < 2 ^ 16" "c \<in> set (beam_candidates fadd l (boundary l k) i)" "same_but_beams k l l'"
    and row: "k < createdBoundaryCount l'" "i < length (rb_beam (bd_right (boundary l' k)))" "m < length (beam_row l' k i)"
      "beam_row l' k i ! m = beam_element_of l (boundary l k) k i c"
  shows "let c = be_ptr (beam_row l' k i ! m) in unat (cn_boundary c) = k \<and> unat (cn_right c) = i \<and> linked l' m c"
proof -
  let ?q = "lb_endingNodes (bd_left (boundary l k)) ! unat (bc_left c)"
  let ?j = "unat (np_boundary ?q)" and ?i = "unat (np_position ?q)" and ?m = "unat (bc_beam c)"
  let ?p = "be_ptr (node_beam l ?q ! ?m)"
  have "unat (bc_left c) < length (lb_endingNodes (bd_left (boundary l k)))"
    by (rule candidate_parts(1) [OF assms(2,4,7)])
  then have q: "?j < k" "?i < length (rb_beam (bd_right (boundary l ?j)))"
    using assms(3) by (auto simp: ends_exist_def list_all_length)
  have "?m < length (resolveBeamAt l ?j ?i)"
    using candidate_parts(2) [OF assms(2,4,7)] by (simp only: resolveBeamAt_def node_beam_def)
  note p = beams_linkedD [OF assms(1) q this, folded node_beam_def]
  have lp: "linked l' ?m ?p" using linked_same [OF assms(8) p(3)] p(1) q(1) by simp
  have e: "be_ptr (beam_row l' k i ! m) = ConnectionPtr (word_of_nat k) (bc_left c) (word_of_nat i) (bc_beam c) (Some ?p)"
    by (simp add: row(4) beam_element_of_def Let_def)
  have u: "unat (word_of_nat k :: u16) = k" "unat (word_of_nat i :: u16) = i" using assms(5,6) by (simp_all add: unat_of_nat_small)
  show ?thesis
    using row(1-3) lp p(1) q(1) by (simp only: Let_def e u linked.simps connection_ptr.sel option.case simp_thms)
qed

lemma resolve_best:
  assumes "m < length (takeWhile (\<lambda>e. \<not> isFake e) (xs @ replicate n wiped))"
  shows "m < length xs"
proof -
  have "isFake wiped" by (simp add: isFake_def wiped_def)
  then have "length (takeWhile (\<lambda>e. \<not> isFake e) (xs @ replicate n wiped)) \<le> length xs"
    by (induction xs) (auto simp: takeWhile_replicate)
  then show ?thesis using assms by linarith
qed

text \<open>A step of the beam search keeps the back pointers: the beams of its boundary are linked too.\<close>

lemma beams_stay_linked:
  assumes "beams_linked l k" "ends_before l k" "ends_exist l k" "bs_numBeam (bd_scores (boundary l k)) < 0x10000"
    and "k < createdBoundaryCount l" "k < 2 ^ 16" "0 < lc_beamSize (lt_config l)" "lc_beamSize (lt_config l) < 0x10000"
    and "unat (localNodeCount (boundary l k)) = length (rb_beam (bd_right (boundary l k)))"
    and "length (rb_beam (bd_right (boundary l k))) \<le> 2 ^ 16"
  shows "\<exists>l'. makeBeams fadd k l = Some l' \<and> same_but_beams k l l' \<and> beams_linked l' (k + 1)"
proof -
  let ?n = "length (rb_beam (bd_right (boundary l k)))"
  obtain l' where l': "makeBeams fadd k l = Some l'" "same_but_beams k l l'" and rows: "\<And>i. i < ?n \<Longrightarrow> beam_row l' k i = best_beam fadd k l i"
    using fold_makeBeam [OF assms(2) assms(5) [unfolded createdBoundaryCount_def] assms(7,8,4) order_refl, of fadd] assms(9)
    by (auto simp: makeBeams_def)
  have n: "length (rb_beam (bd_right (boundary l' k))) = ?n" and cnt: "k < createdBoundaryCount l'"
    using l'(2) assms(5) by (simp_all add: same_but_beams_def createdBoundaryCount_def)
  have "let c = be_ptr (beam_row l' j i ! m) in unat (cn_boundary c) = j \<and> unat (cn_right c) = i \<and> linked l' m c"
    if j: "j < k + 1" and i: "i < length (rb_beam (bd_right (boundary l' j)))" and m: "m < length (resolveBeamAt l' j i)" for j i m
  proof (cases "j = k")
    case False
    then have same: "boundary l' j = boundary l j" using l'(2) by (simp add: same_but_beams_def)
    have b: "j < k" "i < length (rb_beam (bd_right (boundary l j)))" "m < length (resolveBeamAt l j i)"
      using False j i m same by (simp_all add: resolveBeamAt_def beam_row_def)
    have "linked l' m (be_ptr (beam_row l j i ! m))"
      by (rule linked_same [OF l'(2) beams_linkedD(3) [OF assms(1) b]]) (use beams_linkedD(1) [OF assms(1) b] b(1) in simp)
    then show ?thesis using beams_linkedD(1,2) [OF assms(1) b] same by (simp add: Let_def beam_row_def)
  next
    case True
    let ?best = "take (unat (lc_beamSize (lt_config l))) (rev (sort (beam_candidates fadd l (boundary l k) i)))"
    have row: "beam_row l' k i = map (beam_element_of l (boundary l k) k i) ?best
        @ replicate (unat (lc_beamSize (lt_config l)) - length ?best) wiped"
      using rows [of i] i n True by (simp add: best_beam_def Let_def)
    have "m < length (takeWhile (\<lambda>e. \<not> isFake e) (beam_row l' k i))" using m True by (simp only: resolveBeamAt_def)
    from resolve_best [OF this [unfolded row]] have mb: "m < length ?best" by (simp only: length_map)
    have c: "?best ! m \<in> set (beam_candidates fadd l (boundary l k) i)"
      using nth_mem [OF mb] in_set_takeD by fastforce
    have ml: "m < length (beam_row l' k i)" using mb unfolding row by simp
    have mr: "beam_row l' k i ! m = beam_element_of l (boundary l k) k i (?best ! m)"
      unfolding row using mb by (simp only: nth_append length_map nth_map if_True)
    have ik: "i < length (rb_beam (bd_right (boundary l' k)))" "i < 2 ^ 16" using i n True assms(10) by simp_all
    show ?thesis unfolding True
      by (rule element_linked [OF assms(1-4,6) ik(2) c l'(2) cnt ik(1) ml mr])
  qed
  then show ?thesis using l' unfolding beams_linked_def by blast
qed

lemma format_prints_path:
  assumes "3 < createdBoundaryCount l" "ends_in_eos l" "beams_linked l (createdBoundaryCount l)"
    and "0 < length (rb_beam (bd_right (boundary l (createdBoundaryCount l - 1))))"
    and "resolveBeamAt l (createdBoundaryCount l - 1) 0 \<noteq> []"
    and "list_all (\<lambda>c. locate (latticeNodePtr c) = Some (surf c)) (best_path (eos_top l))"
  shows "segmented_format locate sep l path = Some (StOk, join_with sep (map surf (rev (best_path (eos_top l)))) @ [0x0a])"
proof -
  have "linked l 0 (eos_top l)"
    using beams_linkedD(3) [OF assms(3) _ assms(4), of 0] assms(1,5) by (simp add: beam_row_def eos_top_def)
  note linked = this
  have "length (best_path (eos_top l)) < 2 ^ 31"
    using best_path_length [OF linked] unsigned_less [of "cn_boundary (eos_top l)", where 'a=nat] by simp
  from format_loop_path [where chunk = 0, OF this assms(6) le0, of sep "ap_currentNode path" "[]"]
  show ?thesis by (simp add: segmented_format_def fillIn_linked [OF assms(1,2) linked])
qed

subsection \<open>Properties\<close>

text \<open>C5: On a lattice whose beams are linked, the segmented format prints the words of the best path: it reads the path from the first element
  of the beam of EOS, walks over it from the first word to the last, visits each word once, and ends with a line feed. The walk always ends.
\<close>

theorem segmented_format_prints_path:
  assumes "3 < createdBoundaryCount l" "ends_in_eos l" "beams_linked l (createdBoundaryCount l)"
    and "0 < length (rb_beam (bd_right (boundary l (createdBoundaryCount l - 1))))"
    and "resolveBeamAt l (createdBoundaryCount l - 1) 0 \<noteq> []"
    and "list_all (\<lambda>c. locate (latticeNodePtr c) = Some (surf c)) (best_path (eos_top l))"
  shows "segmented_format locate sep l path = Some (StOk, join_with sep (map surf (rev (best_path (eos_top l)))) @ [0x0a])"
  by (rule format_prints_path [OF assms])

definition path_boundary :: "connection_ptr \<Rightarrow> entry_ptr \<Rightarrow> lattice_boundary" where
  "path_boundary c e = (mk_boundary fresh0 cfg0 (mk_lbc 0 0 0))
     \<lparr>bd_right := \<lparr>rb_nodeInfo = [mk_node_info e 0 0], rb_entryData = [], rb_patterns = [], rb_beam = [[\<lparr>be_ptr = c, be_totalScore = 0\<rparr>]]\<rparr>\<rparr>"

definition two_words :: lattice where
  "two_words = (let c1 = ConnectionPtr 1 0 0 0 None; c2 = ConnectionPtr 2 0 0 0 (Some c1);
       c3 = ConnectionPtr 3 0 0 0 (Some c2); c4 = ConnectionPtr 4 0 0 0 (Some c3)
     in \<lparr>lt_boundaries = [path_boundary (ConnectionPtr 0 0 0 0 None) EntryPtr_BOS, path_boundary c1 EntryPtr_BOS, path_boundary c2 (mk_entry 4),
          path_boundary c3 (mk_entry 6), path_boundary c4 EntryPtr_EOS], lt_config = cfg0\<rparr>)"

lemma all_less_5: "(\<forall>j < 5. P j) \<longleftrightarrow> P 0 \<and> P 1 \<and> P 2 \<and> P 3 \<and> P (4 :: nat)"
  by (simp add: eval_nat_numeral All_less_Suc conj_ac)

lemmas two_words_defs = two_words_def Let_def path_boundary_def boundary_def resolveBeamAt_def beam_row_def isFake_def linked.simps
  createdBoundaryCount_def

lemma two_words_linked: "createdBoundaryCount two_words = 5" "beams_linked two_words 5"
  unfolding beams_linked_def all_less_5 by (simp_all add: two_words_defs)

theorem segmented_format_prints_path_witness:
  "segmented_format (\<lambda>p. Some [ucast (np_boundary p)]) [0x20] two_words (path_of [] 0 0) = Some (StOk, [2, 0x20, 3, 0x0a])"
  using segmented_format_prints_path [of two_words "\<lambda>p. Some [ucast (np_boundary p)]" "\<lambda>c. [ucast (cn_boundary c)]" "[0x20]" "path_of [] 0 0",
    unfolded two_words_linked(1), OF _ _ two_words_linked(2)]
  by (simp add: two_words_defs ends_in_eos_def best_path.simps eos_top_def latticeNodePtr_def mk_node_ptr_def mk_node_info_def)

lemma path_of_boundary:
  assumes "length cs < 2 ^ 31" "chunk < length cs"
  shows "currentBoundary (path_of cs (int chunk) node) = Some (int (unat (cn_boundary (rev cs ! chunk))))"
proof -
  let ?i = "length cs - Suc chunk"
  have i: "nat (int (length cs) - int chunk - 1) = ?i" "nat (int (length cs) - 1 - int chunk) = ?i" using assms(2) by linarith+
  have n: "[0..<Suc (length cs)] ! ?i = ?i" using assms(2) by (subst nth_upt; simp)
  have "at_index (ap_offsets (path_of cs (int chunk) node)) (int (length cs) - int chunk - 1) = Some (word_of_nat ?i)"
    using assms(2) by (simp only: at_index_def path_of_def analysis_path.simps i length_map length_upt nth_map n) auto
  moreover have "unat (word_of_nat ?i :: u32) = ?i" using assms(1) by (intro unat_of_nat_small) simp
  moreover have "at_index (map Some cs) (int ?i) = Some (Some (rev cs ! chunk))"
    using assms(2) by (simp only: at_index_def length_map nat_int rev_nth) simp
  ultimately show ?thesis by (simp add: currentBoundary_def) (simp add: path_of_def)
qed

lemma ascending_search:
  fixes f :: "'a \<Rightarrow> int"
  assumes "sorted_wrt (\<lambda>x y. f x < f y) xs" "length (takeWhile (\<lambda>x. f x < b) xs) < length xs"
  shows "b \<in> f ` set xs \<longleftrightarrow> f (xs ! length (takeWhile (\<lambda>x. f x < b) xs)) = b"
proof
  let ?i = "length (takeWhile (\<lambda>x. f x < b) xs)"
  assume "b \<in> f ` set xs"
  then obtain j where j: "j < length xs" "f (xs ! j) = b" by (auto simp: in_set_conv_nth)
  have "\<not> j < ?i" using j(2) by (metis nth_mem set_takeWhileD takeWhile_nth less_irrefl)
  moreover have "\<not> ?i < j"
    using sorted_wrt_nth_less [OF assms(1), of ?i j] j nth_length_takeWhile [OF assms(2)] by auto
  ultimately show "f (xs ! ?i) = b" using j by (metis linorder_neqE_nat)
next
  assume "f (xs ! length (takeWhile (\<lambda>x. f x < b) xs)) = b"
  then show "b \<in> f ` set xs" using nth_mem [OF assms(2)] by (metis image_eqI)
qed

lemma moveToBoundary_step:
  assumes "length cs < 2 ^ 31" "k < length cs"
  shows "moveToBoundary b (path_of cs (int k - 1) m) =
     (if int (unat (cn_boundary (rev cs ! k))) = b then Some (True, path_of cs (int k) (-1))
      else if int (unat (cn_boundary (rev cs ! k))) > b then Some (False, path_of cs (int k - 1) (-1))
      else moveToBoundary b (path_of cs (int k) (-1)))"
proof -
  have "path_of cs (int k) (-1)\<lparr>ap_currentChunk := ap_currentChunk (path_of cs (int k) (-1)) - 1\<rparr> = path_of cs (int k - 1) (-1)"
    by (simp add: path_of_def)
  then show ?thesis
    using assms(2) by (subst moveToBoundary.simps) (simp only: path_of_next path_of_boundary [OF assms] Let_def prod.case
      option.case diff_add_cancel of_nat_less_iff if_True)
qed

text \<open>C32: On a path whose boundaries grow from word to word, \<open>moveToBoundary\<close> ends, and finds a word exactly when the path has one that starts at
  the boundary: the walk then stands on it. Otherwise it stands before the first word that starts later, or behind the last word.
\<close>

theorem moveToBoundary_finds:
  assumes "length cs < 2 ^ 31" "sorted_wrt (\<lambda>x y. cn_boundary x > cn_boundary y) cs"
  shows "moveToBoundary b (path_of cs (-1) node) =
     (let i = length (takeWhile (\<lambda>c. int (unat (cn_boundary c)) < b) (rev cs))
      in if b \<in> (\<lambda>c. int (unat (cn_boundary c))) ` set cs then Some (True, path_of cs (int i) (-1))
         else Some (False, path_of cs (if i = length cs then int i else int i - 1) (-1)))"
    (is "_ = ?r")
proof -
  let ?f = "\<lambda>c. int (unat (cn_boundary c))"
  let ?i = "length (takeWhile (\<lambda>c. ?f c < b) (rev cs))"
  have le: "?i \<le> length cs" by (metis length_rev length_takeWhile_le)
  have sorted: "sorted_wrt (\<lambda>x y. ?f x < ?f y) (rev cs)"
    using assms(2) unfolding sorted_wrt_rev of_nat_less_iff word_less_nat_alt .
  have "moveToBoundary b (path_of cs (int k - 1) m) = ?r" if "k \<le> ?i" for k m
    using that
  proof (induction "?i - k" arbitrary: k m)
    case (Suc n)
    then have k: "k < ?i" by linarith
    then have P: "?f (rev cs ! k) < b" by (metis nth_mem set_takeWhileD takeWhile_nth)
    have "k < length cs" using k le by linarith
    from moveToBoundary_step [OF assms(1) this] show ?case
      using P Suc.hyps(1) [of "Suc k" "-1"] Suc.hyps(2) k by simp
  next
    case 0
    then have k: "k = ?i" by simp
    show ?case
    proof (cases "?i = length cs")
      case True
      then have "takeWhile (\<lambda>c. ?f c < b) (rev cs) = rev cs" by (metis length_rev takeWhile_eq_take take_all order_refl)
      then have "\<forall>c\<in>set cs. ?f c < b" by (metis set_rev takeWhile_eq_all_conv)
      then have "b \<notin> ?f ` set cs" by auto
      then show ?thesis using True k by (subst moveToBoundary.simps) (simp add: path_of_next)
    next
      case False
      then have lt: "?i < length cs" using le by linarith
      then have lt': "?i < length (rev cs)" by simp
      have nP: "\<not> ?f (rev cs ! ?i) < b" by (rule nth_length_takeWhile [OF lt'])
      note found = ascending_search [OF sorted lt', unfolded set_rev]
      show ?thesis unfolding k moveToBoundary_step [OF assms(1) lt]
        using nP False by (simp only: found Let_def) auto
    qed
  qed
  from this [of 0 node] show ?thesis by simp
qed

theorem moveToBoundary_finds_witness:
  "moveToBoundary 5 (path_of [ConnectionPtr 7 0 0 0 None, ConnectionPtr 5 0 0 0 None, ConnectionPtr 2 0 0 0 None] (-1) 0)
    = Some (True, path_of [ConnectionPtr 7 0 0 0 None, ConnectionPtr 5 0 0 0 None, ConnectionPtr 2 0 0 0 None] 1 (-1))"
  by (subst moveToBoundary_finds) (simp_all add: Let_def)

end
