(* ===== verification/DoubleArray.thy ===== *)
theory DoubleArray
  imports CoreTypes
begin

text \<open>
  The trie of the dictionary: the units and searches of \<open>src/src/core/dic/darts.h\<close> and the traversal of
  \<open>src/src/core/dic/darts_trie.h\<close> and \<open>darts_trie.cc\<close>. The array is the list of its 32-bit units; a read behind its end is
  the result \<open>None\<close>. The construction of the array is not modelled.
\<close>

subsection \<open>Units\<close>

definition has_leaf :: "u32 \<Rightarrow> bool" where
  "has_leaf unit \<longleftrightarrow> drop_bit 8 unit AND 1 = 1"

definition unit_value :: "u32 \<Rightarrow> i32" where
  "unit_value unit = unit AND (push_bit 31 1 - 1)"

definition unit_label :: "u32 \<Rightarrow> u32" where
  "unit_label unit = unit AND (push_bit 31 1 OR 0xff)"

definition unit_offset :: "u32 \<Rightarrow> u32" where
  "unit_offset unit = push_bit (unat (drop_bit 6 (unit AND push_bit 9 1))) (drop_bit 10 unit)"

definition array_at :: "u32 list \<Rightarrow> u64 \<Rightarrow> u32 option" where
  "array_at units pos = (if unat pos < length units then Some (units ! unat pos) else None)"

subsection \<open>Traversal\<close>

text \<open>
  The loop of \<open>traverse\<close>: \<open>key\<close> is what is left of the key. The first component of the result tells
  whether every label matched.
\<close>

fun traverse_loop :: "u32 list \<Rightarrow> byte_string \<Rightarrow> u32 \<Rightarrow> u32 \<Rightarrow> u64 \<Rightarrow> nat \<Rightarrow> (bool \<times> u32 \<times> u32 \<times> u64 \<times> nat) option" where
  "traverse_loop units [] pos unit node_pos key_pos = Some (True, pos, unit, node_pos, key_pos)"
| "traverse_loop units (c # key) pos unit node_pos key_pos =
     (let pos = pos XOR (unit_offset unit XOR ucast c)
      in case array_at units (ucast pos) of
           None \<Rightarrow> None
         | Some unit \<Rightarrow>
             if unit_label unit \<noteq> ucast c then Some (False, pos, unit, node_pos, key_pos)
             else traverse_loop units key pos unit (ucast pos) (key_pos + 1))"

definition traverse :: "u32 list \<Rightarrow> byte_string \<Rightarrow> u64 \<Rightarrow> nat \<Rightarrow> (i32 \<times> u64 \<times> nat) option" where
  "traverse units key node_pos key_pos =
     (let pos = ucast node_pos
      in case array_at units (ucast pos) of
           None \<Rightarrow> None
         | Some unit \<Rightarrow>
             (case traverse_loop units (drop key_pos key) pos unit node_pos key_pos of
                None \<Rightarrow> None
              | Some (False, _, _, node_pos, key_pos) \<Rightarrow> Some (-2, node_pos, key_pos)
              | Some (True, pos, unit, node_pos, key_pos) \<Rightarrow>
                  if \<not> has_leaf unit then Some (-1, node_pos, key_pos)
                  else map_option (\<lambda>unit. (unit_value unit, node_pos, key_pos)) (array_at units (ucast (pos XOR unit_offset unit)))))"

datatype traverse_status = TsOk | TsNoLeaf | TsNoNode

record da_traversal =
  da_node_pos :: u64
  da_key_pos :: nat
  da_value :: i32

text \<open>\<open>value_\<close> of a new traversal is not initialised: it is the argument.\<close>

definition da_traversal_new :: "i32 \<Rightarrow> da_traversal" where
  "da_traversal_new value0 = \<lparr>da_node_pos = 0, da_key_pos = 0, da_value = value0\<rparr>"

definition da_step :: "u32 list \<Rightarrow> byte_string \<Rightarrow> da_traversal \<Rightarrow> (traverse_status \<times> da_traversal) option" where
  "da_step units data t =
     (case traverse units data (da_node_pos t) 0 of
        None \<Rightarrow> None
      | Some (status, node_pos, key_pos) \<Rightarrow>
          let t = t\<lparr>da_node_pos := node_pos, da_key_pos := key_pos\<rparr>
          in Some (if status = -1 then (TsNoLeaf, t) else if status = -2 then (TsNoNode, t)
                   else (TsOk, t\<lparr>da_value := status\<rparr>)))"

subsection \<open>Searches\<close>

text \<open>
  The characters of a key: \<open>len\<close> of them, or all before the NUL when \<open>len\<close> is 0. The memory behind the pointer has to hold them.
\<close>

definition key_chars :: "byte_string \<Rightarrow> nat \<Rightarrow> byte_string" where
  "key_chars key len = (if len \<noteq> 0 then take len key else takeWhile (\<lambda>c. c \<noteq> 0) key)"

fun exact_loop :: "u32 list \<Rightarrow> byte_string \<Rightarrow> u64 \<Rightarrow> u32 \<Rightarrow> (u64 \<times> u32) option option" where
  "exact_loop units [] node_pos unit = Some (Some (node_pos, unit))"
| "exact_loop units (c # key) node_pos unit =
     (let node_pos = node_pos XOR (ucast (unit_offset unit XOR ucast c))
      in case array_at units node_pos of
           None \<Rightarrow> None
         | Some unit \<Rightarrow> if unit_label unit \<noteq> ucast c then Some None else exact_loop units key node_pos unit)"

definition exactMatchSearch :: "u32 list \<Rightarrow> byte_string \<Rightarrow> nat \<Rightarrow> u64 \<Rightarrow> (i32 \<times> nat) option" where
  "exactMatchSearch units key len node_pos =
     (case array_at units node_pos of
        None \<Rightarrow> None
      | Some unit \<Rightarrow>
          (case exact_loop units (key_chars key len) node_pos unit of
             None \<Rightarrow> None
           | Some None \<Rightarrow> Some (-1, 0)
           | Some (Some (node_pos, unit)) \<Rightarrow>
               if \<not> has_leaf unit then Some (-1, 0)
               else map_option (\<lambda>unit. (unit_value unit, length (key_chars key len)))
                 (array_at units (node_pos XOR ucast (unit_offset unit)))))"

text \<open>The matches of the loop of \<open>commonPrefixSearch\<close>; \<open>i\<close> counts the characters read.\<close>

fun prefix_loop :: "u32 list \<Rightarrow> byte_string \<Rightarrow> u64 \<Rightarrow> nat \<Rightarrow> (i32 \<times> nat) list option" where
  "prefix_loop units [] node_pos i = Some []"
| "prefix_loop units (c # key) node_pos i =
     (let node_pos = node_pos XOR ucast c
      in case array_at units node_pos of
           None \<Rightarrow> None
         | Some unit \<Rightarrow>
             if unit_label unit \<noteq> ucast c then Some []
             else let node_pos = node_pos XOR ucast (unit_offset unit)
             in if has_leaf unit then
                  (case array_at units node_pos of
                     None \<Rightarrow> None
                   | Some leaf \<Rightarrow> map_option (\<lambda>rs. (unit_value leaf, i + 1) # rs) (prefix_loop units key node_pos (i + 1)))
                else prefix_loop units key node_pos (i + 1))"

definition commonPrefixSearch :: "u32 list \<Rightarrow> byte_string \<Rightarrow> nat \<Rightarrow> nat \<Rightarrow> u64 \<Rightarrow> (nat \<times> (i32 \<times> nat) list) option" where
  "commonPrefixSearch units key max_num_results len node_pos =
     (case array_at units node_pos of
        None \<Rightarrow> None
      | Some unit \<Rightarrow>
          map_option (\<lambda>rs. (length rs, take max_num_results rs))
            (prefix_loop units (key_chars key len) (node_pos XOR ucast (unit_offset unit)) 0))"

subsection \<open>Lemmas\<close>

lemma traverse_loop_append:
  "traverse_loop units (x @ y) pos unit node_pos key_pos =
     (case traverse_loop units x pos unit node_pos key_pos of
        None \<Rightarrow> None
      | Some (False, r) \<Rightarrow> Some (False, r)
      | Some (True, pos, unit, node_pos, key_pos) \<Rightarrow> traverse_loop units y pos unit node_pos key_pos)"
  by (induction x arbitrary: pos unit node_pos key_pos) (simp_all add: Let_def split: option.splits)

lemma unit_value_nonneg: "unit_value unit \<noteq> -1" "unit_value unit \<noteq> -2"
proof -
  have b: "bit (- 1 :: i32) 31" "bit (- 2 :: i32) 31" by simp_all
  have "\<not> bit (unit_value unit) 31"
    by (simp add: unit_value_def bit_simps)
  then show "unit_value unit \<noteq> -1" "unit_value unit \<noteq> -2" using b by metis+
qed
lemma loop_state:
  assumes "traverse_loop units key pos unit node_pos key_pos = Some (True, pos', unit', node_pos', key_pos')"
    and "array_at units (ucast pos) = Some unit" "node_pos = ucast pos"
  shows "node_pos' = ucast pos'" "array_at units (ucast pos') = Some unit'"
  using assms by (induction key arbitrary: pos unit node_pos key_pos) (auto simp: Let_def split: option.splits if_splits)

lemma ucast_u32_u64: "unat (p :: u64) < 2 ^ 32 \<Longrightarrow> ucast (ucast p :: u32) = p"
  by (rule unat_eqI) (simp add: unsigned_ucast_eq unat_take_bit)

text \<open>What a step tells: the status, and the value when there is one.\<close>

definition verdict :: "traverse_status \<times> da_traversal \<Rightarrow> traverse_status \<times> i32 option" where
  "verdict r = (fst r, if fst r = TsOk then Some (da_value (snd r)) else None)"

text \<open>The outcome of the loop alone.\<close>

definition loop_verdict :: "u32 list \<Rightarrow> bool \<times> u32 \<times> u32 \<times> u64 \<times> nat \<Rightarrow> (traverse_status \<times> i32 option) option" where
  "loop_verdict units r = (case r of (ok, pos, unit, _) \<Rightarrow>
     if \<not> ok then Some (TsNoNode, None) else if \<not> has_leaf unit then Some (TsNoLeaf, None)
     else map_option (\<lambda>leaf. (TsOk, Some (unit_value leaf))) (array_at units (ucast (pos XOR unit_offset unit))))"

lemma step_verdict:
  "map_option verdict (da_step units data t) =
     (case array_at units (ucast (ucast (da_node_pos t) :: u32)) of None \<Rightarrow> None
      | Some unit \<Rightarrow> Option.bind (traverse_loop units data (ucast (da_node_pos t)) unit (da_node_pos t) 0) (loop_verdict units))"
  by (auto simp: da_step_def traverse_def Let_def verdict_def loop_verdict_def unit_value_nonneg split: option.splits bool.splits)
lemma loop_verdict_positions:
  "Option.bind (traverse_loop units key pos unit node_pos key_pos) (loop_verdict units)
    = Option.bind (traverse_loop units key pos unit node_pos' key_pos') (loop_verdict units)"
proof (induction key arbitrary: pos unit node_pos key_pos node_pos' key_pos')
  case (Cons c key)
  show ?case
    by (simp add: Let_def split: option.splits) (auto simp: loop_verdict_def intro: Cons.IH)
qed (simp add: loop_verdict_def)

lemma step_state:
  assumes "da_step units data t = Some (status, t')" "status \<noteq> TsNoNode"
  obtains unit pos unit' key_pos where "array_at units (ucast (ucast (da_node_pos t) :: u32)) = Some unit"
    "traverse_loop units data (ucast (da_node_pos t)) unit (da_node_pos t) 0 = Some (True, pos, unit', da_node_pos t', key_pos)"
  using assms by (auto simp: da_step_def traverse_def Let_def unit_value_nonneg split: option.splits bool.splits if_splits)

lemma steps_compose:
  assumes "da_step units x t = Some (status, t')" "unat (da_node_pos t) < 2 ^ 32"
  shows "map_option verdict (da_step units (x @ y) t)
     = (if status = TsNoNode then Some (TsNoNode, None) else map_option verdict (da_step units y t'))"
proof (cases "status = TsNoNode")
  case True
  then obtain unit r where "array_at units (ucast (ucast (da_node_pos t) :: u32)) = Some unit"
    "traverse_loop units x (ucast (da_node_pos t)) unit (da_node_pos t) 0 = Some (False, r)"
    using assms(1) by (auto simp: da_step_def traverse_def Let_def unit_value_nonneg split: option.splits bool.splits if_splits)
  then show ?thesis using True by (cases r) (simp add: step_verdict traverse_loop_append loop_verdict_def)
next
  case False
  from step_state [OF assms(1) False] obtain unit pos unit' key_pos
    where u: "array_at units (ucast (ucast (da_node_pos t) :: u32)) = Some unit"
      and l: "traverse_loop units x (ucast (da_node_pos t)) unit (da_node_pos t) 0 = Some (True, pos, unit', da_node_pos t', key_pos)" .
  have "da_node_pos t = ucast (ucast (da_node_pos t) :: u32)" using ucast_u32_u64 [OF assms(2)] by simp
  from loop_state [OF l u this] have s: "da_node_pos t' = ucast pos" "array_at units (ucast pos) = Some unit'" .
  have p: "(ucast (ucast pos :: u64) :: u32) = pos" by (rule bit_word_eqI) (simp add: bit_simps)
  show ?thesis
    using False unfolding step_verdict u traverse_loop_append l option.case
    by (simp add: s p loop_verdict_positions [of units y pos unit' "ucast pos" 0 "ucast pos" key_pos])
qed
text \<open>The value \<open>exactMatchSearch\<close> finds from a unit, and nothing when the key is not there.\<close>

definition exact_value :: "u32 list \<Rightarrow> byte_string \<Rightarrow> u64 \<Rightarrow> u32 \<Rightarrow> i32 option option" where
  "exact_value units key node_pos unit =
     (case exact_loop units key node_pos unit of
        None \<Rightarrow> None
      | Some None \<Rightarrow> Some None
      | Some (Some (node_pos, unit)) \<Rightarrow>
          if \<not> has_leaf unit then Some None
          else map_option (\<lambda>unit. Some (unit_value unit)) (array_at units (node_pos XOR ucast (unit_offset unit))))"

lemma exact_search_value:
  assumes "array_at units node_pos = Some unit"
  shows "exactMatchSearch units key len node_pos = map_option (\<lambda>r. case r of None \<Rightarrow> (-1, 0) | Some v \<Rightarrow> (v, length (key_chars key len)))
    (exact_value units (key_chars key len) node_pos unit)"
  by (auto simp: exactMatchSearch_def exact_value_def assms option.map_comp comp_def split: option.splits)

lemma exact_value_nonneg: "exact_value units key node_pos unit \<noteq> Some (Some (-1))"
  by (auto simp: exact_value_def unit_value_nonneg split: option.splits)

lemma ucast_xor: "(ucast (a XOR b :: u32) :: u64) = ucast a XOR ucast b"
  by (rule bit_word_eqI) (auto simp: bit_simps)

lemma exact_value_Cons:
  "exact_value units (c # key) node_pos unit =
     (case array_at units (node_pos XOR ucast (unit_offset unit) XOR ucast c) of
        None \<Rightarrow> None
      | Some unit' \<Rightarrow> if unit_label unit' \<noteq> ucast c then Some None
          else exact_value units key (node_pos XOR ucast (unit_offset unit) XOR ucast c) unit')"
proof -
  have "(ucast (ucast c :: u32) :: u64) = ucast c"
    by (rule bit_word_eqI) (auto simp: bit_simps dest: bit_imp_le_length)
  then have "node_pos XOR (ucast (unit_offset unit XOR ucast c)) = node_pos XOR ucast (unit_offset unit) XOR (ucast c :: u64)"
    by (simp add: ucast_xor xor.assoc)
  then show ?thesis by (simp add: exact_value_def Let_def split: option.splits)
qed

definition prefix_match :: "u32 list \<Rightarrow> byte_string \<Rightarrow> u64 \<Rightarrow> u32 \<Rightarrow> nat \<Rightarrow> nat \<Rightarrow> (i32 \<times> nat) list" where
  "prefix_match units key node_pos unit i n =
     (case exact_value units (take n key) node_pos unit of Some (Some v) \<Rightarrow> [(v, i + n)] | _ \<Rightarrow> [])"

lemma prefix_loop_exact:
  "list_all (\<lambda>n. exact_value units (take n key) node_pos unit \<noteq> None) [1..<Suc (length key)] \<Longrightarrow>
   prefix_loop units key (node_pos XOR ucast (unit_offset unit)) i
     = Some (concat (map (prefix_match units key node_pos unit i) [1..<Suc (length key)]))"
proof (induction key arbitrary: node_pos unit i)
  case (Cons c key)
  let ?np = "node_pos XOR ucast (unit_offset unit) XOR ucast c"
  have upt: "[1..<Suc (length (c # key))] = 1 # map Suc [1..<Suc (length key)]"
    by (simp only: map_Suc_upt list.size upt_conv_Cons One_nat_def Suc_less_eq zero_less_Suc add_0_right add_Suc_right)
  have all: "exact_value units [c] node_pos unit \<noteq> None"
    "list_all (\<lambda>n. exact_value units (c # take n key) node_pos unit \<noteq> None) [1..<Suc (length key)]"
    using Cons.prems unfolding upt list.pred_inject list.pred_map comp_def by simp_all
  from all(1) obtain unit' where u: "array_at units ?np = Some unit'"
    by (auto simp: exact_value_Cons split: option.splits)
  have pm: "prefix_match units (c # key) node_pos unit i (Suc n)
      = (if unit_label unit' \<noteq> ucast c then [] else prefix_match units key ?np unit' (i + 1) n)" for n
    by (simp add: prefix_match_def exact_value_Cons u split: option.splits)
  show ?case
  proof (cases "unit_label unit' = ucast c")
    case False
    then show ?thesis unfolding upt by (simp add: Let_def xor.assoc u pm comp_def pm [of 0, simplified] del: upt_Suc)
  next
    case True
    have "list_all (\<lambda>n. exact_value units (take n key) ?np unit' \<noteq> None) [1..<Suc (length key)]"
      using all(2) by (simp add: exact_value_Cons u True)
    note IH = Cons.IH [OF this, of "Suc i"]
    have "exact_value units [] ?np unit' \<noteq> None" using all(1) by (simp add: exact_value_Cons u True)
    then show ?thesis unfolding upt using IH True
      by (auto simp add: Let_def xor.assoc u pm comp_def pm [of 0, simplified] prefix_match_def [of _ _ _ _ _ 0] exact_value_def [of _ "[]"]
          simp del: upt_Suc split: option.splits if_splits)
  qed
qed simp

subsection \<open>Properties\<close>

text \<open>C30: Walking over the trie in pieces is walking over it at once: after a step that did not leave the trie, a second step gives the status and the
  value of a single step with both pieces; if the first step left the trie, so does the single step.
\<close>

theorem trie_steps_compose:
  assumes "da_step units x t = Some (status, t')" "unat (da_node_pos t) < 2 ^ 32"
  shows "map_option verdict (da_step units (x @ y) t)
     = (if status = TsNoNode then Some (TsNoNode, None) else map_option verdict (da_step units y t'))"
  by (rule steps_compose [OF assms])

text \<open>A trie that holds the keys \<open>a\<close> (value 5) and \<open>ab\<close> (value 6).\<close>

definition unit_of :: "nat \<Rightarrow> nat \<Rightarrow> bool \<Rightarrow> u32" where
  "unit_of offset label leaf = word_of_nat (offset * 1024 + (if leaf then 256 else 0) + label)"

definition small_trie :: "u32 list" where
  "small_trie = (replicate 97 0)
     [0 := unit_of 0x60 0 False, 1 := unit_of 3 0x61 True, 2 := 0x80000005, 3 := 0x80000006, 0x60 := unit_of 0x63 0x62 True]"

lemma small_trie_at:
  "array_at small_trie 0 = Some (unit_of 0x60 0 False)" "array_at small_trie 1 = Some (unit_of 3 0x61 True)"
  "array_at small_trie 2 = Some 0x80000005" "array_at small_trie 3 = Some 0x80000006"
  "array_at small_trie 0x60 = Some (unit_of 0x63 0x62 True)"
  by (simp_all add: array_at_def small_trie_def)

lemmas trie_eval = da_step_def traverse_def da_traversal_new_def Let_def small_trie_at has_leaf_def unit_label_def unit_offset_def
  unit_value_def unit_of_def

lemma small_trie_a:
  "da_step small_trie [0x61] (da_traversal_new 0) = Some (TsOk, \<lparr>da_node_pos = 1, da_key_pos = 1, da_value = 5\<rparr>)"
  by (simp add: trie_eval)

lemma small_trie_b:
  "da_step small_trie [0x62] \<lparr>da_node_pos = 1, da_key_pos = 1, da_value = 5\<rparr>
    = Some (TsOk, \<lparr>da_node_pos = 0x60, da_key_pos = 1, da_value = 6\<rparr>)"
  by (simp add: trie_eval)

theorem trie_steps_compose_witness: "map_option verdict (da_step small_trie ([0x61] @ [0x62]) (da_traversal_new 0)) = Some (TsOk, Some 6)"
  using trie_steps_compose [OF small_trie_a, of "[0x62]", unfolded small_trie_b] by (simp add: verdict_def da_traversal_new_def)
text \<open>C37: A search for the common prefixes of a key finds exactly the prefixes that a search for the whole prefix finds, from the shortest on, with
  their values; all matches are counted, and the first \<open>max_num_results\<close> of them are stored.
\<close>

theorem prefix_search_is_exact:
  assumes "key \<noteq> []" "list_all (\<lambda>n. exactMatchSearch units key n node_pos \<noteq> None) [1..<Suc (length key)]"
  shows "commonPrefixSearch units key max_num_results (length key) node_pos =
    (let found = filter (\<lambda>(v, n). v \<noteq> -1) (map (\<lambda>n. (fst (the (exactMatchSearch units key n node_pos)), n)) [1..<Suc (length key)])
     in Some (length found, take max_num_results found))"
proof -
  have "exactMatchSearch units key 1 node_pos \<noteq> None" using assms by (cases key) (simp_all add: upt_rec del: upt_Suc)
  then obtain unit where u: "array_at units node_pos = Some unit"
    by (auto simp: exactMatchSearch_def split: option.splits)
  note ev = exact_search_value [OF u]
  have kc: "key_chars key n = take n key" if "n \<in> set [1..<Suc (length key)]" for n
    using that by (auto simp: key_chars_def)
  have E: "list_all (\<lambda>n. exact_value units (take n key) node_pos unit \<noteq> None) [1..<Suc (length key)]"
    using assms(2) kc by (auto simp: list_all_iff ev simp del: upt_Suc)
  have F: "filter (\<lambda>(v, n). v \<noteq> -1) (map (\<lambda>n. (fst (the (exactMatchSearch units key n node_pos)), n)) ns)
      = concat (map (prefix_match units key node_pos unit 0) ns)" if "set ns \<subseteq> set [1..<Suc (length key)]" for ns
    using that
  proof (induction ns)
    case (Cons n ns)
    then have n: "n \<in> set [1..<Suc (length key)]" by simp
    have "exact_value units (take n key) node_pos unit \<noteq> None" by (rule bspec [OF E [unfolded list_all_iff] n])
    then obtain r where r: "exact_value units (take n key) node_pos unit = Some r" by blast
    then have "r \<noteq> Some (-1)" using exact_value_nonneg by metis
    then show ?case
      using Cons r kc [OF n] by (cases r) (simp_all add: ev prefix_match_def del: upt_Suc)
  qed simp
  have "key_chars key (length key) = key" using assms(1) by (simp add: key_chars_def)
  then show ?thesis
    using prefix_loop_exact [OF E, of 0] F [OF order_refl] by (simp add: commonPrefixSearch_def u Let_def del: upt_Suc)
qed

theorem prefix_search_is_exact_witness:
  "commonPrefixSearch small_trie [0x61, 0x62] 1 (length [0x61 :: u8, 0x62]) 0 = Some (Suc 1, [(5, 1)])"
  using prefix_search_is_exact [of "[0x61, 0x62]" small_trie 0 1]
  by (simp add: exactMatchSearch_def key_chars_def trie_eval upt_rec)

end
