(* ===== verification/DicEntries.thy ===== *)
theory DicEntries
  imports FieldImport DoubleArray LatticeBuild
begin

text \<open>
  Dictionary entries: their storage format as it is written by \<open>DicEntryData::write\<close> of \<open>src/src/core/dic/entry_builder.cc\<close>
  and read by \<open>src/src/core/dic/dic_entries.h\<close>, the index that leads from a word to its entries, and
  \<open>src/src/core/analysis/dictionary_node_creator.cc\<close>, which turns every word of the input that is in the dictionary
  into seeds of lattice nodes.
\<close>

subsection \<open>The buffer of an entry\<close>

text \<open>The two arrays have \<open>JPP_MAX_DIC_FIELDS\<close> elements; nothing initialises them.\<close>

record dic_entry_buffer =
  deb_numFeatures :: u32
  deb_numData :: u32
  deb_featureBuffer :: "i32 list"
  deb_dataBuffer :: "i32 list"
  deb_remainingData :: int_list_traversal

definition deb_features :: "dic_entry_buffer \<Rightarrow> i32 list" where
  "deb_features b = take (unat (deb_numFeatures b)) (deb_featureBuffer b)"

definition deb_data :: "dic_entry_buffer \<Rightarrow> i32 list" where
  "deb_data b =
     (if ilt_length (deb_remainingData b) = 0
      then take (unat (deb_numData b)) (drop (unat (deb_numFeatures b)) (deb_featureBuffer b))
      else take (unat (deb_numData b)) (deb_dataBuffer b))"

text \<open>\<open>fill(c, cnt)\<close> overwrites the start of an array; its result is the number of values read.\<close>

definition deb_fill :: "u32 \<Rightarrow> int_list_traversal \<Rightarrow> i32 list \<Rightarrow> nat \<times> i32 list \<times> int_list_traversal" where
  "deb_fill cnt t buffer =
     (case ilt_fill_cnt (unat cnt) t of (vs, t) \<Rightarrow> (length vs, vs @ drop (length vs) buffer, t))"

definition nextData :: "dic_entry_buffer \<Rightarrow> bool \<times> dic_entry_buffer" where
  "nextData b =
     (if ilt_length (deb_remainingData b) = 0 then
        let left = deb_dataBuffer b ! 0 - 1
        in (sint left \<ge> 0, b\<lparr>deb_dataBuffer := (deb_dataBuffer b)[0 := left]\<rparr>)
      else if ilt_remaining (deb_remainingData b) = 0 then (False, b)
      else case deb_fill (deb_numData b) (deb_remainingData b) (deb_dataBuffer b) of
             (res, buffer, t) \<Rightarrow> (res = unat (deb_numData b), b\<lparr>deb_dataBuffer := buffer, deb_remainingData := t\<rparr>))"

definition setCounts :: "u32 \<Rightarrow> u32 \<Rightarrow> dic_entry_buffer \<Rightarrow> dic_entry_buffer" where
  "setCounts numFeatures numData b = b\<lparr>deb_numFeatures := numFeatures, deb_numData := numData\<rparr>"

text \<open>The division is one of 32-bit unsigned numbers; without data columns the code would divide by zero.\<close>

definition deb_remaining :: "dic_entry_buffer \<Rightarrow> i32" where
  "deb_remaining b =
     (if ilt_length (deb_remainingData b) = 0 then deb_dataBuffer b ! 0
      else ilt_remaining (deb_remainingData b) div deb_numData b)"

definition fillFromStorage :: "entry_ptr \<Rightarrow> int_storage_reader \<Rightarrow> dic_entry_buffer \<Rightarrow> bool \<times> dic_entry_buffer" where
  "fillFromStorage ptr entryData b =
     (if isAlias ptr then
        let totalCnt = deb_numFeatures b + 1
        in case deb_fill totalCnt (isr_rawWithLimit entryData (dicPtr ptr) totalCnt) (deb_featureBuffer b) of
             (nread, buffer, actualData) \<Rightarrow>
               let b = b\<lparr>deb_featureBuffer := buffer\<rparr>
               in if nread < unat totalCnt then (False, b)
                  else let numAlias = deb_featureBuffer b ! unat (deb_numFeatures b);
                           dataCnt = deb_numData b * numAlias;
                           dataPtr = dicPtr ptr + ilt_numReadBytes actualData
                       in (True, b\<lparr>deb_remainingData := isr_rawWithLimit entryData dataPtr dataCnt\<rparr>)
      else
        let totalCnt = deb_numFeatures b + deb_numData b
        in case deb_fill totalCnt (isr_rawWithLimit entryData (dicPtr ptr) totalCnt) (deb_featureBuffer b) of
             (nread, buffer, actualData) \<Rightarrow>
               let b = b\<lparr>deb_featureBuffer := buffer\<rparr>
               in if nread < unat totalCnt then (False, b)
                  else (True, b\<lparr>deb_remainingData := ilt_clear (deb_remainingData b),
                               deb_dataBuffer := (deb_dataBuffer b)[0 := 1]\<rparr>))"

definition overwriteFeaturesWith :: "i32 list \<Rightarrow> dic_entry_buffer \<Rightarrow> dic_entry_buffer" where
  "overwriteFeaturesWith newFeatures b =
     b\<lparr>deb_featureBuffer := fold (\<lambda>i buffer. buffer[i := newFeatures ! i]) [0..<length newFeatures] (deb_featureBuffer b)\<rparr>"

definition fillFeaturesWithValue :: "i32 \<Rightarrow> dic_entry_buffer \<Rightarrow> dic_entry_buffer" where
  "fillFeaturesWithValue v b =
     b\<lparr>deb_featureBuffer := map (\<lambda>_. v) (deb_featureBuffer b), deb_dataBuffer := (deb_dataBuffer b)[0 := 0]\<rparr>"

definition fillDataWithValue :: "i32 \<Rightarrow> dic_entry_buffer \<Rightarrow> dic_entry_buffer" where
  "fillDataWithValue v b =
     b\<lparr>deb_featureBuffer := fold (\<lambda>i buffer. buffer[unat (deb_numFeatures b) + i := v]) [0..<unat (deb_numData b)] (deb_featureBuffer b),
       deb_dataBuffer := (deb_dataBuffer b)[0 := 1]\<rparr>"

subsection \<open>Lists of entries\<close>

record indexed_entries =
  ie_numFeatures :: i32
  ie_numData :: i32
  ie_entries :: int_list_traversal
  ie_entryData :: int_storage_reader
  ie_lastIdx :: i32

definition ie_count :: "indexed_entries \<Rightarrow> i32" where
  "ie_count e = ilt_length (ie_entries e)"

definition ie_remaining :: "indexed_entries \<Rightarrow> i32" where
  "ie_remaining e = ilt_remaining (ie_entries e)"

definition readOnePtr :: "indexed_entries \<Rightarrow> bool \<times> indexed_entries" where
  "readOnePtr e =
     (if ilt_empty (ie_entries e) then (False, e)
      else case readOneCumulative (ie_lastIdx e) (ie_entries e) of
             (ok, lastIdx, t) \<Rightarrow> (ok, e\<lparr>ie_lastIdx := lastIdx, ie_entries := t\<rparr>))"

definition currentPtr :: "indexed_entries \<Rightarrow> entry_ptr" where
  "currentPtr e = mk_entry (ie_lastIdx e)"

definition fillEntryData :: "indexed_entries \<Rightarrow> dic_entry_buffer \<Rightarrow> bool \<times> dic_entry_buffer" where
  "fillEntryData e result = fillFromStorage (currentPtr e) (ie_entryData e) (setCounts (ie_numFeatures e) (ie_numData e) result)"

record entries_holder =
  eh_trie :: "u32 list"
  eh_numFeatures :: i32
  eh_numData :: i32
  eh_entries :: int_storage_reader
  eh_entryPtrs :: int_storage_reader

definition entryTraversal :: "entries_holder \<Rightarrow> i32 \<Rightarrow> indexed_entries" where
  "entryTraversal h ptr =
     \<lparr>ie_numFeatures = eh_numFeatures h, ie_numData = eh_numData h, ie_entries = isr_listAt (eh_entryPtrs h) ptr,
      ie_entryData = eh_entries h, ie_lastIdx = 0\<rparr>"

definition index_step :: "entries_holder \<Rightarrow> byte_string \<Rightarrow> da_traversal \<Rightarrow> (traverse_status \<times> da_traversal) option" where
  "index_step h sp da = da_step (eh_trie h) sp da"

definition index_entries :: "entries_holder \<Rightarrow> da_traversal \<Rightarrow> indexed_entries" where
  "index_entries h da = entryTraversal h (da_value da)"

definition entryAtPtr :: "entries_holder \<Rightarrow> entry_ptr \<Rightarrow> int_list_traversal" where
  "entryAtPtr h ptr = isr_rawWithLimit (eh_entries h) (dicPtr ptr) (eh_numFeatures h)"

definition fillBuffer :: "entries_holder \<Rightarrow> entry_ptr \<Rightarrow> dic_entry_buffer \<Rightarrow> bool \<times> dic_entry_buffer" where
  "fillBuffer h eptr buffer = fillFromStorage eptr (eh_entries h) (setCounts (eh_numFeatures h) (eh_numData h) buffer)"

subsection \<open>Writing an entry\<close>

record dic_entry_data =
  ded_features :: "i32 list"
  ded_data :: "i32 list list"
  ded_order :: u32

definition write_all :: "i32 list \<Rightarrow> coded_buffer \<Rightarrow> coded_buffer" where
  "write_all fs buf = fold (\<lambda>f. writeVarint (ucast f)) fs buf"

text \<open>The pointer of the entry is nothing when the code throws because the dictionary is too large.\<close>

definition ded_write :: "dic_entry_data \<Rightarrow> coded_buffer \<Rightarrow> i32 option \<times> coded_buffer" where
  "ded_write d buf =
     (let ptr = word_of_nat (cb_position buf) :: u64;
          buf = write_all (ded_features d) buf
      in if length (ded_data d) = 1 then
           (Some (ucast (push_bit 1 ptr)), write_all (hd (ded_data d)) buf)
         else
           let buf = writeVarint (word_of_nat (length (ded_data d))) buf;
               buf = fold write_all (ded_data d) buf;
               resultPtr = push_bit 1 ptr OR 1
           in (if resultPtr > 0x7fffffff then None else Some (ucast resultPtr), buf))"

subsection \<open>Seeds of dictionary words\<close>

lemma readOnePtr_True:
  assumes "readOnePtr e = (True, e')"
  shows "sint (ilt_position (ie_entries e)) < sint (ilt_length (ie_entries e))"
    "ilt_length (ie_entries e') = ilt_length (ie_entries e)"
    "sint (ilt_position (ie_entries e')) = sint (ilt_position (ie_entries e)) + 1"
proof -
  obtain diff t where "readOne 0 (ie_entries e) = (True, diff, t)" "ie_entries e' = t"
    using assms by (auto simp: readOnePtr_def readOneCumulative_def split: if_splits prod.splits bool.splits)
  then show "sint (ilt_position (ie_entries e)) < sint (ilt_length (ie_entries e))"
    "ilt_length (ie_entries e') = ilt_length (ie_entries e)"
    "sint (ilt_position (ie_entries e')) = sint (ilt_position (ie_entries e)) + 1"
    using readOne_True by blast+
qed

function append_entries :: "u16 \<Rightarrow> u16 \<Rightarrow> indexed_entries \<Rightarrow> lattice_builder \<Rightarrow> lattice_builder" where
  "append_entries start stop entries lattice =
     (case readOnePtr entries of
        (False, _) \<Rightarrow> lattice
      | (True, entries) \<Rightarrow> append_entries start stop entries (appendSeed (currentPtr entries) start stop lattice))"
  by pat_completeness auto
termination
  by (relation "measure (\<lambda>(_, _, e, _). nat (sint (ilt_length (ie_entries e)) - sint (ilt_position (ie_entries e))))")
    (auto dest!: sym [of _ "readOnePtr _"] simp: readOnePtr_True)

declare append_entries.simps [simp del]

text \<open>The inner loop; \<open>points\<close> is the input from \<open>position\<close> on.\<close>

fun spawn_positions ::
  "entries_holder \<Rightarrow> input_codepoint list \<Rightarrow> u16 \<Rightarrow> u16 \<Rightarrow> da_traversal \<Rightarrow> lattice_builder \<Rightarrow> lattice_builder option" where
  "spawn_positions h [] start position trav lattice = Some lattice"
| "spawn_positions h (cp # points) start position trav lattice =
     (case index_step h (ic_bytes cp) trav of
        None \<Rightarrow> None
      | Some (TsOk, trav) \<Rightarrow>
          spawn_positions h points start (position + 1) trav
            (append_entries start (position + 1) (index_entries h trav) lattice)
      | Some (TsNoNode, trav) \<Rightarrow> Some lattice
      | Some (TsNoLeaf, trav) \<Rightarrow> spawn_positions h points start (position + 1) trav lattice)"

fun spawn_starts :: "entries_holder \<Rightarrow> i32 \<Rightarrow> input_codepoint list \<Rightarrow> u16 \<Rightarrow> lattice_builder \<Rightarrow> lattice_builder option" where
  "spawn_starts h value0 [] start lattice = Some lattice"
| "spawn_starts h value0 (cp # points) start lattice =
     (case spawn_positions h (cp # points) start start (da_traversal_new value0) lattice of
        None \<Rightarrow> None
      | Some lattice \<Rightarrow> spawn_starts h value0 points (start + 1) lattice)"

definition dictionary_spawnNodes :: "entries_holder \<Rightarrow> i32 \<Rightarrow> input_codepoint list \<Rightarrow> lattice_builder \<Rightarrow> lattice_builder option" where
  "dictionary_spawnNodes h value0 points lattice =
     (let totalPoints = word_of_nat (length points) :: u16
      in spawn_starts h value0 (take (unat totalPoints) points) 0 lattice)"

subsection \<open>Reading back what was written\<close>

definition encs :: "i32 list \<Rightarrow> byte_string" where
  "encs vs = concat (map (\<lambda>v. writeVarint64ToArray (ucast v)) vs)"

lemma encs_append [simp]: "encs [] = []" "encs (xs @ ys) = encs xs @ encs ys"
  "encs (v # vs) = writeVarint64ToArray (ucast v) @ encs vs"
  by (simp_all add: encs_def)

lemma length_encs: "length vs \<le> length (encs vs)"
  unfolding encs_def by (rule length_concat_varint)

lemma write_all_contents:
  "cb_wf b \<Longrightarrow> cb_wf (write_all vs b) \<and> cb_contents (write_all vs b) = cb_contents b @ encs vs"
  unfolding write_all_def encs_def by (rule fold_varint_contents)

lemma write_rows_contents:
  "cb_wf b \<Longrightarrow> cb_wf (fold write_all rows b) \<and> cb_contents (fold write_all rows b) = cb_contents b @ concat (map encs rows)"
  by (induction rows arbitrary: b) (simp_all add: write_all_contents)

lemma ucast_ucast_i32 [simp]: "(ucast (ucast (v :: i32) :: u64) :: i32) = v"
  by (rule bit_word_eqI) (auto simp: bit_simps)

lemma fill_cnt_encs:
  "cp_wf (ilt_parser t) \<Longrightarrow> cp_rest (ilt_parser t) = encs vs @ r \<Longrightarrow>
   sint (ilt_position t) + int (length vs) \<le> sint (ilt_length t) \<Longrightarrow>
   \<exists>t'. ilt_fill_cnt (length vs) t = (vs, t') \<and> cp_wf (ilt_parser t') \<and> cp_rest (ilt_parser t') = r
     \<and> ilt_length t' = ilt_length t \<and> sint (ilt_position t') = sint (ilt_position t) + int (length vs)
     \<and> cp_numReadBytes (ilt_parser t') = cp_numReadBytes (ilt_parser t) + length (encs vs)"
proof (induction vs arbitrary: t)
  case (Cons v vs)
  let ?e = "writeVarint64ToArray (ucast v)"
  have rest: "cp_rest (ilt_parser t) = ?e @ (encs vs @ r)" using Cons.prems(2) by simp
  have lt: "sint (ilt_position t) < sint (ilt_length t)" using Cons.prems(3) by simp
  note one = readOne_enc [OF Cons.prems(1) rest]
  note adv = cp_advance_wf [OF Cons.prems(1) rest]
  let ?t = "t\<lparr>ilt_parser := cp_advance (length ?e) (ilt_parser t), ilt_position := ilt_position t + 1\<rparr>"
  have inc: "sint (ilt_position t + 1) = sint (ilt_position t) + 1" using lt by (intro sint_inc) simp_all
  have n: "cp_numReadBytes (cp_advance (length ?e) (ilt_parser t)) = cp_numReadBytes (ilt_parser t) + length ?e"
    by (simp add: cp_numReadBytes_def cp_advance_def)
  have "\<exists>t'. ilt_fill_cnt (length vs) ?t = (vs, t') \<and> cp_wf (ilt_parser t') \<and> cp_rest (ilt_parser t') = r
     \<and> ilt_length t' = ilt_length ?t \<and> sint (ilt_position t') = sint (ilt_position ?t) + int (length vs)
     \<and> cp_numReadBytes (ilt_parser t') = cp_numReadBytes (ilt_parser ?t) + length (encs vs)"
    using Cons.prems(3) adv inc by (intro Cons.IH) simp_all
  then show ?case using lt by (auto simp add: one inc n)
qed simp

text \<open>All data rows of an entry, the way a client reads them: at most \<open>n\<close>, until \<open>nextData\<close> fails.\<close>

fun entry_rows :: "nat \<Rightarrow> dic_entry_buffer \<Rightarrow> i32 list list" where
  "entry_rows 0 b = []"
| "entry_rows (Suc n) b = (case nextData b of (False, _) \<Rightarrow> [] | (True, b) \<Rightarrow> deb_data b # entry_rows n b)"

lemma alias_rows:
  assumes "ilt_length (deb_remainingData b) \<noteq> 0" "cp_wf (ilt_parser (deb_remainingData b))"
    and "cp_rest (ilt_parser (deb_remainingData b)) = concat (map encs rows) @ r"
    and "list_all (\<lambda>row. length row = unat (deb_numData b)) rows" "0 < deb_numData b"
    and "sint (ilt_position (deb_remainingData b)) + int (unat (deb_numData b) * length rows) = sint (ilt_length (deb_remainingData b))"
  shows "entry_rows (Suc (length rows)) b = rows"
  using assms
proof (induction rows arbitrary: b)
  case Nil
  then have "sint (ilt_length (deb_remainingData b)) = sint (ilt_position (deb_remainingData b))" by simp
  then have "ilt_length (deb_remainingData b) = ilt_position (deb_remainingData b)" by (rule signed_word_eqI)
  then show ?case using Nil.prems(1) by (simp add: nextData_def ilt_remaining_def)
next
  case (Cons row rows)
  let ?t = "deb_remainingData b" and ?n = "unat (deb_numData b)"
  have row: "length row = ?n" using Cons.prems(4) by simp
  have rest: "cp_rest (ilt_parser ?t) = encs row @ (concat (map encs rows) @ r)" using Cons.prems(3) by simp
  have lim: "sint (ilt_position ?t) + int (?n + ?n * length rows) = sint (ilt_length ?t)"
    using Cons.prems(6) by simp
  then have "sint (ilt_position ?t) + int (length row) \<le> sint (ilt_length ?t)" unfolding row by linarith
  from fill_cnt_encs [OF Cons.prems(2) rest this] obtain t' where t': "ilt_fill_cnt ?n ?t = (row, t')" "cp_wf (ilt_parser t')"
    "cp_rest (ilt_parser t') = concat (map encs rows) @ r" "ilt_length t' = ilt_length ?t"
    "sint (ilt_position t') = sint (ilt_position ?t) + int ?n" unfolding row by blast
  have "0 < ?n" using Cons.prems(5) by (simp add: word_less_nat_alt)
  then have "sint (ilt_position ?t) \<noteq> sint (ilt_length ?t)" using lim by linarith
  then have "ilt_remaining ?t \<noteq> 0" by (auto simp: ilt_remaining_def)
  then have nx: "nextData b = (True, b\<lparr>deb_dataBuffer := row @ drop ?n (deb_dataBuffer b), deb_remainingData := t'\<rparr>)"
    using Cons.prems(1) by (simp add: nextData_def deb_fill_def t'(1) row)
  have "entry_rows (Suc (length rows)) (b\<lparr>deb_dataBuffer := row @ drop ?n (deb_dataBuffer b), deb_remainingData := t'\<rparr>) = rows"
    using Cons.prems lim t' by (intro Cons.IH) simp_all
  then show ?case using Cons.prems(1) row by (simp add: nx deb_data_def t'(4) del: entry_rows.simps(2)) (simp add: nx deb_data_def t'(4))
qed

lemma storage_pointer:
  assumes "n < 2 ^ 31"
  shows "isAlias (mk_entry (word_of_nat n)) \<longleftrightarrow> odd n" "dicPtr (mk_entry (word_of_nat n)) = word_of_nat (n div 2)"
proof -
  have si: "sint (word_of_nat n :: i32) = int n" using assms by (intro sint_of_nat_small) simp
  have "unat (word_of_nat n :: i32) = n" using assms by (intro unat_of_nat_small) simp
  then have "unat ((word_of_nat n :: i32) mod 2) = n mod 2" by (simp add: unat_mod)
  then have "(word_of_nat n :: i32) mod 2 = 1 \<longleftrightarrow> odd n"
    by (metis odd_iff_mod_2_eq_one unat_1 unat_eqI)
  then show "isAlias (mk_entry (word_of_nat n)) \<longleftrightarrow> odd n"
    by (simp add: isAlias_def isDic_def mk_entry_def si and_one_eq)
  have "sint (signed_drop_bit 1 (word_of_nat n :: i32)) = int (n div 2)"
    by (simp only: sint_signed_drop_bit_eq si drop_bit_eq_div power_one_right zdiv_int of_nat_numeral)
  moreover have "sint (word_of_nat (n div 2) :: i32) = int (n div 2)" using assms by (intro sint_of_nat_small) simp
  ultimately have "sint (signed_drop_bit 1 (word_of_nat n :: i32)) = sint (word_of_nat (n div 2) :: i32)" by simp
  then have "signed_drop_bit 1 (word_of_nat n :: i32) = word_of_nat (n div 2)" by (rule signed_word_eqI)
  then show "dicPtr (mk_entry (word_of_nat n)) = word_of_nat (n div 2)"
    by (simp only: dicPtr_def mk_entry_def entry_ptr.simps)
qed

lemma deb_fill_encs:
  assumes "length (front @ encs vs @ r) < 2 ^ 31" "length vs = unat cnt"
  shows "\<exists>t'. deb_fill cnt (isr_rawWithLimit \<lparr>isr_data = front @ encs vs @ r\<rparr> (word_of_nat (length front)) cnt) buffer
      = (length vs, vs @ drop (length vs) buffer, t') \<and> cp_numReadBytes (ilt_parser t') = length (encs vs)"
proof -
  have lens: "length front < 2 ^ 31" "length (encs vs @ r) < 2 ^ 64" "length vs < 2 ^ 31"
    using assms(1) length_encs [of vs] by simp_all
  let ?t = "ilt_new cnt (cp_reset (encs vs @ r))"
  have t: "isr_rawWithLimit \<lparr>isr_data = front @ encs vs @ r\<rparr> (word_of_nat (length front)) cnt = ?t"
    by (simp add: isr_rawWithLimit_def isr_from_append [OF lens(1)])
  have "sint cnt = int (unat cnt)" using lens(3) assms(2) by (intro sint_small) simp
  then have "\<exists>t'. ilt_fill_cnt (length vs) ?t = (vs, t') \<and> cp_wf (ilt_parser t') \<and> cp_rest (ilt_parser t') = r
     \<and> ilt_length t' = ilt_length ?t \<and> sint (ilt_position t') = sint (ilt_position ?t) + int (length vs)
     \<and> cp_numReadBytes (ilt_parser t') = cp_numReadBytes (ilt_parser ?t) + length (encs vs)"
    using cp_reset_wf(1) [OF lens(2)] cp_reset_wf(2) assms(2) by (intro fill_cnt_encs) (simp_all add: ilt_new_def)
  then show ?thesis unfolding t deb_fill_def
    using assms(2) by (auto simp: ilt_new_def cp_reset_def cp_numReadBytes_def)
qed

lemma fill_single:
  assumes "length (front @ encs (fs @ row) @ r) < 2 ^ 30" "length fs = unat (deb_numFeatures b)" "length row = unat (deb_numData b)"
    and "length (fs @ row) \<le> length (deb_featureBuffer b)" "deb_dataBuffer b \<noteq> []"
  shows "\<exists>b'. fillFromStorage (mk_entry (word_of_nat (2 * length front))) \<lparr>isr_data = front @ encs (fs @ row) @ r\<rparr> b = (True, b')
    \<and> deb_features b' = fs \<and> entry_rows 2 b' = [row]"
proof -
  have n: "length (fs @ row) < 2 ^ 30" using assms(1) length_encs [of "fs @ row"] by simp
  have cnt: "unat (deb_numFeatures b + deb_numData b) = length (fs @ row)"
    using n assms(2,3) by (subst unat_add_small) simp_all
  have "2 * length front < 2 ^ 31" "length (front @ encs (fs @ row) @ r) < 2 ^ 31" using assms(1) by simp_all
  note ptr = storage_pointer [OF this(1)] and len = this(2)
  from deb_fill_encs [OF len cnt [symmetric], of "deb_featureBuffer b"] obtain t'
    where f: "deb_fill (deb_numFeatures b + deb_numData b) (isr_rawWithLimit \<lparr>isr_data = front @ encs (fs @ row) @ r\<rparr>
        (word_of_nat (length front)) (deb_numFeatures b + deb_numData b)) (deb_featureBuffer b)
      = (length (fs @ row), (fs @ row) @ drop (length (fs @ row)) (deb_featureBuffer b), t')" by blast
  let ?b = "b\<lparr>deb_featureBuffer := (fs @ row) @ drop (length (fs @ row)) (deb_featureBuffer b),
    deb_remainingData := ilt_clear (deb_remainingData b), deb_dataBuffer := (deb_dataBuffer b)[0 := 1]\<rparr>"
  have "fillFromStorage (mk_entry (word_of_nat (2 * length front))) \<lparr>isr_data = front @ encs (fs @ row) @ r\<rparr> b = (True, ?b)"
    unfolding fillFromStorage_def ptr by (simp only: Let_def f even_mult_iff even_numeral simp_thms if_False prod.case cnt
      less_irrefl nonzero_mult_div_cancel_left zero_neq_numeral not_False_eq_True) simp
  moreover have "deb_features ?b = fs" using assms(2) by (simp add: deb_features_def)
  moreover have "entry_rows 2 ?b = [row]" using assms(2,3,5)
    by (simp add: numeral_2_eq_2 nextData_def ilt_clear_def deb_data_def)
  ultimately show ?thesis by blast
qed

lemma fill_alias:
  assumes "length (front @ encs (fs @ [word_of_nat (length rows)]) @ concat (map encs rows) @ r) < 2 ^ 30"
    and "length fs = unat (deb_numFeatures b)" "list_all (\<lambda>row. length row = unat (deb_numData b)) rows" "0 < deb_numData b"
    and "length fs < length (deb_featureBuffer b)" "rows \<noteq> []"
  shows "\<exists>b'. fillFromStorage (mk_entry (word_of_nat (2 * length front + 1)))
        \<lparr>isr_data = front @ encs (fs @ [word_of_nat (length rows)]) @ concat (map encs rows) @ r\<rparr> b = (True, b')
    \<and> deb_features b' = fs \<and> entry_rows (Suc (length rows)) b' = rows"
proof -
  let ?n = "word_of_nat (length rows) :: i32" and ?c = "concat (map encs rows) @ r" and ?nd = "unat (deb_numData b)"
  let ?s = "\<lparr>isr_data = front @ encs (fs @ [?n]) @ ?c\<rparr>"
  have "?nd * length rows = length (concat rows)" using assms(3) by (induction rows) auto
  also have "\<dots> \<le> length (concat (map encs rows))"
    using length_encs by (induction rows) (auto intro: add_mono)
  finally have nr: "?nd * length rows < 2 ^ 30" using assms(1) by simp
  moreover have "1 \<le> ?nd" using assms(4) by (simp add: word_less_nat_alt)
  ultimately have r30: "length rows < 2 ^ 30" by (metis le_less_trans mult_1 mult_le_mono1)
  have "length (fs @ [?n]) < 2 ^ 30" using assms(1) length_encs [of "fs @ [?n]"] by simp
  then have cnt: "length (fs @ [?n]) = unat (deb_numFeatures b + 1)"
    using assms(2) by (subst unat_add_small) simp_all
  have len: "length (front @ encs (fs @ [?n]) @ ?c) < 2 ^ 31" "2 * length front + 1 < 2 ^ 31" using assms(1) by simp_all
  note ptr = storage_pointer [OF len(2)]
  from deb_fill_encs [OF len(1) cnt, of "deb_featureBuffer b"] obtain t'
    where f: "deb_fill (deb_numFeatures b + 1) (isr_rawWithLimit ?s (word_of_nat (length front)) (deb_numFeatures b + 1)) (deb_featureBuffer b)
      = (length (fs @ [?n]), (fs @ [?n]) @ drop (length (fs @ [?n])) (deb_featureBuffer b), t')"
      and t': "cp_numReadBytes (ilt_parser t') = length (encs (fs @ [?n]))" by blast
  let ?t = "isr_rawWithLimit ?s (word_of_nat (length front) + ilt_numReadBytes t') (deb_numData b * ?n)"
  let ?b = "b\<lparr>deb_featureBuffer := (fs @ [?n]) @ drop (length (fs @ [?n])) (deb_featureBuffer b), deb_remainingData := ?t\<rparr>"
  have nth: "((fs @ [?n]) @ drop (length (fs @ [?n])) (deb_featureBuffer b)) ! unat (deb_numFeatures b) = ?n"
    unfolding assms(2) [symmetric] by (simp add: nth_append)
  have sel: "deb_featureBuffer (b\<lparr>deb_featureBuffer := x\<rparr>) = x" "deb_numData (b\<lparr>deb_featureBuffer := x\<rparr>) = deb_numData b"
    "deb_numFeatures (b\<lparr>deb_featureBuffer := x\<rparr>) = deb_numFeatures b" for x by simp_all
  have half: "odd (2 * length front + 1)" "(2 * length front + 1) div 2 = length front" by simp_all
  have fill: "fillFromStorage (mk_entry (word_of_nat (2 * length front + 1))) ?s b = (True, ?b)"
    unfolding fillFromStorage_def ptr half
    by (simp only: Let_def f half simp_thms if_True prod.case cnt [symmetric] less_irrefl if_False nth sel)
  have t: "?t = ilt_new (deb_numData b * ?n) (cp_reset ?c)"
    using isr_from_append [of "front @ encs (fs @ [?n])" ?c] assms(1) by (simp add: isr_rawWithLimit_def ilt_numReadBytes_def t')
  have un: "unat (deb_numData b * ?n) = ?nd * length rows"
    using r30 nr by (subst unat_mult_lem [THEN iffD1]) (simp_all add: unat_of_nat_small)
  then have sn: "sint (deb_numData b * ?n) = int (?nd * length rows)" using nr by (subst sint_small) simp_all
  have "unat (deb_numData b * ?n) \<noteq> 0" using un assms(6) \<open>1 \<le> ?nd\<close> by simp
  then have "deb_numData b * ?n \<noteq> 0" by (metis unat_0)
  moreover have "length ?c < 2 ^ 64" using assms(1) by simp
  note cp_reset_wf(1) [OF this]
  ultimately have pre: "ilt_length (ilt_new (deb_numData b * ?n) (cp_reset ?c)) \<noteq> 0"
    "cp_wf (ilt_parser (ilt_new (deb_numData b * ?n) (cp_reset ?c)))"
    "cp_rest (ilt_parser (ilt_new (deb_numData b * ?n) (cp_reset ?c))) = ?c"
    "sint (ilt_position (ilt_new (deb_numData b * ?n) (cp_reset ?c))) + int (?nd * length rows)
      = sint (ilt_length (ilt_new (deb_numData b * ?n) (cp_reset ?c)))"
    using sn by (simp_all add: ilt_new_def cp_reset_wf(2))
  have R: "deb_remainingData ?b = ilt_new (deb_numData b * ?n) (cp_reset ?c)" "deb_numData ?b = deb_numData b"
    using t by (simp_all only: dic_entry_buffer.simps) (cases b, simp)+
  have "entry_rows (Suc (length rows)) ?b = rows"
    by (rule alias_rows [where r = r]) (simp_all only: R pre assms(3,4) not_False_eq_True)
  moreover have "deb_features ?b = fs" using assms(2) by (simp add: deb_features_def)
  ultimately show ?thesis using fill by blast
qed

lemma entry_pointer:
  assumes "n < 2 ^ 30"
  shows "ucast (push_bit 1 (word_of_nat n :: u64)) = (word_of_nat (2 * n) :: i32)"
    and "ucast (push_bit 1 (word_of_nat n :: u64) OR 1) = (word_of_nat (2 * n + 1) :: i32)"
proof -
  have p: "push_bit 1 (word_of_nat n :: u64) = word_of_nat (2 * n)" by (simp add: push_bit_of_nat_word mult.commute)
  have u: "ucast (word_of_nat m :: u64) = (word_of_nat m :: i32)" if "m < 2 ^ 32" for m
    using that by (intro unat_eqI) (simp add: unsigned_ucast_eq unsigned_of_nat take_bit_nat_eq_self)
  show "ucast (push_bit 1 (word_of_nat n :: u64)) = (word_of_nat (2 * n) :: i32)"
    unfolding p using assms by (intro u) simp
  have n: "unat (word_of_nat n :: u64) = n" using assms by (intro unat_of_nat_small) simp
  have "unat (push_bit 1 (word_of_nat n :: u64) OR 1) = 2 * n + 1"
    using unat_push_or [of "1 :: u64" 1 "word_of_nat n"] assms by (simp add: n)
  then have "push_bit 1 (word_of_nat n :: u64) OR 1 = word_of_nat (2 * n + 1)"
    by (metis of_nat_unat ucast_id word_of_nat_eq_iff unsigned_of_nat)
  then show "ucast (push_bit 1 (word_of_nat n :: u64) OR 1) = (word_of_nat (2 * n + 1) :: i32)"
    using assms u [of "2 * n + 1"] by (simp only:) simp
qed

lemma written_entry:
  assumes "cb_wf buf" "ded_write d buf = (Some ptr, buf')" "cb_position buf < 2 ^ 30" "ded_data d \<noteq> []" "length (ded_data d) < 2 ^ 32"
  obtains row where "ded_data d = [row]" "ptr = word_of_nat (2 * length (cb_contents buf))"
      "cb_contents buf' = cb_contents buf @ encs (ded_features d @ row)"
  | "ptr = word_of_nat (2 * length (cb_contents buf) + 1)"
      "cb_contents buf' = cb_contents buf @ encs (ded_features d @ [word_of_nat (length (ded_data d))]) @ concat (map encs (ded_data d))"
proof (cases "length (ded_data d) = 1")
  case True
  then obtain row where row: "ded_data d = [row]" by (auto simp: length_Suc_conv)
  have "cb_contents buf' = cb_contents buf @ encs (ded_features d @ row)"
    using assms(1,2) row write_all_contents by (auto simp: ded_write_def Let_def)
  moreover have "Some ptr = Some (ucast (push_bit 1 (word_of_nat (cb_position buf) :: u64)))"
    using assms(2) True by (simp only: ded_write_def Let_def if_True prod.inject simp_thms)
  then have "ptr = word_of_nat (2 * length (cb_contents buf))"
    by (simp only: entry_pointer(1) [OF assms(3), unfolded cb_position_contents [OF assms(1)]] option.inject cb_position_contents [OF assms(1)])
  ultimately show ?thesis using row that(1) by blast
next
  case False
  have u: "(ucast (word_of_nat (length (ded_data d)) :: i32) :: u64) = word_of_nat (length (ded_data d))"
    using assms(5) by (intro unat_eqI) (simp add: unsigned_ucast_eq unsigned_of_nat take_bit_nat_eq_self)
  have "Some ptr = Some (ucast (push_bit 1 (word_of_nat (cb_position buf) :: u64) OR 1))"
    using assms(2) False by (simp only: ded_write_def Let_def if_False prod.inject option.simps simp_thms split: if_splits)
  then have "ptr = word_of_nat (2 * length (cb_contents buf) + 1)"
    by (simp only: entry_pointer(2) [OF assms(3), unfolded cb_position_contents [OF assms(1)]] option.inject cb_position_contents [OF assms(1)])
  moreover have "cb_contents buf' = cb_contents buf @ encs (ded_features d @ [word_of_nat (length (ded_data d))]) @ concat (map encs (ded_data d))"
    using assms(1,2) False write_all_contents [OF assms(1), of "ded_features d"] write_rows_contents
    by (auto simp: ded_write_def Let_def u varint.put_contents varint.put_inv split: if_splits)
  ultimately show ?thesis using that(2) by blast
qed

subsection \<open>The seeds of the dictionary words\<close>

function all_ptrs :: "indexed_entries \<Rightarrow> entry_ptr list" where
  "all_ptrs e = (case readOnePtr e of (False, _) \<Rightarrow> [] | (True, e) \<Rightarrow> currentPtr e # all_ptrs e)"
  by pat_completeness auto
termination
  by (relation "measure (\<lambda>e. nat (sint (ilt_length (ie_entries e)) - sint (ilt_position (ie_entries e))))")
    (auto dest!: sym [of _ "readOnePtr _"] simp: readOnePtr_True)

declare all_ptrs.simps [simp del]

definition mk_seed :: "u16 \<Rightarrow> u16 \<Rightarrow> entry_ptr \<Rightarrow> node_seed" where
  "mk_seed start stop p = \<lparr>sd_entryPtr = p, sd_start = start, sd_end = stop\<rparr>"

definition add_seeds :: "node_seed list \<Rightarrow> lattice_builder \<Rightarrow> lattice_builder" where
  "add_seeds seeds b = b\<lparr>lbd_seeds := lbd_seeds b @ seeds\<rparr>"

lemma add_seeds_simps [simp]: "add_seeds [] b = b" "add_seeds ys (add_seeds xs b) = add_seeds (xs @ ys) b"
  by (simp_all add: add_seeds_def)

lemma append_entries_seeds: "append_entries start stop e b = add_seeds (map (mk_seed start stop) (all_ptrs e)) b"
proof (induction e arbitrary: b rule: all_ptrs.induct)
  case (1 e)
  show ?case
  proof (cases "readOnePtr e")
    case (Pair ok e')
    have seed: "appendSeed p start stop b = add_seeds [mk_seed start stop p] b" for p and b
      by (simp add: appendSeed_def add_seeds_def mk_seed_def)
    show ?thesis using "1.IH" Pair
      by (subst append_entries.simps, subst all_ptrs.simps) (cases ok; simp add: seed)
  qed
qed

text \<open>What the trie says of a word, from its root.\<close>

definition lookup_word :: "entries_holder \<Rightarrow> i32 \<Rightarrow> byte_string \<Rightarrow> (traverse_status \<times> i32 option) option" where
  "lookup_word h value0 w = map_option verdict (da_step (eh_trie h) w (da_traversal_new value0))"

definition text_of :: "input_codepoint list \<Rightarrow> byte_string" where
  "text_of points = concat (map ic_bytes points)"

text \<open>The seeds of a word: one for each of its entries in the dictionary.\<close>

definition word_seeds :: "entries_holder \<Rightarrow> i32 \<Rightarrow> byte_string \<Rightarrow> u16 \<Rightarrow> u16 \<Rightarrow> node_seed list" where
  "word_seeds h value0 w start stop =
     (case lookup_word h value0 w of
        Some (TsOk, Some v) \<Rightarrow> map (mk_seed start stop) (all_ptrs (entryTraversal h v))
      | _ \<Rightarrow> [])"

lemma step_node_pos:
  assumes "da_step units data t = Some (status, t')" "status \<noteq> TsNoNode" "unat (da_node_pos t) < 2 ^ 32"
  shows "unat (da_node_pos t') < 2 ^ 32"
proof -
  from step_state [OF assms(1,2)] obtain unit pos unit' key_pos where u: "array_at units (ucast (ucast (da_node_pos t) :: u32)) = Some unit"
    and l: "traverse_loop units data (ucast (da_node_pos t)) unit (da_node_pos t) 0 = Some (True, pos, unit', da_node_pos t', key_pos)" .
  have "da_node_pos t = ucast (ucast (da_node_pos t) :: u32)" using ucast_u32_u64 [OF assms(3)] by simp
  then have "da_node_pos t' = ucast pos" by (rule loop_state(1) [OF l u])
  moreover have lt: "unat pos < 2 ^ 32" using unsigned_less [of pos, where 'a=nat] by simp
  then have "take_bit 64 (unat pos) = unat pos" by (intro take_bit_nat_eq_self) simp
  ultimately show ?thesis using lt by (simp add: unsigned_ucast_eq)
qed

subsection \<open>Words of the dictionary at a place of the trie\<close>

text \<open>
  What the walkers of the dictionary rely on: a lookup of a whole word can be made in steps. \<open>at w p\<close> says that \<open>p\<close> is the
  place after the word \<open>w\<close>.
\<close>

locale word_index =
  fixes look :: "byte_string \<Rightarrow> (traverse_status \<times> i32 option) option"
    and at :: "byte_string \<Rightarrow> da_traversal \<Rightarrow> bool"
    and step :: "byte_string \<Rightarrow> da_traversal \<Rightarrow> (traverse_status \<times> da_traversal) option"
  assumes step_looks: "at w p \<Longrightarrow> map_option verdict (step b p) = look (w @ b)"
    and step_at: "at w p \<Longrightarrow> step b p = Some (status, p') \<Longrightarrow> status \<noteq> TsNoNode \<Longrightarrow> at (w @ b) p'"
    and look_dead: "look w = Some (TsNoNode, v) \<Longrightarrow> look (w @ y) = Some (TsNoNode, None)"
begin

lemma same_place: "at w p \<Longrightarrow> at w' p \<Longrightarrow> look (w @ y) = look (w' @ y)"
  by (metis step_looks)

lemma step_inside: "at w p \<Longrightarrow> look (w @ b) \<noteq> None \<Longrightarrow> \<exists>r. step b p = Some r"
  by (metis not_None_eq option.map_disc_iff step_looks)

lemma step_told: "at w p \<Longrightarrow> step b p = Some r \<Longrightarrow> look (w @ b) = Some (verdict r)"
  by (metis option.map(2) step_looks)

end

definition at_word :: "entries_holder \<Rightarrow> i32 \<Rightarrow> byte_string \<Rightarrow> da_traversal \<Rightarrow> bool" where
  "at_word h value0 w trav \<longleftrightarrow> unat (da_node_pos trav) < 2 ^ 32
     \<and> (\<forall>y. lookup_word h value0 (w @ y) = map_option verdict (da_step (eh_trie h) y trav))"

lemma at_root: "at_word h value0 [] (da_traversal_new value0)"
  by (simp add: at_word_def lookup_word_def da_traversal_new_def)

interpretation dictionary: word_index "lookup_word h value0" "at_word h value0" "index_step h" for h value0
proof
  fix w p b
  assume "at_word h value0 w p"
  then show "map_option verdict (index_step h b p) = lookup_word h value0 (w @ b)"
    by (simp add: at_word_def index_step_def)
next
  fix w p b status p'
  assume w: "at_word h value0 w p" and s: "index_step h b p = Some (status, p')" and n: "status \<noteq> TsNoNode"
  have d: "da_step (eh_trie h) b p = Some (status, p')" and pos: "unat (da_node_pos p) < 2 ^ 32"
    using s w by (simp_all add: index_step_def at_word_def)
  have "lookup_word h value0 ((w @ b) @ y) = map_option verdict (da_step (eh_trie h) y p')" for y
    using w steps_compose [OF d pos, of y] n by (simp add: at_word_def)
  then show "at_word h value0 (w @ b) p'"
    using step_node_pos [OF d n pos] by (simp add: at_word_def)
next
  fix w v y
  assume "lookup_word h value0 w = Some (TsNoNode, v)"
  then obtain t' where t': "da_step (eh_trie h) w (da_traversal_new value0) = Some (TsNoNode, t')"
    by (auto simp: lookup_word_def verdict_def)
  have "unat (da_node_pos (da_traversal_new value0)) < 2 ^ 32" by (simp add: da_traversal_new_def)
  from steps_compose [OF t' this] show "lookup_word h value0 (w @ y) = Some (TsNoNode, None)"
    by (simp add: lookup_word_def)
qed

subsection \<open>The walk over the words of the dictionary\<close>

lemma spawn_positions_seeds:
  assumes "at_word h value0 w trav"
    and "list_all (\<lambda>k. lookup_word h value0 (w @ text_of (take k points)) \<noteq> None) [1..<Suc (length points)]"
  shows "spawn_positions h points start position trav b
     = Some (add_seeds (concat (map (\<lambda>k. word_seeds h value0 (w @ text_of (take k points)) start (position + word_of_nat k)) [1..<Suc (length points)])) b)"
  using assms
proof (induction points arbitrary: w position trav b)
  case (Cons cp points)
  let ?w = "w @ ic_bytes cp"
  have upt: "[1..<Suc (length (cp # points))] = 1 # map Suc [1..<Suc (length points)]"
    by (simp only: map_Suc_upt list.size upt_conv_Cons One_nat_def Suc_less_eq zero_less_Suc add_0_right add_Suc_right)
  have tx: "text_of (take 1 (cp # points)) = ic_bytes cp" "w @ text_of (take (Suc k) (cp # points)) = ?w @ text_of (take k points)" for k
    by (simp_all add: text_of_def)
  have all: "lookup_word h value0 ?w \<noteq> None" "list_all (\<lambda>k. lookup_word h value0 (?w @ text_of (take k points)) \<noteq> None) [1..<Suc (length points)]"
    using Cons.prems(2) unfolding upt list.pred_inject list.pred_map comp_def tx by simp_all
  obtain status trav' where st: "index_step h (ic_bytes cp) trav = Some (status, trav')"
    using dictionary.step_inside [OF Cons.prems(1) all(1)] by auto
  note w = dictionary.step_told [OF Cons.prems(1) st]
  have seeds_eq: "concat (map (\<lambda>k. word_seeds h value0 (w @ text_of (take k (cp # points))) start (position + word_of_nat k)) [1..<Suc (length (cp # points))])
      = word_seeds h value0 ?w start (position + 1)
        @ concat (map (\<lambda>k. word_seeds h value0 (?w @ text_of (take k points)) start (position + 1 + word_of_nat k)) [1..<Suc (length points)])"
    unfolding upt by (simp only: list.map concat.simps map_map comp_def tx of_nat_1 of_nat_Suc add.assoc)
  show ?case
  proof (cases "status = TsNoNode")
    case True
    have none: "word_seeds h value0 (?w @ y) start e = []" for y e
      using dictionary.look_dead [of h value0 ?w None y] w True by (simp add: word_seeds_def verdict_def)
    have nil: "concat (map (\<lambda>k. []) ks) = []" for ks :: "nat list" by (induction ks) simp_all
    show ?thesis unfolding seeds_eq using st True none none [of "[]"] by (simp add: nil del: upt_Suc)
  next
    case False
    have IH: "spawn_positions h points start (position + 1) trav' b
      = Some (add_seeds (concat (map (\<lambda>k. word_seeds h value0 (?w @ text_of (take k points)) start (position + 1 + word_of_nat k)) [1..<Suc (length points)])) b)" for b
      by (rule Cons.IH [OF dictionary.step_at [OF Cons.prems(1) st False] all(2)])
    have "word_seeds h value0 ?w start e = (if status = TsOk then map (mk_seed start e) (all_ptrs (index_entries h trav')) else [])" for e
      using w by (simp add: word_seeds_def verdict_def index_entries_def split: traverse_status.splits)
    then show ?thesis unfolding seeds_eq using False
      by (cases status) (simp_all add: st IH append_entries_seeds del: upt_Suc)
  qed
qed simp

text \<open>The seeds of the words that start at position \<open>i\<close>, from the shortest on.\<close>

definition seeds_from :: "entries_holder \<Rightarrow> i32 \<Rightarrow> input_codepoint list \<Rightarrow> nat \<Rightarrow> node_seed list" where
  "seeds_from h value0 points i =
     concat (map (\<lambda>k. word_seeds h value0 (text_of (take k (drop i points))) (word_of_nat i) (word_of_nat i + word_of_nat k))
       [1..<Suc (length points - i)])"

text \<open>No lookup of a part of the input leaves the array of the trie.\<close>

definition lookups_inside :: "entries_holder \<Rightarrow> i32 \<Rightarrow> input_codepoint list \<Rightarrow> bool" where
  "lookups_inside h value0 points \<longleftrightarrow>
     list_all (\<lambda>i. list_all (\<lambda>k. lookup_word h value0 (text_of (take k (drop i points))) \<noteq> None) [1..<Suc (length points - i)])
       [0..<length points]"

lemma spawn_starts_seeds:
  assumes "lookups_inside h value0 points" "i \<le> length points"
  shows "spawn_starts h value0 (drop i points) (word_of_nat i) b
    = Some (add_seeds (concat (map (seeds_from h value0 points) [i..<length points])) b)"
  using assms(2)
proof (induction "length points - i" arbitrary: i b)
  case (Suc n)
  then have i: "i < length points" by linarith
  have all: "list_all (\<lambda>k. lookup_word h value0 ([] @ text_of (take k (drop i points))) \<noteq> None) [1..<Suc (length (drop i points))]"
    using assms(1) i by (simp add: lookups_inside_def list_all_iff del: upt_Suc)
  have one: "spawn_positions h (drop i points) (word_of_nat i) (word_of_nat i) (da_traversal_new value0) b
      = Some (add_seeds (seeds_from h value0 points i) b)"
    using spawn_positions_seeds [OF at_root all] by (simp add: seeds_from_def del: upt_Suc)
  have cons: "drop i points = points ! i # drop (Suc i) points" using i by (simp add: Cons_nth_drop_Suc)
  have rest: "spawn_starts h value0 (drop (Suc i) points) (word_of_nat (Suc i)) b'
      = Some (add_seeds (concat (map (seeds_from h value0 points) [Suc i..<length points])) b')" for b'
    using Suc.hyps(2) i by (intro Suc.hyps(1)) simp_all
  have "word_of_nat i + 1 = (word_of_nat (Suc i) :: u16)" by simp
  with one rest show ?case
    unfolding cons by (simp only: spawn_starts.simps option.case upt_conv_Cons [OF i] list.map concat.simps add_seeds_simps)
qed simp

subsection \<open>Properties\<close>

text \<open>C9: A dictionary entry is read back as it was written: whatever is appended to the entry data later, the pointer that \<open>DicEntryData::write\<close>
  returns leads \<open>fillFromStorage\<close> to the features of the entry, and \<open>nextData\<close> then gives its data rows in order, one row or many, and stops
  after the last one.
\<close>

theorem dictionary_entry_roundtrip:
  assumes "cb_wf buf" "ded_write d buf = (Some ptr, buf')" "length (cb_contents buf' @ r) < 2 ^ 30"
    and "length (ded_features d) = unat (deb_numFeatures b)" "list_all (\<lambda>row. length row = unat (deb_numData b)) (ded_data d)"
    and "ded_data d \<noteq> []" "0 < deb_numData b" "unat (deb_numFeatures b) + unat (deb_numData b) \<le> length (deb_featureBuffer b)"
    and "deb_dataBuffer b \<noteq> []" "length (ded_data d) < 2 ^ 32" "cb_position buf < 2 ^ 30"
  shows "\<exists>b'. fillFromStorage (mk_entry ptr) \<lparr>isr_data = cb_contents buf' @ r\<rparr> b = (True, b')
    \<and> deb_features b' = ded_features d \<and> entry_rows (Suc (length (ded_data d))) b' = ded_data d"
proof (rule written_entry [OF assms(1,2,11,6,10)])
  fix row
  assume row: "ded_data d = [row]" "ptr = word_of_nat (2 * length (cb_contents buf))"
    "cb_contents buf' = cb_contents buf @ encs (ded_features d @ row)"
  have "length (cb_contents buf @ encs (ded_features d @ row) @ r) < 2 ^ 30" using assms(3) row(3) by simp
  from fill_single [OF this assms(4) _ _ assms(9)] show ?thesis
    using assms(5,8) assms(4) row by (simp add: numeral_2_eq_2)
next
  assume ptr: "ptr = word_of_nat (2 * length (cb_contents buf) + 1)"
    and c: "cb_contents buf' = cb_contents buf @ encs (ded_features d @ [word_of_nat (length (ded_data d))]) @ concat (map encs (ded_data d))"
  have "length (cb_contents buf @ encs (ded_features d @ [word_of_nat (length (ded_data d))]) @ concat (map encs (ded_data d)) @ r) < 2 ^ 30"
    using assms(3) c by simp
  moreover have "0 < unat (deb_numData b)" using assms(7) by (simp add: word_less_nat_alt)
  then have "length (ded_features d) < length (deb_featureBuffer b)" using assms(4,8) by linarith
  ultimately show ?thesis
    using fill_alias [OF _ assms(4,5,7) _ assms(6), of "cb_contents buf" r] unfolding ptr c append_assoc by blast
qed

definition sample_entry :: dic_entry_data where
  "sample_entry = \<lparr>ded_features = [300, -4], ded_data = [[5], [6], [7]], ded_order = 0\<rparr>"

definition sample_buffer :: dic_entry_buffer where
  "sample_buffer = \<lparr>deb_numFeatures = 2, deb_numData = 1, deb_featureBuffer = [0, 0, 0, 0, 0], deb_dataBuffer = [0, 0],
     deb_remainingData = ilt_empty_new\<rparr>"

lemma sample_entry_written: "ded_write sample_entry cb_new = (Some 1, snd (ded_write sample_entry cb_new))"
  "length (cb_contents (snd (ded_write sample_entry cb_new))) = 11"
  by code_simp+

theorem dictionary_entry_roundtrip_witness:
  "\<exists>b'. fillFromStorage (mk_entry 1) \<lparr>isr_data = cb_contents (snd (ded_write sample_entry cb_new)) @ [9]\<rparr> sample_buffer = (True, b')
    \<and> deb_features b' = ded_features sample_entry \<and> entry_rows (Suc (length (ded_data sample_entry))) b' = ded_data sample_entry"
  by (rule dictionary_entry_roundtrip [OF _ sample_entry_written(1)])
    (simp_all add: sample_entry_written(2), simp_all add: sample_entry_def sample_buffer_def cb_new_def cb_position_def)

text \<open>C7: The dictionary seeds are exactly the words of the dictionary in the input: for every position and every length, in this order, the word that is cut
  out of the input is looked up from the root of the trie, and one seed is added for each entry of a word that is found. The walk of
  the code, which looks every word up by a step from the word before it and gives up when no longer word can follow, leaves none out and adds no other.
\<close>

theorem dictionary_seeds_are_the_words:
  assumes "lookups_inside h value0 points" "length points < 2 ^ 16"
  shows "dictionary_spawnNodes h value0 points b = Some (add_seeds (concat (map (seeds_from h value0 points) [0..<length points])) b)"
proof -
  have "unat (word_of_nat (length points) :: u16) = length points" using assms(2) by (intro unat_of_nat_small) simp
  then show ?thesis using spawn_starts_seeds [OF assms(1) le0, of b] by (simp add: dictionary_spawnNodes_def Let_def)
qed

definition small_dictionary :: entries_holder where
  "small_dictionary = \<lparr>eh_trie = small_trie, eh_numFeatures = 2, eh_numData = 1, eh_entries = \<lparr>isr_data = []\<rparr>,
     eh_entryPtrs = \<lparr>isr_data = [0, 0, 0, 0, 0, 1, 1, 8]\<rparr>\<rparr>"

definition small_points :: "input_codepoint list" where
  "small_points = [\<lparr>ic_codepoint = 0x61, ic_charClass = 0, ic_bytes = [0x61]\<rparr>, \<lparr>ic_codepoint = 0x62, ic_charClass = 0, ic_bytes = [0x62]\<rparr>]"

lemma small_lookups:
  "lookup_word small_dictionary 0 [0x61] = Some (TsOk, Some 5)" "lookup_word small_dictionary 0 [0x61, 0x62] = Some (TsOk, Some 6)"
  "lookup_word small_dictionary 0 [0x62] = Some (TsNoNode, None)"
  by (simp_all add: small_dictionary_def lookup_word_def verdict_def trie_eval)

lemma small_varints: "writeVarint64ToArray 1 = [1]" "writeVarint64ToArray 8 = [8]"
  by (subst writeVarint64ToArray.simps, simp add: word_le_nat_alt)+

text \<open>A list with one pointer.\<close>

lemma one_pointer:
  assumes "nat (sint ptr) < length (isr_data (eh_entryPtrs h))" "drop (nat (sint ptr)) (isr_data (eh_entryPtrs h)) = 1 # writeVarint64ToArray v @ r"
    and "length (isr_data (eh_entryPtrs h)) < 2 ^ 64"
  shows "all_ptrs (entryTraversal h ptr) = [mk_entry (ucast v)]"
proof -
  let ?bs = "writeVarint64ToArray 1 @ writeVarint64ToArray v @ r"
  let ?p = "cp_advance (length (writeVarint64ToArray 1)) (cp_reset ?bs)"
  have from0: "isr_from (eh_entryPtrs h) ptr = cp_reset ?bs" using assms(2) by (simp add: isr_from_def small_varints)
  have "length ?bs < 2 ^ 64" using assms(2,3) by (metis append_Cons append_Nil le_less_trans length_drop diff_le_self small_varints(1))
  note wf = cp_reset_wf(1) [OF this] cp_reset_wf(2) [of ?bs]
  note adv = cp_advance_wf [OF wf]
  have "isr_listAt (eh_entryPtrs h) ptr = ilt_new 1 ?p"
    by (simp add: isr_listAt_def from0 readInt_i32_enc [OF wf] del: append.simps)
  then have e: "entryTraversal h ptr = \<lparr>ie_numFeatures = eh_numFeatures h, ie_numData = eh_numData h, ie_entries = ilt_new 1 ?p,
      ie_entryData = eh_entries h, ie_lastIdx = 0\<rparr>" by (simp add: entryTraversal_def)
  let ?e = "\<lparr>ie_numFeatures = eh_numFeatures h, ie_numData = eh_numData h, ie_entries = \<lparr>ilt_length = 1, ilt_position = 1,
      ilt_parser = cp_advance (length (writeVarint64ToArray v)) ?p\<rparr>, ie_entryData = eh_entries h, ie_lastIdx = ucast v\<rparr>"
  have "readOne 0 (ilt_new 1 ?p) = (True, ucast v, ie_entries ?e)"
    using readOne_enc [of "ilt_new 1 ?p" v r 0] adv by (simp add: ilt_new_def)
  moreover have "\<not> ilt_empty (ilt_new 1 ?p)" by (simp add: ilt_empty_def ilt_new_def)
  ultimately have "readOnePtr (entryTraversal h ptr) = (True, ?e)"
    unfolding e readOnePtr_def readOneCumulative_def by simp
  moreover have "readOnePtr ?e = (False, ?e)" by (simp add: readOnePtr_def ilt_empty_def)
  then have "all_ptrs ?e = []" by (subst all_ptrs.simps) simp
  ultimately show ?thesis by (subst all_ptrs.simps) (simp add: currentPtr_def)
qed

lemma small_ptrs:
  "all_ptrs (entryTraversal small_dictionary 5) = [mk_entry 1]" "all_ptrs (entryTraversal small_dictionary 6) = [mk_entry 8]"
  using one_pointer [of 5 small_dictionary 1 "[8]"] one_pointer [of 6 small_dictionary 8 "[]"]
  by (simp_all add: small_dictionary_def small_varints)

lemma small_ranges:
  "length small_points = 2" "[0..<2] = [0, 1]" "[1..<Suc (2 - 0)] = [1, 2]" "[1..<Suc (2 - 1)] = [1]"
  by (simp_all add: small_points_def numeral_2_eq_2)

lemma small_texts:
  "text_of (take 1 (drop 0 small_points)) = [0x61]" "text_of (take 2 (drop 0 small_points)) = [0x61, 0x62]"
  "text_of (take 1 (drop 1 small_points)) = [0x62]"
  by (simp_all add: small_points_def text_of_def)

definition empty_builder :: lattice_builder where
  "empty_builder = \<lparr>lbd_seeds = [], lbd_boundaries = [], lbd_connectible = [], lbd_maxBoundaries = 4\<rparr>"

theorem dictionary_seeds_are_the_words_witness:
  "dictionary_spawnNodes small_dictionary 0 small_points empty_builder
    = Some (add_seeds [\<lparr>sd_entryPtr = mk_entry 1, sd_start = 0, sd_end = 1\<rparr>, \<lparr>sd_entryPtr = mk_entry 8, sd_start = 0, sd_end = 2\<rparr>] empty_builder)"
proof -
  have "lookups_inside small_dictionary 0 small_points"
    unfolding lookups_inside_def small_ranges list.pred_inject small_texts small_lookups by simp
  moreover have "seeds_from small_dictionary 0 small_points 0
      = [\<lparr>sd_entryPtr = mk_entry 1, sd_start = 0, sd_end = 1\<rparr>, \<lparr>sd_entryPtr = mk_entry 8, sd_start = 0, sd_end = 2\<rparr>]"
    unfolding seeds_from_def small_ranges list.map small_texts word_seeds_def small_lookups
    by (simp add: small_ptrs mk_seed_def)
  moreover have "seeds_from small_dictionary 0 small_points 1 = []"
    unfolding seeds_from_def small_ranges list.map small_texts word_seeds_def small_lookups by simp
  ultimately show ?thesis
    using dictionary_seeds_are_the_words [of small_dictionary 0 small_points empty_builder] unfolding small_ranges list.map concat.simps by simp
qed

end
