(* ===== verification/ExtraNodes.thy ===== *)
theory ExtraNodes
  imports DicEntries
begin

text \<open>
  \<open>src/src/core/analysis/extra_nodes.h\<close> and \<open>extra_nodes.cc\<close>: the nodes that are made during an analysis, and
  \<open>UnkNodesContext\<close> of \<open>src/src/core/analysis/unk_nodes_creator.cc\<close>, which fills such a node for an unknown word.
  A pointer to a node is its index in \<open>extraNodes_\<close>. The two members of the union in the header are two fields here; no
  operation reads the member it did not set. Fresh memory of the pool is the argument \<open>fresh\<close>.
\<close>

datatype extra_node_type = XtInvalid | XtUnknown | XtAlias | XtSpecial

record extra_node =
  xn_index :: i32
  xn_type :: extra_node_type
  xn_dictionaryNodes :: "i32 list"
  xn_contentHash :: i32
  xn_surface :: byte_string
  xn_templatePtr :: entry_ptr
  xn_content :: "i32 list"

definition xn_ptr :: "extra_node \<Rightarrow> entry_ptr" where
  "xn_ptr n = mk_entry (NOT (xn_index n))"

record extra_nodes =
  xc_numFields :: nat
  xc_numPlaceholders :: nat
  xc_nodes :: "extra_node list"
  xc_strings :: "byte_string list"

text \<open>Both numbers come as \<open>i32\<close> and are widened to \<open>size_t\<close>.\<close>

definition xc_new :: "i32 \<Rightarrow> i32 \<Rightarrow> extra_nodes" where
  "xc_new numFields numPlaceholders =
     \<lparr>xc_numFields = unat (scast numFields :: u64), xc_numPlaceholders = unat (scast numPlaceholders :: u64), xc_nodes = [], xc_strings = []\<rparr>"

definition fresh_node :: "i32 \<Rightarrow> nat \<Rightarrow> extra_nodes \<Rightarrow> extra_node" where
  "fresh_node fresh ix x =
     \<lparr>xn_index = word_of_nat ix, xn_type = XtInvalid, xn_dictionaryNodes = [], xn_contentHash = fresh, xn_surface = [],
      xn_templatePtr = mk_entry fresh, xn_content = replicate (xc_numFields x) fresh @ replicate (xc_numPlaceholders x) 0\<rparr>"

definition allocateExtra :: "i32 \<Rightarrow> extra_nodes \<Rightarrow> nat \<times> extra_nodes" where
  "allocateExtra fresh x =
     (let ix = length (xc_nodes x) in (ix, x\<lparr>xc_nodes := xc_nodes x @ [fresh_node fresh ix x]\<rparr>))"

definition upd_node :: "nat \<Rightarrow> (extra_node \<Rightarrow> extra_node) \<Rightarrow> extra_nodes \<Rightarrow> extra_nodes" where
  "upd_node ix f x = x\<lparr>xc_nodes := (xc_nodes x)[ix := f (xc_nodes x ! ix)]\<rparr>"

text \<open>Copying to the start of the content of a node.\<close>

definition copy_content :: "i32 list \<Rightarrow> extra_node \<Rightarrow> extra_node" where
  "copy_content vs n = n\<lparr>xn_content := vs @ drop (length vs) (xn_content n)\<rparr>"

definition makeZeroedUnk :: "i32 \<Rightarrow> extra_nodes \<Rightarrow> nat \<times> extra_nodes" where
  "makeZeroedUnk fresh x =
     (case allocateExtra fresh x of (ix, x) \<Rightarrow>
        (ix, upd_node ix (\<lambda>n. copy_content (replicate (xc_numFields x) 0) (n\<lparr>xn_type := XtUnknown\<rparr>)) x))"

text \<open>\<open>DictNode::copyTo\<close> copies the features of the pattern.\<close>

definition makeUnk :: "i32 \<Rightarrow> dic_entry_buffer \<Rightarrow> extra_nodes \<Rightarrow> nat \<times> extra_nodes" where
  "makeUnk fresh pat x =
     (case allocateExtra fresh x of (ix, x) \<Rightarrow>
        (ix, upd_node ix (\<lambda>n. copy_content (deb_features pat) (n\<lparr>xn_type := XtUnknown\<rparr>)) x))"

definition makeAlias :: "i32 \<Rightarrow> extra_nodes \<Rightarrow> nat \<times> extra_nodes" where
  "makeAlias fresh x =
     (case allocateExtra fresh x of (ix, x) \<Rightarrow> (ix, upd_node ix (\<lambda>n. n\<lparr>xn_type := XtAlias\<rparr>) x))"

definition aliasBuffer :: "i32 \<Rightarrow> nat \<Rightarrow> nat \<Rightarrow> extra_nodes \<Rightarrow> extra_nodes" where
  "aliasBuffer fresh ix numNodes x = upd_node ix (\<lambda>n. n\<lparr>xn_dictionaryNodes := replicate numNodes fresh\<rparr>) x"

definition nodeContent :: "extra_nodes \<Rightarrow> nat \<Rightarrow> i32 list" where
  "nodeContent x ix = take (xc_numFields x) (xn_content (xc_nodes x ! ix))"

text \<open>\<open>node\<close>: a dictionary pointer has no extra node; the index is checked in debug builds only.\<close>

definition xc_node :: "extra_nodes \<Rightarrow> entry_ptr \<Rightarrow> extra_node option" where
  "xc_node x p = (if isDic p then None else Some (xc_nodes x ! unat (extPtr p)))"

definition xc_lengthOf :: "extra_nodes \<Rightarrow> entry_ptr \<Rightarrow> i32" where
  "xc_lengthOf x eptr = word_of_nat (length (xn_surface (xc_nodes x ! unat (extPtr eptr))))"

definition put_placeholder :: "nat \<Rightarrow> i32 \<Rightarrow> i32 \<Rightarrow> extra_nodes \<Rightarrow> extra_nodes" where
  "put_placeholder ix idx v x =
     upd_node ix (\<lambda>n. n\<lparr>xn_content := (xn_content n)[xc_numFields x + unat idx := v]\<rparr>) x"

definition putPlaceholderData :: "entry_ptr \<Rightarrow> i32 \<Rightarrow> i32 \<Rightarrow> extra_nodes \<Rightarrow> extra_nodes" where
  "putPlaceholderData ptr idx v x = put_placeholder (unat (extPtr ptr)) idx v x"

definition placeholderData :: "extra_nodes \<Rightarrow> entry_ptr \<Rightarrow> i32 \<Rightarrow> i32" where
  "placeholderData x ptr idx = xn_content (xc_nodes x ! unat (extPtr ptr)) ! (xc_numFields x + unat idx)"

definition xc_reset :: "extra_nodes \<Rightarrow> extra_nodes" where
  "xc_reset x = x\<lparr>xc_nodes := [], xc_strings := []\<rparr>"

definition xc_intern :: "byte_string \<Rightarrow> extra_nodes \<Rightarrow> byte_string \<times> extra_nodes" where
  "xc_intern piece x =
     (if piece \<in> set (xc_strings x) then (piece, x) else (piece, x\<lparr>xc_strings := piece # xc_strings x\<rparr>))"

definition unkString :: "extra_nodes \<Rightarrow> i32 \<Rightarrow> byte_string" where
  "unkString x i =
     (case filter (\<lambda>n. xn_type n = XtUnknown \<and> xn_contentHash n = i) (xc_nodes x) of
        [] \<Rightarrow> [] | n # _ \<Rightarrow> xn_surface n)"

subsection \<open>Nodes for unknown words\<close>

record unk_config =
  uc_base :: dic_entry_buffer
  uc_patternPtr :: entry_ptr
  uc_replaceWithSurface :: "i32 list"
  uc_patternFields :: "i32 list"
  uc_targetPlaceholder :: i32

definition unk_config_new :: "dic_entry_buffer \<Rightarrow> entry_ptr \<Rightarrow> unk_config" where
  "unk_config_new base pattern =
     \<lparr>uc_base = base, uc_patternPtr = pattern, uc_replaceWithSurface = [], uc_patternFields = [], uc_targetPlaceholder = -1\<rparr>"

text \<open>
  The fields are set one after the other. An index outside of the fields changes nothing here; the code checks it in debug builds only and writes behind the fields otherwise,
  so that this is the code for indices below the number of fields, as the compiled specification has them.
\<close>

definition fillElems :: "unk_config \<Rightarrow> i32 \<Rightarrow> i32 list \<Rightarrow> i32 list" where
  "fillElems conf data buffer = fold (\<lambda>idx buffer. buffer[unat idx := data]) (uc_replaceWithSurface conf) buffer"

definition fillPatternFields :: "unk_config \<Rightarrow> unk_config" where
  "fillPatternFields conf =
     conf\<lparr>uc_patternFields := uc_patternFields conf
        @ filter (\<lambda>i. i \<notin> set (uc_replaceWithSurface conf)) (map word_of_nat [0..<length (deb_features (uc_base conf))])\<rparr>"

definition hashUnkString :: "byte_string \<Rightarrow> i32" where
  "hashUnkString sp = ucast (murmurhash3_memory sp 0xa76210bf) OR 0x80000000"

definition makePtr :: "i32 \<Rightarrow> byte_string \<Rightarrow> unk_config \<Rightarrow> bool \<Rightarrow> extra_nodes \<Rightarrow> entry_ptr \<times> extra_nodes" where
  "makePtr fresh surface conf notPrefix x =
     (case makeUnk fresh (uc_base conf) x of (ix, x) \<Rightarrow>
        let hashValue = hashUnkString surface;
            x = upd_node ix (\<lambda>n. n\<lparr>xn_surface := surface, xn_contentHash := hashValue, xn_templatePtr := uc_patternPtr conf\<rparr>) x;
            x = upd_node ix (copy_content (fillElems conf hashValue (nodeContent x ix))) x;
            x = (if uc_targetPlaceholder conf \<noteq> -1 then put_placeholder ix (uc_targetPlaceholder conf) (if notPrefix then 1 else 0) x else x)
        in (xn_ptr (xc_nodes x ! ix), x))"

text \<open>A failed read of the entry is only logged; \<open>buffer0\<close> is the buffer on the stack.\<close>

definition makePtr_entry ::
  "i32 \<Rightarrow> entries_holder \<Rightarrow> dic_entry_buffer \<Rightarrow> byte_string \<Rightarrow> unk_config \<Rightarrow> entry_ptr \<Rightarrow> i32 \<Rightarrow> extra_nodes \<Rightarrow> entry_ptr \<times> extra_nodes" where
  "makePtr_entry fresh entries buffer0 surface conf eptr feature x =
     (case makeZeroedUnk fresh x of (ix, x) \<Rightarrow>
        let x = upd_node ix (\<lambda>n. n\<lparr>xn_surface := surface, xn_templatePtr := eptr\<rparr>) x;
            buffer = snd (fillBuffer entries eptr buffer0);
            x = upd_node ix (copy_content (deb_features buffer)) x;
            hashValue = hashUnkString surface;
            x = upd_node ix (\<lambda>n. n\<lparr>xn_contentHash := hashValue\<rparr>) x;
            x = upd_node ix (copy_content (fillElems conf hashValue (nodeContent x ix))) x;
            x = (if uc_targetPlaceholder conf \<noteq> -1 then put_placeholder ix (uc_targetPlaceholder conf) feature x else x)
        in (xn_ptr (xc_nodes x ! ix), x))"

text \<open>An entry that cannot be read counts as a match.\<close>

function dicPatternMatches :: "unk_config \<Rightarrow> dic_entry_buffer \<Rightarrow> indexed_entries \<Rightarrow> bool" where
  "dicPatternMatches conf buffer entries =
     (case readOnePtr entries of
        (False, _) \<Rightarrow> False
      | (True, entries) \<Rightarrow>
          (case fillEntryData entries buffer of
             (False, _) \<Rightarrow> True
           | (True, buffer) \<Rightarrow>
               if list_all (\<lambda>idx. deb_features buffer ! unat idx = deb_features (uc_base conf) ! unat idx) (uc_patternFields conf)
               then True else dicPatternMatches conf buffer entries))"
  by pat_completeness auto
termination
  by (relation "measure (\<lambda>(_, _, e). nat (sint (ilt_length (ie_entries e)) - sint (ilt_position (ie_entries e))))")
    (auto dest!: sym [of _ "readOnePtr _"] simp: readOnePtr_True)

declare dicPatternMatches.simps [simp del]

subsection \<open>Lemmas\<close>

text \<open>Every node knows its index, which is a nonnegative 32-bit number, and has room for the fields and the placeholders.\<close>

definition xc_ok :: "extra_nodes \<Rightarrow> bool" where
  "xc_ok x \<longleftrightarrow> length (xc_nodes x) < 2 ^ 31
     \<and> list_all (\<lambda>i. xn_index (xc_nodes x ! i) = word_of_nat i
          \<and> length (xn_content (xc_nodes x ! i)) = xc_numFields x + xc_numPlaceholders x) [0..<length (xc_nodes x)]"

text \<open>All nodes of one context are nodes of another, unchanged.\<close>

definition extends :: "extra_nodes \<Rightarrow> extra_nodes \<Rightarrow> bool" where
  "extends x x' \<longleftrightarrow> xc_numFields x' = xc_numFields x \<and> xc_numPlaceholders x' = xc_numPlaceholders x
     \<and> (\<exists>ns. xc_nodes x' = xc_nodes x @ ns)"

lemma extends_trans: "extends x y \<Longrightarrow> extends y z \<Longrightarrow> extends x z"
  by (auto simp: extends_def)

text \<open>The node an operation appended.\<close>

definition appended :: "extra_nodes \<Rightarrow> extra_node \<Rightarrow> extra_nodes" where
  "appended x n = x\<lparr>xc_nodes := xc_nodes x @ [n]\<rparr>"

lemma upd_appended [simp]:
  "upd_node (length (xc_nodes x)) f (appended x n) = appended x (f n)"
  "put_placeholder (length (xc_nodes x)) idx v (appended x n)
    = appended x (n\<lparr>xn_content := (xn_content n)[xc_numFields x + unat idx := v]\<rparr>)"
  "nodeContent (appended x n) (length (xc_nodes x)) = take (xc_numFields x) (xn_content n)"
  "xc_nodes (appended x n) ! length (xc_nodes x) = n" "xc_numFields (appended x n) = xc_numFields x"
  by (simp_all add: upd_node_def appended_def nodeContent_def put_placeholder_def)

lemma allocateExtra_appended: "allocateExtra fresh x = (length (xc_nodes x), appended x (fresh_node fresh (length (xc_nodes x)) x))"
  by (simp add: allocateExtra_def appended_def Let_def)

lemma appended_ok:
  assumes "xc_ok x" "length (xc_nodes x) + 1 < 2 ^ 31" "xn_index n = word_of_nat (length (xc_nodes x))"
    and "length (xn_content n) = xc_numFields x + xc_numPlaceholders x"
  shows "xc_ok (appended x n)" "extends x (appended x n)"
  using assms by (auto simp: xc_ok_def appended_def extends_def nth_append list_all_iff less_Suc_eq)

lemma extra_pointer:
  assumes "n < 2 ^ 31" "xn_index node = word_of_nat n"
  shows "isSpecial (xn_ptr node)" "unat (extPtr (xn_ptr node)) = n"
proof -
  show "unat (extPtr (xn_ptr node)) = n"
    using assms by (simp add: extPtr_def xn_ptr_def mk_entry_def unat_of_nat_small)
  have "sint (word_of_nat n :: i32) = int n" using assms(1) by (intro sint_of_nat_small) simp
  then have "\<not> bit (word_of_nat n :: i32) 31" using bit_last_iff [of "word_of_nat n :: i32"] by simp
  then have "bit (NOT (word_of_nat n :: i32)) 31" by (simp add: bit_simps)
  then have "sint (NOT (word_of_nat n :: i32)) < 0" using bit_last_iff [of "NOT (word_of_nat n :: i32)"] by simp
  then show "isSpecial (xn_ptr node)" by (simp only: isSpecial_def xn_ptr_def mk_entry_def entry_ptr.simps assms(2))
qed

lemma hash_is_special: "sint (hashUnkString w) < 0"
proof -
  have "bit (hashUnkString w) 31" by (simp add: hashUnkString_def bit_simps)
  then show ?thesis using bit_last_iff [of "hashUnkString w"] by simp
qed

lemma length_fillElems [simp]: "length (fillElems conf h buffer) = length buffer"
proof -
  have "length (fold (\<lambda>idx buffer. buffer[unat idx := h]) is buffer) = length buffer" for "is" :: "i32 list"
    by (induction "is" arbitrary: buffer) simp_all
  then show ?thesis by (simp add: fillElems_def)
qed

text \<open>The node that \<open>makePtr\<close> makes.\<close>

definition unk_node :: "i32 \<Rightarrow> byte_string \<Rightarrow> unk_config \<Rightarrow> bool \<Rightarrow> extra_nodes \<Rightarrow> extra_node" where
  "unk_node fresh surface conf notPrefix x =
     (let hashValue = hashUnkString surface;
          content = fillElems conf hashValue (deb_features (uc_base conf)) @ replicate (xc_numPlaceholders x) 0
      in \<lparr>xn_index = word_of_nat (length (xc_nodes x)), xn_type = XtUnknown, xn_dictionaryNodes = [], xn_contentHash = hashValue,
          xn_surface = surface, xn_templatePtr = uc_patternPtr conf,
          xn_content = (if uc_targetPlaceholder conf \<noteq> -1
            then content[xc_numFields x + unat (uc_targetPlaceholder conf) := if notPrefix then 1 else 0] else content)\<rparr>)"

lemma makePtr_node:
  assumes "length (deb_features (uc_base conf)) = xc_numFields x"
  shows "makePtr fresh surface conf notPrefix x
    = (xn_ptr (unk_node fresh surface conf notPrefix x), appended x (unk_node fresh surface conf notPrefix x))"
  using assms by (simp add: makePtr_def makeUnk_def allocateExtra_appended unk_node_def Let_def copy_content_def fresh_node_def)

subsection \<open>Properties\<close>

text \<open>C25: Making a node for an unknown word keeps the table of extra nodes well formed and all its earlier nodes as they are; the
  pointer that is returned is a special one and leads to a node of the word's surface and negative hash, whose fields are those of the pattern with the
  hash in the fields to replace, and whose placeholder holds the flag.
\<close>

theorem unk_node_reachable:
  assumes "xc_ok x" "length (xc_nodes x) + 1 < 2 ^ 31" "length (deb_features (uc_base conf)) = xc_numFields x"
    and "uc_targetPlaceholder conf \<noteq> -1" "unat (uc_targetPlaceholder conf) < xc_numPlaceholders x"
    and "makePtr fresh surface conf notPrefix x = (p, x')"
  shows "xc_ok x' \<and> extends x x' \<and> isSpecial p \<and> unat (extPtr p) = length (xc_nodes x)
    \<and> (\<exists>n. xc_node x' p = Some n \<and> xn_type n = XtUnknown \<and> xn_surface n = surface \<and> xn_contentHash n = hashUnkString surface
         \<and> sint (xn_contentHash n) < 0 \<and> nodeContent x' (unat (extPtr p)) = fillElems conf (xn_contentHash n) (deb_features (uc_base conf)))
    \<and> placeholderData x' p (uc_targetPlaceholder conf) = (if notPrefix then 1 else 0)"
proof -
  let ?n = "unk_node fresh surface conf notPrefix x"
  have p: "p = xn_ptr ?n" "x' = appended x ?n" using assms(6) by (simp_all add: makePtr_node [OF assms(3)])
  have ix: "xn_index ?n = word_of_nat (length (xc_nodes x))" by (simp add: unk_node_def Let_def)
  have len: "length (xn_content ?n) = xc_numFields x + xc_numPlaceholders x" using assms(3) by (simp add: unk_node_def Let_def)
  have "length (xc_nodes x) < 2 ^ 31" using assms(2) by simp
  note ptr = extra_pointer [OF this ix, folded p(1)]
  have "\<not> isDic p" using ptr(1) special_or_dic by blast
  then have node: "xc_node x' p = Some ?n" using ptr(2) p(2) by (simp add: xc_node_def)
  have ph: "placeholderData x' p (uc_targetPlaceholder conf) = (if notPrefix then 1 else 0)"
    using assms(3,4,5) ptr(2) p(2) by (simp add: placeholderData_def unk_node_def Let_def)
  have content: "nodeContent x' (unat (extPtr p)) = fillElems conf (hashUnkString surface) (deb_features (uc_base conf))"
    using assms(3,4) ptr(2) p(2) by (simp add: unk_node_def Let_def)
  have "xn_type ?n = XtUnknown" "xn_surface ?n = surface" "xn_contentHash ?n = hashUnkString surface" by (simp_all add: unk_node_def Let_def)
  then show ?thesis
    using appended_ok [OF assms(1,2) ix len] hash_is_special [of surface] ptr node ph content unfolding p(2) by auto
qed

definition sample_config :: unk_config where
  "sample_config = (unk_config_new (sample_buffer\<lparr>deb_featureBuffer := [10, 20, 0]\<rparr>) (mk_entry 8))
     \<lparr>uc_replaceWithSurface := [1], uc_targetPlaceholder := 0\<rparr>"

theorem unk_node_reachable_witness:
  "\<exists>p x'. makePtr 7 [0x61] sample_config True (xc_new 2 1) = (p, x') \<and> xc_ok x' \<and> isSpecial p
    \<and> placeholderData x' p 0 = 1 \<and> nodeContent x' 0 = [10, hashUnkString [0x61]]"
  using unk_node_reachable [of "xc_new 2 1" sample_config 7 "[0x61]" True]
  by (cases "makePtr 7 [0x61] sample_config True (xc_new 2 1)")
    (simp add: xc_ok_def xc_new_def sample_config_def unk_config_new_def deb_features_def sample_buffer_def fillElems_def, auto)

end
