(* ===== verification/NgramFeatures.thy ===== *)
theory NgramFeatures
  imports Hashing Beam
begin

text \<open>
  Features of one, two and three nodes: their values are hashes of the pattern features of the nodes, which index the weights of a
  linear model. \<open>src/src/core/impl/feature_impl_combine.h\<close> computes them for a whole triple,
  \<open>src/src/core/impl/feature_impl_ngram_partial.h\<close> and \<open>.cc\<close> in stages that share the work for equal nodes,
  and \<open>src/src/core/analysis/perceptron.h\<close> adds up the weights. A score
  is the pattern of a \<open>float\<close>, and its addition is the argument \<open>fadd\<close>. The rows of a matrix of pattern features are the elements of a list.
  Prefetching is not modelled.
\<close>

subsection \<open>Adding up weights\<close>

text \<open>Four sums at once; the last elements of the array, fewer than four, go to the first three of them.\<close>

fun unrolled4 :: "(score \<Rightarrow> score \<Rightarrow> score) \<Rightarrow> (u32 \<Rightarrow> score) \<Rightarrow> u32 list \<Rightarrow> score \<Rightarrow> score \<Rightarrow> score \<Rightarrow> score \<Rightarrow> score" where
  "unrolled4 fadd w (i1 # i2 # i3 # i4 # indices) r1 r2 r3 r4 =
     unrolled4 fadd w indices (fadd r1 (w i1)) (fadd r2 (w i2)) (fadd r3 (w i3)) (fadd r4 (w i4))"
| "unrolled4 fadd w [i1, i2, i3] r1 r2 r3 r4 = fadd (fadd (fadd (fadd r1 (w i1)) (fadd r2 (w i2))) (fadd r3 (w i3))) r4"
| "unrolled4 fadd w [i1, i2] r1 r2 r3 r4 = fadd (fadd (fadd (fadd r1 (w i1)) (fadd r2 (w i2))) r3) r4"
| "unrolled4 fadd w [i1] r1 r2 r3 r4 = fadd (fadd (fadd (fadd r1 (w i1)) r2) r3) r4"
| "unrolled4 fadd w [] r1 r2 r3 r4 = fadd (fadd (fadd r1 r2) r3) r4"

definition weight_at :: "score list \<Rightarrow> u32 \<Rightarrow> score" where
  "weight_at weights i = weights ! unat i"

definition computeUnrolled4RawPerceptron :: "(score \<Rightarrow> score \<Rightarrow> score) \<Rightarrow> score list \<Rightarrow> u32 list \<Rightarrow> score" where
  "computeUnrolled4RawPerceptron fadd weights indices = unrolled4 fadd (weight_at weights) indices 0 0 0 0"

definition computeUnrolled4Perceptron :: "(score \<Rightarrow> score \<Rightarrow> score) \<Rightarrow> score list \<Rightarrow> u32 list \<Rightarrow> u32 \<Rightarrow> score" where
  "computeUnrolled4Perceptron fadd weights indices msk = unrolled4 fadd (\<lambda>i. weight_at weights (i AND msk)) indices 0 0 0 0"

definition weight_mask :: "score list \<Rightarrow> u32" where
  "weight_mask weights = word_of_nat (length weights) - 1"

text \<open>\<open>HashedFeaturePerceptron::compute\<close> and \<open>add\<close>.\<close>

definition hfp_compute :: "(score \<Rightarrow> score \<Rightarrow> score) \<Rightarrow> score list \<Rightarrow> u32 list list \<Rightarrow> score list \<Rightarrow> score list" where
  "hfp_compute fadd weights ngrams result =
     fold (\<lambda>i result. result[i := computeUnrolled4Perceptron fadd weights (ngrams ! i) (weight_mask weights)]) [0..<length ngrams] result"

definition hfp_add :: "(score \<Rightarrow> score \<Rightarrow> score) \<Rightarrow> score list \<Rightarrow> score list \<Rightarrow> u32 list list \<Rightarrow> score list \<Rightarrow> score list" where
  "hfp_add fadd weights source ngrams result =
     fold (\<lambda>i result. result[i := fadd (source ! i) (computeUnrolled4Perceptron fadd weights (ngrams ! i) (weight_mask weights))])
       [0..<length ngrams] result"

subsection \<open>Features of whole triples\<close>

definition UnigramSeed :: u64 where "UnigramSeed = 0x5123a31421f"
definition BigramSeed :: u64 where "BigramSeed = 0x5123a68442f"
definition TrigramSeed :: u64 where "TrigramSeed = 0x51239ab41f1f"

record ngram_descriptor =
  nd_index :: i32
  nd_references :: "i32 list"

text \<open>
  \<open>NgramFeatureImpl<N>\<close>: the index of the feature and the indices of its patterns. The signed numbers are widened with
  their sign when they are mixed in.
\<close>

datatype ngram_impl = Ngram1 i32 i32 | Ngram2 i32 i32 i32 | Ngram3 i32 i32 i32 i32

definition pattern_at :: "u64 list \<Rightarrow> i32 \<Rightarrow> u64" where
  "pattern_at t i = t ! unat i"

definition hash_start :: "u64 \<Rightarrow> u64 \<Rightarrow> u64 \<Rightarrow> u64" where
  "hash_start numArgs index seed = fhr_mix seed (fhr_mix index (fhr_mix numArgs SeaHashSeed0))"

fun ngram_value :: "ngram_impl \<Rightarrow> u64 list \<Rightarrow> u64 list \<Rightarrow> u64 list \<Rightarrow> u32" where
  "ngram_value (Ngram1 index ref0) t2 t1 t0 =
     ucast (fhr_mix (pattern_at t0 ref0) (hash_start 3 (scast index) UnigramSeed))"
| "ngram_value (Ngram2 index ref0 ref1) t2 t1 t0 =
     ucast (fhr_mix (pattern_at t1 ref1) (fhr_mix (pattern_at t0 ref0) (hash_start 4 (scast index) BigramSeed)))"
| "ngram_value (Ngram3 index ref0 ref1 ref2) t2 t1 t0 =
     ucast (fhr_mix (pattern_at t2 ref2) (fhr_mix (pattern_at t1 ref1) (fhr_mix (pattern_at t0 ref0) (hash_start 5 (scast index) TrigramSeed))))"

fun ngram_index :: "ngram_impl \<Rightarrow> i32" where
  "ngram_index (Ngram1 index _) = index"
| "ngram_index (Ngram2 index _ _) = index"
| "ngram_index (Ngram3 index _ _ _) = index"

definition ngram_apply :: "u64 list \<Rightarrow> u64 list \<Rightarrow> u64 list \<Rightarrow> ngram_impl \<Rightarrow> u32 list \<Rightarrow> u32 list" where
  "ngram_apply t2 t1 t0 f result = result[unat (ngram_index f) := ngram_value f t2 t1 t0]"

definition dynamic_addChild :: "ngram_descriptor \<Rightarrow> ngram_impl list \<Rightarrow> status_code \<times> ngram_impl list" where
  "dynamic_addChild nf children =
     (case nd_references nf of
        [a] \<Rightarrow> (StOk, children @ [Ngram1 (nd_index nf) a])
      | [a, b] \<Rightarrow> (StOk, children @ [Ngram2 (nd_index nf) a b])
      | [a, b, c] \<Rightarrow> (StOk, children @ [Ngram3 (nd_index nf) a b c])
      | _ \<Rightarrow> (StInvalidState, children))"

definition dynamic_apply :: "ngram_impl list \<Rightarrow> u64 list \<Rightarrow> u64 list \<Rightarrow> u64 list \<Rightarrow> u32 list \<Rightarrow> u32 list" where
  "dynamic_apply children t2 t1 t0 result = fold (ngram_apply t2 t1 t0) children result"

text \<open>\<open>applyBatch\<close>: one row of results for each right node.\<close>

definition dynamic_applyBatch :: "ngram_impl list \<Rightarrow> u64 list \<Rightarrow> u64 list \<Rightarrow> u64 list list \<Rightarrow> u32 list list \<Rightarrow> u32 list list" where
  "dynamic_applyBatch children t2 t1 t0 final =
     map2 (\<lambda>t0 result. dynamic_apply children t2 t1 t0 result) t0 final"

subsection \<open>Features in stages\<close>

record unigram_feature =
  uf_target :: u32
  uf_index :: u32
  uf_t0idx :: u32

record bigram_feature =
  bf_target :: u32
  bf_index :: u32
  bf_t0idx :: u32
  bf_t1idx :: u32

record trigram_feature =
  tf_target :: u32
  tf_index :: u32
  tf_t0idx :: u32
  tf_t1idx :: u32
  tf_t2idx :: u32

definition uf_maskedValueFor :: "unigram_feature \<Rightarrow> u64 \<Rightarrow> u32 \<Rightarrow> u32" where
  "uf_maskedValueFor f t0 msk = masked msk (fhr_mix t0 (hash_start 3 (ucast (uf_index f)) UnigramSeed))"

definition uf_step0 :: "u64 list \<Rightarrow> u32 \<Rightarrow> unigram_feature \<Rightarrow> u32 list \<Rightarrow> u32 list" where
  "uf_step0 patterns msk f result = result[unat (uf_target f) := uf_maskedValueFor f (pattern_at patterns (uf_t0idx f)) msk]"

definition bf_step0 :: "u64 list \<Rightarrow> bigram_feature \<Rightarrow> u64 list \<Rightarrow> u64 list" where
  "bf_step0 patterns f state =
     state[unat (bf_target f) := fhr_mix (pattern_at patterns (bf_t0idx f)) (hash_start 4 (ucast (bf_index f)) BigramSeed)]"

definition bf_step1 :: "u64 list \<Rightarrow> u64 list \<Rightarrow> u32 \<Rightarrow> bigram_feature \<Rightarrow> u32 list \<Rightarrow> u32 list" where
  "bf_step1 patterns state msk f result =
     result[unat (bf_target f) := masked msk (fhr_mix (pattern_at patterns (bf_t1idx f)) (state ! unat (bf_target f)))]"

definition bf_raw2 :: "bigram_feature \<Rightarrow> u64 \<Rightarrow> u64 list \<Rightarrow> u32 \<Rightarrow> u32" where
  "bf_raw2 f state t1 msk = masked msk (fhr_mix (pattern_at t1 (bf_t1idx f)) state)"

definition bf_jointRaw :: "bigram_feature \<Rightarrow> u64 list \<Rightarrow> u64 list \<Rightarrow> u32 \<Rightarrow> u32" where
  "bf_jointRaw f t0 t1 msk = bf_raw2 f (fhr_mix (pattern_at t0 (bf_t0idx f)) (hash_start 4 (ucast (bf_index f)) BigramSeed)) t1 msk"

definition bf_jointApply :: "u64 list \<Rightarrow> u64 list \<Rightarrow> u32 \<Rightarrow> bigram_feature \<Rightarrow> u32 list \<Rightarrow> u32 list" where
  "bf_jointApply t0 t1 msk f result = result[unat (bf_target f) := bf_jointRaw f t0 t1 msk]"

definition tf_step0 :: "u64 list \<Rightarrow> trigram_feature \<Rightarrow> u64 list \<Rightarrow> u64 list" where
  "tf_step0 patterns f state =
     state[unat (tf_target f) := fhr_mix (pattern_at patterns (tf_t0idx f)) (hash_start 5 (ucast (tf_index f)) TrigramSeed)]"

definition tf_step1 :: "u64 list \<Rightarrow> u64 list \<Rightarrow> trigram_feature \<Rightarrow> u64 list \<Rightarrow> u64 list" where
  "tf_step1 patterns state f result =
     result[unat (tf_target f) := fhr_mix (pattern_at patterns (tf_t1idx f)) (state ! unat (tf_target f))]"

definition tf_step2 :: "u64 list \<Rightarrow> u64 list \<Rightarrow> u32 \<Rightarrow> trigram_feature \<Rightarrow> u32 list \<Rightarrow> u32 list" where
  "tf_step2 patterns state msk f result =
     result[unat (tf_target f) := masked msk (fhr_mix (pattern_at patterns (tf_t2idx f)) (state ! unat (tf_target f)))]"

definition tf_raw23 :: "trigram_feature \<Rightarrow> u64 \<Rightarrow> u64 list \<Rightarrow> u64 list \<Rightarrow> u32 \<Rightarrow> u32" where
  "tf_raw23 f state t1 t2 msk = masked msk (fhr_mix (pattern_at t2 (tf_t2idx f)) (fhr_mix (pattern_at t1 (tf_t1idx f)) state))"

definition tf_jointRaw :: "trigram_feature \<Rightarrow> u64 list \<Rightarrow> u64 list \<Rightarrow> u64 list \<Rightarrow> u32 \<Rightarrow> u32" where
  "tf_jointRaw f t0 t1 t2 msk = tf_raw23 f (fhr_mix (pattern_at t0 (tf_t0idx f)) (hash_start 5 (ucast (tf_index f)) TrigramSeed)) t1 t2 msk"

definition tf_jointApply :: "u64 list \<Rightarrow> u64 list \<Rightarrow> u64 list \<Rightarrow> u32 \<Rightarrow> trigram_feature \<Rightarrow> u32 list \<Rightarrow> u32 list" where
  "tf_jointApply t0 t1 t2 msk f result = result[unat (tf_target f) := tf_jointRaw f t0 t1 t2 msk]"

text \<open>\<open>PartialNgramDynamicFeatureApply\<close>.\<close>

record partial_ngrams =
  pn_unigrams :: "unigram_feature list"
  pn_bigrams :: "bigram_feature list"
  pn_trigrams :: "trigram_feature list"

definition pn_empty :: partial_ngrams where
  "pn_empty = \<lparr>pn_unigrams = [], pn_bigrams = [], pn_trigrams = []\<rparr>"

definition pn_addChild :: "ngram_descriptor \<Rightarrow> partial_ngrams \<Rightarrow> status_code \<times> partial_ngrams" where
  "pn_addChild nf pn =
     (case nd_references nf of
        [a] \<Rightarrow> (StOk, pn\<lparr>pn_unigrams := pn_unigrams pn
          @ [\<lparr>uf_target = word_of_nat (length (pn_unigrams pn)), uf_index = nd_index nf, uf_t0idx = a\<rparr>]\<rparr>)
      | [a, b] \<Rightarrow> (StOk, pn\<lparr>pn_bigrams := pn_bigrams pn
          @ [\<lparr>bf_target = word_of_nat (length (pn_bigrams pn)), bf_index = nd_index nf, bf_t0idx = a, bf_t1idx = b\<rparr>]\<rparr>)
      | [a, b, c] \<Rightarrow> (StOk, pn\<lparr>pn_trigrams := pn_trigrams pn
          @ [\<lparr>tf_target = word_of_nat (length (pn_trigrams pn)), tf_index = nd_index nf, tf_t0idx = a, tf_t1idx = b, tf_t2idx = c\<rparr>]\<rparr>)
      | _ \<Rightarrow> (StInvalidState, pn))"

definition uniStep0 :: "partial_ngrams \<Rightarrow> u64 list \<Rightarrow> u32 \<Rightarrow> u32 list \<Rightarrow> u32 list" where
  "uniStep0 pn patterns msk result = fold (uf_step0 patterns msk) (pn_unigrams pn) result"

definition biStep0 :: "partial_ngrams \<Rightarrow> u64 list \<Rightarrow> u64 list \<Rightarrow> u64 list" where
  "biStep0 pn patterns state = fold (bf_step0 patterns) (pn_bigrams pn) state"

definition biStep1 :: "partial_ngrams \<Rightarrow> u64 list \<Rightarrow> u64 list \<Rightarrow> u32 \<Rightarrow> u32 list \<Rightarrow> u32 list" where
  "biStep1 pn patterns state msk result = fold (bf_step1 patterns state msk) (pn_bigrams pn) result"

definition triStep0 :: "partial_ngrams \<Rightarrow> u64 list \<Rightarrow> u64 list \<Rightarrow> u64 list" where
  "triStep0 pn patterns state = fold (tf_step0 patterns) (pn_trigrams pn) state"

definition triStep1 :: "partial_ngrams \<Rightarrow> u64 list \<Rightarrow> u64 list \<Rightarrow> u64 list \<Rightarrow> u64 list" where
  "triStep1 pn patterns state result = fold (tf_step1 patterns state) (pn_trigrams pn) result"

definition triStep2 :: "partial_ngrams \<Rightarrow> u64 list \<Rightarrow> u64 list \<Rightarrow> u32 \<Rightarrow> u32 list \<Rightarrow> u32 list" where
  "triStep2 pn patterns state msk result = fold (tf_step2 patterns state msk) (pn_trigrams pn) result"

definition biFull :: "partial_ngrams \<Rightarrow> u64 list \<Rightarrow> u64 list \<Rightarrow> u32 \<Rightarrow> u32 list \<Rightarrow> u32 list" where
  "biFull pn t0 t1 msk result = fold (bf_jointApply t0 t1 msk) (pn_bigrams pn) result"

definition triFull :: "partial_ngrams \<Rightarrow> u64 list \<Rightarrow> u64 list \<Rightarrow> u64 list \<Rightarrow> u32 \<Rightarrow> u32 list \<Rightarrow> u32 list" where
  "triFull pn t0 t1 t2 msk result = fold (tf_jointApply t0 t1 t2 msk) (pn_trigrams pn) result"

subsection \<open>The features of a triple of nodes\<close>

text \<open>\<open>src/src/core/impl/feature_computer.h\<close> and \<open>feature_computer.cc\<close>: three nodes of the lattice, the last one first.\<close>

record ngram_feature_ref =
  nr_t2 :: lattice_node_ptr
  nr_t1 :: lattice_node_ptr
  nr_t0 :: lattice_node_ptr

definition nr_init :: "lattice_node_ptr \<Rightarrow> ngram_feature_ref" where
  "nr_init ptr = \<lparr>nr_t2 = mk_node_ptr 0 0, nr_t1 = mk_node_ptr 1 0, nr_t0 = ptr\<rparr>"

definition nr_next :: "lattice_node_ptr \<Rightarrow> ngram_feature_ref \<Rightarrow> ngram_feature_ref" where
  "nr_next ptr r = \<lparr>nr_t2 = nr_t1 r, nr_t1 = nr_t0 r, nr_t0 = ptr\<rparr>"

definition nr_prev :: "lattice_node_ptr \<Rightarrow> ngram_feature_ref \<Rightarrow> ngram_feature_ref" where
  "nr_prev ptr r = \<lparr>nr_t2 = ptr, nr_t1 = nr_t2 r, nr_t0 = nr_t1 r\<rparr>"

definition calculateNgramFeatures :: "ngram_impl list \<Rightarrow> lattice \<Rightarrow> ngram_feature_ref \<Rightarrow> u32 list \<Rightarrow> u32 list" where
  "calculateNgramFeatures children l ptrs result =
     hd (dynamic_applyBatch children (node_patterns l (nr_t2 ptrs)) (node_patterns l (nr_t1 ptrs)) [node_patterns l (nr_t0 ptrs)] [result])"

datatype ngram_subset = Unigrams | Bigrams | Trigrams | UniBi | BiTri | All

text \<open>A slice from an offset of a length; \<open>All\<close> has no case, and gives an empty slice behind a check of debug builds.\<close>

definition slice_of :: "nat \<Rightarrow> nat \<Rightarrow> 'a list \<Rightarrow> 'a list" where
  "slice_of from len xs = take len (drop from xs)"

fun ngram_subset_of :: "partial_ngrams \<Rightarrow> u32 list \<Rightarrow> ngram_subset \<Rightarrow> u32 list" where
  "ngram_subset_of pn original Unigrams = slice_of 0 (length (pn_unigrams pn)) original"
| "ngram_subset_of pn original Bigrams = slice_of (length (pn_unigrams pn)) (length (pn_bigrams pn)) original"
| "ngram_subset_of pn original Trigrams = slice_of (length (pn_unigrams pn) + length (pn_bigrams pn)) (length (pn_trigrams pn)) original"
| "ngram_subset_of pn original UniBi = slice_of 0 (length (pn_unigrams pn) + length (pn_bigrams pn)) original"
| "ngram_subset_of pn original BiTri = slice_of (length (pn_unigrams pn)) (length (pn_bigrams pn) + length (pn_trigrams pn)) original"
| "ngram_subset_of pn original All = []"

text \<open>\<open>NgramStats::initialze\<close> counts the descriptors of each order.\<close>

record ngram_stats =
  num1Grams :: u32
  num2Grams :: u32
  num3Grams :: u32
  maxNGrams :: u32

definition stats_step :: "ngram_descriptor \<Rightarrow> ngram_stats \<Rightarrow> ngram_stats" where
  "stats_step ng st =
     (let order = length (nd_references ng)
      in if order = 1 then st\<lparr>num1Grams := num1Grams st + 1\<rparr>
         else if order = 2 then st\<lparr>num2Grams := num2Grams st + 1\<rparr>
         else if order = 3 then st\<lparr>num3Grams := num3Grams st + 1\<rparr>
         else st)"

definition stats_initialize :: "ngram_descriptor list \<Rightarrow> ngram_stats" where
  "stats_initialize ngrams =
     (let st = fold stats_step ngrams \<lparr>num1Grams = 0, num2Grams = 0, num3Grams = 0, maxNGrams = 0\<rparr>
      in st\<lparr>maxNGrams := max (num1Grams st) (max (num2Grams st) (num3Grams st))\<rparr>)"

subsection \<open>What the steps compute\<close>

text \<open>Every feature writes to its own place, and the places are those of the features in their list.\<close>

definition pn_ok :: "partial_ngrams \<Rightarrow> bool" where
  "pn_ok pn \<longleftrightarrow> map (unat \<circ> uf_target) (pn_unigrams pn) = [0..<length (pn_unigrams pn)]
     \<and> map (unat \<circ> bf_target) (pn_bigrams pn) = [0..<length (pn_bigrams pn)]
     \<and> map (unat \<circ> tf_target) (pn_trigrams pn) = [0..<length (pn_trigrams pn)]"

lemma pn_ok_empty: "pn_ok pn_empty"
  by (simp add: pn_ok_def pn_empty_def)

lemma pn_ok_addChild:
  assumes "pn_ok pn" "length (pn_unigrams pn) < 2 ^ 32" "length (pn_bigrams pn) < 2 ^ 32" "length (pn_trigrams pn) < 2 ^ 32"
  shows "pn_ok (snd (pn_addChild nf pn))"
  using assms by (auto simp: pn_ok_def pn_addChild_def unat_of_nat_small split: list.splits)

lemma fold_targets:
  assumes "map tgt xs = [0..<length xs]" "length st = length xs"
  shows "fold (\<lambda>x st. st[tgt x := f x]) xs st = map f xs"
proof -
  have "fold (\<lambda>x st. st[tgt x := f x]) ys (map f zs @ st') = map f (zs @ ys) @ drop (length ys) st'"
    if "map tgt ys = [length zs..<length zs + length ys]" "length ys \<le> length st'" for ys zs st'
    using that
  proof (induction ys arbitrary: zs st')
    case (Cons y ys)
    from Cons.prems(2) obtain v st'' where st': "st' = v # st''" by (cases st') auto
    have "length zs < length zs + length (y # ys)" by simp
    from upt_conv_Cons [OF this] have "tgt y # map tgt ys = length zs # [Suc (length zs)..<length zs + length (y # ys)]"
      using Cons.prems(1) by (simp only: list.map)
    then have t: "tgt y = length zs" "map tgt ys = [length (zs @ [y])..<length (zs @ [y]) + length ys]"
      by (simp_all del: upt_Suc)
    have "fold (\<lambda>x st. st[tgt x := f x]) ys (map f (zs @ [y]) @ st'') = map f ((zs @ [y]) @ ys) @ drop (length ys) st''"
      using Cons.prems(2) by (intro Cons.IH [OF t(2)]) (simp add: st')
    then show ?case by (simp add: st' t(1) list_update_append)
  qed simp
  from this [of xs "[]" st] assms show ?thesis by simp
qed

definition uni_indices :: "partial_ngrams \<Rightarrow> u64 list \<Rightarrow> u32 \<Rightarrow> u32 list" where
  "uni_indices pn t0 msk = map (\<lambda>f. uf_maskedValueFor f (pattern_at t0 (uf_t0idx f)) msk) (pn_unigrams pn)"

definition bi_indices :: "partial_ngrams \<Rightarrow> u64 list \<Rightarrow> u64 list \<Rightarrow> u32 \<Rightarrow> u32 list" where
  "bi_indices pn t0 t1 msk = map (\<lambda>f. bf_jointRaw f t0 t1 msk) (pn_bigrams pn)"

definition tri_indices :: "partial_ngrams \<Rightarrow> u64 list \<Rightarrow> u64 list \<Rightarrow> u64 list \<Rightarrow> u32 \<Rightarrow> u32 list" where
  "tri_indices pn t0 t1 t2 msk = map (\<lambda>f. tf_jointRaw f t0 t1 t2 msk) (pn_trigrams pn)"

text \<open>The states of the stages.\<close>

definition bi_state :: "partial_ngrams \<Rightarrow> u64 list \<Rightarrow> u64 list" where
  "bi_state pn t0 = map (\<lambda>f. fhr_mix (pattern_at t0 (bf_t0idx f)) (hash_start 4 (ucast (bf_index f)) BigramSeed)) (pn_bigrams pn)"

definition tri_state0 :: "partial_ngrams \<Rightarrow> u64 list \<Rightarrow> u64 list" where
  "tri_state0 pn t0 = map (\<lambda>f. fhr_mix (pattern_at t0 (tf_t0idx f)) (hash_start 5 (ucast (tf_index f)) TrigramSeed)) (pn_trigrams pn)"

definition tri_state1 :: "partial_ngrams \<Rightarrow> u64 list \<Rightarrow> u64 list \<Rightarrow> u64 list" where
  "tri_state1 pn t0 t1 = map (\<lambda>f. fhr_mix (pattern_at t1 (tf_t1idx f))
     (fhr_mix (pattern_at t0 (tf_t0idx f)) (hash_start 5 (ucast (tf_index f)) TrigramSeed))) (pn_trigrams pn)"

lemma state_lengths [simp]:
  "length (bi_state pn t0) = length (pn_bigrams pn)" "length (tri_state0 pn t0) = length (pn_trigrams pn)"
  "length (tri_state1 pn t0 t1) = length (pn_trigrams pn)" "length (uni_indices pn t0 msk) = length (pn_unigrams pn)"
  "length (bi_indices pn t0 t1 msk) = length (pn_bigrams pn)" "length (tri_indices pn t0 t1 t2 msk) = length (pn_trigrams pn)"
  by (simp_all add: bi_state_def tri_state0_def tri_state1_def uni_indices_def bi_indices_def tri_indices_def)

lemma map_targets:
  assumes "map (unat \<circ> tgt) xs = [0..<length xs]"
  shows "map (\<lambda>f. g f (map h xs ! unat (tgt f))) xs = map (\<lambda>f. g f (h f)) xs"
proof (rule nth_equalityI)
  fix i assume "i < length (map (\<lambda>f. g f (map h xs ! unat (tgt f))) xs)"
  then have i: "i < length xs" by simp
  have "map (unat \<circ> tgt) xs ! i = i" using assms i by simp
  then have "unat (tgt (xs ! i)) = i" using i by simp
  then show "map (\<lambda>f. g f (map h xs ! unat (tgt f))) xs ! i = map (\<lambda>f. g f (h f)) xs ! i" using i by simp
qed simp

text \<open>The steps fill their rows, whatever was there; two or three stages end in the indices of the whole features.\<close>

lemma steps_fill:
  assumes "pn_ok pn"
  shows "length b = length (pn_unigrams pn) \<Longrightarrow> uniStep0 pn t0 msk b = uni_indices pn t0 msk"
    "length st = length (pn_bigrams pn) \<Longrightarrow> biStep0 pn t0 st = bi_state pn t0"
    "length b = length (pn_bigrams pn) \<Longrightarrow> biStep1 pn t1 (bi_state pn t0) msk b = bi_indices pn t0 t1 msk"
    "length st = length (pn_trigrams pn) \<Longrightarrow> triStep0 pn t0 st = tri_state0 pn t0"
    "length st = length (pn_trigrams pn) \<Longrightarrow> triStep1 pn t1 (tri_state0 pn t0) st = tri_state1 pn t0 t1"
    "length b = length (pn_trigrams pn) \<Longrightarrow> triStep2 pn t2 (tri_state1 pn t0 t1) msk b = tri_indices pn t0 t1 t2 msk"
    "length b = length (pn_bigrams pn) \<Longrightarrow> biFull pn t0 t1 msk b = bi_indices pn t0 t1 msk"
    "length b = length (pn_trigrams pn) \<Longrightarrow> triFull pn t0 t1 t2 msk b = tri_indices pn t0 t1 t2 msk"
proof -
  have u: "map (unat \<circ> uf_target) (pn_unigrams pn) = [0..<length (pn_unigrams pn)]"
    and b: "map (unat \<circ> bf_target) (pn_bigrams pn) = [0..<length (pn_bigrams pn)]"
    and t: "map (unat \<circ> tf_target) (pn_trigrams pn) = [0..<length (pn_trigrams pn)]" using assms by (simp_all add: pn_ok_def)
  note fu = fold_targets [OF u, simplified comp_def]
  note fb = fold_targets [OF b, simplified comp_def]
  note ft = fold_targets [OF t, simplified comp_def]
  show "uniStep0 pn t0 msk b = uni_indices pn t0 msk" if "length b = length (pn_unigrams pn)" for b
    using fu [OF that, of "\<lambda>f. uf_maskedValueFor f (pattern_at t0 (uf_t0idx f)) msk"]
    by (simp add: uniStep0_def uf_step0_def [abs_def] uni_indices_def)
  show "biStep0 pn t0 st = bi_state pn t0" if "length st = length (pn_bigrams pn)" for st
    using fb [OF that] by (simp add: biStep0_def bf_step0_def [abs_def] bi_state_def)
  show "biStep1 pn t1 (bi_state pn t0) msk b = bi_indices pn t0 t1 msk" if "length b = length (pn_bigrams pn)" for b
    using fb [OF that] by (simp add: biStep1_def bf_step1_def [abs_def] bi_indices_def bi_state_def bf_jointRaw_def bf_raw2_def
      map_targets [OF b, of "\<lambda>f v. masked msk (fhr_mix (pattern_at t1 (bf_t1idx f)) v)"])
  show "triStep0 pn t0 st = tri_state0 pn t0" if "length st = length (pn_trigrams pn)" for st
    using ft [OF that] by (simp add: triStep0_def tf_step0_def [abs_def] tri_state0_def)
  show "triStep1 pn t1 (tri_state0 pn t0) st = tri_state1 pn t0 t1" if "length st = length (pn_trigrams pn)" for st
    using ft [OF that] by (simp add: triStep1_def tf_step1_def [abs_def] tri_state1_def tri_state0_def
      map_targets [OF t, of "\<lambda>f v. fhr_mix (pattern_at t1 (tf_t1idx f)) v"])
  show "triStep2 pn t2 (tri_state1 pn t0 t1) msk b = tri_indices pn t0 t1 t2 msk" if "length b = length (pn_trigrams pn)" for b
    using ft [OF that] by (simp add: triStep2_def tf_step2_def [abs_def] tri_indices_def tri_state1_def tf_jointRaw_def tf_raw23_def
      map_targets [OF t, of "\<lambda>f v. masked msk (fhr_mix (pattern_at t2 (tf_t2idx f)) v)"])
  show "biFull pn t0 t1 msk b = bi_indices pn t0 t1 msk" if "length b = length (pn_bigrams pn)" for b
    using fb [OF that] by (simp add: biFull_def bf_jointApply_def [abs_def] bi_indices_def)
  show "triFull pn t0 t1 t2 msk b = tri_indices pn t0 t1 t2 msk" if "length b = length (pn_trigrams pn)" for b
    using ft [OF that] by (simp add: triFull_def tf_jointApply_def [abs_def] tri_indices_def)
qed

subsection \<open>The stages compute the whole features\<close>

lemma scast_nonneg:
  fixes i :: i32
  assumes "0 \<le> sint i"
  shows "(scast i :: u64) = ucast i"
proof -
  have "sint i < 2 ^ 31" using sint_less [of i] by simp
  then have "uint i = sint i" using assms by (simp add: uint_sint take_bit_int_eq_self)
  then have "(word_of_int (uint i) :: u64) = word_of_int (sint i)" by (simp only:)
  then show ?thesis by simp
qed

text \<open>The features of a descriptor in stages and whole; the whole ones do not mask their values.\<close>

definition bi_whole :: "bigram_feature \<Rightarrow> ngram_impl" where
  "bi_whole f = Ngram2 (bf_index f) (bf_t0idx f) (bf_t1idx f)"

definition tri_whole :: "trigram_feature \<Rightarrow> ngram_impl" where
  "tri_whole f = Ngram3 (tf_index f) (tf_t0idx f) (tf_t1idx f) (tf_t2idx f)"

definition uni_whole :: "unigram_feature \<Rightarrow> ngram_impl" where
  "uni_whole f = Ngram1 (uf_index f) (uf_t0idx f)"

lemma joint_whole:
  "0 \<le> sint (uf_index u) \<Longrightarrow> uf_maskedValueFor u (pattern_at t0 (uf_t0idx u)) msk = ngram_value (uni_whole u) t2 t1 t0 AND msk"
  "0 \<le> sint (bf_index b) \<Longrightarrow> bf_jointRaw b t0 t1 msk = ngram_value (bi_whole b) t2 t1 t0 AND msk"
  "0 \<le> sint (tf_index f) \<Longrightarrow> tf_jointRaw f t0 t1 t2 msk = ngram_value (tri_whole f) t2 t1 t0 AND msk"
  by (simp_all add: uf_maskedValueFor_def bf_jointRaw_def bf_raw2_def tf_jointRaw_def tf_raw23_def masked_def uni_whole_def bi_whole_def tri_whole_def
    scast_nonneg)

definition whole_features :: "partial_ngrams \<Rightarrow> ngram_impl list" where
  "whole_features pn = map uni_whole (pn_unigrams pn) @ map bi_whole (pn_bigrams pn) @ map tri_whole (pn_trigrams pn)"

lemma addChild_whole:
  "mset (snd (dynamic_addChild nf children)) + mset (whole_features pn) = mset children + mset (whole_features (snd (pn_addChild nf pn)))"
  "fst (dynamic_addChild nf children) = fst (pn_addChild nf pn)"
  by (auto simp: dynamic_addChild_def pn_addChild_def whole_features_def uni_whole_def bi_whole_def tri_whole_def split: list.splits)

text \<open>Adding the descriptors of a specification one by one, until one has an order that is not supported.\<close>

fun add_children :: "(ngram_descriptor \<Rightarrow> 'a \<Rightarrow> status_code \<times> 'a) \<Rightarrow> ngram_descriptor list \<Rightarrow> 'a \<Rightarrow> status_code \<times> 'a" where
  "add_children add [] c = (StOk, c)"
| "add_children add (nf # nfs) c = (case add nf c of (s, c) \<Rightarrow> if s \<noteq> StOk then (s, c) else add_children add nfs c)"

lemma exchange_sum:
  fixes d :: "'a multiset"
  assumes "d + w' = c' + w''" "c' + w = c + w'"
  shows "d + w = c + w''"
proof -
  have "(d + w) + w' = (d + w') + w" by (simp only: union_ac)
  also have "\<dots> = (c' + w) + w''" unfolding assms(1) by (simp only: union_ac)
  also have "\<dots> = (c + w'') + w'" unfolding assms(2) by (simp only: union_ac)
  finally show ?thesis by (simp only: add_right_cancel)
qed

lemma add_children_whole:
  assumes "pn_ok pn" "length (pn_unigrams pn) + length (pn_bigrams pn) + length (pn_trigrams pn) + length nfs < 2 ^ 32"
  shows "fst (add_children pn_addChild nfs pn) = fst (add_children dynamic_addChild nfs children)"
    "mset (snd (add_children dynamic_addChild nfs children)) + mset (whole_features pn)
       = mset children + mset (whole_features (snd (add_children pn_addChild nfs pn)))"
    "pn_ok (snd (add_children pn_addChild nfs pn))"
proof -
  have "fst (add_children pn_addChild nfs pn) = fst (add_children dynamic_addChild nfs children)
    \<and> mset (snd (add_children dynamic_addChild nfs children)) + mset (whole_features pn)
       = mset children + mset (whole_features (snd (add_children pn_addChild nfs pn)))
    \<and> pn_ok (snd (add_children pn_addChild nfs pn))"
    using assms
  proof (induction nfs arbitrary: pn children)
    case (Cons nf nfs)
    obtain s pn' where pn': "pn_addChild nf pn = (s, pn')" by (cases "pn_addChild nf pn")
    obtain children' where ch': "dynamic_addChild nf children = (s, children')"
      using addChild_whole(2) [of nf children pn] pn' by (cases "dynamic_addChild nf children") simp
    have ms: "mset children' + mset (whole_features pn) = mset children + mset (whole_features pn')"
      using addChild_whole(1) [of nf children pn] pn' ch' by simp
    have ok: "pn_ok pn'" using pn_ok_addChild [OF Cons.prems(1), of nf] Cons.prems(2) pn' by simp
    show ?case
    proof (cases "s = StOk")
      case True
      have "length (pn_unigrams pn') + length (pn_bigrams pn') + length (pn_trigrams pn') + length nfs < 2 ^ 32"
        using pn' Cons.prems(2) by (auto simp: pn_addChild_def split: list.splits)
      note IH = Cons.IH [OF ok this, of children']
      have "add_children pn_addChild (nf # nfs) pn = add_children pn_addChild nfs pn'"
        "add_children dynamic_addChild (nf # nfs) children = add_children dynamic_addChild nfs children'"
        by (simp_all add: pn' ch' True)
      then show ?thesis using IH exchange_sum [OF _ ms] by (simp only:)
    qed (use ms ok in \<open>simp add: pn' ch'\<close>)
  qed simp
  then show "fst (add_children pn_addChild nfs pn) = fst (add_children dynamic_addChild nfs children)"
    "mset (snd (add_children dynamic_addChild nfs children)) + mset (whole_features pn)
       = mset children + mset (whole_features (snd (add_children pn_addChild nfs pn)))"
    "pn_ok (snd (add_children pn_addChild nfs pn))" by blast+
qed

lemma dynamic_indices:
  "list_all (\<lambda>f. P (ngram_index f)) children \<Longrightarrow> list_all (\<lambda>nf. P (nd_index nf)) nfs \<Longrightarrow>
   list_all (\<lambda>f. P (ngram_index f)) (snd (add_children dynamic_addChild nfs children))"
proof (induction nfs arbitrary: children)
  case (Cons nf nfs)
  have "list_all (\<lambda>f. P (ngram_index f)) (snd (dynamic_addChild nf children))"
    using Cons.prems by (auto simp: dynamic_addChild_def split: list.splits)
  then show ?case using Cons by (auto split: prod.splits)
qed simp

lemma staged_values:
  assumes "add_children pn_addChild nfs pn_empty = (s, pn)" "length nfs < 2 ^ 32" "list_all (\<lambda>nf. 0 \<le> sint (nd_index nf)) nfs"
    and "length st0 = length (pn_trigrams pn)" "length st1 = length (pn_trigrams pn)" "length b3 = length (pn_trigrams pn)"
    and "length st = length (pn_bigrams pn)" "length b2 = length (pn_bigrams pn)" "length b1 = length (pn_unigrams pn)"
  shows "mset (uniStep0 pn t0 msk b1 @ biStep1 pn t1 (biStep0 pn t0 st) msk b2 @ triStep2 pn t2 (triStep1 pn t1 (triStep0 pn t0 st0) st1) msk b3)
      = mset (map (\<lambda>f. ngram_value f t2 t1 t0 AND msk) (snd (add_children dynamic_addChild nfs [])))"
proof -
  have "length (pn_unigrams pn_empty) + length (pn_bigrams pn_empty) + length (pn_trigrams pn_empty) + length nfs < 2 ^ 32"
    using assms(2) by (simp add: pn_empty_def)
  note whole = add_children_whole [OF pn_ok_empty this, unfolded assms(1)]
  have ok: "pn_ok pn" using whole(3) by simp
  have ms: "mset (snd (add_children dynamic_addChild nfs [])) = mset (whole_features pn)"
    using whole(2) [of "[]"] by (simp add: pn_empty_def whole_features_def)
  have "list_all (\<lambda>f. 0 \<le> sint (ngram_index f)) (snd (add_children dynamic_addChild nfs []))"
    by (rule dynamic_indices [OF _ assms(3)]) simp
  then have ix: "list_all (\<lambda>f. 0 \<le> sint (ngram_index f)) (whole_features pn)"
    using mset_eq_setD [OF ms] by (simp add: list_all_iff)
  then have "list_all (\<lambda>f. 0 \<le> sint (uf_index f)) (pn_unigrams pn)" "list_all (\<lambda>f. 0 \<le> sint (bf_index f)) (pn_bigrams pn)"
    "list_all (\<lambda>f. 0 \<le> sint (tf_index f)) (pn_trigrams pn)"
    by (simp_all add: whole_features_def list_all_iff uni_whole_def bi_whole_def tri_whole_def ball_Un)
  then have "uniStep0 pn t0 msk b1 @ biStep1 pn t1 (biStep0 pn t0 st) msk b2 @ triStep2 pn t2 (triStep1 pn t1 (triStep0 pn t0 st0) st1) msk b3
      = map (\<lambda>f. ngram_value f t2 t1 t0 AND msk) (whole_features pn)"
    by (simp add: steps_fill [OF ok] assms(4-9) uni_indices_def bi_indices_def tri_indices_def whole_features_def
      joint_whole(1) [where ?t1.0 = t1 and ?t2.0 = t2] joint_whole(2) [where ?t2.0 = t2] joint_whole(3) list_all_iff)
  then show ?thesis using ms by (simp only: mset_map)
qed

text \<open>C11: The features computed in stages are the features computed whole. For every list of less than \<open>2^32\<close> feature descriptors
  the builder of the staged features and the builder of the whole ones give the same status: they accept the same lists and refuse the same lists.
  When they accept, no descriptor has a negative index and the buffers have a place for each feature of their order,
  the one, two and three stages of the partial features write, over whatever was in the
  buffers, the values of the whole features for the three nodes, masked to the size of the weights.
\<close>

theorem staged_features_are_whole:
  assumes "length nfs < 2 ^ 32"
  shows "fst (add_children pn_addChild nfs pn_empty) = fst (add_children dynamic_addChild nfs [])
    \<and> (add_children pn_addChild nfs pn_empty = (StOk, pn) \<and> list_all (\<lambda>nf. 0 \<le> sint (nd_index nf)) nfs
       \<and> length st0 = length (pn_trigrams pn) \<and> length st1 = length (pn_trigrams pn) \<and> length b3 = length (pn_trigrams pn)
       \<and> length st = length (pn_bigrams pn) \<and> length b2 = length (pn_bigrams pn) \<and> length b1 = length (pn_unigrams pn)
       \<longrightarrow> mset (uniStep0 pn t0 msk b1 @ biStep1 pn t1 (biStep0 pn t0 st) msk b2 @ triStep2 pn t2 (triStep1 pn t1 (triStep0 pn t0 st0) st1) msk b3)
           = mset (map (\<lambda>f. ngram_value f t2 t1 t0 AND msk) (snd (add_children dynamic_addChild nfs []))))"
proof (intro conjI impI)
  have "length (pn_unigrams pn_empty) + length (pn_bigrams pn_empty) + length (pn_trigrams pn_empty) + length nfs < 2 ^ 32"
    using assms by (simp add: pn_empty_def)
  from add_children_whole(1) [OF pn_ok_empty this]
  show "fst (add_children pn_addChild nfs pn_empty) = fst (add_children dynamic_addChild nfs [])" .
qed (elim conjE, rule staged_values [OF _ assms])

definition sample_ngrams :: "ngram_descriptor list" where
  "sample_ngrams = [\<lparr>nd_index = 0, nd_references = [1]\<rparr>, \<lparr>nd_index = 2, nd_references = [0, 1, 0]\<rparr>, \<lparr>nd_index = 1, nd_references = [1, 0]\<rparr>]"

definition sample_partial :: partial_ngrams where
  "sample_partial = snd (add_children pn_addChild sample_ngrams pn_empty)"

lemmas sample_partial_defs = sample_partial_def sample_ngrams_def pn_addChild_def pn_empty_def

theorem staged_features_are_whole_witness:
  "fst (add_children pn_addChild sample_ngrams pn_empty) = fst (add_children dynamic_addChild sample_ngrams [])
    \<and> fst (add_children dynamic_addChild sample_ngrams []) = StOk
    \<and> mset (uniStep0 sample_partial [7, 8] 0xff [0] @ biStep1 sample_partial [5, 6] (biStep0 sample_partial [7, 8] [0]) 0xff [0]
          @ triStep2 sample_partial [3, 4] (triStep1 sample_partial [5, 6] (triStep0 sample_partial [7, 8] [0]) [0]) 0xff [0])
      = mset (map (\<lambda>f. ngram_value f [3, 4] [5, 6] [7, 8] AND 0xff) (snd (add_children dynamic_addChild sample_ngrams [])))"
proof -
  have len: "length sample_ngrams < 2 ^ 32" by (simp add: sample_ngrams_def)
  have pn: "add_children pn_addChild sample_ngrams pn_empty = (StOk, sample_partial)"
    by (simp add: sample_partial_defs)
  note both = staged_features_are_whole [OF len, where pn = sample_partial and ?st0.0 = "[0]" and ?st1.0 = "[0]" and ?b3.0 = "[0]"
      and st = "[0]" and ?b2.0 = "[0]" and ?b1.0 = "[0]" and ?t0.0 = "[7, 8]" and msk = "0xff" and ?t1.0 = "[5, 6]" and ?t2.0 = "[3, 4]"]
  have "list_all (\<lambda>nf. 0 \<le> sint (nd_index nf)) sample_ngrams" "length (pn_unigrams sample_partial) = 1"
    "length (pn_bigrams sample_partial) = 1" "length (pn_trigrams sample_partial) = 1"
    by (simp_all add: sample_partial_defs)
  with both pn show ?thesis by simp
qed

end
