(* ===== verification/Patterns.thy ===== *)
theory Patterns
  imports ExtraNodes NgramFeatures
begin

text \<open>
  The features of one node: \<open>src/src/core/impl/feature_impl_types.h\<close> (what the features can read), \<open>feature_impl_prim.h/.cc\<close> (the primitive
  features), \<open>feature_impl_compute.h/.cc\<close> (conditions over them), \<open>feature_impl_pattern.h/.cc\<close> (the patterns, which are hashes), and the
  descriptors of \<open>core/spec/spec_types.h\<close> and \<open>core/dic/dictionary.h\<close> they are made from. A read outside of a vector is \<open>None\<close>.
\<close>

subsection \<open>The context of the features\<close>

datatype field_type = FtString | FtInt | FtStringList | FtStringKVList | FtError

record dic_field =
  df_index :: i32
  df_idxInEntry :: i32
  df_name :: byte_string
  df_columnType :: field_type
  df_postions :: int_storage_reader
  df_strings :: string_storage_reader
  df_emptyValue :: byte_string
  df_stringStorageIdx :: i32
  df_alignPower :: u32
  df_isSurfaceField :: bool

text \<open>\<open>std::vector::operator[]\<close> with a 32-bit index: no value outside of the vector.\<close>

definition vec_at :: "'a list \<Rightarrow> u32 \<Rightarrow> 'a option" where
  "vec_at xs i = (if unat i < length xs then Some (xs ! unat i) else None)"

definition fields_byName :: "byte_string \<Rightarrow> dic_field list \<Rightarrow> dic_field option" where
  "fields_byName name fs = find (\<lambda>f. df_name f = name) fs"

datatype length_source = LfInvalid | LfStrings | LfPositions

record prim_context =
  pc_extra :: extra_nodes
  pc_entries :: entries_holder
  pc_fields :: "dic_field list"
  pc_codepts :: "input_codepoint list"

definition dic_traversal :: "prim_context \<Rightarrow> i32 \<Rightarrow> i32 \<Rightarrow> int_list_traversal option" where
  "dic_traversal ctx fieldIdx fieldPtr = map_option (\<lambda>fld. isr_listAt (df_postions fld) fieldPtr) (vec_at (pc_fields ctx) fieldIdx)"

definition kvTraversal :: "prim_context \<Rightarrow> i32 \<Rightarrow> i32 \<Rightarrow> key_value_traversal option" where
  "kvTraversal ctx fieldIdx fieldPtr = map_option (\<lambda>fld. isr_kvListAt (df_postions fld) fieldPtr) (vec_at (pc_fields ctx) fieldIdx)"

text \<open>The node of a special pointer, when the table of extra nodes has it.\<close>

definition extra_at :: "extra_nodes \<Rightarrow> entry_ptr \<Rightarrow> extra_node option" where
  "extra_at x p = (if unat (extPtr p) < length (xc_nodes x) then xc_node x p else None)"

definition providedFeature :: "prim_context \<Rightarrow> entry_ptr \<Rightarrow> u32 \<Rightarrow> i32 option" where
  "providedFeature ctx p index =
     (if \<not> isSpecial p \<or> p = EntryPtr_EOS \<or> p = EntryPtr_BOS then Some 0
      else case extra_at (pc_extra ctx) p of
             None \<Rightarrow> None
           | Some node \<Rightarrow>
               if xn_type node \<noteq> XtUnknown then Some 0
               else if xc_numFields (pc_extra ctx) + unat index < length (xn_content node) then Some (placeholderData (pc_extra ctx) p index)
               else None)"

text \<open>
  \<open>fillEntryBuffer\<close> overwrites the start of the buffer and reports whether the whole buffer was filled; there is no result where the code
  would follow a pointer outside of the table.
\<close>

definition fillEntryBuffer :: "prim_context \<Rightarrow> entry_ptr \<Rightarrow> i32 list \<Rightarrow> (bool \<times> i32 list) option" where
  "fillEntryBuffer ctx eptr features =
     (if eptr = EntryPtr_BOS \<or> eptr = EntryPtr_EOS then Some (True, map (\<lambda>_. rawValue eptr) features)
      else if eptr = EntryPtr_Invalid then Some (False, features)
      else if isDic eptr then
        case ilt_fill_cnt (length features) (entryAtPtr (pc_entries ctx) eptr) of
          (vs, _) \<Rightarrow> Some (length vs = length features, vs @ drop (length vs) features)
      else case extra_at (pc_extra ctx) eptr of
             None \<Rightarrow> None
           | Some node \<Rightarrow>
               let data = nodeContent (pc_extra ctx) (unat (extPtr eptr))
               in if length data \<le> length features then Some (True, data @ drop (length data) features) else None)"

definition ctx_lengthOf :: "prim_context \<Rightarrow> node_info \<Rightarrow> i32 \<Rightarrow> i32 \<Rightarrow> length_source \<Rightarrow> bool \<Rightarrow> i32 option" where
  "ctx_lengthOf ctx ni fieldNum fieldPtr field useBytes =
     (if sint fieldPtr < 0 then map_option (\<lambda>_. xc_lengthOf (pc_extra ctx) (ni_entryPtr ni)) (extra_at (pc_extra ctx) (ni_entryPtr ni))
      else map_option (\<lambda>fld.
        case field of
          LfPositions \<Rightarrow> isr_lengthOf (df_postions fld) fieldPtr
        | LfStrings \<Rightarrow> if useBytes then ssr_lengthOf (df_strings fld) fieldPtr else ssr_numCodepoints (df_strings fld) fieldPtr
        | LfInvalid \<Rightarrow> -1) (vec_at (pc_fields ctx) fieldNum))"

subsection \<open>Primitive features\<close>

datatype prim_kind = PkInvalid | PkCopy | PkSingleBit | PkProvided | PkByteLength | PkCodepointSize | PkSurfaceCodepointSize | PkCodepointType | PkCodepoint

record prim_descriptor =
  pd_index :: i32
  pd_name :: byte_string
  pd_kind :: prim_kind
  pd_references :: "i32 list"
  pd_matchData :: "byte_string list"

datatype prim_impl =
    CopyPrim u32
  | ShiftMaskPrim u32 u32 u32
  | ProvidedPrim u32
  | ByteLengthPrim u32 length_source
  | CodepointLengthPrim u32 length_source
  | SurfaceCodepointLengthPrim
  | CodepointPrim i32
  | CodepointTypePrim i32

record prim_feature =
  pf_index :: i32
  pf_impl :: prim_impl

text \<open>A position before or behind a node. Sums of \<open>int\<close> are taken on 32 bits, and compared with the size of the input on 64 bits.\<close>

definition point_at :: "input_codepoint list \<Rightarrow> i32 \<Rightarrow> input_codepoint option" where
  "point_at codepts pos = (let pos = scast pos :: u64 in if unat pos < length codepts then Some (codepts ! unat pos) else None)"

definition neighbour :: "prim_context \<Rightarrow> node_info \<Rightarrow> i32 \<Rightarrow> input_codepoint option" where
  "neighbour ctx ni offset =
     (if sint offset > 0 then point_at (pc_codepts ctx) (ucast (ni_end ni) + (offset - 1))
      else let pos = ucast (ni_start ni) + offset in if 0 \<le> sint pos then point_at (pc_codepts ctx) pos else None)"

definition codepoint_access :: "prim_context \<Rightarrow> node_info \<Rightarrow> i32 \<Rightarrow> u64" where
  "codepoint_access ctx ni offset = (case neighbour ctx ni offset of Some cp \<Rightarrow> ucast (ic_codepoint cp) | None \<Rightarrow> NOT 0)"

definition type_step :: "input_codepoint list \<Rightarrow> nat \<Rightarrow> u64 \<Rightarrow> u64 option" where
  "type_step codepts i v = (if i < length codepts then Some (v OR ucast (ic_charClass (codepts ! i))) else None)"

definition codepointType_access :: "prim_context \<Rightarrow> node_info \<Rightarrow> i32 \<Rightarrow> u64 option" where
  "codepointType_access ctx ni offset =
     (if offset = 0 then fold_option (type_step (pc_codepts ctx)) [unat (ni_start ni)..<unat (ni_end ni)] 0
      else Some (case neighbour ctx ni offset of Some cp \<Rightarrow> ucast (ic_charClass cp) | None \<Rightarrow> 0))"

fun prim_access :: "prim_context \<Rightarrow> node_info \<Rightarrow> i32 list \<Rightarrow> prim_impl \<Rightarrow> u64 option" where
  "prim_access ctx ni entry (CopyPrim fieldIdx) = map_option ucast (vec_at entry fieldIdx)"
| "prim_access ctx ni entry (ShiftMaskPrim fieldIdx shift msk) =
     map_option (\<lambda>v. ucast (drop_bit (unat shift) v AND msk)) (vec_at entry fieldIdx)"
| "prim_access ctx ni entry (ProvidedPrim providedIdx) = map_option ucast (providedFeature ctx (ni_entryPtr ni) providedIdx)"
| "prim_access ctx ni entry (ByteLengthPrim fieldIdx field) =
     (case vec_at entry fieldIdx of
        None \<Rightarrow> None
      | Some fldPtr \<Rightarrow> map_option scast (ctx_lengthOf ctx ni fieldIdx fldPtr field True))"
| "prim_access ctx ni entry (CodepointLengthPrim fieldIdx field) =
     (case vec_at entry fieldIdx of
        None \<Rightarrow> None
      | Some fldPtr \<Rightarrow> map_option scast (ctx_lengthOf ctx ni fieldIdx fldPtr field False))"
| "prim_access ctx ni entry SurfaceCodepointLengthPrim = Some (scast (ucast (ni_end ni) - ucast (ni_start ni) :: i32))"
| "prim_access ctx ni entry (CodepointPrim offset) = Some (codepoint_access ctx ni offset)"
| "prim_access ctx ni entry (CodepointTypePrim offset) = codepointType_access ctx ni offset"

subsubsection \<open>Initialization\<close>

text \<open>\<open>FeatureConstructionContext\<close> is the list of the fields of the dictionary.\<close>

definition checkFieldType :: "dic_field list \<Rightarrow> i32 \<Rightarrow> field_type list \<Rightarrow> status_code option" where
  "checkFieldType flds field columnTypes =
     map_option (\<lambda>fld. if df_columnType fld \<in> set columnTypes then StOk else StInvalidParameter) (vec_at flds field)"

definition setLengthField :: "dic_field list \<Rightarrow> i32 \<Rightarrow> (status_code \<times> length_source) option" where
  "setLengthField flds fieldNum =
     map_option (\<lambda>fld.
        case df_columnType fld of
          FtStringList \<Rightarrow> (StOk, LfPositions)
        | FtString \<Rightarrow> (StOk, LfStrings)
        | _ \<Rightarrow> (StInvalidState, LfInvalid)) (vec_at flds fieldNum)"

text \<open>The \<open>initialize\<close> functions of the kinds: the status and, on success, the initialized feature.\<close>

definition copy_initialize :: "dic_field list \<Rightarrow> prim_descriptor \<Rightarrow> (status_code \<times> prim_impl) option" where
  "copy_initialize flds f =
     (if pd_kind f \<noteq> PkCopy then Some (StInvalidParameter, CopyPrim 0)
      else case pd_references f of
        [r] \<Rightarrow> map_option (\<lambda>st. (st, CopyPrim r)) (checkFieldType flds r [FtString, FtInt])
      | _ \<Rightarrow> Some (StInvalidParameter, CopyPrim 0))"

definition provided_initialize :: "prim_descriptor \<Rightarrow> (status_code \<times> prim_impl) option" where
  "provided_initialize f =
     (if pd_kind f \<noteq> PkProvided then Some (StInvalidParameter, ProvidedPrim 0)
      else case pd_references f of
        [r] \<Rightarrow> Some (StOk, ProvidedPrim r)
      | _ \<Rightarrow> Some (StInvalidParameter, ProvidedPrim 0))"

definition byteLength_initialize :: "dic_field list \<Rightarrow> prim_descriptor \<Rightarrow> (status_code \<times> prim_impl) option" where
  "byteLength_initialize flds f =
     (if pd_kind f \<noteq> PkByteLength then Some (StInvalidParameter, ByteLengthPrim 0 LfInvalid)
      else case pd_references f of
        [r] \<Rightarrow> map_option (\<lambda>(st, field). (st, ByteLengthPrim r field)) (setLengthField flds r)
      | _ \<Rightarrow> Some (StInvalidParameter, ByteLengthPrim 0 LfInvalid))"

definition codepointLength_initialize :: "dic_field list \<Rightarrow> prim_descriptor \<Rightarrow> (status_code \<times> prim_impl) option" where
  "codepointLength_initialize flds f =
     (if pd_kind f \<noteq> PkCodepointSize then Some (StInvalidParameter, CodepointLengthPrim 0 LfInvalid)
      else case pd_references f of
        [r] \<Rightarrow> map_option (\<lambda>(st, field). (st, CodepointLengthPrim r field)) (setLengthField flds r)
      | _ \<Rightarrow> Some (StInvalidParameter, CodepointLengthPrim 0 LfInvalid))"

definition codepoint_initialize :: "prim_descriptor \<Rightarrow> (status_code \<times> prim_impl) option" where
  "codepoint_initialize f =
     (case pd_references f of [r] \<Rightarrow> Some (StOk, CodepointPrim r) | _ \<Rightarrow> Some (StInvalidParameter, CodepointPrim 0))"

definition codepointType_initialize :: "prim_descriptor \<Rightarrow> (status_code \<times> prim_impl) option" where
  "codepointType_initialize f =
     (case pd_references f of [r] \<Rightarrow> Some (StOk, CodepointTypePrim r) | _ \<Rightarrow> Some (StInvalidParameter, CodepointTypePrim 0))"

definition surfaceLength_initialize :: "prim_descriptor \<Rightarrow> (status_code \<times> prim_impl) option" where
  "surfaceLength_initialize f =
     (if pd_references f \<noteq> [] then Some (StInvalidParameter, SurfaceCodepointLengthPrim) else Some (StOk, SurfaceCodepointLengthPrim))"

definition shiftMask_initialize :: "prim_descriptor \<Rightarrow> (status_code \<times> prim_impl) option" where
  "shiftMask_initialize f =
     (case pd_references f of [r, s] \<Rightarrow> Some (StOk, ShiftMaskPrim r s 1) | _ \<Rightarrow> Some (StInvalidParameter, ShiftMaskPrim 0 0 0))"

fun prim_initialize :: "dic_field list \<Rightarrow> prim_descriptor \<Rightarrow> prim_kind \<Rightarrow> (status_code \<times> prim_impl) option" where
  "prim_initialize flds f PkCopy = copy_initialize flds f"
| "prim_initialize flds f PkSingleBit = shiftMask_initialize f"
| "prim_initialize flds f PkProvided = provided_initialize f"
| "prim_initialize flds f PkByteLength = byteLength_initialize flds f"
| "prim_initialize flds f PkCodepointSize = codepointLength_initialize flds f"
| "prim_initialize flds f PkSurfaceCodepointSize = surfaceLength_initialize f"
| "prim_initialize flds f PkCodepoint = codepoint_initialize f"
| "prim_initialize flds f PkCodepointType = codepointType_initialize f"
| "prim_initialize flds f PkInvalid = Some (StInvalidParameter, CopyPrim 0)"

fun initPrimitive :: "dic_field list \<Rightarrow> prim_descriptor list \<Rightarrow> prim_feature list \<Rightarrow> (status_code \<times> prim_feature list) option" where
  "initPrimitive flds [] primitive = Some (StOk, primitive)"
| "initPrimitive flds (f # fs) primitive =
     (case prim_initialize flds f (pd_kind f) of
        None \<Rightarrow> None
      | Some (st, impl) \<Rightarrow>
          if st \<noteq> StOk then Some (st, primitive)
          else initPrimitive flds fs (primitive @ [\<lparr>pf_index = pd_index f, pf_impl = impl\<rparr>]))"

subsection \<open>Computed features\<close>

record compute_descriptor =
  cd_name :: byte_string
  cd_index :: i32
  cd_primitiveFeature :: i32
  cd_trueBranch :: "i32 list"
  cd_falseBranch :: "i32 list"

text \<open>Pointers to primitive features are the features.\<close>

datatype compute_impl = NoopCompute u32 prim_impl | ExprCompute u32 prim_impl "prim_impl list" "prim_impl list"

definition mix_access :: "prim_context \<Rightarrow> node_info \<Rightarrow> i32 list \<Rightarrow> prim_impl \<Rightarrow> u64 \<Rightarrow> u64 option" where
  "mix_access ctx ni entry f input = map_option (\<lambda>v. fhr_mix v input) (prim_access ctx ni entry f)"

fun mixPrimitives :: "prim_context \<Rightarrow> node_info \<Rightarrow> i32 list \<Rightarrow> compute_impl \<Rightarrow> u64 \<Rightarrow> u64 option" where
  "mixPrimitives ctx ni entry (NoopCompute n prim) input = mix_access ctx ni entry prim input"
| "mixPrimitives ctx ni entry (ExprCompute n condition ts fs) input =
     (case prim_access ctx ni entry condition of
        None \<Rightarrow> None
      | Some check \<Rightarrow> fold_option (mix_access ctx ni entry) (if check \<noteq> 0 then ts else fs) input)"

text \<open>An index is compared with the size of the vector as an unsigned number of 64 bits, so that a negative one is too large.\<close>

definition prim_at :: "prim_feature list \<Rightarrow> i32 \<Rightarrow> prim_impl option" where
  "prim_at primitives idx = (let i = unat (scast idx :: u64) in if i \<ge> length primitives then None else Some (pf_impl (primitives ! i)))"

fun prims_at :: "prim_feature list \<Rightarrow> i32 list \<Rightarrow> prim_impl list option" where
  "prims_at primitives [] = Some []"
| "prims_at primitives (f # fs) =
     (case prim_at primitives f of None \<Rightarrow> None | Some p \<Rightarrow> map_option (\<lambda>ps. p # ps) (prims_at primitives fs))"

text \<open>The result is nothing when the feature is refused with \<open>InvalidParameter\<close>.\<close>

definition noop_initialize :: "compute_descriptor \<Rightarrow> prim_feature list \<Rightarrow> compute_impl option" where
  "noop_initialize fd primitives = map_option (\<lambda>p. NoopCompute (cd_index fd) p) (prim_at primitives (cd_primitiveFeature fd))"

definition expr_initialize :: "compute_descriptor \<Rightarrow> prim_feature list \<Rightarrow> compute_impl option" where
  "expr_initialize fd primitives =
     (case (prim_at primitives (cd_primitiveFeature fd), prims_at primitives (cd_trueBranch fd), prims_at primitives (cd_falseBranch fd)) of
        (Some c, Some ts, Some fs) \<Rightarrow> Some (ExprCompute (cd_index fd) c ts fs)
      | _ \<Rightarrow> None)"

fun initCompute :: "prim_feature list \<Rightarrow> compute_descriptor list \<Rightarrow> compute_impl list \<Rightarrow> status_code \<times> compute_impl list" where
  "initCompute primitives [] compute = (StOk, compute)"
| "initCompute primitives (nfo # nfos) compute =
     (case (if cd_falseBranch nfo = [] \<and> cd_trueBranch nfo = [] then noop_initialize nfo primitives else expr_initialize nfo primitives) of
        None \<Rightarrow> (StInvalidParameter, compute)
      | Some c \<Rightarrow> initCompute primitives nfos (compute @ [c]))"

subsection \<open>Patterns\<close>

definition PatternFeatureSeed :: u64 where "PatternFeatureSeed = 0x7a11ed00000000"

record pattern_descriptor =
  ptd_index :: i32
  ptd_usage :: i32
  ptd_references :: "i32 list"

record dynamic_pattern =
  dp_index :: i32
  dp_compute :: "compute_impl list"

definition dp_hash :: "prim_context \<Rightarrow> node_info \<Rightarrow> i32 list \<Rightarrow> dynamic_pattern \<Rightarrow> u64 option" where
  "dp_hash ctx ni entry p =
     fold_option (mixPrimitives ctx ni entry) (dp_compute p)
       (hash_start (ucast (dp_index p)) (word_of_nat (length (dp_compute p))) PatternFeatureSeed)"

definition dp_apply :: "prim_context \<Rightarrow> node_info \<Rightarrow> i32 list \<Rightarrow> dynamic_pattern \<Rightarrow> u64 list \<Rightarrow> u64 list option" where
  "dp_apply ctx ni entry p result =
     (if unat (dp_index p) < length result then map_option (\<lambda>h. result[unat (dp_index p) := h]) (dp_hash ctx ni entry p) else None)"

text \<open>
  \<open>DynamicPatternFeatureImpl::initialize\<close>. A reference equal to the number of features passes the check, and the code then reads behind the end of
  the vector: there is no result.
\<close>

fun dp_references :: "compute_impl list \<Rightarrow> i32 list \<Rightarrow> compute_impl list \<Rightarrow> (status_code \<times> compute_impl list) option" where
  "dp_references computeFeatures [] compute = Some (StOk, compute)"
| "dp_references computeFeatures (ref # refs) compute =
     (if sint ref < 0 \<or> nat (sint ref) > length computeFeatures then Some (StInvalidParameter, compute)
      else case vec_at computeFeatures ref of
        None \<Rightarrow> None
      | Some c \<Rightarrow> dp_references computeFeatures refs (compute @ [c]))"

definition dp_initialize :: "compute_impl list \<Rightarrow> pattern_descriptor \<Rightarrow> (status_code \<times> dynamic_pattern) option" where
  "dp_initialize computeFeatures pfd =
     map_option (\<lambda>(st, compute). (st, \<lparr>dp_index = ptd_index pfd, dp_compute = compute\<rparr>)) (dp_references computeFeatures (ptd_references pfd) [])"

record pattern_apply =
  pda_primitive :: "prim_feature list"
  pda_compute :: "compute_impl list"
  pda_patterns :: "dynamic_pattern list"
  pda_uniOnlyFirst :: u32

definition pda_new :: pattern_apply where
  "pda_new = \<lparr>pda_primitive = [], pda_compute = [], pda_patterns = [], pda_uniOnlyFirst = 0\<rparr>"

record features_spec =
  fsp_primitive :: "prim_descriptor list"
  fsp_computation :: "compute_descriptor list"
  fsp_pattern :: "pattern_descriptor list"
  fsp_ngram :: "ngram_descriptor list"
  fsp_numPlaceholders :: i32
  fsp_numUniOnlyPats :: i32

fun initPatterns :: "compute_impl list \<Rightarrow> pattern_descriptor list \<Rightarrow> dynamic_pattern list \<Rightarrow> (status_code \<times> dynamic_pattern list) option" where
  "initPatterns compute [] patterns = Some (StOk, patterns)"
| "initPatterns compute (f # fs) patterns =
     (case dp_initialize compute f of
        None \<Rightarrow> None
      | Some (st, p) \<Rightarrow> if st \<noteq> StOk then Some (st, patterns @ [p]) else initPatterns compute fs (patterns @ [p]))"

definition pda_initialize :: "dic_field list \<Rightarrow> features_spec \<Rightarrow> (status_code \<times> pattern_apply) option" where
  "pda_initialize flds spec =
     (case initPrimitive flds (fsp_primitive spec) [] of
        None \<Rightarrow> None
      | Some (st, primitive) \<Rightarrow>
          let a = pda_new\<lparr>pda_primitive := primitive\<rparr>
          in if st \<noteq> StOk then Some (st, a)
             else case initCompute primitive (fsp_computation spec) [] of
               (st, compute) \<Rightarrow>
                 let a = a\<lparr>pda_compute := compute\<rparr>
                 in if st \<noteq> StOk then Some (st, a)
                    else case initPatterns compute (fsp_pattern spec) [] of
                      None \<Rightarrow> None
                    | Some (st, patterns) \<Rightarrow>
                        let a = a\<lparr>pda_patterns := patterns\<rparr>
                        in if st \<noteq> StOk then Some (st, a)
                           else Some (StOk, a\<lparr>pda_uniOnlyFirst := word_of_nat (length patterns) - fsp_numUniOnlyPats spec\<rparr>))"

definition pda_apply :: "prim_context \<Rightarrow> node_info \<Rightarrow> i32 list \<Rightarrow> pattern_apply \<Rightarrow> u64 list \<Rightarrow> u64 list option" where
  "pda_apply ctx ni entry a result = fold_option (dp_apply ctx ni entry) (pda_patterns a) result"

definition pda_applyUniOnly :: "prim_context \<Rightarrow> node_info \<Rightarrow> i32 list \<Rightarrow> pattern_apply \<Rightarrow> u64 list \<Rightarrow> u64 list option" where
  "pda_applyUniOnly ctx ni entry a result =
     fold_option (dp_apply ctx ni entry) (drop (unat (pda_uniOnlyFirst a)) (pda_patterns a)) result"

text \<open>\<open>applyBatch\<close> over a \<open>PrimitiveFeatureData\<close>: the rows of the nodes, their entries and their patterns, from \<open>index\<close> on.\<close>

fun pda_applyBatch :: "prim_context \<Rightarrow> pattern_apply \<Rightarrow> node_info list \<Rightarrow> i32 list list \<Rightarrow> u64 list list \<Rightarrow> u64 list list option" where
  "pda_applyBatch ctx a (ni # nis) (entry # entries) (result # results) =
     (case pda_apply ctx ni entry a result of
        None \<Rightarrow> None
      | Some r \<Rightarrow> map_option (\<lambda>rs. r # rs) (pda_applyBatch ctx a nis entries results))"
| "pda_applyBatch ctx a [] entries results = Some results"
| "pda_applyBatch ctx a nis entries results = None"

end
