(* ===== verification/Output.thy ===== *)
theory Output
  imports Patterns
begin

text \<open>
  \<open>src/src/core/analysis/output.h/.cc\<close>: finding a node of the lattice in the dictionary or in the extra nodes, and reading its fields, which the output
  formats do. A read outside of a vector is \<open>None\<close>.
\<close>

subsection \<open>Finding a node\<close>

text \<open>The manager points to the extra nodes, the dictionary and the lattice of its analyzer; here it holds what they are when it is asked.\<close>

record output_manager =
  om_xtra :: extra_nodes
  om_entries :: entries_holder
  om_fields :: "dic_field list"
  om_lattice :: lattice

record node_walker =
  nw_buffer :: dic_entry_buffer
  nw_current :: entry_ptr

definition nw_isSuccess :: "node_walker \<Rightarrow> bool" where
  "nw_isSuccess w \<longleftrightarrow> nw_current w \<noteq> EntryPtr_Invalid"

definition nw_remaining :: "node_walker \<Rightarrow> i32" where
  "nw_remaining w = deb_remaining (nw_buffer w)"

definition nw_next :: "node_walker \<Rightarrow> bool \<times> node_walker" where
  "nw_next w = (case nextData (nw_buffer w) of (ok, b) \<Rightarrow> (ok, w\<lparr>nw_buffer := b\<rparr>))"

text \<open>A field with a nonnegative index is a feature of the entry, one with a negative index is in its data. \<open>result\<close> is what the variable holds before.\<close>

definition nw_valueOf :: "node_walker \<Rightarrow> i32 \<Rightarrow> i32 \<Rightarrow> (bool \<times> i32) option" where
  "nw_valueOf w fieldIdx result =
     (if \<not> nw_isSuccess w then Some (False, result)
      else if sint fieldIdx \<ge> 0 then map_option (Pair True) (vec_at (deb_features (nw_buffer w)) fieldIdx)
      else map_option (Pair True) (vec_at (deb_data (nw_buffer w)) (NOT fieldIdx)))"

text \<open>\<open>OutputManager::locate\<close>: there is no result when a special pointer is not in the table of extra nodes.\<close>

definition om_locate :: "output_manager \<Rightarrow> entry_ptr \<Rightarrow> node_walker \<Rightarrow> (bool \<times> node_walker) option" where
  "om_locate m p w =
     (let b = setCounts (eh_numFeatures (om_entries m)) (eh_numData (om_entries m)) (nw_buffer w);
          w = w\<lparr>nw_buffer := b, nw_current := p\<rparr>
      in if isSpecial p then
           if p = EntryPtr_BOS \<or> p = EntryPtr_EOS then Some (True, w\<lparr>nw_buffer := fillDataWithValue 0 (fillFeaturesWithValue (rawValue p) b)\<rparr>)
           else if p = EntryPtr_Invalid then Some (False, w)
           else case extra_at (om_xtra m) p of
                  None \<Rightarrow> None
                | Some node \<Rightarrow>
                    if xn_type node = XtUnknown then
                      let b = snd (fillFromStorage (xn_templatePtr node) (eh_entries (om_entries m)) b);
                          b = overwriteFeaturesWith (nodeContent (om_xtra m) (unat (extPtr p))) b
                      in Some (True, w\<lparr>nw_buffer := b\<rparr>)
                    else Some (False, w)
         else Some (True, w\<lparr>nw_buffer := snd (fillFromStorage p (eh_entries (om_entries m)) b)\<rparr>))"

definition lattice_entry :: "lattice \<Rightarrow> lattice_node_ptr \<Rightarrow> entry_ptr" where
  "lattice_entry l p = ni_entryPtr (rb_nodeInfo (bd_right (boundary l (unat (np_boundary p)))) ! unat (np_position p))"

definition om_locateNode :: "output_manager \<Rightarrow> lattice_node_ptr \<Rightarrow> node_walker \<Rightarrow> (bool \<times> node_walker) option" where
  "om_locateNode m p w = om_locate m (lattice_entry (om_lattice m) p) w"

definition om_valueOfUnkPlaceholder :: "output_manager \<Rightarrow> entry_ptr \<Rightarrow> i32 \<Rightarrow> i32" where
  "om_valueOfUnkPlaceholder m p placeholderIdx = placeholderData (om_xtra m) p placeholderIdx"

subsection \<open>Fields\<close>

text \<open>A string of the source, as its bytes.\<close>

definition bytes_of :: "string \<Rightarrow> byte_string" where
  "bytes_of s = map of_char s"

record string_field =
  sf_index :: i32
  sf_reader :: string_storage_reader

record string_list_field =
  slf_index :: i32
  slf_ints :: int_storage_reader
  slf_strings :: string_storage_reader

text \<open>The four look-ups of a field by its name; a refused field leaves the result as it is.\<close>

definition om_field :: "field_type \<Rightarrow> (dic_field \<Rightarrow> 'f) \<Rightarrow> output_manager \<Rightarrow> byte_string \<Rightarrow> 'f \<Rightarrow> status_code \<times> 'f" where
  "om_field type mk m name result =
     (case fields_byName name (om_fields m) of
        None \<Rightarrow> (StInvalidParameter, result)
      | Some fld \<Rightarrow> if df_columnType fld \<noteq> type then (StInvalidParameter, result) else (StOk, mk fld))"

definition om_intField :: "output_manager \<Rightarrow> byte_string \<Rightarrow> i32 \<Rightarrow> status_code \<times> i32" where
  "om_intField = om_field FtInt df_idxInEntry"

definition om_stringField :: "output_manager \<Rightarrow> byte_string \<Rightarrow> string_field \<Rightarrow> status_code \<times> string_field" where
  "om_stringField = om_field FtString (\<lambda>fld. \<lparr>sf_index = df_idxInEntry fld, sf_reader = df_strings fld\<rparr>)"

definition om_stringListField :: "output_manager \<Rightarrow> byte_string \<Rightarrow> string_list_field \<Rightarrow> status_code \<times> string_list_field" where
  "om_stringListField =
     om_field FtStringList (\<lambda>fld. \<lparr>slf_index = df_idxInEntry fld, slf_ints = df_postions fld, slf_strings = df_strings fld\<rparr>)"

definition om_kvListField :: "output_manager \<Rightarrow> byte_string \<Rightarrow> string_list_field \<Rightarrow> status_code \<times> string_list_field" where
  "om_kvListField =
     om_field FtStringKVList (\<lambda>fld. \<lparr>slf_index = df_idxInEntry fld, slf_ints = df_postions fld, slf_strings = df_strings fld\<rparr>)"

text \<open>The \<open>int\<close> of \<open>IntField\<close> is not initialised; \<open>fresh\<close> is what it holds when the walker is at no node.\<close>

definition int_field_at :: "i32 \<Rightarrow> i32 \<Rightarrow> node_walker \<Rightarrow> i32 option" where
  "int_field_at fresh index node = map_option snd (nw_valueOf node index fresh)"

definition string_field_at :: "output_manager \<Rightarrow> string_field \<Rightarrow> node_walker \<Rightarrow> byte_string option" where
  "string_field_at m f node =
     (case nw_valueOf node (sf_index f) 0 of
        None \<Rightarrow> None
      | Some (False, _) \<Rightarrow> Some (bytes_of ''-----STRING_FIELD_ERROR!!!----'')
      | Some (True, v) \<Rightarrow>
          if sint v < 0 then (if isDic (nw_current node) then None else map_option xn_surface (extra_at (om_xtra m) (nw_current node)))
          else Some (case ssr_readAt (sf_reader f) v of Some s \<Rightarrow> s | None \<Rightarrow> bytes_of ''----READ_ERROR!!!----''))"

definition string_field_pointer :: "string_field \<Rightarrow> node_walker \<Rightarrow> i32 option" where
  "string_field_pointer f node = map_option snd (nw_valueOf node (sf_index f) 0)"

subsection \<open>Lists\<close>

record string_list_iterator =
  sli_reader :: string_storage_reader
  sli_elements :: int_list_traversal
  sli_current :: i32

definition list_pointer :: "i32 \<Rightarrow> i32" where
  "list_pointer p = (if p = -1 then 0 else p)"

definition string_list_at :: "string_list_field \<Rightarrow> node_walker \<Rightarrow> string_list_iterator option" where
  "string_list_at f node =
     map_option (\<lambda>(_, p). \<lparr>sli_reader = slf_strings f, sli_elements = isr_listAt (slf_ints f) (list_pointer p), sli_current = 0\<rparr>)
       (nw_valueOf node (slf_index f) (-1))"

definition sli_next :: "string_list_iterator \<Rightarrow> byte_string option \<times> string_list_iterator" where
  "sli_next it =
     (case readOneCumulative (sli_current it) (sli_elements it) of
        (ok, current, t) \<Rightarrow>
          (if ok then ssr_readAt (sli_reader it) current else None, it\<lparr>sli_elements := t, sli_current := current\<rparr>))"

definition sli_hasNext :: "string_list_iterator \<Rightarrow> bool" where
  "sli_hasNext it \<longleftrightarrow> ilt_remaining (sli_elements it) = 0"

record kv_list_iterator =
  kvi_reader :: string_storage_reader
  kvi_elems :: key_value_traversal

definition kv_list_at :: "string_list_field \<Rightarrow> node_walker \<Rightarrow> kv_list_iterator option" where
  "kv_list_at f node =
     map_option (\<lambda>(_, p). \<lparr>kvi_reader = slf_strings f, kvi_elems = isr_kvListAt (slf_ints f) (list_pointer p)\<rparr>)
       (nw_valueOf node (slf_index f) (-1))"

definition kvi_next :: "kv_list_iterator \<Rightarrow> bool \<times> kv_list_iterator" where
  "kvi_next it = (case kv_moveNext (kvi_elems it) of (ok, t) \<Rightarrow> (ok, it\<lparr>kvi_elems := t\<rparr>))"

definition kvi_key :: "kv_list_iterator \<Rightarrow> byte_string" where
  "kvi_key it = (case ssr_readAt (kvi_reader it) (kv_key (kvi_elems it)) of Some s \<Rightarrow> s | None \<Rightarrow> bytes_of ''!!!!!KVITER_KEY_NOT_FOUND!!!!!'')"

definition kvi_hasValue :: "kv_list_iterator \<Rightarrow> bool" where
  "kvi_hasValue it = kv_hasValue (kvi_elems it)"

definition kvi_value :: "kv_list_iterator \<Rightarrow> byte_string" where
  "kvi_value it =
     (if \<not> kvi_hasValue it then bytes_of ''!!!!!KVITER_HAS_NO_VALUE!!!!''
      else case ssr_readAt (kvi_reader it) (kv_value (kvi_elems it)) of
             Some s \<Rightarrow> s
           | None \<Rightarrow> bytes_of ''!!!!!KVITER_VALUE_NOT_FOUND!!!!!'')"

definition kvi_hasNext :: "kv_list_iterator \<Rightarrow> bool" where
  "kvi_hasNext it = kv_hasNext (kvi_elems it)"

subsection \<open>The surface of a node\<close>

text \<open>The surface a format prints for a node; \<open>w\<close> is the walker the format reuses.\<close>

definition surface_of :: "output_manager \<Rightarrow> string_field \<Rightarrow> node_walker \<Rightarrow> lattice_node_ptr \<Rightarrow> byte_string option" where
  "surface_of m f w p =
     (case om_locateNode m p w of
        Some (True, w) \<Rightarrow> string_field_at m f w
      | _ \<Rightarrow> None)"

lemma fold_updates:
  "n \<le> length xs \<Longrightarrow> n \<le> length ys \<Longrightarrow> fold (\<lambda>i b. b[i := ys ! i]) [0..<n] xs = take n ys @ drop n xs"
proof (induction n)
  case (Suc n)
  then have "(take n ys @ drop n xs)[n := ys ! n] = take (Suc n) ys @ drop (Suc n) xs"
    by (simp add: list_update_append take_Suc_conv_app_nth Cons_nth_drop_Suc [symmetric])
  with Suc show ?case by simp
qed simp

lemma fold_list_updates:
  "k < length xs \<Longrightarrow> fold (\<lambda>idx b. b[unat idx := h]) is xs ! k = (if k \<in> unat ` set is then h else xs ! k)"
proof (induction "is" arbitrary: xs)
  case (Cons i "is")
  then show ?case by (auto simp: nth_list_update)
qed simp

lemma fillElems_replaced:
  assumes "idx \<in> set (uc_replaceWithSurface conf)" "unat idx < length buffer"
  shows "fillElems conf h buffer ! unat idx = h"
  using assms fold_list_updates [of "unat idx" buffer h "uc_replaceWithSurface conf"] by (auto simp: fillElems_def)

text \<open>Reading an entry keeps the counts of a buffer and does not make it shorter.\<close>

lemma fill_keeps:
  assumes "fillFromStorage p s b = (ok, b')"
  shows "deb_numFeatures b' = deb_numFeatures b" "length (deb_featureBuffer b) \<le> length (deb_featureBuffer b')"
  using assms by (auto simp: fillFromStorage_def deb_fill_def Let_def split: if_splits prod.splits)

lemma overwritten_features:
  assumes "length vs = unat (deb_numFeatures b)" "unat (deb_numFeatures b) \<le> length (deb_featureBuffer b)"
  shows "deb_features (overwriteFeaturesWith vs b) = vs"
  using assms by (simp add: deb_features_def overwriteFeaturesWith_def fold_updates)

lemma extra_pointer_plain:
  assumes "unat (extPtr p) < 2 ^ 30"
  shows "p \<noteq> EntryPtr_BOS" "p \<noteq> EntryPtr_EOS" "p \<noteq> EntryPtr_Invalid"
  using assms by (auto simp: extPtr_def EntryPtr_BOS_def EntryPtr_EOS_def EntryPtr_Invalid_def mk_entry_def i32_min_def)

lemma extends_node:
  assumes "extends x y" "i < length (xc_nodes x)"
  shows "i < length (xc_nodes y)" "xc_nodes y ! i = xc_nodes x ! i" "nodeContent y i = nodeContent x i"
  using assms by (auto simp: extends_def nodeContent_def nth_append)

text \<open>C10: The word that is printed for an unknown word is the text it was made for: the entry of the pattern is read, its fields are overwritten with those of the extra
  node, and the surface field, which holds the hash of the text and therefore a negative number, sends the reader to the text that is kept with the node.
\<close>

theorem unknown_word_prints_its_text:
  assumes "xc_ok x" "length (xc_nodes x) < 2 ^ 30" "length (deb_features (uc_base conf)) = xc_numFields x"
    and "makePtr fresh surface conf notPrefix x = (p, x')" "extends x' (om_xtra m)" "lattice_entry (om_lattice m) q = p"
    and "sf_index f \<in> set (uc_replaceWithSurface conf)" "0 \<le> sint (sf_index f)" "unat (sf_index f) < xc_numFields x"
    and "unat (eh_numFeatures (om_entries m)) = xc_numFields x" "xc_numFields x \<le> length (deb_featureBuffer (nw_buffer w))"
  shows "surface_of m f w q = Some surface"
proof -
  let ?n = "unk_node fresh surface conf notPrefix x" and ?k = "length (xc_nodes x)" and ?i = "unat (sf_index f)"
  have p: "p = xn_ptr ?n" "x' = appended x ?n" using assms(4) by (simp_all add: makePtr_node [OF assms(3)])
  have ix: "xn_index ?n = word_of_nat ?k" by (simp add: unk_node_def Let_def)
  have k: "?k < 2 ^ 31" using assms(2) by (rule order.strict_trans) simp
  note ptr = extra_pointer [OF k ix, folded p(1)]
  have "unat (extPtr p) < 2 ^ 30" using ptr(2) assms(2) by (simp only:)
  note plain = extra_pointer_plain [OF this]
  have "?k < length (xc_nodes x')" by (simp add: p(2) appended_def)
  note ext = extends_node [OF assms(5) this]
  have node: "xc_nodes (om_xtra m) ! ?k = ?n" using ext(2) by (simp add: p(2))
  have dic: "\<not> isDic p" using ptr(1) special_or_dic by blast
  have at: "extra_at (om_xtra m) p = Some ?n" using ext(1) dic node by (simp add: extra_at_def ptr(2) xc_node_def)
  have content: "nodeContent (om_xtra m) ?k = fillElems conf (hashUnkString surface) (deb_features (uc_base conf))"
    using ext(3) assms(3) by (simp add: p(2) unk_node_def Let_def)
  define b where "b = setCounts (eh_numFeatures (om_entries m)) (eh_numData (om_entries m)) (nw_buffer w)"
  obtain ok b' where b': "fillFromStorage (xn_templatePtr ?n) (eh_entries (om_entries m)) b = (ok, b')" by fastforce
  have cnt: "unat (deb_numFeatures b') = xc_numFields x" "xc_numFields x \<le> length (deb_featureBuffer b')"
    using fill_keeps [OF b'] assms(10,11) by (simp_all add: b_def setCounts_def)
  let ?vs = "fillElems conf (hashUnkString surface) (deb_features (uc_base conf))" and ?b = "overwriteFeaturesWith (nodeContent (om_xtra m) ?k) b'"
  have feats: "deb_features ?b = ?vs" unfolding content by (rule overwritten_features) (use cnt assms(3) in simp_all)
  have "xn_type ?n = XtUnknown" "xn_surface ?n = surface" by (simp_all add: unk_node_def Let_def)
  then have loc: "om_locateNode m q w = Some (True, \<lparr>nw_buffer = ?b, nw_current = p\<rparr>)"
    using ptr plain at b' by (simp add: om_locateNode_def om_locate_def assms(6) b_def [symmetric] Let_def)
  have "vec_at (deb_features ?b) (sf_index f) = Some (hashUnkString surface)"
    unfolding feats vec_at_def using fillElems_replaced [OF assms(7)] assms(3,9) by simp
  then show ?thesis using assms(8) plain dic at hash_is_special [of surface] \<open>xn_surface ?n = surface\<close>
    by (simp add: surface_of_def loc string_field_at_def nw_valueOf_def nw_isSuccess_def)
qed

definition sample_ptr :: entry_ptr where
  "sample_ptr = fst (makePtr 7 [0x61] sample_config True (xc_new 2 1))"

definition sample_output :: output_manager where
  "sample_output = \<lparr>om_xtra = snd (makePtr 7 [0x61] sample_config True (xc_new 2 1)), om_entries = small_dictionary, om_fields = [],
     om_lattice = \<lparr>lt_boundaries = [set_node 0 (mk_node_info sample_ptr 0 1) (mk_boundary fresh0 cfg0 (mk_lbc 0 0 1))], lt_config = cfg0\<rparr>\<rparr>"

definition sample_walker :: node_walker where
  "sample_walker = \<lparr>nw_buffer = sample_buffer, nw_current = EntryPtr_Invalid\<rparr>"

lemma sample_node: "lattice_entry (om_lattice sample_output) (mk_node_ptr 0 0) = sample_ptr"
  by (simp add: lattice_entry_def sample_output_def mk_node_ptr_def boundary_def set_node_def mk_boundary_def mk_right_boundary_def mk_lbc_def mk_node_info_def)

theorem unknown_word_prints_its_text_witness:
  "surface_of sample_output \<lparr>sf_index = 1, sf_reader = \<lparr>ssr_data = [], ssr_alignPower = 0\<rparr>\<rparr> sample_walker (mk_node_ptr 0 0) = Some [0x61]"
  by (rule unknown_word_prints_its_text [of "xc_new 2 1" sample_config 7 "[0x61]" True sample_ptr "om_xtra sample_output", OF _ _ _ _ _ sample_node])
    (simp_all add: xc_ok_def xc_new_def sample_config_def unk_config_new_def deb_features_def sample_buffer_def extends_def sample_ptr_def
      sample_output_def sample_walker_def small_dictionary_def)

end
