(* ===== verification/UnkMakers.thy ===== *)
theory UnkMakers
  imports ExtraNodes Beam
begin

text \<open>
  The makers of nodes for words that are not in the dictionary: runs of characters of a class and single characters
  (\<open>src/src/core/analysis/unk_nodes_creator.cc\<close>), words that repeat their first half (\<open>onomatopoeia_creator.cc\<close>) and
  numbers (\<open>numeric_creator.cc\<close>). An input has at most 65535 code points (\<open>AnalysisInput::reset\<close>), so positions are 16-bit numbers.
  A read outside the array of the trie is the result \<open>None\<close>.
\<close>

subsection \<open>Spawning one node\<close>

text \<open>\<open>AnalysisInput::surface\<close>: the bytes of the code points are consecutive in the input.\<close>

definition input_surface :: "input_codepoint list \<Rightarrow> nat \<Rightarrow> nat \<Rightarrow> byte_string" where
  "input_surface points start stop = (if start = stop then [] else text_of (take (stop - start) (drop start points)))"

type_synonym unk_state = "extra_nodes \<times> lattice_builder"

record unk_maker =
  um_entries :: entries_holder
  um_charClass :: character_class
  um_info :: unk_config
  um_fresh :: i32
  um_value0 :: i32

definition spawn_unk :: "unk_maker \<Rightarrow> byte_string \<Rightarrow> bool \<Rightarrow> u16 \<Rightarrow> u16 \<Rightarrow> unk_state \<Rightarrow> unk_state" where
  "spawn_unk m surface notPrefix start stop s =
     (case makePtr (um_fresh m) surface (um_info m) notPrefix (fst s) of
        (p, x) \<Rightarrow> (x, appendSeed p start stop (snd s)))"

subsection \<open>Runs of characters of one class\<close>

text \<open>
  The inner loop that runs once the trie has no continuation; \<open>rest\<close> is the input from \<open>j\<close> on. In the end \<open>j\<close> is the number of code
  points, whichever way the loop is left.
\<close>

fun chunk_rest :: "unk_maker \<Rightarrow> input_codepoint list \<Rightarrow> u16 \<Rightarrow> input_codepoint list \<Rightarrow> u16 \<Rightarrow> unk_state \<Rightarrow> unk_state" where
  "chunk_rest m points i [] j s = s"
| "chunk_rest m points i (cp # rest) j s =
     (if \<not> hasClass cp (um_charClass m) then s
      else chunk_rest m points i rest (j + 1)
        (spawn_unk m (input_surface points (unat i) (unat (j + 1))) True i (j + 1) s))"

text \<open>The loop over \<open>j\<close>. Its counter can wrap around, so that the loop need not end: that is \<open>None\<close> too.\<close>

partial_function (option) chunk_loop ::
  "unk_maker \<Rightarrow> input_codepoint list \<Rightarrow> u16 \<Rightarrow> u16 \<Rightarrow> da_traversal \<Rightarrow> unk_state \<Rightarrow> unk_state option" where
  "chunk_loop m points i j trav s =
     (if unat j < length points then
        if \<not> hasClass (points ! unat j) (um_charClass m) then Some s
        else (case index_step (um_entries m) (ic_bytes (points ! unat j)) trav of
                None \<Rightarrow> None
              | Some (status, trav) \<Rightarrow>
                  (case status of
                     TsNoNode \<Rightarrow> chunk_loop m points i (word_of_nat (length points) + 1) trav
                       (chunk_rest m points i (drop (unat j) points) j s)
                   | TsNoLeaf \<Rightarrow> chunk_loop m points i (j + 1) trav
                       (spawn_unk m (input_surface points (unat i) (unat (j + 1))) False i (j + 1) s)
                   | TsOk \<Rightarrow> chunk_loop m points i (j + 1) trav s))
      else Some s)"

definition chunking_spawnNodes :: "unk_maker \<Rightarrow> input_codepoint list \<Rightarrow> unk_state \<Rightarrow> unk_state option" where
  "chunking_spawnNodes m points s =
     fold_option (\<lambda>i s. if \<not> hasClass (points ! i) (um_charClass m) then Some s
         else chunk_loop m points (word_of_nat i) (word_of_nat i) (da_traversal_new (um_value0 m)) s)
       [0..<length points] s"

subsection \<open>Single characters\<close>

definition single_spawnNodes :: "unk_maker \<Rightarrow> input_codepoint list \<Rightarrow> unk_state \<Rightarrow> unk_state option" where
  "single_spawnNodes m points s =
     fold_option (\<lambda>i s. if \<not> hasClass (points ! i) (um_charClass m) then Some s
         else (case index_step (um_entries m) (ic_bytes (points ! i)) (da_traversal_new (um_value0 m)) of
                 None \<Rightarrow> None
               | Some (TsOk, _) \<Rightarrow> Some s
               | Some (status, _) \<Rightarrow>
                   Some (spawn_unk m (ic_bytes (points ! i)) (status = TsNoNode) (word_of_nat i) (word_of_nat i + 1) s)))
       [0..<length points] s"

subsection \<open>Repeated halves\<close>

type_synonym onomatopoeic_pattern = u16

definition Pattern_All :: onomatopoeic_pattern where
  "Pattern_All = push_bit 2 1 OR push_bit 3 1 OR push_bit 4 1"

definition HalfLenToPattern :: "nat \<Rightarrow> onomatopoeic_pattern" where
  "HalfLenToPattern halflen = push_bit halflen 1 AND Pattern_All"

definition MaxOnomatopoeiaLength :: nat where "MaxOnomatopoeiaLength = 8"
definition MinOnomatopoeiaLength :: nat where "MinOnomatopoeiaLength = 4"

text \<open>The loop over the half lengths that are left; positions are compared as \<open>int\<close>.\<close>

function find_pattern ::
  "input_codepoint list \<Rightarrow> nat \<Rightarrow> nat \<Rightarrow> onomatopoeic_pattern \<Rightarrow> onomatopoeic_pattern" where
  "find_pattern points start halfLen pattern =
     (if halfLen * 2 \<le> MaxOnomatopoeiaLength \<and> start + halfLen * 2 - 1 < length points then
        let cp1 = points ! start; cp2 = points ! (start + halfLen)
        in if \<not> hasClass cp2 (ic_charClass cp1) then pattern
           else if ic_codepoint cp1 \<noteq> ic_codepoint cp2 then find_pattern points start (halfLen + 1) pattern
           else let isOnomatopoeia = list_all (\<lambda>p. ic_codepoint (points ! (start + p)) = ic_codepoint (points ! (start + halfLen + p))) [1..<halfLen]
           in find_pattern points start (halfLen + 1)
                (if isOnomatopoeia then pattern OR HalfLenToPattern halfLen else pattern)
      else pattern)"
  by pat_completeness auto
termination
  by (relation "measure (\<lambda>(_, _, halfLen, _). MaxOnomatopoeiaLength - halfLen)") (auto simp: MaxOnomatopoeiaLength_def)

declare find_pattern.simps [simp del]

definition FindOnomatopoeia :: "character_class \<Rightarrow> input_codepoint list \<Rightarrow> nat \<Rightarrow> onomatopoeic_pattern" where
  "FindOnomatopoeia charClass points start =
     (if start + MinOnomatopoeiaLength \<ge> length points then 0
      else if \<not> hasClass (points ! start) charClass then 0
      else if \<not> hasClass (points ! (start + 1)) (ic_charClass (points ! start)) then 0
      else find_pattern points start 2 0)"

text \<open>Steps over some code points; only the last status is kept.\<close>

fun step_over :: "entries_holder \<Rightarrow> input_codepoint list \<Rightarrow> da_traversal \<Rightarrow> traverse_status \<Rightarrow> (traverse_status \<times> da_traversal) option" where
  "step_over h [] trav status = Some (status, trav)"
| "step_over h (cp # points) trav status =
     (case index_step h (ic_bytes cp) trav of None \<Rightarrow> None | Some (status, trav) \<Rightarrow> step_over h points trav status)"

text \<open>One start: \<open>halfLens\<close> are the half lengths still to try, \<open>nextstep\<close> the first code point that was not stepped over.\<close>

fun onomatopoeia_at ::
  "unk_maker \<Rightarrow> input_codepoint list \<Rightarrow> nat \<Rightarrow> onomatopoeic_pattern \<Rightarrow> nat list \<Rightarrow> nat \<Rightarrow> da_traversal \<Rightarrow> traverse_status
    \<Rightarrow> unk_state \<Rightarrow> unk_state option" where
  "onomatopoeia_at m points i pattern [] nextstep trav status s = Some s"
| "onomatopoeia_at m points i pattern (halfLen # halfLens) nextstep trav status s =
     (if pattern AND HalfLenToPattern halfLen \<noteq> 0 then
        let stop = i + halfLen * 2
        in case step_over (um_entries m) (take (stop - nextstep) (drop nextstep points)) trav status of
             None \<Rightarrow> None
           | Some (status, trav) \<Rightarrow>
               onomatopoeia_at m points i pattern halfLens (max nextstep stop) trav status
                 (if status = TsOk then s
                  else spawn_unk m (input_surface points i stop) (status = TsNoNode) (word_of_nat i) (word_of_nat stop) s)
      else onomatopoeia_at m points i pattern halfLens nextstep trav status s)"

text \<open>\<open>status\<close> is not initialised; every half length that is tried steps over at least four code points first.\<close>

definition onomatopoeia_spawnNodes :: "unk_maker \<Rightarrow> traverse_status \<Rightarrow> input_codepoint list \<Rightarrow> unk_state \<Rightarrow> unk_state option" where
  "onomatopoeia_spawnNodes m status0 points s =
     fold_option (\<lambda>i s.
         let pattern = FindOnomatopoeia (um_charClass m) points i
         in if pattern = 0 then Some s
            else onomatopoeia_at m points i pattern [2, 3, 4] i (da_traversal_new (um_value0 m)) status0 s)
       [0..<length points] s"

subsection \<open>Numbers\<close>

definition MaxNumericLength :: nat where "MaxNumericLength = 64"

text \<open>The patterns as the code points of their characters; of the classes of a pattern nothing is used.\<close>

definition prefixPatterns :: "u32 list list" where
  "prefixPatterns = [[0x6570], [0x4F55], [0x5E7E]]"

definition interfixPatterns :: "u32 list list" where
  "interfixPatterns = [[0x3076, 0x3093, 0x306E], [0x5206, 0x306E]]"

definition suffixPatterns :: "u32 list list" where
  "suffixPatterns = [[0x30AD, 0x30ED], [0x30E1, 0x30AC], [0x30AE, 0x30AC], [0x30C6, 0x30E9], [0x30DF, 0x30EA]]"

definition matches_at :: "input_codepoint list \<Rightarrow> nat \<Rightarrow> u32 list \<Rightarrow> bool" where
  "matches_at points at itemp = list_all (\<lambda>index. ic_codepoint (points ! (at + index)) = itemp ! index) [0..<length itemp]"

text \<open>\<open>codepoints.size() - (start + pos)\<close> is a \<open>size_t\<close>.\<close>

definition rest_length :: "input_codepoint list \<Rightarrow> nat \<Rightarrow> nat" where
  "rest_length points at = nat ((int (length points) - int at) mod 2 ^ 64)"

definition checkInterfix :: "character_class \<Rightarrow> input_codepoint list \<Rightarrow> nat \<Rightarrow> nat \<Rightarrow> nat" where
  "checkInterfix charClass points start pos =
     (if pos > 0 then
        (case filter (\<lambda>itemp. hasClass (points ! (start + pos - 1)) charClass \<and> rest_length points (start + pos) > length itemp
                \<and> hasClass (points ! (start + pos + length itemp)) charClass \<and> matches_at points (start + pos) itemp) interfixPatterns of
           [] \<Rightarrow> 0 | itemp # _ \<Rightarrow> length itemp)
      else 0)"

definition checkSuffix :: "input_codepoint list \<Rightarrow> nat \<Rightarrow> nat \<Rightarrow> nat" where
  "checkSuffix points start pos =
     (if pos > 0 then
        (case filter (\<lambda>itemp. hasClass (points ! (start + pos - 1)) FAMILY_EXCEPTION \<and> rest_length points (start + pos) \<ge> length itemp
                \<and> matches_at points (start + pos) itemp) suffixPatterns of
           [] \<Rightarrow> 0 | itemp # _ \<Rightarrow> length itemp)
      else 0)"

definition checkPrefix :: "input_codepoint list \<Rightarrow> nat \<Rightarrow> nat \<Rightarrow> nat" where
  "checkPrefix points start pos =
     (case filter (\<lambda>itemp. start + pos + length itemp < length points
              \<and> (hasClass (points ! (start + pos + length itemp)) FIGURE_DIGIT \<or> checkSuffix points start (pos + length itemp) > 0)
              \<and> matches_at points (start + pos) itemp) prefixPatterns of
        [] \<Rightarrow> 0 | itemp # _ \<Rightarrow> length itemp + checkSuffix points start (pos + length itemp))"

text \<open>At most five figures behind the comma are counted.\<close>

definition checkComma :: "input_codepoint list \<Rightarrow> nat \<Rightarrow> nat \<Rightarrow> nat" where
  "checkComma points start pos =
     (let posComma = start + pos
      in if pos = 0 then 0
         else if \<not> hasClass (points ! posComma) COMMA then 0
         else if length (takeWhile (\<lambda>cp. hasClass cp FIGURE) (take 5 (drop (posComma + 1) points))) = 3 then 1 else 0)"

definition checkPeriod :: "character_class \<Rightarrow> input_codepoint list \<Rightarrow> nat \<Rightarrow> nat \<Rightarrow> nat" where
  "checkPeriod charClass points start pos =
     (let posPeriod = start + pos
      in if pos = 0 then 0
         else if \<not> hasClass (points ! posPeriod) FAMILY_NUM_PERIOD then 0
         else if \<not> hasClass (points ! (posPeriod - 1)) charClass then 0
         else if posPeriod + 1 < length points \<and> hasClass (points ! (posPeriod + 1)) charClass then 1 else 0)"

definition checkExceptionalCharsInFigure :: "character_class \<Rightarrow> input_codepoint list \<Rightarrow> nat \<Rightarrow> nat \<Rightarrow> nat" where
  "checkExceptionalCharsInFigure charClass points start pos =
     (if checkPrefix points start pos > 0 then checkPrefix points start pos
      else if checkInterfix charClass points start pos > 0 then checkInterfix charClass points start pos
      else if checkSuffix points start pos > 0 then checkSuffix points start pos
      else if checkComma points start pos > 0 then checkComma points start pos
      else if checkPeriod charClass points start pos > 0 then checkPeriod charClass points start pos
      else 0)"

function longest_number :: "character_class \<Rightarrow> input_codepoint list \<Rightarrow> nat \<Rightarrow> nat \<Rightarrow> nat" where
  "longest_number charClass points start pos =
     (if pos \<le> MaxNumericLength \<and> start + pos < length points then
        if \<not> hasClass (points ! (start + pos)) charClass then
          let charLength = checkExceptionalCharsInFigure charClass points start pos
          in if charLength > 0 then longest_number charClass points start (pos + charLength) else pos
        else longest_number charClass points start (pos + 1)
      else pos)"
  by pat_completeness auto
termination
  by (relation "measure (\<lambda>(_, _, _, pos). Suc MaxNumericLength - pos)") auto

declare longest_number.simps [simp del]

definition FindLongestNumber :: "character_class \<Rightarrow> input_codepoint list \<Rightarrow> nat \<Rightarrow> nat" where
  "FindLongestNumber charClass points start = longest_number charClass points start 0"

text \<open>Steps over some code points; the second component tells whether one of them left the trie.\<close>

fun number_steps :: "entries_holder \<Rightarrow> input_codepoint list \<Rightarrow> da_traversal \<Rightarrow> traverse_status \<Rightarrow> bool
    \<Rightarrow> (traverse_status \<times> bool \<times> da_traversal) option" where
  "number_steps h [] trav status nonode = Some (status, nonode, trav)"
| "number_steps h (cp # points) trav status nonode =
     (case index_step h (ic_bytes cp) trav of
        None \<Rightarrow> None
      | Some (status, trav) \<Rightarrow> number_steps h points trav status (nonode \<or> status = TsNoNode))"

definition numeric_spawn_at :: "unk_maker \<Rightarrow> dic_entry_buffer \<Rightarrow> input_codepoint list \<Rightarrow> nat \<Rightarrow> unk_state \<Rightarrow> unk_state option" where
  "numeric_spawn_at m buffer0 points i s =
     (let len = FindLongestNumber (um_charClass m) points i
      in if len > 0 then
           (case number_steps (um_entries m) (take len (drop i points)) (da_traversal_new (um_value0 m)) TsNoNode False of
              None \<Rightarrow> None
            | Some (status, nonode, trav) \<Rightarrow>
                let status = (if nonode then TsNoNode else status);
                    spawn = (\<lambda>notPrefix. spawn_unk m (input_surface points i (i + len)) notPrefix (word_of_nat i) (word_of_nat (i + len)) s)
                in Some (case status of
                     TsNoNode \<Rightarrow> spawn True
                   | TsNoLeaf \<Rightarrow> spawn False
                   | TsOk \<Rightarrow> if \<not> dicPatternMatches (um_info m) buffer0 (index_entries (um_entries m) trav) then spawn False else s))
         else Some s)"

definition numeric_spawnNodes :: "unk_maker \<Rightarrow> dic_entry_buffer \<Rightarrow> input_codepoint list \<Rightarrow> unk_state \<Rightarrow> unk_state option" where
  "numeric_spawnNodes m buffer0 points s = fold_option (numeric_spawn_at m buffer0 points) [0..<length points] s"

subsection \<open>Numbers stay in the input\<close>

lemma rest_length_inside: "at \<le> length points \<Longrightarrow> length points < 2 ^ 64 \<Longrightarrow> rest_length points at = length points - at"
  unfolding rest_length_def by (subst mod_pos_pos_trivial) simp_all

lemma first_match:
  "(case filter P xs of [] \<Rightarrow> 0 | y # _ \<Rightarrow> f y) = (r :: nat) \<Longrightarrow> r = 0 \<or> (\<exists>y \<in> set xs. P y \<and> f y = r)"
  by (cases "filter P xs") (auto dest: filter_eq_ConsD intro: bexI)

lemma suffix_bound:
  assumes "start + pos \<le> length points" "length points < 2 ^ 64"
  shows "start + pos + checkSuffix points start pos \<le> length points" "checkSuffix points start pos \<le> 2"
proof -
  let ?P = "\<lambda>itemp. hasClass (points ! (start + pos - 1)) FAMILY_EXCEPTION \<and> rest_length points (start + pos) \<ge> length itemp
    \<and> matches_at points (start + pos) itemp"
  have "checkSuffix points start pos = 0 \<or> (\<exists>itemp \<in> set suffixPatterns. ?P itemp \<and> length itemp = checkSuffix points start pos)"
    by (cases "pos > 0") (simp_all only: checkSuffix_def if_True if_False first_match [OF refl], simp)
  moreover have "\<forall>itemp\<in>set suffixPatterns. length itemp \<le> 2" by (simp add: suffixPatterns_def)
  ultimately show "start + pos + checkSuffix points start pos \<le> length points" "checkSuffix points start pos \<le> 2"
    using assms by (auto simp: rest_length_inside)
qed

lemma interfix_bound:
  assumes "start + pos \<le> length points" "length points < 2 ^ 64"
  shows "start + pos + checkInterfix charClass points start pos \<le> length points" "checkInterfix charClass points start pos \<le> 3"
proof -
  let ?P = "\<lambda>itemp. hasClass (points ! (start + pos - 1)) charClass \<and> rest_length points (start + pos) > length itemp
    \<and> hasClass (points ! (start + pos + length itemp)) charClass \<and> matches_at points (start + pos) itemp"
  have "checkInterfix charClass points start pos = 0
      \<or> (\<exists>itemp \<in> set interfixPatterns. ?P itemp \<and> length itemp = checkInterfix charClass points start pos)"
    by (cases "pos > 0") (simp_all only: checkInterfix_def if_True if_False first_match [OF refl], simp)
  moreover have "\<forall>itemp\<in>set interfixPatterns. length itemp \<le> 3" by (simp add: interfixPatterns_def)
  ultimately show "start + pos + checkInterfix charClass points start pos \<le> length points"
    "checkInterfix charClass points start pos \<le> 3"
    using assms by (auto simp: rest_length_inside)
qed

lemma prefix_bound:
  assumes "length points < 2 ^ 64" "start + pos \<le> length points"
  shows "start + pos + checkPrefix points start pos \<le> length points" "checkPrefix points start pos \<le> 3"
proof -
  let ?P = "\<lambda>itemp. start + pos + length itemp < length points
    \<and> (hasClass (points ! (start + pos + length itemp)) FIGURE_DIGIT \<or> checkSuffix points start (pos + length itemp) > 0)
    \<and> matches_at points (start + pos) itemp"
  have c: "checkPrefix points start pos = 0 \<or> (\<exists>itemp \<in> set prefixPatterns. ?P itemp
      \<and> length itemp + checkSuffix points start (pos + length itemp) = checkPrefix points start pos)"
    by (simp only: checkPrefix_def first_match [OF refl])
  have one: "length itemp = 1" if "itemp \<in> set prefixPatterns" for itemp using that by (auto simp: prefixPatterns_def)
  from c consider "checkPrefix points start pos = 0" | "start + pos + 1 < length points"
    "checkPrefix points start pos = 1 + checkSuffix points start (pos + 1)"
    by (metis one)
  then show "start + pos + checkPrefix points start pos \<le> length points" "checkPrefix points start pos \<le> 3"
    using suffix_bound [of start "pos + 1" points] assms by (cases; simp)+
qed

lemma exceptional_bound:
  assumes "start + pos < length points" "length points < 2 ^ 64"
  shows "start + pos + checkExceptionalCharsInFigure charClass points start pos \<le> length points"
    and "checkExceptionalCharsInFigure charClass points start pos \<le> 3"
  using prefix_bound [of points start pos] interfix_bound [of start pos points charClass] suffix_bound [of start pos points] assms
  by (simp_all add: checkExceptionalCharsInFigure_def checkComma_def checkPeriod_def Let_def)

lemma longest_number_bound:
  assumes "length points < 2 ^ 64" "start + pos \<le> length points" "pos \<le> MaxNumericLength + 3"
  shows "start + longest_number charClass points start pos \<le> length points
    \<and> longest_number charClass points start pos \<le> MaxNumericLength + 3"
  using assms
proof (induction charClass points start pos rule: longest_number.induct)
  case (1 charClass points start pos)
  let ?c = "checkExceptionalCharsInFigure charClass points start pos"
  show ?case
  proof (cases "pos \<le> MaxNumericLength \<and> start + pos < length points")
    case True
    note b = exceptional_bound [of start pos points charClass]
    have *: "start + longest_number charClass points start (pos + k) \<le> length points
      \<and> longest_number charClass points start (pos + k) \<le> MaxNumericLength + 3" if "k = 1 \<and> hasClass (points ! (start + pos)) charClass
        \<or> k = ?c \<and> 0 < ?c \<and> \<not> hasClass (points ! (start + pos)) charClass" for k
      using that "1.IH" b True "1.prems" by auto
    show ?thesis using * [of 1] * [of ?c] "1.prems"
      by (subst longest_number.simps, subst (2) longest_number.simps) (simp add: Let_def)
  next
    case False
    then have "longest_number charClass points start pos = pos" by (subst longest_number.simps) auto
    then show ?thesis using "1.prems" by simp
  qed
qed

subsection \<open>Words that repeat their first half\<close>

definition repeats :: "input_codepoint list \<Rightarrow> nat \<Rightarrow> nat \<Rightarrow> bool" where
  "repeats points start h \<longleftrightarrow> start + 2 * h \<le> length points
     \<and> list_all (\<lambda>g. hasClass (points ! (start + g)) (ic_charClass (points ! start))) [2..<Suc h]
     \<and> list_all (\<lambda>p. ic_codepoint (points ! (start + p)) = ic_codepoint (points ! (start + h + p))) [0..<h]"

lemma find_pattern_step:
  assumes "2 \<le> h" "h \<le> 4"
  shows "find_pattern points start h pat =
    (if start + 2 * h \<le> length points \<and> hasClass (points ! (start + h)) (ic_charClass (points ! start)) then
       find_pattern points start (h + 1)
         (if list_all (\<lambda>p. ic_codepoint (points ! (start + p)) = ic_codepoint (points ! (start + h + p))) [0..<h]
          then pat OR HalfLenToPattern h else pat)
     else pat)"
proof -
  have "h * 2 \<le> MaxOnomatopoeiaLength" "start + h * 2 - 1 < length points \<longleftrightarrow> start + 2 * h \<le> length points"
    using assms by (auto simp: MaxOnomatopoeiaLength_def)
  moreover have "[0..<h] = 0 # [1..<h]" using assms by (simp add: upt_conv_Cons)
  ultimately show ?thesis by (subst find_pattern.simps) (auto simp: Let_def)
qed

lemma find_pattern_last: "find_pattern points start 5 pat = pat"
  by (subst find_pattern.simps) (simp add: MaxOnomatopoeiaLength_def)

lemma find_pattern_repeats:
  "find_pattern points start 2 0 = fold (\<lambda>h pat. if repeats points start h then pat OR HalfLenToPattern h else pat) [2, 3, 4] 0"
proof -
  have r: "[2..<Suc 2] = [2]" "[2..<Suc 3] = [2, 3]" "[2..<Suc 4] = [2, 3, 4]" by (simp_all add: upt_rec)
  show ?thesis
    unfolding repeats_def r list.pred_inject
    by (simp add: find_pattern_step find_pattern_last del: upt_Suc)
qed

subsection \<open>All parts of a run are looked up\<close>

definition run_end :: "unk_maker \<Rightarrow> input_codepoint list \<Rightarrow> nat \<Rightarrow> nat" where
  "run_end m points i = i + length (takeWhile (\<lambda>cp. hasClass cp (um_charClass m)) (drop i points))"

lemma run_end_facts:
  assumes "i \<le> length points"
  shows "run_end m points i \<le> length points" "i \<le> run_end m points i"
    and "i \<le> j \<Longrightarrow> j < run_end m points i \<Longrightarrow> hasClass (points ! j) (um_charClass m)"
    and "run_end m points i < length points \<Longrightarrow> \<not> hasClass (points ! run_end m points i) (um_charClass m)"
proof -
  let ?P = "\<lambda>cp. hasClass cp (um_charClass m)"
  have "length (takeWhile ?P (drop i points)) \<le> length (drop i points)" by (rule length_takeWhile_le)
  then show "run_end m points i \<le> length points" "i \<le> run_end m points i" using assms by (simp_all add: run_end_def)
  show "?P (points ! j)" if "i \<le> j" "j < run_end m points i"
  proof -
    have k: "j - i < length (takeWhile ?P (drop i points))" using that by (simp add: run_end_def)
    then have "takeWhile ?P (drop i points) ! (j - i) = drop i points ! (j - i)" by (rule takeWhile_nth)
    then have "?P (drop i points ! (j - i))" using nth_mem [OF k] set_takeWhileD by metis
    then show ?thesis using that assms by simp
  qed
  show "\<not> ?P (points ! run_end m points i)" if "run_end m points i < length points"
  proof -
    have "length (takeWhile ?P (drop i points)) < length (drop i points)" using that assms by (simp add: run_end_def)
    from nth_length_takeWhile [OF this] show ?thesis using assms by (simp add: run_end_def)
  qed
qed

text \<open>What the maker does with the word from \<open>i\<close> to \<open>e\<close>: nothing when it is in the dictionary, otherwise a node with the flag that no longer word starts with it.\<close>

definition chunk_request :: "unk_maker \<Rightarrow> input_codepoint list \<Rightarrow> nat \<Rightarrow> nat \<Rightarrow> unk_state \<Rightarrow> unk_state" where
  "chunk_request m points i e s =
     (case lookup_word (um_entries m) (um_value0 m) (input_surface points i e) of
        Some (TsNoNode, _) \<Rightarrow> spawn_unk m (input_surface points i e) True (word_of_nat i) (word_of_nat e) s
      | Some (TsNoLeaf, _) \<Rightarrow> spawn_unk m (input_surface points i e) False (word_of_nat i) (word_of_nat e) s
      | _ \<Rightarrow> s)"

lemma unat_position: "n \<le> length points \<Longrightarrow> length points < 2 ^ 16 \<Longrightarrow> unat (word_of_nat n :: u16) = n"
  by (intro unat_of_nat_small) simp

lemma chunk_rest_run:
  assumes "length points < 2 ^ 16" "i \<le> j" "j \<le> run_end m points i" "i \<le> length points"
  shows "chunk_rest m points (word_of_nat i) (drop j points) (word_of_nat j) s
    = fold (\<lambda>e. spawn_unk m (input_surface points i e) True (word_of_nat i) (word_of_nat e)) [Suc j..<Suc (run_end m points i)] s"
  using assms(2,3)
proof (induction "length points - j" arbitrary: j s)
  case 0
  then have "j = run_end m points i" "drop j points = []" using run_end_facts(1) [OF assms(4), of m] by simp_all
  then show ?case by simp
next
  case (Suc n)
  then have j: "j < length points" by linarith
  then have cons: "drop j points = points ! j # drop (Suc j) points" by (simp add: Cons_nth_drop_Suc)
  have w: "(word_of_nat j + 1 :: u16) = word_of_nat (Suc j)" by simp
  have u: "unat (word_of_nat (Suc j) :: u16) = Suc j" "unat (word_of_nat i :: u16) = i"
    using j assms(1,4) by (intro unat_position; simp)+
  show ?case
  proof (cases "j = run_end m points i")
    case True
    then show ?thesis using run_end_facts(4) [OF assms(4), of m] j unfolding cons by simp
  next
    case False
    then have lt: "j < run_end m points i" using Suc.prems by simp
    then have "hasClass (points ! j) (um_charClass m)" using run_end_facts(3) [OF assms(4)] Suc.prems by blast
    moreover have "[Suc j..<Suc (run_end m points i)] = Suc j # [Suc (Suc j)..<Suc (run_end m points i)]"
      using lt by (subst upt_conv_Cons) simp_all
    moreover have "n = length points - Suc j" using Suc.hyps(2) by simp
    note IH = Suc.hyps(1) [OF this]
    ultimately show ?thesis unfolding cons using lt Suc.prems(1) by (simp only: chunk_rest.simps w u IH le_SucI Suc_leI fold_simps if_False simp_thms)
  qed
qed

lemma input_surface_Suc:
  assumes "i \<le> j" "j < length points"
  shows "input_surface points i (Suc j) = input_surface points i j @ ic_bytes (points ! j)"
proof -
  have "Suc j - i = Suc (j - i)" "j - i < length (drop i points)" using assms by simp_all
  then have "take (Suc j - i) (drop i points) = take (j - i) (drop i points) @ [points ! j]"
    using assms by (simp only: take_Suc_conv_app_nth) simp
  then show ?thesis using assms by (simp add: input_surface_def text_of_def)
qed

lemma input_surface_split:
  assumes "i < j" "j \<le> e"
  shows "input_surface points i e = input_surface points i j @ text_of (take (e - j) (drop j points))"
proof -
  have "e - i = (j - i) + (e - j)" "drop (j - i) (drop i points) = drop j points" using assms by simp_all
  then have "take (e - i) (drop i points) = take (j - i) (drop i points) @ take (e - j) (drop j points)"
    by (simp only: take_add)
  then show ?thesis using assms by (simp add: input_surface_def text_of_def)
qed

lemma chunk_loop_done: "\<not> unat j < length points \<Longrightarrow> chunk_loop m points i j trav s = Some s"
  by (subst chunk_loop.simps) simp

lemma chunk_loop_run:
  assumes "length points < 65535" "i \<le> length points"
    and "\<And>e. i < e \<Longrightarrow> e \<le> run_end m points i \<Longrightarrow> lookup_word (um_entries m) (um_value0 m) (input_surface points i e) \<noteq> None"
  shows "at_word (um_entries m) (um_value0 m) (input_surface points i j) trav \<Longrightarrow> i \<le> j \<Longrightarrow> j \<le> run_end m points i \<Longrightarrow>
    chunk_loop m points (word_of_nat i) (word_of_nat j) trav s
      = Some (fold (chunk_request m points i) [Suc j..<Suc (run_end m points i)] s)"
proof (induction "run_end m points i - j" arbitrary: j trav s)
  case 0
  then have "j = run_end m points i" by simp
  moreover have "unat (word_of_nat j :: u16) = j"
    using calculation run_end_facts(1) [OF assms(2), of m] order.strict_trans [OF assms(1), of "2 ^ 16"] by (intro unat_position) simp_all
  ultimately show ?case using run_end_facts(4) [OF assms(2), of m] by (subst chunk_loop.simps) auto
next
  case (Suc n)
  let ?h = "um_entries m" and ?v = "um_value0 m" and ?r = "run_end m points i"
  have j: "j < ?r" "j < length points" "n = ?r - Suc j"
    using Suc.hyps(2) run_end_facts(1) [OF assms(2), of m] by simp_all
  then have cls: "hasClass (points ! j) (um_charClass m)" using run_end_facts(3) [OF assms(2)] Suc.prems(2) by blast
  have w: "(word_of_nat j + 1 :: u16) = word_of_nat (Suc j)" by simp
  have u: "unat (word_of_nat (Suc j) :: u16) = Suc j" "unat (word_of_nat j :: u16) = j" "unat (word_of_nat i :: u16) = i"
    using j(2) assms(2) order.strict_trans [OF assms(1), of "2 ^ 16"] by (intro unat_position; simp)+
  have surf: "input_surface points i (Suc j) = input_surface points i j @ ic_bytes (points ! j)"
    by (rule input_surface_Suc [OF Suc.prems(2) j(2)])
  have "lookup_word ?h ?v (input_surface points i (Suc j)) \<noteq> None" using assms(3) [of "Suc j"] j(1) Suc.prems(2) by simp
  then obtain status trav' where step: "index_step ?h (ic_bytes (points ! j)) trav = Some (status, trav')"
    using dictionary.step_inside [OF Suc.prems(1), of "ic_bytes (points ! j)"] by (auto simp: surf)
  note req = dictionary.step_told [OF Suc.prems(1) step, folded surf]
  have range: "[Suc j..<Suc ?r] = Suc j # [Suc (Suc j)..<Suc ?r]" using j(1) by (subst upt_conv_Cons) simp_all
  show ?case
  proof (cases "status = TsNoNode")
    case True
    have rq: "chunk_request m points i e = spawn_unk m (input_surface points i e) True (word_of_nat i) (word_of_nat e)"
      if "Suc j \<le> e" for e
      using that Suc.prems(2) True req
        dictionary.look_dead [of ?h ?v "input_surface points i (Suc j)" None "text_of (take (e - Suc j) (drop (Suc j) points))"]
        input_surface_split [of i "Suc j" e points] by (intro ext) (simp add: chunk_request_def verdict_def)
    have "(word_of_nat (length points) + 1 :: u16) = word_of_nat (Suc (length points))" by simp
    moreover have "unat (word_of_nat (Suc (length points)) :: u16) = Suc (length points)"
      using assms(1) by (intro unat_of_nat_small) simp
    ultimately have "unat (word_of_nat (length points) + 1 :: u16) = Suc (length points)" by (simp only:)
    then have ended: "chunk_loop m points (word_of_nat i) (word_of_nat (length points) + 1) trav' s' = Some s'" for s'
      by (intro chunk_loop_done) simp
    have "length points < 2 ^ 16" using assms(1) by (rule order.strict_trans) simp
    note rest = chunk_rest_run [OF this Suc.prems(2,3) assms(2), of s]
    have "fold (\<lambda>e. spawn_unk m (input_surface points i e) True (word_of_nat i) (word_of_nat e)) [Suc j..<Suc ?r] s
        = fold (chunk_request m points i) [Suc j..<Suc ?r] s"
      using rq by (intro fold_cong) (auto simp del: upt_Suc)
    then show ?thesis
      by (subst chunk_loop.simps) (simp only: u j(2) cls step True ended rest if_True simp_thms if_False option.case prod.case traverse_status.case)
  next
    case False
    from dictionary.step_at [OF Suc.prems(1) step False] have IH: "chunk_loop m points (word_of_nat i) (word_of_nat (Suc j)) trav' s'
        = Some (fold (chunk_request m points i) [Suc (Suc j)..<Suc ?r] s')" for s'
      using Suc.prems(2) j(1) unfolding surf [symmetric] by (intro Suc.hyps(1) [OF j(3)]) simp_all
    have "chunk_request m points i (Suc j) s = (if status = TsNoLeaf
        then spawn_unk m (input_surface points i (Suc j)) False (word_of_nat i) (word_of_nat (Suc j)) s else s)"
      using False by (simp add: chunk_request_def req verdict_def split: traverse_status.splits)
    then show ?thesis using False unfolding range
      by (subst chunk_loop.simps, cases status) (simp_all only: u w j(2) cls step IH if_True simp_thms if_False option.case prod.case
        traverse_status.case traverse_status.simps fold_simps)
  qed
qed

lemma fold_option_some:
  "(\<And>x s. x \<in> set xs \<Longrightarrow> f x s = Some (g x s)) \<Longrightarrow> fold_option f xs s = Some (fold g xs s)"
  by (induction xs arbitrary: s) simp_all

text \<open>The seeds of a state lie in an input of \<open>n\<close> code points and are not empty.\<close>

definition seeds_inside :: "nat \<Rightarrow> unk_state \<Rightarrow> bool" where
  "seeds_inside n s \<longleftrightarrow> list_all (\<lambda>sd. unat (sd_start sd) < unat (sd_end sd) \<and> unat (sd_end sd) \<le> n) (lbd_seeds (snd s))"

lemma spawn_inside:
  assumes "seeds_inside n s" "unat start < unat stop" "unat stop \<le> n"
  shows "seeds_inside n (spawn_unk m w notPrefix start stop s)"
  using assms by (auto simp: seeds_inside_def spawn_unk_def appendSeed_def split: prod.splits)

lemma numeric_at_inside:
  assumes "length points < 2 ^ 16" "i < length points" "numeric_spawn_at m buffer0 points i s = Some s'" "seeds_inside (length points) s"
  shows "seeds_inside (length points) s'"
proof (cases "FindLongestNumber (um_charClass m) points i > 0")
  case True
  let ?len = "FindLongestNumber (um_charClass m) points i"
  have "i + ?len \<le> length points"
    using longest_number_bound [of points i 0 "um_charClass m"] assms(1,2) by (simp add: FindLongestNumber_def)
  then have u: "unat (word_of_nat i :: u16) = i" "unat (word_of_nat (i + ?len) :: u16) = i + ?len" "i + ?len \<le> length points"
    using assms(1,2) unat_position [of i points] unat_position [of "i + ?len" points] by simp_all
  then have "seeds_inside (length points) (spawn_unk m w np (word_of_nat i) (word_of_nat (i + ?len)) s)" for w np
    using True assms(4) by (intro spawn_inside) simp_all
  then show ?thesis using assms(3,4) True
    by (auto simp: numeric_spawn_at_def Let_def simp del: of_nat_add split: option.splits traverse_status.splits if_splits)
qed (use assms in \<open>simp add: numeric_spawn_at_def Let_def\<close>)

lemma fold_option_inv:
  "fold_option f xs s = Some s' \<Longrightarrow> P s \<Longrightarrow> (\<And>x s s'. x \<in> set xs \<Longrightarrow> f x s = Some s' \<Longrightarrow> P s \<Longrightarrow> P s') \<Longrightarrow> P s'"
proof (induction xs arbitrary: s)
  case (Cons x xs)
  then obtain t where t: "f x s = Some t" "fold_option f xs t = Some s'" by (auto split: option.splits)
  have "P t" using Cons.prems(3) [OF _ t(1) Cons.prems(2)] by simp
  then show ?case by (rule Cons.IH [OF t(2)]) (rule Cons.prems(3), simp_all)
qed simp

subsection \<open>Properties\<close>

text \<open>C12: The maker for runs of a character class treats every part of every run in order as if it were looked up by itself: a part that is in the dictionary
  makes no node, any other makes one node with a seed, flagged when no dictionary word starts with it. Giving up the trie in the middle of a run loses nothing,
  and the loops end, for fewer than 65535 code points; with 65535 the 16-bit counter of the inner loop would wrap around.
\<close>

theorem chunking_looks_up_all_parts:
  assumes "lookups_inside (um_entries m) (um_value0 m) points" "length points < 65535"
  shows "chunking_spawnNodes m points s
    = Some (fold (\<lambda>i. fold (chunk_request m points i) [Suc i..<Suc (run_end m points i)]) [0..<length points] s)"
  unfolding chunking_spawnNodes_def
proof (rule fold_option_some)
  fix i s
  assume "i \<in> set [0..<length points]"
  then have i: "i < length points" by simp
  then have le: "i \<le> length points" by simp
  show "(if \<not> hasClass (points ! i) (um_charClass m) then Some s
      else chunk_loop m points (word_of_nat i) (word_of_nat i) (da_traversal_new (um_value0 m)) s)
    = Some (fold (chunk_request m points i) [Suc i..<Suc (run_end m points i)] s)"
  proof (cases "hasClass (points ! i) (um_charClass m)")
    case True
    have "lookup_word (um_entries m) (um_value0 m) (input_surface points i e) \<noteq> None" if "i < e" "e \<le> run_end m points i" for e
    proof -
      have "e \<le> length points" using that(2) run_end_facts(1) [OF le, of m] by simp
      then have "e - i \<in> set [1..<Suc (length points - i)]" "i \<in> set [0..<length points]" using that(1) i by (simp_all del: upt_Suc, linarith)
      with assms(1) show ?thesis using that(1) unfolding lookups_inside_def list_all_iff input_surface_def by auto
    qed
    then show ?thesis using True run_end_facts(2) [OF le, of m]
      by (simp only: simp_thms if_False) (intro chunk_loop_run assms(2) le; simp add: input_surface_def at_root)
  next
    case False
    then have "run_end m points i = i" using i by (simp add: run_end_def Cons_nth_drop_Suc [symmetric])
    then show ?thesis using False by simp
  qed
qed

definition no_seeds :: unk_state where
  "no_seeds = (xc_new 2 1, empty_builder)"

definition b_points :: "input_codepoint list" where
  "b_points = replicate 2 \<lparr>ic_codepoint = 0x62, ic_charClass = ALPH, ic_bytes = [0x62]\<rparr>"

definition b_maker :: unk_maker where
  "b_maker = \<lparr>um_entries = small_dictionary, um_charClass = ALPH, um_info = sample_config, um_fresh = 0, um_value0 = 0\<rparr>"

lemma b_points_eq: "b_points = [\<lparr>ic_codepoint = 0x62, ic_charClass = ALPH, ic_bytes = [0x62]\<rparr>, \<lparr>ic_codepoint = 0x62, ic_charClass = ALPH, ic_bytes = [0x62]\<rparr>]"
  by (simp add: b_points_def numeral_2_eq_2)

lemma b_lookup: "lookup_word small_dictionary 0 [0x62, 0x62] = Some (TsNoNode, None)"
  by (simp add: small_dictionary_def lookup_word_def verdict_def trie_eval)

theorem chunking_looks_up_all_parts_witness:
  "chunking_spawnNodes b_maker b_points no_seeds
    = Some (spawn_unk b_maker [0x62] True 1 2 (spawn_unk b_maker [0x62, 0x62] True 0 2 (spawn_unk b_maker [0x62] True 0 1 no_seeds)))"
proof -
  have run: "run_end b_maker b_points 0 = 2" "run_end b_maker b_points (Suc 0) = 2"
    by (simp_all add: run_end_def b_maker_def b_points_eq hasClass_def IsCompatibleCharClass_def cc_defs)
  have surf: "input_surface b_points 0 (Suc 0) = [0x62]" "input_surface b_points 0 2 = [0x62, 0x62]" "input_surface b_points (Suc 0) 2 = [0x62]"
    by (simp_all add: input_surface_def b_points_eq text_of_def)
  have lk: "lookups_inside (um_entries b_maker) (um_value0 b_maker) b_points"
    by (simp add: lookups_inside_def b_maker_def b_points_eq text_of_def small_lookups b_lookup)
  have len: "length b_points = 2" by (simp add: b_points_eq)
  have rg: "[Suc 0..<Suc 2] = [1, 2]" "[Suc (Suc 0)..<Suc 2] = [2]" "[0..<2] = [0, Suc 0]" by (simp_all add: upt_rec)
  have "length b_points < 65535" by (simp add: len)
  note chunking_looks_up_all_parts [OF lk this, of no_seeds, unfolded len rg fold_simps run]
  moreover have "um_entries b_maker = small_dictionary" "um_value0 b_maker = 0" by (simp_all add: b_maker_def)
  ultimately show ?thesis by (simp add: chunk_request_def surf small_lookups b_lookup)
qed

text \<open>C28: The maker for numbers never leaves the input: the number it finds at a position ends inside the input and is at most 67 code points long (a prefix, an infix or a suffix can
  follow the 64th), so every seed it adds is not empty and lies in the input, whatever exceptional characters it skips.
\<close>

theorem numbers_stay_inside:
  assumes "length points < 2 ^ 16" "numeric_spawnNodes m buffer0 points s = Some s'" "seeds_inside (length points) s"
  shows "seeds_inside (length points) s'
    \<and> list_all (\<lambda>i. i + FindLongestNumber (um_charClass m) points i \<le> length points \<and> FindLongestNumber (um_charClass m) points i \<le> 67)
        [0..<length points]"
proof
  show "seeds_inside (length points) s'"
    by (rule fold_option_inv [where P = "seeds_inside (length points)", OF assms(2) [unfolded numeric_spawnNodes_def] assms(3)])
      (use numeric_at_inside [OF assms(1)] in auto)
  show "list_all (\<lambda>i. i + FindLongestNumber (um_charClass m) points i \<le> length points \<and> FindLongestNumber (um_charClass m) points i \<le> 67)
        [0..<length points]"
    using longest_number_bound [of points _ 0 "um_charClass m"] assms(1) by (auto simp: list_all_iff FindLongestNumber_def MaxNumericLength_def)
qed

text \<open>The figure 7 and the unit \<open>kiro\<close>; no word of the dictionary starts with the bytes.\<close>

definition number_points :: "input_codepoint list" where
  "number_points = [\<lparr>ic_codepoint = 0x37, ic_charClass = FIGURE, ic_bytes = [0x62]\<rparr>, \<lparr>ic_codepoint = 0x30AD, ic_charClass = KATAKANA, ic_bytes = [0x62]\<rparr>,
     \<lparr>ic_codepoint = 0x30ED, ic_charClass = KATAKANA, ic_bytes = [0x62]\<rparr>]"

definition number_maker :: unk_maker where
  "number_maker = b_maker\<lparr>um_charClass := FAMILY_DIGITS\<rparr>"

lemma number_lengths:
  "FindLongestNumber FAMILY_DIGITS number_points 0 = 3" "FindLongestNumber FAMILY_DIGITS number_points 1 = 0"
  "FindLongestNumber FAMILY_DIGITS number_points 2 = 0"
  by code_simp+

lemma small_trie_other: "da_step small_trie [0x62] (da_traversal_new 0) = Some (TsNoNode, da_traversal_new 0)"
  by (simp add: trie_eval)

lemma number_walk:
  "number_steps small_dictionary number_points (da_traversal_new 0) TsNoNode False = Some (TsNoNode, True, da_traversal_new 0)"
  by (simp add: number_points_def index_step_def small_dictionary_def small_trie_other)

theorem numbers_stay_inside_witness:
  "\<exists>s'. numeric_spawnNodes number_maker sample_buffer number_points no_seeds = Some s' \<and> seeds_inside 3 s'"
proof -
  have m: "um_charClass number_maker = FAMILY_DIGITS" "um_entries number_maker = small_dictionary" "um_value0 number_maker = 0"
    by (simp_all add: number_maker_def b_maker_def)
  have len: "length number_points = 3" by (simp add: number_points_def)
  have rg: "[0..<3] = [0, 1, 2]" "take 3 (drop 0 number_points) = number_points" by (simp_all add: upt_rec len)
  obtain s' where s': "numeric_spawnNodes number_maker sample_buffer number_points no_seeds = Some s'"
    unfolding numeric_spawnNodes_def numeric_spawn_at_def len rg fold_option.simps m number_lengths Let_def number_walk by simp
  have "length number_points < 2 ^ 16" "seeds_inside (length number_points) no_seeds" by (simp_all add: len no_seeds_def empty_builder_def seeds_inside_def)
  from numbers_stay_inside [OF this(1) s' this(2)] s' show ?thesis unfolding len by blast
qed

text \<open>C36: \<open>FindOnomatopoeia\<close> finds nothing unless the first character has the class of the maker, the second one the
  class of the first, and at least five characters are left, so that a repetition of two characters at the very end
  of the input is never found. Otherwise it gives exactly the half lengths 2, 3 and 4 for which the word of twice that length lies in the input, repeats its first half, and has only characters of the
  class of its first character from the third on up to the middle.
\<close>

theorem onomatopoeia_patterns:
  "FindOnomatopoeia charClass points start =
     (if start + 4 < length points \<and> hasClass (points ! start) charClass \<and> hasClass (points ! (start + 1)) (ic_charClass (points ! start))
      then fold (\<lambda>h pattern. if repeats points start h then pattern OR HalfLenToPattern h else pattern) [2, 3, 4] 0 else 0)"
  by (simp only: FindOnomatopoeia_def MinOnomatopoeiaLength_def find_pattern_repeats) (simp add: not_le not_less)

end
