(* ===== verification/CharLattice.thy ===== *)
theory CharLattice
  imports UnkMakers "HOL-Library.Product_Lexorder"
begin

text \<open>
  The maker of nodes for words in another spelling (\<open>src/src/core/analysis/normalized_node_creator.cc\<close>): long vowels that are
  written with a prolongation mark, small kana in place of large ones, and kana that only lengthen a word. \<open>CharLattice\<close>
  (\<open>charlattice.h\<close>, \<open>charlattice.cc\<close>) keeps for every position of the input the characters that may stand there instead, and
  \<open>CharLattceTraversal\<close> walks the trie of the dictionary over all spellings at once. The states of the traversal live in
  memory that is used again; here they are values, and \<open>buffer_\<close> with the free ones is not kept. A read outside the array of the
  trie is the result \<open>None\<close>.
\<close>

subsection \<open>Kinds of variants\<close>

type_synonym modifiers = u32

named_theorems modifier_defs

definition Mod_EMPTY :: modifiers where [modifier_defs]: "Mod_EMPTY = 0x00000000"
definition Mod_ORIGINAL :: modifiers where [modifier_defs]: "Mod_ORIGINAL = 0x00000001"
definition Mod_REPLACE_SMALLKANA :: modifiers where [modifier_defs]: "Mod_REPLACE_SMALLKANA = 0x00000002"
definition Mod_REPLACE :: modifiers where [modifier_defs]: "Mod_REPLACE = 0x00000004"
definition Mod_DELETE :: modifiers where [modifier_defs]: "Mod_DELETE = 0x00000008"
definition Mod_REPLACE_PROLONG :: modifiers where [modifier_defs]: "Mod_REPLACE_PROLONG = 0x00000010"
definition Mod_DELETE_LAST :: modifiers where [modifier_defs]: "Mod_DELETE_LAST = 0x00000020"
definition Mod_DELETE_PROLONG :: modifiers where [modifier_defs]: "Mod_DELETE_PROLONG = 0x00000040"
definition Mod_DELETE_HASTSUON :: modifiers where [modifier_defs]: "Mod_DELETE_HASTSUON = 0x00000080"
definition Mod_DELETE_SMALLKANA :: modifiers where [modifier_defs]: "Mod_DELETE_SMALLKANA = 0x00000100"
definition Mod_REPLACE_EROW_WITH_E :: modifiers where [modifier_defs]: "Mod_REPLACE_EROW_WITH_E = 0x00000200"

definition ExistFlag :: "modifiers \<Rightarrow> modifiers \<Rightarrow> bool" where
  "ExistFlag general query \<longleftrightarrow> general AND query \<noteq> Mod_EMPTY"

record char_node =
  cn_cp :: input_codepoint
  cn_type :: modifiers

definition cn_hasType :: "char_node \<Rightarrow> modifiers \<Rightarrow> bool" where
  "cn_hasType n type \<longleftrightarrow> cn_type n AND type \<noteq> Mod_EMPTY"

definition cn_isReplace :: "char_node \<Rightarrow> bool" where
  "cn_isReplace n = cn_hasType n Mod_REPLACE_PROLONG"

definition cn_isDelete :: "char_node \<Rightarrow> bool" where
  "cn_isDelete n = cn_hasType n Mod_DELETE"

subsection \<open>Character tables\<close>

text \<open>The tables of \<open>CharDb\<close>. Inserting a key that is there already does not change a \<open>FlatMap\<close>, so that the first pair of a key counts.\<close>

definition DEF_PROLONG_SYMBOL3 :: u32 where "DEF_PROLONG_SYMBOL3 = 0x3063"
definition DEF_PROLONG_SYMBOL4 :: u32 where "DEF_PROLONG_SYMBOL4 = 0x30C3"

definition lower2upper :: "(u32 \<times> byte_string) list" where
  "lower2upper =
    [(0x3041, [0xE3, 0x81, 0x82]), (0x3043, [0xE3, 0x81, 0x84]), (0x3045, [0xE3, 0x81, 0x86]), (0x3047, [0xE3, 0x81, 0x88]),
     (0x3049, [0xE3, 0x81, 0x8A]), (0x308E, [0xE3, 0x82, 0x8F]), (0x30F6, [0xE3, 0x82, 0xB1]), (0x30B1, [0xE3, 0x83, 0xB6])]"

definition prolongedMap :: "(u32 \<times> byte_string) list" where
  "prolongedMap =
    [(0x304B, [0xE3, 0x81, 0x82]), (0x304C, [0xE3, 0x81, 0x82]), (0x3070, [0xE3, 0x81, 0x82]), (0x307E, [0xE3, 0x81, 0x82]),
     (0x3083, [0xE3, 0x81, 0x82]), (0x3044, [0xE3, 0x81, 0x84]), (0x304D, [0xE3, 0x81, 0x84]), (0x3057, [0xE3, 0x81, 0x84]),
     (0x3061, [0xE3, 0x81, 0x84]), (0x306B, [0xE3, 0x81, 0x84]), (0x3072, [0xE3, 0x81, 0x84]), (0x3058, [0xE3, 0x81, 0x84]),
     (0x3051, [0xE3, 0x81, 0x84]), (0x305B, [0xE3, 0x81, 0x84]), (0x3078, [0xE3, 0x81, 0x84]), (0x3081, [0xE3, 0x81, 0x84]),
     (0x308C, [0xE3, 0x81, 0x84]), (0x3052, [0xE3, 0x81, 0x84]), (0x305C, [0xE3, 0x81, 0x84]), (0x3067, [0xE3, 0x81, 0x84]),
     (0x3079, [0xE3, 0x81, 0x84]), (0x307A, [0xE3, 0x81, 0x84]), (0x304F, [0xE3, 0x81, 0x86]), (0x3059, [0xE3, 0x81, 0x86]),
     (0x3064, [0xE3, 0x81, 0x86]), (0x3075, [0xE3, 0x81, 0x86]), (0x3086, [0xE3, 0x81, 0x86]), (0x3050, [0xE3, 0x81, 0x86]),
     (0x305A, [0xE3, 0x81, 0x86]), (0x3077, [0xE3, 0x81, 0x86]), (0x3085, [0xE3, 0x81, 0x86]), (0x304A, [0xE3, 0x81, 0x86]),
     (0x3053, [0xE3, 0x81, 0x86]), (0x305D, [0xE3, 0x81, 0x86]), (0x3068, [0xE3, 0x81, 0x86]), (0x306E, [0xE3, 0x81, 0x86]),
     (0x307B, [0xE3, 0x81, 0x86]), (0x3082, [0xE3, 0x81, 0x86]), (0x3088, [0xE3, 0x81, 0x86]), (0x308D, [0xE3, 0x81, 0x86]),
     (0x3054, [0xE3, 0x81, 0x86]), (0x305E, [0xE3, 0x81, 0x86]), (0x3069, [0xE3, 0x81, 0x86]), (0x307C, [0xE3, 0x81, 0x86]),
     (0x307D, [0xE3, 0x81, 0x86]), (0x3087, [0xE3, 0x81, 0x86]), (0x3048, [0xE3, 0x81, 0x84]), (0x306D, [0xE3, 0x81, 0x84])]"

definition prolongedMapForErow :: "(u32 \<times> byte_string) list" where
  "prolongedMapForErow =
    [(0x3048, [0xE3, 0x81, 0x88]), (0x3051, [0xE3, 0x81, 0x88]), (0x3052, [0xE3, 0x81, 0x88]), (0x305B, [0xE3, 0x81, 0x88]),
     (0x305C, [0xE3, 0x81, 0x88]), (0x3066, [0xE3, 0x81, 0x88]), (0x3067, [0xE3, 0x81, 0x88]), (0x306D, [0xE3, 0x81, 0x88]),
     (0x3078, [0xE3, 0x81, 0x88]), (0x3079, [0xE3, 0x81, 0x88]), (0x3081, [0xE3, 0x81, 0x88]), (0x308C, [0xE3, 0x81, 0x88])]"

definition lowerList :: "u32 list" where
  "lowerList =
    [0x3041, 0x3043, 0x3045, 0x3047, 0x3049]"

definition lowerMap :: "(u32 \<times> u32) list" where
  "lowerMap =
    [(0x304B, 0x3041), (0x3055, 0x3041), (0x305F, 0x3041), (0x306A, 0x3041), (0x306F, 0x3041), (0x307E, 0x3041),
     (0x3084, 0x3041), (0x3089, 0x3041), (0x308F, 0x3041), (0x304C, 0x3041), (0x3056, 0x3041), (0x3060, 0x3041),
     (0x3070, 0x3041), (0x3071, 0x3041), (0x3044, 0x3043), (0x3057, 0x3043), (0x306B, 0x3043), (0x308A, 0x3043),
     (0x304E, 0x3043), (0x3058, 0x3043), (0x306D, 0x3043), (0x308C, 0x3043), (0x305C, 0x3043), (0x3046, 0x3045),
     (0x304F, 0x3045), (0x3059, 0x3045), (0x3075, 0x3045), (0x3080, 0x3045), (0x308B, 0x3045), (0x3088, 0x3045),
     (0x3051, 0x3047), (0x305B, 0x3047), (0x3066, 0x3047), (0x3081, 0x3047), (0x308C, 0x3047), (0x305C, 0x3047),
     (0x3067, 0x3047), (0x3053, 0x3049), (0x305D, 0x3049), (0x306E, 0x3049), (0x3082, 0x3049), (0x3088, 0x3049),
     (0x308D, 0x3049), (0x305E, 0x3049), (0x3069, 0x3049)]"

text \<open>\<open>toCodepoint\<close> over the result of a lookup.\<close>

definition find_codepoint :: "(u32 \<times> byte_string) list \<Rightarrow> u32 \<Rightarrow> input_codepoint option" where
  "find_codepoint table c = map_option mkInputCodepoint (map_of table c)"

subsection \<open>The variants of the characters of an input\<close>

definition isRemovableProlong :: "bool \<Rightarrow> input_codepoint list \<Rightarrow> nat \<Rightarrow> bool" where
  "isRemovableProlong preIsDeleted codepoints pos =
     (if pos < 1 then False
      else if \<not> hasClass (codepoints ! pos) CHOON then False
      else if preIsDeleted then True
      else IsCompatibleCharClass (ic_charClass (codepoints ! (pos - 1))) FAMILY_PROLONGABLE)"

definition alwaysDeleteFor :: character_class where
  "alwaysDeleteFor =
     SPACE OR IDEOGRAPHIC_PUNC OR FIGURE OR PERIOD OR MIDDLE_DOT OR ALPH OR SYMBOL OR BRACKET OR SLASH OR COLON OR COMMA"

definition CheckRemovableHatsuon :: "bool \<Rightarrow> input_codepoint list \<Rightarrow> nat \<Rightarrow> bool" where
  "CheckRemovableHatsuon preIsDeleted codepoints pos =
     (let currentCp = codepoints ! pos; nextCp = codepoints ! (pos + 1); prevCp = codepoints ! (pos - 1)
      in if pos = 0 then False
         else if ic_codepoint currentCp \<noteq> DEF_PROLONG_SYMBOL3 \<and> ic_codepoint currentCp \<noteq> DEF_PROLONG_SYMBOL4 then False
         else if preIsDeleted then True
         else if pos + 1 \<ge> length codepoints then True
         else if IsCompatibleCharClass (ic_charClass nextCp) alwaysDeleteFor then True
         else if ic_codepoint currentCp = ic_codepoint nextCp then True
         else IsCompatibleCharClass (ic_charClass nextCp AND ic_charClass prevCp AND ic_charClass currentCp) FAMILY_FULL_KANA)"

definition CheckRemovableYouon :: "bool \<Rightarrow> input_codepoint list \<Rightarrow> nat \<Rightarrow> bool" where
  "CheckRemovableYouon preIsDeleted codepoints pos =
     (let currentCp = codepoints ! pos; lastCp = codepoints ! (pos - 1)
      in if pos = 0 then False
         else map_of lowerMap (ic_codepoint lastCp) = Some (ic_codepoint currentCp)
           \<or> (preIsDeleted \<and> ic_codepoint currentCp \<in> set lowerList \<and> ic_codepoint currentCp = ic_codepoint lastCp))"

definition CheckSubstituteChoon :: "input_codepoint list \<Rightarrow> nat \<Rightarrow> (u32 \<times> byte_string) list \<Rightarrow> bool" where
  "CheckSubstituteChoon codepoints pos table =
     (if pos > 0 \<and> hasClass (codepoints ! pos) CHOON then find_codepoint table (ic_codepoint (codepoints ! (pos - 1))) \<noteq> None
      else False)"

definition CheckSubstituteLower :: "input_codepoint list \<Rightarrow> nat \<Rightarrow> bool" where
  "CheckSubstituteLower codepoints pos \<longleftrightarrow> find_codepoint lower2upper (ic_codepoint (codepoints ! pos)) \<noteq> None"

record char_lattice =
  cl_constructed :: bool
  cl_nodeList :: "char_node list list"
  cl_notNormal :: u32

definition cl_new :: char_lattice where
  "cl_new = \<lparr>cl_constructed = False, cl_nodeList = [], cl_notNormal = 0\<rparr>"

definition cl_add :: "nat \<Rightarrow> input_codepoint \<Rightarrow> modifiers \<Rightarrow> char_lattice \<Rightarrow> char_lattice" where
  "cl_add pos cp flags cl =
     (let cl = (if flags \<noteq> Mod_ORIGINAL then cl\<lparr>cl_notNormal := cl_notNormal cl + 1\<rparr> else cl)
      in cl\<lparr>cl_nodeList := (cl_nodeList cl)[pos := cl_nodeList cl ! pos @ [\<lparr>cn_cp = cp, cn_type = flags\<rparr>]]\<rparr>)"

definition isApplicable :: "char_lattice \<Rightarrow> bool" where
  "isApplicable cl \<longleftrightarrow> cl_notNormal cl \<noteq> 0"

text \<open>The first half of the body of the loop of \<open>Parse\<close>: substitution. A table that has the key gives its value.\<close>

definition substitute_at :: "input_codepoint list \<Rightarrow> nat \<Rightarrow> char_lattice \<Rightarrow> char_lattice" where
  "substitute_at codepoints pos cl =
     (let prev = ic_codepoint (codepoints ! (pos - 1))
      in if CheckSubstituteChoon codepoints pos prolongedMap then
           let cl = cl_add pos (the (find_codepoint prolongedMap prev)) (Mod_REPLACE OR Mod_REPLACE_PROLONG) cl
           in if CheckSubstituteChoon codepoints pos prolongedMapForErow then
                cl_add pos (the (find_codepoint prolongedMapForErow prev)) (Mod_REPLACE OR Mod_REPLACE_PROLONG OR Mod_REPLACE_EROW_WITH_E) cl
              else cl
         else if CheckSubstituteLower codepoints pos then
           cl_add pos (the (find_codepoint lower2upper (ic_codepoint (codepoints ! pos)))) (Mod_REPLACE OR Mod_REPLACE_SMALLKANA) cl
         else cl)"

text \<open>The second half: deletion.\<close>

definition delete_at :: "bool \<Rightarrow> input_codepoint list \<Rightarrow> nat \<Rightarrow> char_lattice \<Rightarrow> bool \<times> char_lattice" where
  "delete_at preIsDeleted codepoints pos cl =
     (let skipped = mkInputCodepoint []
      in if isRemovableProlong preIsDeleted codepoints pos then (True, cl_add pos skipped (Mod_DELETE OR Mod_DELETE_PROLONG) cl)
         else if CheckRemovableHatsuon preIsDeleted codepoints pos then (True, cl_add pos skipped (Mod_DELETE OR Mod_DELETE_HASTSUON) cl)
         else if CheckRemovableYouon preIsDeleted codepoints pos then (True, cl_add pos skipped (Mod_DELETE OR Mod_DELETE_SMALLKANA) cl)
         else (False, cl))"

definition parse_at :: "input_codepoint list \<Rightarrow> nat \<Rightarrow> bool \<times> char_lattice \<Rightarrow> bool \<times> char_lattice" where
  "parse_at codepoints pos s =
     (if hasClass (codepoints ! pos) FAMILY_DOUBLE
      then delete_at (fst s) codepoints pos (substitute_at codepoints pos (snd s))
      else (False, snd s))"

definition cl_Parse :: "input_codepoint list \<Rightarrow> char_lattice \<Rightarrow> char_lattice" where
  "cl_Parse codepoints cl =
     (let cl = cl\<lparr>cl_nodeList := replicate (length codepoints) []\<rparr>
      in (snd (fold (parse_at codepoints) [0..<length codepoints] (False, cl)))\<lparr>cl_constructed := True\<rparr>)"

subsection \<open>Removing equal neighbours\<close>

text \<open>
  The template \<open>unique\<close>: an array is compacted in place; \<open>b\<close> and \<open>i\<close> are the positions of \<open>begin\<close> and \<open>it\<close>, and \<open>c\<close>
  collects what is dropped. The first loop looks for the first pair of equal neighbours.
\<close>

function unique_first :: "('a \<Rightarrow> 'a \<Rightarrow> bool) \<Rightarrow> 'a list \<Rightarrow> nat \<Rightarrow> nat \<Rightarrow> nat \<times> nat" where
  "unique_first eq xs b i =
     (if i < length xs \<and> \<not> eq (xs ! b) (xs ! i) then unique_first eq xs (b + 1) (i + 1) else (b, i))"
  by pat_completeness auto
termination by (relation "measure (\<lambda>(eq, xs, b, i). length xs - i)") auto

function unique_drop :: "('a \<Rightarrow> 'a \<Rightarrow> bool) \<Rightarrow> 'a list \<Rightarrow> nat \<Rightarrow> nat \<Rightarrow> 'a list \<Rightarrow> nat \<times> 'a list" where
  "unique_drop eq xs b i c =
     (if i < length xs \<and> eq (xs ! b) (xs ! i) then unique_drop eq xs b (i + 1) (c @ [xs ! i]) else (i, c))"
  by pat_completeness auto
termination by (relation "measure (\<lambda>(eq, xs, b, i, c). length xs - i)") auto

declare unique_first.simps [simp del] unique_drop.simps [simp del]

lemma unique_drop_ge: "unique_drop eq xs b i c = (i', c') \<Longrightarrow> i \<le> i'"
proof (induction eq xs b i c rule: unique_drop.induct)
  case (1 eq xs b i c)
  from "1.prems" show ?case
    using "1.IH" by (simp add: unique_drop.simps [of eq xs b i c] split: if_splits)
qed

function unique_rest :: "('a \<Rightarrow> 'a \<Rightarrow> bool) \<Rightarrow> 'a list \<Rightarrow> nat \<Rightarrow> nat \<Rightarrow> 'a list \<Rightarrow> 'a list \<times> nat \<times> 'a list" where
  "unique_rest eq xs b i c =
     (if i < length xs then
        case unique_drop eq xs b i c of (i', c) \<Rightarrow>
          if i' < length xs then unique_rest eq (xs[b + 1 := xs ! i']) (b + 1) (i' + 1) c
          else unique_rest eq xs b (i' + 1) c
      else (xs, b, c))"
  by pat_completeness auto
termination
  by (relation "measure (\<lambda>(eq, xs, b, i, c). length xs - i)") (auto dest!: sym [of "(_, _)" "unique_drop _ _ _ _ _"] unique_drop_ge)

declare unique_rest.simps [simp del]

text \<open>The array, the new end, and what was dropped.\<close>

definition unique :: "('a \<Rightarrow> 'a \<Rightarrow> bool) \<Rightarrow> 'a list \<Rightarrow> 'a list \<times> nat \<times> 'a list" where
  "unique eq xs =
     (if length xs \<le> 1 then (xs, length xs, [])
      else case unique_first eq xs 0 1 of (b, i) \<Rightarrow>
        if i = length xs then (xs, length xs, [])
        else case unique_rest eq xs b i [] of (xs, b, c) \<Rightarrow> (xs, b + 1, c))"

subsection \<open>Searching all spellings\<close>

record traversal_state =
  ts_traversal :: da_traversal
  ts_start :: u16
  ts_end :: u16
  ts_allFlags :: modifiers
  ts_lastStatus :: traverse_status

record cl_result =
  cr_entryPtr :: entry_ptr
  cr_flags :: modifiers
  cr_start :: u16
  cr_end :: u16

text \<open>\<open>make\<close>: \<open>lastStatus\<close> is not set, \<open>status0\<close> is what the memory holds.\<close>

definition ts_make :: "traverse_status \<Rightarrow> da_traversal \<Rightarrow> u16 \<Rightarrow> u16 \<Rightarrow> modifiers \<Rightarrow> traversal_state" where
  "ts_make status0 t start stop flags =
     \<lparr>ts_traversal = t, ts_start = start, ts_end = stop, ts_allFlags = flags, ts_lastStatus = status0\<rparr>"

type_synonym cl_search = "traversal_state list \<times> cl_result list"

text \<open>\<open>while (entries.readOnePtr()) result_.push_back(...)\<close>.\<close>

function push_results :: "modifiers \<Rightarrow> u16 \<Rightarrow> u16 \<Rightarrow> indexed_entries \<Rightarrow> cl_result list \<Rightarrow> cl_result list" where
  "push_results flags start stop entries result =
     (case readOnePtr entries of
        (False, _) \<Rightarrow> result
      | (True, entries) \<Rightarrow>
          push_results flags start stop entries
            (result @ [\<lparr>cr_entryPtr = currentPtr entries, cr_flags = flags, cr_start = start, cr_end = stop\<rparr>]))"
  by pat_completeness auto
termination
  by (relation "measure (\<lambda>(_, _, _, e, _). nat (sint (ilt_length (ie_entries e)) - sint (ilt_position (ie_entries e))))")
    (auto dest!: sym [of _ "readOnePtr _"] simp: readOnePtr_True)

declare push_results.simps [simp del]

text \<open>The traversal of the code keeps the trie, the input (here its size) and the memory (\<open>states2_\<close>, \<open>result_\<close>).\<close>

definition tryWalk ::
  "entries_holder \<Rightarrow> traverse_status \<Rightarrow> nat \<Rightarrow> traversal_state \<Rightarrow> input_codepoint \<Rightarrow> modifiers \<Rightarrow> bool \<Rightarrow> cl_search \<Rightarrow> cl_search option" where
  "tryWalk h status0 input_size pState codepoint newFlag doStep s =
     (let stop = min (ts_end pState + 1) (word_of_nat input_size);
          nst = ts_make status0 (ts_traversal pState) (ts_start pState) stop (ts_allFlags pState OR newFlag)
      in case (if doStep then index_step h (ic_bytes codepoint) (ts_traversal nst) else Some (ts_lastStatus pState, ts_traversal nst)) of
           None \<Rightarrow> None
         | Some (status, trav) \<Rightarrow>
             if status = TsNoNode then Some s
             else let nst = nst\<lparr>ts_traversal := trav, ts_lastStatus := status\<rparr>;
                      result = (if status = TsOk \<and> ts_allFlags nst \<noteq> Mod_ORIGINAL then
                                  push_results (if ExistFlag newFlag Mod_DELETE then ts_allFlags nst OR Mod_DELETE_LAST else ts_allFlags nst)
                                    (ts_start nst) (ts_end nst) (index_entries h trav) (snd s)
                                else snd s)
               in Some (fst s @ [nst], result))"

definition walk_state ::
  "entries_holder \<Rightarrow> traverse_status \<Rightarrow> input_codepoint list \<Rightarrow> char_node list \<Rightarrow> nat \<Rightarrow> traversal_state \<Rightarrow> cl_search \<Rightarrow> cl_search option" where
  "walk_state h status0 input extraNodes pos state s =
     (let s = (if unat (ts_end state) \<noteq> pos
               then (fst s @ [ts_make status0 (ts_traversal state) (ts_start state) (ts_end state) (ts_allFlags state)], snd s) else s)
      in Option.bind (tryWalk h status0 (length input) state (input ! pos) Mod_ORIGINAL True s)
           (fold_option (\<lambda>n. tryWalk h status0 (length input) state (cn_cp n) (cn_type n) (\<not> cn_hasType n Mod_DELETE)) extraNodes))"

definition doTraverseStep ::
  "entries_holder \<Rightarrow> traverse_status \<Rightarrow> char_lattice \<Rightarrow> input_codepoint list \<Rightarrow> nat \<Rightarrow> traversal_state list \<Rightarrow> cl_result list \<Rightarrow> cl_search option" where
  "doTraverseStep h status0 cl input pos states1 result =
     fold_option (walk_state h status0 input (cl_nodeList cl ! pos) pos) states1 ([], result)"

definition same_state :: "traversal_state \<Rightarrow> traversal_state \<Rightarrow> bool" where
  "same_state a b \<longleftrightarrow> ts_end a = ts_end b \<and> ts_allFlags a = ts_allFlags b \<and> ts_traversal a = ts_traversal b"

definition unique_states :: "traversal_state list \<Rightarrow> traversal_state list" where
  "unique_states states = (case unique same_state states of (xs, n, _) \<Rightarrow> take n xs)"

function lookup_loop ::
  "entries_holder \<Rightarrow> traverse_status \<Rightarrow> char_lattice \<Rightarrow> input_codepoint list \<Rightarrow> nat \<Rightarrow> traversal_state list \<Rightarrow> cl_result list \<Rightarrow> cl_result list option" where
  "lookup_loop h status0 cl input step states1 result =
     (if step < length input \<and> states1 \<noteq> [] then
        case doTraverseStep h status0 cl input step states1 result of
          None \<Rightarrow> None
        | Some (states2, result) \<Rightarrow> lookup_loop h status0 cl input (step + 1) (unique_states states2) result
      else Some result)"
  by pat_completeness auto
termination by (relation "measure (\<lambda>(_, _, _, input, step, _). length input - step)") auto

declare lookup_loop.simps [simp del]

definition result_less :: "cl_result \<Rightarrow> cl_result \<Rightarrow> bool" where
  "result_less c1 c2 \<longleftrightarrow>
     (if cr_end c1 = cr_end c2 then sint (ep_value (cr_entryPtr c1)) < sint (ep_value (cr_entryPtr c2)) else cr_end c1 < cr_end c2)"

definition result_same :: "cl_result \<Rightarrow> cl_result \<Rightarrow> bool" where
  "result_same c1 c2 \<longleftrightarrow> cr_entryPtr c1 = cr_entryPtr c2 \<and> cr_end c1 = cr_end c2"

text \<open>\<open>std::unique\<close> keeps the first of each run of equal elements.\<close>

fun std_unique :: "('a \<Rightarrow> 'a \<Rightarrow> bool) \<Rightarrow> 'a list \<Rightarrow> 'a list" where
  "std_unique eq (x # y # zs) = (if eq x y then std_unique eq (x # zs) else x # std_unique eq (y # zs))"
| "std_unique eq xs = xs"

text \<open>
  The sort of the standard library is the argument \<open>srt\<close>; it does not say in which order equal elements come.
  The result is the answer with the new \<open>result_\<close>; \<open>result0\<close> is what it held before.
\<close>

definition lookupCandidatesFrom ::
  "(cl_result list \<Rightarrow> cl_result list) \<Rightarrow> entries_holder \<Rightarrow> i32 \<Rightarrow> traverse_status \<Rightarrow> char_lattice \<Rightarrow> input_codepoint list \<Rightarrow> nat \<Rightarrow> cl_result list
     \<Rightarrow> (bool \<times> cl_result list) option" where
  "lookupCandidatesFrom srt h value0 status0 cl input start result0 =
     (if start > length input then Some (False, result0)
      else case index_step h (ic_bytes (input ! start)) (da_traversal_new value0) of
             None \<Rightarrow> None
           | Some (stat, trav) \<Rightarrow>
               if stat = TsNoNode then Some (False, [])
               else let state = (ts_make status0 trav (word_of_nat start) (word_of_nat (start + 1)) Mod_ORIGINAL)\<lparr>ts_lastStatus := stat\<rparr>
                    in case lookup_loop h status0 cl input (start + 1) [state] [] of
                         None \<Rightarrow> None
                       | Some [] \<Rightarrow> Some (False, [])
                       | Some result \<Rightarrow> let result = std_unique result_same (srt result) in Some (result \<noteq> [], result))"

text \<open>The maker: \<open>buffer0\<close> is the memory of the buffer for one entry.\<close>

definition spawn_candidate :: "unk_maker \<Rightarrow> dic_entry_buffer \<Rightarrow> input_codepoint list \<Rightarrow> cl_result \<Rightarrow> unk_state \<Rightarrow> unk_state" where
  "spawn_candidate m buffer0 points r s =
     (case makePtr_entry (um_fresh m) (um_entries m) buffer0 (input_surface points (unat (cr_start r)) (unat (cr_end r))) (um_info m)
        (cr_entryPtr r) (cr_flags r) (fst s) of
        (p, x) \<Rightarrow> (x, appendSeed p (cr_start r) (cr_end r) (snd s)))"

definition normalized_spawnNodes ::
  "(cl_result list \<Rightarrow> cl_result list) \<Rightarrow> traverse_status \<Rightarrow> unk_maker \<Rightarrow> dic_entry_buffer \<Rightarrow> input_codepoint list \<Rightarrow> unk_state \<Rightarrow> unk_state option" where
  "normalized_spawnNodes srt status0 m buffer0 points s =
     (let cl = cl_Parse points cl_new
      in if \<not> isApplicable cl then Some s
         else map_option snd (fold_option (\<lambda>i (result, s).
            case lookupCandidatesFrom srt (um_entries m) (um_value0 m) status0 cl points i result of
              None \<Rightarrow> None
            | Some (found, result) \<Rightarrow> Some (result, if found then fold (spawn_candidate m buffer0 points) result s else s))
          [0..<unat (word_of_nat (length points) :: u16)] ([], s)))"

subsection \<open>What the removal of neighbours leaves\<close>

lemma unique_drop_result:
  assumes "unique_drop eq xs b i c = (i', c')" "i \<le> length xs"
  shows "i \<le> i' \<and> i' \<le> length xs \<and> (i' < length xs \<longrightarrow> \<not> eq (xs ! b) (xs ! i'))
    \<and> std_unique eq (xs ! b # drop i xs) = std_unique eq (xs ! b # drop i' xs)
    \<and> mset c' + mset (drop i' xs) = mset c + mset (drop i xs)"
  using assms
proof (induction eq xs b i c rule: unique_drop.induct)
  case (1 eq xs b i c)
  show ?case
  proof (cases "i < length xs \<and> eq (xs ! b) (xs ! i)")
    case True
    then have d: "drop i xs = xs ! i # drop (i + 1) xs" by (simp add: Cons_nth_drop_Suc)
    have "unique_drop eq xs b (i + 1) (c @ [xs ! i]) = (i', c')"
      using "1.prems"(1) True by (simp add: unique_drop.simps [of eq xs b i c])
    from "1.IH" [OF True this] True show ?thesis by (simp add: d)
  next
    case False
    then show ?thesis using "1.prems" by (auto simp: unique_drop.simps [of eq xs b i c])
  qed
qed

lemma unique_rest_result:
  assumes "unique_rest eq xs b i c = (xs', b', c')" "b < i" "b < length xs"
  shows "b' < length xs' \<and> length xs' = length xs \<and> take (b' + 1) xs' = take b xs @ std_unique eq (xs ! b # drop i xs)
    \<and> mset (take (b' + 1) xs') + mset c' = mset (take (b + 1) xs) + mset (drop i xs) + mset c"
  using assms
proof (induction eq xs b i c rule: unique_rest.induct)
  case (1 eq xs b i c)
  show ?case
  proof (cases "i < length xs")
    case True
    obtain i2 c2 where d: "unique_drop eq xs b i c = (i2, c2)" by (cases "unique_drop eq xs b i c")
    note r = unique_drop_result [OF d less_imp_le [OF True]]
    show ?thesis
    proof (cases "i2 < length xs")
      case i2: True
      let ?ys = "xs[b + 1 := xs ! i2]"
      have b1: "b + 1 \<le> i2" using "1.prems"(2) r by simp
      have rec: "unique_rest eq ?ys (b + 1) (i2 + 1) c2 = (xs', b', c')"
        using "1.prems"(1) True d i2 by (simp add: unique_rest.simps [of eq xs b i c])
      have IH: "b' < length xs' \<and> length xs' = length ?ys \<and> take (b' + 1) xs' = take (b + 1) ?ys @ std_unique eq (?ys ! (b + 1) # drop (i2 + 1) ?ys)
        \<and> mset (take (b' + 1) xs') + mset c' = mset (take (b + 1 + 1) ?ys) + mset (drop (i2 + 1) ?ys) + mset c2"
        using b1 i2 by (intro "1.IH"(1) [OF True d [symmetric] i2 rec]) simp_all
      have ys: "take (b + 1) ?ys = take b xs @ [xs ! b]" "?ys ! (b + 1) = xs ! i2" "drop (i2 + 1) ?ys = drop (i2 + 1) xs"
        "take (b + 1 + 1) ?ys = take (b + 1) xs @ [xs ! i2]"
        using b1 i2 "1.prems"(3) by (simp_all add: take_Suc_conv_app_nth)
      have d2: "drop i2 xs = xs ! i2 # drop (i2 + 1) xs" using i2 by (simp add: Cons_nth_drop_Suc)
      have su: "std_unique eq (xs ! b # drop i xs) = xs ! b # std_unique eq (xs ! i2 # drop (i2 + 1) xs)"
        using r i2 by (simp add: d2)
      from IH have im: "mset (take (b' + 1) xs') + mset c' = mset (take (b + 1 + 1) ?ys) + mset (drop (i2 + 1) ?ys) + mset c2" by blast
      have "mset (take (b' + 1) xs') + mset c' = mset (take (b + 1) xs) + (mset c2 + mset (drop i2 xs))"
        unfolding im ys d2 by simp
      moreover have "mset c2 + mset (drop i2 xs) = mset c + mset (drop i xs)" using r by blast
      ultimately have m: "mset (take (b' + 1) xs') + mset c' = mset (take (b + 1) xs) + mset (drop i xs) + mset c"
        by (simp only: union_ac)
      have "take (b' + 1) xs' = take b xs @ std_unique eq (xs ! b # drop i xs)"
        using IH unfolding ys su by (simp only: append_assoc append.simps)
      moreover have "b' < length xs'" "length xs' = length xs" using IH by simp_all
      ultimately show ?thesis using m by blast
    next
      case False
      then have e: "i2 = length xs" using r by simp
      have "(xs, b, c2) = (xs', b', c')"
        using "1.prems"(1) True d e by (simp add: unique_rest.simps [of eq xs b i c] unique_rest.simps [of eq xs b "Suc (length xs)" c2])
      then show ?thesis using r e "1.prems"(3) by (auto simp: take_Suc_conv_app_nth)
    qed
  next
    case False
    then show ?thesis using "1.prems" by (auto simp: unique_rest.simps [of eq xs b i c] take_Suc_conv_app_nth)
  qed
qed

lemma unique_first_result:
  assumes "unique_first eq xs b i = (b', i')" "i = b + 1" "b < length xs" "std_unique eq xs = take b xs @ std_unique eq (drop b xs)"
  shows "i' = b' + 1 \<and> b' < length xs \<and> std_unique eq xs = take b' xs @ std_unique eq (drop b' xs)"
  using assms
proof (induction eq xs b i rule: unique_first.induct)
  case (1 eq xs b i)
  show ?case
  proof (cases "i < length xs \<and> \<not> eq (xs ! b) (xs ! i)")
    case True
    then have d: "drop b xs = xs ! b # xs ! i # drop (i + 1) xs" "drop (b + 1) xs = xs ! i # drop (i + 1) xs"
      using "1.prems"(2,3) by (simp_all add: Cons_nth_drop_Suc)
    have "unique_first eq xs (b + 1) (i + 1) = (b', i')"
      using "1.prems"(1) True by (simp add: unique_first.simps [of eq xs b i])
    moreover have "std_unique eq xs = take (b + 1) xs @ std_unique eq (drop (b + 1) xs)"
      using "1.prems"(4) True unfolding d by (simp add: take_Suc_conv_app_nth "1.prems"(3))
    ultimately show ?thesis using "1.prems"(2) True by (intro "1.IH") simp_all
  next
    case False
    then have "(b, i) = (b', i')" using "1.prems"(1) by (simp only: unique_first.simps [of eq xs b i] if_False)
    then show ?thesis using "1.prems" by simp
  qed
qed

text \<open>The in-place loops keep what \<open>std::unique\<close> keeps, and every element they drop goes to the collection once.\<close>

lemma unique_result:
  assumes "unique eq xs = (xs', n, c)"
  shows "take n xs' = std_unique eq xs" "mset (take n xs') + mset c = mset xs"
proof -
  have "take n xs' = std_unique eq xs \<and> mset (take n xs') + mset c = mset xs"
  proof (cases "length xs \<le> 1")
    case True
    then show ?thesis using assms by (cases xs) (auto simp: unique_def)
  next
    case False
    obtain b i where f: "unique_first eq xs 0 1 = (b, i)" by (cases "unique_first eq xs 0 1")
    from False have "0 < length xs" by linarith
    from unique_first_result [OF f _ this] have r: "i = b + 1" "b < length xs" "std_unique eq xs = take b xs @ std_unique eq (drop b xs)" by simp_all
    have d: "drop b xs = xs ! b # drop i xs" using r by (simp add: Cons_nth_drop_Suc)
    show ?thesis
    proof (cases "i = length xs")
      case True
      then have e: "xs' = xs" "n = length xs" "c = []" using assms False f by (auto simp: unique_def)
      have "drop b xs = [xs ! b]" using d True by simp
      then have "std_unique eq (drop b xs) = drop b xs" by simp
      then have "std_unique eq xs = xs" using r(3) by simp
      then show ?thesis unfolding e by simp
    next
      case i: False
      obtain ys b2 c2 where u: "unique_rest eq xs b i [] = (ys, b2, c2)" by (cases "unique_rest eq xs b i []")
      have e: "xs' = ys" "n = b2 + 1" "c = c2" using assms False f i u by (simp_all add: unique_def)
      have "mset (take (b + 1) xs) + mset (drop i xs) = mset xs"
        unfolding r(1) mset_append [symmetric] append_take_drop_id ..
      moreover have "mset (take (b2 + 1) ys) + mset c2 = mset (take (b + 1) xs) + mset (drop i xs) + mset []"
        using unique_rest_result [OF u _ r(2)] r(1) by (metis less_add_one)
      ultimately have "mset (take n xs') + mset c = mset xs" unfolding e by simp
      moreover have "take n xs' = std_unique eq xs" using unique_rest_result [OF u] r(1,2) unfolding e r(3) d by simp
      ultimately show ?thesis by blast
    qed
  qed
  then show "take n xs' = std_unique eq xs" "mset (take n xs') + mset c = mset xs" by blast+
qed

lemma std_unique_key:
  assumes "\<And>x y. eq x y \<longleftrightarrow> key x = key y"
  shows "set (std_unique eq xs) \<subseteq> set xs" "key ` set (std_unique eq xs) = key ` set xs"
  using assms by (induction eq xs rule: std_unique.induct) (auto split: if_splits)

subsection \<open>The spellings of a part of the input\<close>

text \<open>The characters that may stand at a position, with what they cost: the one of the input, and those of the character lattice. Deleting adds nothing to the word.\<close>

definition node_bytes :: "char_node \<Rightarrow> byte_string" where
  "node_bytes n = (if cn_hasType n Mod_DELETE then [] else ic_bytes (cn_cp n))"

definition variants_at :: "char_lattice \<Rightarrow> input_codepoint list \<Rightarrow> nat \<Rightarrow> (modifiers \<times> byte_string) list" where
  "variants_at cl points pos =
     (Mod_ORIGINAL, ic_bytes (points ! pos)) # map (\<lambda>n. (cn_type n, node_bytes n)) (cl_nodeList cl ! pos)"

text \<open>The spellings of the \<open>k + 1\<close> characters from \<open>start\<close> on; the first one is as it is in the input.\<close>

fun spellings :: "char_lattice \<Rightarrow> input_codepoint list \<Rightarrow> nat \<Rightarrow> nat \<Rightarrow> (modifiers \<times> byte_string) list" where
  "spellings cl points start 0 = [(Mod_ORIGINAL, ic_bytes (points ! start))]"
| "spellings cl points start (Suc k) =
     concat (map (\<lambda>(f, w). map (\<lambda>(t, b). (f OR t, w @ b)) (variants_at cl points (start + Suc k))) (spellings cl points start k))"

text \<open>The entries of a word.\<close>

definition word_ptrs :: "entries_holder \<Rightarrow> i32 \<Rightarrow> byte_string \<Rightarrow> entry_ptr list" where
  "word_ptrs h value0 w =
     (case lookup_word h value0 w of Some (TsOk, Some v) \<Rightarrow> all_ptrs (entryTraversal h v) | _ \<Rightarrow> [])"

text \<open>What the search reports when it reaches \<open>w\<close> by a character of kind \<open>t\<close>.\<close>

definition reported :: "entries_holder \<Rightarrow> i32 \<Rightarrow> nat \<Rightarrow> nat \<Rightarrow> modifiers \<Rightarrow> modifiers \<Rightarrow> byte_string \<Rightarrow> cl_result list" where
  "reported h value0 start stop f t w =
     (if f OR t = Mod_ORIGINAL then []
      else map (\<lambda>p. \<lparr>cr_entryPtr = p, cr_flags = (if ExistFlag t Mod_DELETE then (f OR t) OR Mod_DELETE_LAST else f OR t),
                      cr_start = word_of_nat start, cr_end = word_of_nat stop\<rparr>) (word_ptrs h value0 w))"

definition spelled_results :: "entries_holder \<Rightarrow> i32 \<Rightarrow> char_lattice \<Rightarrow> input_codepoint list \<Rightarrow> nat \<Rightarrow> nat \<Rightarrow> cl_result list" where
  "spelled_results h value0 cl points start k =
     concat (map (\<lambda>(f, w). concat (map (\<lambda>(t, b). reported h value0 start (start + k + 2) f t (w @ b))
       (variants_at cl points (start + Suc k)))) (spellings cl points start k))"

definition alternatives :: "entries_holder \<Rightarrow> i32 \<Rightarrow> char_lattice \<Rightarrow> input_codepoint list \<Rightarrow> nat \<Rightarrow> cl_result list" where
  "alternatives h value0 cl points start =
     concat (map (spelled_results h value0 cl points start) [0..<length points - start - 1])"

text \<open>No lookup of a spelling leaves the array of the trie.\<close>

definition spellings_inside :: "entries_holder \<Rightarrow> i32 \<Rightarrow> char_lattice \<Rightarrow> input_codepoint list \<Rightarrow> nat \<Rightarrow> bool" where
  "spellings_inside h value0 cl points start \<longleftrightarrow>
     list_all (\<lambda>k. list_all (\<lambda>(f, w). lookup_word h value0 w \<noteq> None) (spellings cl points start k)) [0..<length points - start]"

subsection \<open>The search\<close>

lemma push_results_ptrs:
  "push_results flags start stop e result
    = result @ map (\<lambda>p. \<lparr>cr_entryPtr = p, cr_flags = flags, cr_start = start, cr_end = stop\<rparr>) (all_ptrs e)"
proof (induction flags start stop e result rule: push_results.induct)
  case (1 flags start stop e result)
  then show ?case
    by (cases "readOnePtr e") (auto simp: push_results.simps [of flags start stop e result] all_ptrs.simps [of e] split: bool.splits)
qed

lemma fold_option_appends:
  assumes "\<And>x S R. x \<in> set xs \<Longrightarrow> g x (S, R) = Some (S @ ns x, R @ rs x)"
  shows "fold_option g xs (S, R) = Some (S @ concat (map ns xs), R @ concat (map rs xs))"
  using assms by (induction xs arbitrary: S R) simp_all

text \<open>A state that stands for a spelling \<open>w\<close> with the kinds \<open>f\<close>.\<close>

definition spells :: "entries_holder \<Rightarrow> i32 \<Rightarrow> traversal_state \<Rightarrow> modifiers \<Rightarrow> byte_string \<Rightarrow> bool" where
  "spells h value0 s f w \<longleftrightarrow> ts_allFlags s = f \<and> at_word h value0 w (ts_traversal s)
     \<and> lookup_word h value0 w = Some (verdict (ts_lastStatus s, ts_traversal s)) \<and> ts_lastStatus s \<noteq> TsNoNode"

definition dead :: "entries_holder \<Rightarrow> i32 \<Rightarrow> byte_string \<Rightarrow> bool" where
  "dead h value0 w \<longleftrightarrow> (\<exists>v. lookup_word h value0 w = Some (TsNoNode, v))"

text \<open>The state after one more character, if there is one.\<close>

definition walked :: "entries_holder \<Rightarrow> traversal_state \<Rightarrow> u16 \<Rightarrow> modifiers \<Rightarrow> byte_string \<Rightarrow> bool \<Rightarrow> traversal_state list" where
  "walked h s stop t b doStep =
     (case (if doStep then index_step h b (ts_traversal s) else Some (ts_lastStatus s, ts_traversal s)) of
        Some (status, trav) \<Rightarrow> if status = TsNoNode then [] else
          [\<lparr>ts_traversal = trav, ts_start = ts_start s, ts_end = stop, ts_allFlags = ts_allFlags s OR t, ts_lastStatus = status\<rparr>]
      | None \<Rightarrow> [])"

lemma min_stop:
  assumes "e < n" "n < 2 ^ 16"
  shows "min (word_of_nat e + 1) (word_of_nat n) = (word_of_nat (e + 1) :: u16)"
proof -
  have "unat (word_of_nat (e + 1) :: u16) = e + 1" "unat (word_of_nat n :: u16) = n"
    using assms by (simp_all add: unat_of_nat_small del: of_nat_add of_nat_Suc)
  then have "(word_of_nat (e + 1) :: u16) \<le> word_of_nat n" using assms by (simp add: word_le_nat_alt)
  moreover have "(word_of_nat e + 1 :: u16) = word_of_nat (e + 1)" by simp
  ultimately show ?thesis by (simp only: min_def if_True)
qed

lemma tryWalk_spells:
  assumes "spells h value0 s f w" "lookup_word h value0 (w @ b) \<noteq> None" "b = (if doStep then ic_bytes cp else [])"
    and "ts_start s = word_of_nat start" "ts_end s = word_of_nat e" "e < n" "n < 2 ^ 16"
  shows "tryWalk h status0 n s cp t doStep (S, R)
      = Some (S @ walked h s (word_of_nat (e + 1)) t b doStep, R @ reported h value0 start (e + 1) f t (w @ b))"
    "s' \<in> set (walked h s (word_of_nat (e + 1)) t b doStep) \<Longrightarrow>
      spells h value0 s' (f OR t) (w @ b) \<and> ts_start s' = word_of_nat start \<and> ts_end s' = word_of_nat (e + 1)"
    "\<not> dead h value0 (w @ b) \<Longrightarrow> walked h s (word_of_nat (e + 1)) t b doStep \<noteq> []"
proof -
  from assms(1) have s: "ts_allFlags s = f" "at_word h value0 w (ts_traversal s)"
    "lookup_word h value0 w = Some (verdict (ts_lastStatus s, ts_traversal s))" "ts_lastStatus s \<noteq> TsNoNode"
    by (simp_all add: spells_def)
  obtain status trav where st: "(if doStep then index_step h (ic_bytes cp) (ts_traversal s) else Some (ts_lastStatus s, ts_traversal s)) = Some (status, trav)"
    and l: "lookup_word h value0 (w @ b) = Some (verdict (status, trav))" and a: "status \<noteq> TsNoNode \<Longrightarrow> at_word h value0 (w @ b) trav"
  proof (cases doStep)
    case True
    obtain status trav where i: "index_step h b (ts_traversal s) = Some (status, trav)"
      using dictionary.step_inside [OF s(2) assms(2)] by auto
    show ?thesis
      using that [of status trav] i True assms(3) dictionary.step_told [OF s(2) i] dictionary.step_at [OF s(2) i] by simp
  next
    case False
    then show ?thesis using that [of "ts_lastStatus s" "ts_traversal s"] s assms(3) by simp
  qed
  have ptrs: "word_ptrs h value0 (w @ b) = (if status = TsOk then all_ptrs (index_entries h trav) else [])"
    using l by (simp add: word_ptrs_def verdict_def index_entries_def split: traverse_status.splits)
  have wk: "walked h s (word_of_nat (e + 1)) t b doStep = (if status = TsNoNode then [] else
      [\<lparr>ts_traversal = trav, ts_start = word_of_nat start, ts_end = word_of_nat (e + 1), ts_allFlags = f OR t, ts_lastStatus = status\<rparr>])"
    using st assms(3,4) s(1) by (auto simp: walked_def split: if_splits)
  show "tryWalk h status0 n s cp t doStep (S, R)
      = Some (S @ walked h s (word_of_nat (e + 1)) t b doStep, R @ reported h value0 start (e + 1) f t (w @ b))"
    unfolding wk tryWalk_def assms(4,5) min_stop [OF assms(6,7)] Let_def ts_make_def
    using st by (simp add: reported_def ptrs push_results_ptrs s(1) assms(4) del: of_nat_Suc of_nat_add split: if_splits)
  show "spells h value0 s' (f OR t) (w @ b) \<and> ts_start s' = word_of_nat start \<and> ts_end s' = word_of_nat (e + 1)"
    if "s' \<in> set (walked h s (word_of_nat (e + 1)) t b doStep)"
    using that a l unfolding wk by (simp add: spells_def split: if_splits)
  show "walked h s (word_of_nat (e + 1)) t b doStep \<noteq> []" if "\<not> dead h value0 (w @ b)"
    using that l unfolding wk by (auto simp: dead_def verdict_def)
qed

text \<open>
  The invariant of the loop after \<open>k + 1\<close> characters: every state stands for a spelling, and for every spelling with which a word
  of the dictionary can begin there is a state.
\<close>

definition covers :: "entries_holder \<Rightarrow> i32 \<Rightarrow> (modifiers \<times> byte_string) list \<Rightarrow> nat \<Rightarrow> nat \<Rightarrow> traversal_state list \<Rightarrow> bool" where
  "covers h value0 sps start e states \<longleftrightarrow>
     (\<forall>s \<in> set states. ts_start s = word_of_nat start \<and> ts_end s = word_of_nat e \<and> (\<exists>p \<in> set sps. spells h value0 s (fst p) (snd p)))
   \<and> (\<forall>p \<in> set sps. \<not> dead h value0 (snd p) \<longrightarrow> (\<exists>s \<in> set states. spells h value0 s (fst p) (snd p)))"

lemma spells_same:
  assumes "spells h value0 s f w" "spells h value0 s f' w'"
  shows "f = f'" "lookup_word h value0 (w @ b) = lookup_word h value0 (w' @ b)"
  using assms dictionary.same_place [of h value0 w "ts_traversal s" w' b] by (auto simp: spells_def)

lemma same_state_spells:
  assumes "same_state s s'" "spells h value0 s f w" "spells h value0 s' f' w'"
  shows "spells h value0 s' f w"
proof -
  have p: "ts_traversal s = ts_traversal s'" "ts_allFlags s = ts_allFlags s'" using assms(1) by (simp_all add: same_state_def)
  have a: "at_word h value0 w (ts_traversal s')" using assms(2) p by (simp add: spells_def)
  moreover have "at_word h value0 w' (ts_traversal s')" using assms(3) by (simp add: spells_def)
  ultimately have "lookup_word h value0 w = lookup_word h value0 w'"
    using dictionary.same_place [of h value0 w "ts_traversal s'" w' "[]"] by simp
  then show ?thesis using a p assms(2,3) by (simp add: spells_def)
qed

lemma covers_unique:
  assumes "covers h value0 sps start e states"
  shows "covers h value0 sps start e (unique_states states)"
proof -
  obtain xs n c where u: "unique same_state states = (xs, n, c)" by (cases "unique same_state states")
  let ?key = "\<lambda>s. (ts_end s, ts_allFlags s, ts_traversal s)"
  have us: "unique_states states = std_unique same_state states"
    using unique_result(1) [OF u] by (simp add: unique_states_def u)
  have "set (unique_states states) \<subseteq> set states" "?key ` set (unique_states states) = ?key ` set states"
    unfolding us by (rule std_unique_key [of same_state ?key]; simp add: same_state_def)+
  note key = this
  have "\<exists>s' \<in> set (unique_states states). spells h value0 s' f w" if "s \<in> set states" "spells h value0 s f w" for s f w
  proof -
    have "?key s \<in> ?key ` set (unique_states states)" unfolding key(2) using that(1) by (rule imageI)
    then obtain s' where s': "?key s = ?key s'" "s' \<in> set (unique_states states)" by (rule imageE)
    have same: "same_state s s'" using s'(1) by (simp add: same_state_def)
    have "s' \<in> set states" using s'(2) key(1) by (rule subsetD [rotated])
    then obtain p where "spells h value0 s' (fst p) (snd p)" using assms unfolding covers_def by blast
    with s'(2) same_state_spells [OF same that(2)] show ?thesis by blast
  qed
  then show ?thesis using assms key(1) unfolding covers_def by (intro conjI ballI) blast+
qed

text \<open>One state walks on by every variant of the next character.\<close>

definition node_stride :: "entries_holder \<Rightarrow> traversal_state \<Rightarrow> u16 \<Rightarrow> char_node \<Rightarrow> traversal_state list" where
  "node_stride h s stop n = walked h s stop (cn_type n) (node_bytes n) (\<not> cn_hasType n Mod_DELETE)"

definition strides :: "entries_holder \<Rightarrow> char_lattice \<Rightarrow> input_codepoint list \<Rightarrow> nat \<Rightarrow> traversal_state \<Rightarrow> traversal_state list" where
  "strides h cl points pos s =
     walked h s (word_of_nat (pos + 1)) Mod_ORIGINAL (ic_bytes (points ! pos)) True
       @ concat (map (node_stride h s (word_of_nat (pos + 1))) (cl_nodeList cl ! pos))"

definition stride_results :: "entries_holder \<Rightarrow> i32 \<Rightarrow> char_lattice \<Rightarrow> input_codepoint list \<Rightarrow> nat \<Rightarrow> nat \<Rightarrow> modifiers \<times> byte_string \<Rightarrow> cl_result list" where
  "stride_results h value0 cl points start pos p =
     concat (map (\<lambda>(t, b). reported h value0 start (pos + 1) (fst p) t (snd p @ b)) (variants_at cl points pos))"

lemma walk_state_spells:
  assumes "spells h value0 s f w" "ts_start s = word_of_nat start" "ts_end s = word_of_nat pos" "pos < length points" "length points < 2 ^ 16"
    and "\<And>t b. (t, b) \<in> set (variants_at cl points pos) \<Longrightarrow> lookup_word h value0 (w @ b) \<noteq> None"
  shows "walk_state h status0 points (cl_nodeList cl ! pos) pos s (S, R)
      = Some (S @ strides h cl points pos s, R @ stride_results h value0 cl points start pos (f, w))"
    "s' \<in> set (strides h cl points pos s) \<Longrightarrow> ts_start s' = word_of_nat start \<and> ts_end s' = word_of_nat (pos + 1)
      \<and> (\<exists>(t, b) \<in> set (variants_at cl points pos). spells h value0 s' (f OR t) (w @ b))"
    "(t, b) \<in> set (variants_at cl points pos) \<Longrightarrow> \<not> dead h value0 (w @ b) \<Longrightarrow>
      \<exists>s' \<in> set (strides h cl points pos s). spells h value0 s' (f OR t) (w @ b)"
proof -
  note tw = tryWalk_spells [OF assms(1) _ _ assms(2-5)]
  have u: "unat (ts_end s) = pos" using assms(3,4,5) by (simp add: unat_of_nat_small)
  have vo: "(Mod_ORIGINAL, ic_bytes (points ! pos)) \<in> set (variants_at cl points pos)" by (simp add: variants_at_def)
  have vn: "(cn_type n, node_bytes n) \<in> set (variants_at cl points pos)" if "n \<in> set (cl_nodeList cl ! pos)" for n
    using that by (simp add: variants_at_def)
  note lo = assms(6) [OF vo]
  note ln = assms(6) [OF vn]
  have nb: "node_bytes n = (if \<not> cn_hasType n Mod_DELETE then ic_bytes (cn_cp n) else [])" for n by (simp add: node_bytes_def)
  note o = tw [OF lo, of True "points ! pos", simplified]
  have on: "tryWalk h status0 (length points) s (cn_cp n) (cn_type n) (\<not> cn_hasType n Mod_DELETE) (S, R)
      = Some (S @ node_stride h s (word_of_nat (pos + 1)) n, R @ reported h value0 start (pos + 1) f (cn_type n) (w @ node_bytes n))"
    if "n \<in> set (cl_nodeList cl ! pos)" for n S R
    unfolding node_stride_def by (rule tw(1) [OF ln [OF that] nb])
  show "walk_state h status0 points (cl_nodeList cl ! pos) pos s (S, R)
      = Some (S @ strides h cl points pos s, R @ stride_results h value0 cl points start pos (f, w))"
    unfolding walk_state_def Let_def u using fold_option_appends [of "cl_nodeList cl ! pos", OF on] tw(1) [OF lo, of True "points ! pos"]
    by (simp add: strides_def stride_results_def variants_at_def comp_def)
  show "ts_start s' = word_of_nat start \<and> ts_end s' = word_of_nat (pos + 1)
      \<and> (\<exists>(t, b) \<in> set (variants_at cl points pos). spells h value0 s' (f OR t) (w @ b))"
    if "s' \<in> set (strides h cl points pos s)"
  proof -
    from that consider "s' \<in> set (walked h s (word_of_nat (pos + 1)) Mod_ORIGINAL (ic_bytes (points ! pos)) True)"
      | n where "n \<in> set (cl_nodeList cl ! pos)" "s' \<in> set (node_stride h s (word_of_nat (pos + 1)) n)"
      by (auto simp: strides_def)
    then show ?thesis
    proof cases
      case 1
      with tw(2) [OF lo _ 1] vo show ?thesis by (intro conjI bexI [OF _ vo]) simp_all
    next
      case 2
      with tw(2) [OF ln [OF 2(1)] nb 2(2) [unfolded node_stride_def]] show ?thesis
        by (intro conjI bexI [OF _ vn [OF 2(1)]]) simp_all
    qed
  qed
  show "\<exists>s' \<in> set (strides h cl points pos s). spells h value0 s' (f OR t) (w @ b)"
    if "(t, b) \<in> set (variants_at cl points pos)" "\<not> dead h value0 (w @ b)"
  proof -
    from that(1) consider "t = Mod_ORIGINAL" "b = ic_bytes (points ! pos)"
      | n where "n \<in> set (cl_nodeList cl ! pos)" "t = cn_type n" "b = node_bytes n"
      by (auto simp: variants_at_def)
    then show ?thesis
    proof cases
      case 1
      have "walked h s (word_of_nat (pos + 1)) t b True \<noteq> []"
        using tw(3) [OF lo, of True "points ! pos" Mod_ORIGINAL] that(2) 1 by simp
      then obtain s' where s': "s' \<in> set (walked h s (word_of_nat (pos + 1)) t b True)" using list.set_sel(1) by blast
      then have "spells h value0 s' (f OR t) (w @ b)" using tw(2) [OF lo, of True "points ! pos"] 1 by simp
      with s' show ?thesis using 1 by (auto simp: strides_def)
    next
      case 2
      have "node_stride h s (word_of_nat (pos + 1)) n \<noteq> []"
        using tw(3) [OF ln [OF 2(1)] nb] that(2) 2 unfolding node_stride_def by simp
      then obtain s' where s': "s' \<in> set (node_stride h s (word_of_nat (pos + 1)) n)" using list.set_sel(1) by blast
      then have "spells h value0 s' (f OR t) (w @ b)" using tw(2) [OF ln [OF 2(1)] nb s' [unfolded node_stride_def]] 2 by simp
      with s' show ?thesis using 2 by (auto simp: strides_def)
    qed
  qed
qed

lemma stride_results_same:
  assumes "spells h value0 s (fst p) (snd p)" "spells h value0 s (fst q) (snd q)"
  shows "stride_results h value0 cl points start pos p = stride_results h value0 cl points start pos q"
proof -
  have "word_ptrs h value0 (snd p @ b) = word_ptrs h value0 (snd q @ b)" for b
    using spells_same(2) [OF assms] by (simp add: word_ptrs_def)
  with spells_same(1) [OF assms] show ?thesis by (simp only: stride_results_def reported_def)
qed

lemma stride_results_alive:
  assumes "r \<in> set (stride_results h value0 cl points start pos p)"
  shows "\<not> dead h value0 (snd p)"
proof
  assume "dead h value0 (snd p)"
  then have "lookup_word h value0 (snd p @ b) = Some (TsNoNode, None)" for b
    using dictionary.look_dead by (auto simp: dead_def)
  with assms show False by (auto simp: stride_results_def reported_def word_ptrs_def split: if_splits)
qed

lemma spellings_Suc:
  "(f', w') \<in> set (spellings cl points start (Suc k)) \<longleftrightarrow>
     (\<exists>p \<in> set (spellings cl points start k). \<exists>(t, b) \<in> set (variants_at cl points (start + Suc k)). f' = fst p OR t \<and> w' = snd p @ b)"
  by force

lemma traverse_step_covers:
  assumes "covers h value0 (spellings cl points start k) start (start + Suc k) states" "start + Suc k < length points" "length points < 2 ^ 16"
    and "list_all (\<lambda>(f, w). lookup_word h value0 w \<noteq> None) (spellings cl points start (Suc k))"
  obtains S' R' where "doTraverseStep h status0 cl points (start + Suc k) states R = Some (S', R')"
    "covers h value0 (spellings cl points start (Suc k)) start (start + Suc (Suc k)) S'"
    "set R' = set R \<union> set (spelled_results h value0 cl points start k)"
proof -
  let ?sps = "spellings cl points start k" and ?pos = "start + Suc k"
  let ?vs = "variants_at cl points ?pos" and ?res = "stride_results h value0 cl points start ?pos"
  let ?S = "concat (map (strides h cl points ?pos) states)"
  have inside: "lookup_word h value0 (snd p @ b) \<noteq> None" if "p \<in> set ?sps" "(t, b) \<in> set ?vs" for p t b
  proof -
    have "(fst p OR t, snd p @ b) \<in> set (spellings cl points start (Suc k))" unfolding spellings_Suc using that by blast
    then show ?thesis using assms(4) unfolding list_all_iff by blast
  qed
  from assms(1) have "\<forall>s \<in> set states. \<exists>p. p \<in> set ?sps \<and> spells h value0 s (fst p) (snd p)" unfolding covers_def by blast
  from bchoice [OF this] obtain P where "\<forall>s \<in> set states. P s \<in> set ?sps \<and> spells h value0 s (fst (P s)) (snd (P s))" by blast
  then have P: "P s \<in> set ?sps \<and> spells h value0 s (fst (P s)) (snd (P s))" if "s \<in> set states" for s using that by blast
  have se: "ts_start s = word_of_nat start" "ts_end s = word_of_nat ?pos" if "s \<in> set states" for s
    using that assms(1) unfolding covers_def by blast+
  have walk: "walk_state h status0 points (cl_nodeList cl ! ?pos) ?pos s (S, R) = Some (S @ strides h cl points ?pos s, R @ ?res (P s))"
    if "s \<in> set states" for s S R
    using walk_state_spells(1) [OF conjunct2 [OF P [OF that]] se [OF that] assms(2,3) inside [OF conjunct1 [OF P [OF that]]]] by simp
  have do_step: "doTraverseStep h status0 cl points ?pos states R = Some (?S, R @ concat (map (\<lambda>s. ?res (P s)) states))"
    using fold_option_appends [of states, OF walk, where S = "[]" and R = R] by (simp only: doTraverseStep_def append_Nil)
  have cov: "covers h value0 (spellings cl points start (Suc k)) start (start + Suc (Suc k)) ?S"
    unfolding covers_def
  proof (intro conjI ballI impI)
    fix s' assume "s' \<in> set ?S"
    then obtain s where s: "s \<in> set states" "s' \<in> set (strides h cl points ?pos s)" by auto
    have w: "ts_start s' = word_of_nat start \<and> ts_end s' = word_of_nat (?pos + 1)
      \<and> (\<exists>(t, b) \<in> set ?vs. spells h value0 s' (fst (P s) OR t) (snd (P s) @ b))"
      by (rule walk_state_spells(2) [OF conjunct2 [OF P [OF s(1)]] se [OF s(1)] assms(2,3) _ s(2)]) (rule inside [OF conjunct1 [OF P [OF s(1)]]])
    then obtain t b where tb: "(t, b) \<in> set ?vs" "spells h value0 s' (fst (P s) OR t) (snd (P s) @ b)" by blast
    have "(fst (P s) OR t, snd (P s) @ b) \<in> set (spellings cl points start (Suc k))"
      unfolding spellings_Suc using P [OF s(1)] tb(1) by blast
    then show "\<exists>p \<in> set (spellings cl points start (Suc k)). spells h value0 s' (fst p) (snd p)"
      by (rule bexI [rotated]) (simp add: tb(2))
    show "ts_start s' = word_of_nat start" "ts_end s' = word_of_nat (start + Suc (Suc k))" using w by simp_all
  next
    fix q assume q: "q \<in> set (spellings cl points start (Suc k))" "\<not> dead h value0 (snd q)"
    obtain f w where fw: "q = (f, w)" by (cases q)
    from q(1) obtain p t b where ptb: "p \<in> set ?sps" "(t, b) \<in> set ?vs" "f = fst p OR t" "w = snd p @ b"
      unfolding fw spellings_Suc by blast
    have "\<not> dead h value0 (snd p)"
      using q(2) dictionary.look_dead [of h value0 "snd p" _ b] by (auto simp: dead_def fw ptb(4))
    then obtain s where s: "s \<in> set states" "spells h value0 s (fst p) (snd p)" using assms(1) ptb(1) unfolding covers_def by blast
    have nd: "\<not> dead h value0 (snd p @ b)" using q(2) by (simp add: fw ptb(4))
    have "\<exists>s' \<in> set (strides h cl points ?pos s). spells h value0 s' (fst p OR t) (snd p @ b)"
      by (rule walk_state_spells(3) [OF s(2) se [OF s(1)] assms(2,3) _ ptb(2) nd]) (rule inside [OF ptb(1)])
    then obtain s' where "s' \<in> set (strides h cl points ?pos s)" "spells h value0 s' (fst p OR t) (snd p @ b)" by blast
    then show "\<exists>s \<in> set ?S. spells h value0 s (fst q) (snd q)" using s(1) by (auto simp: fw ptb)
  qed
  have "set (concat (map (\<lambda>s. ?res (P s)) states)) = set (concat (map ?res ?sps))"
  proof (intro equalityI subsetI)
    fix r assume "r \<in> set (concat (map (\<lambda>s. ?res (P s)) states))"
    then show "r \<in> set (concat (map ?res ?sps))" using P by auto
  next
    fix r assume "r \<in> set (concat (map ?res ?sps))"
    then obtain p where p: "p \<in> set ?sps" "r \<in> set (?res p)" by auto
    then obtain s where s: "s \<in> set states" "spells h value0 s (fst p) (snd p)"
      using stride_results_alive [OF p(2)] assms(1) unfolding covers_def by blast
    from stride_results_same [OF s(2) conjunct2 [OF P [OF s(1)]]] p(2) s(1)
    show "r \<in> set (concat (map (\<lambda>s. ?res (P s)) states))" by auto
  qed
  moreover have "spelled_results h value0 cl points start k = concat (map ?res ?sps)"
    unfolding spelled_results_def stride_results_def by (simp add: case_prod_unfold)
  ultimately have "set (R @ concat (map (\<lambda>s. ?res (P s)) states)) = set R \<union> set (spelled_results h value0 cl points start k)" by simp
  with that [OF do_step cov] show ?thesis by blast
qed

lemma covers_dead:
  assumes "covers h value0 sps start e []" "p \<in> set sps"
  shows "dead h value0 (snd p)"
  using assms unfolding covers_def by (metis empty_iff list.set(1))

lemma dead_append: "dead h value0 w \<Longrightarrow> dead h value0 (w @ b)"
  using dictionary.look_dead [of h value0 w _ b] by (auto simp: dead_def)

lemma reported_dead: "dead h value0 w \<Longrightarrow> reported h value0 start e f t w = []"
  by (auto simp: reported_def word_ptrs_def dead_def)

text \<open>When no state is left, no longer spelling is the beginning of a word.\<close>

lemma spelled_results_dead:
  assumes "\<And>p. p \<in> set (spellings cl points start k) \<Longrightarrow> dead h value0 (snd p)"
  shows "spelled_results h value0 cl points start (k + j) = [] \<and> (\<forall>p \<in> set (spellings cl points start (k + j)). dead h value0 (snd p))"
proof -
  have all: "\<forall>p \<in> set (spellings cl points start (k + j)). dead h value0 (snd p)"
  proof (induction j)
    case (Suc j)
    have "dead h value0 w" if q: "(f, w) \<in> set (spellings cl points start (Suc (k + j)))" for f w
    proof -
      from q obtain p t b where "p \<in> set (spellings cl points start (k + j))" "w = snd p @ b" unfolding spellings_Suc by blast
      then show ?thesis using Suc.IH dead_append by blast
    qed
    then show ?case by (simp del: spellings.simps) (metis prod.collapse)
  qed (simp add: assms)
  then have "reported h value0 start e f t (w @ b) = []" if "(f, w) \<in> set (spellings cl points start (k + j))" for e f t w b
    using that by (intro reported_dead dead_append) force
  then have "spelled_results h value0 cl points start (k + j) = []" unfolding spelled_results_def by fastforce
  with all show ?thesis by blast
qed

lemma lookup_loop_results:
  assumes "covers h value0 (spellings cl points start k) start (start + Suc k) states" "start + Suc k \<le> length points" "length points < 2 ^ 16"
    and "spellings_inside h value0 cl points start"
  obtains R' where "lookup_loop h status0 cl points (start + Suc k) states R = Some R'"
    "set R' = set R \<union> \<Union> (set ` spelled_results h value0 cl points start ` {k..<length points - start - 1})"
proof -
  have "\<exists>R'. lookup_loop h status0 cl points (start + Suc k) states R = Some R'
      \<and> set R' = set R \<union> \<Union> (set ` spelled_results h value0 cl points start ` {k..<length points - start - 1})"
    using assms(1,2)
  proof (induction "length points - start - Suc k" arbitrary: k states R)
    case 0
    then have "start + Suc k = length points" by simp
    then show ?case by (simp add: lookup_loop.simps)
  next
    case (Suc m)
    from Suc.hyps(2) have lt: "start + Suc k < length points" by simp
    show ?case
    proof (cases "states = []")
      case True
      with Suc.prems(1) have d: "dead h value0 (snd p)" if "p \<in> set (spellings cl points start k)" for p
        using covers_dead that by blast
      have "spelled_results h value0 cl points start i = []" if "k \<le> i" for i
        using spelled_results_dead [of cl points start k h value0 "i - k"] d that by simp
      then show ?thesis using True by (simp add: lookup_loop.simps)
    next
      case False
      have ins: "list_all (\<lambda>(f, w). lookup_word h value0 w \<noteq> None) (spellings cl points start (Suc k))"
      proof -
        have "Suc k \<in> set [0..<length points - start]" using lt by simp
        with assms(4) show ?thesis unfolding spellings_inside_def list_all_iff by blast
      qed
      from traverse_step_covers [OF Suc.prems(1) lt assms(3) ins] obtain S' R1
        where st: "doTraverseStep h status0 cl points (start + Suc k) states R = Some (S', R1)"
          "covers h value0 (spellings cl points start (Suc k)) start (start + Suc (Suc k)) S'"
          "set R1 = set R \<union> set (spelled_results h value0 cl points start k)" .
      from Suc.hyps(1) [OF _ covers_unique [OF st(2)]] Suc.hyps(2) lt obtain R2
        where R2: "lookup_loop h status0 cl points (start + Suc (Suc k)) (unique_states S') R1 = Some R2"
          "set R2 = set R1 \<union> \<Union> (set ` spelled_results h value0 cl points start ` {Suc k..<length points - start - 1})"
        by fastforce
      have "lookup_loop h status0 cl points (start + Suc k) states R = Some R2"
        using R2(1) False lt by (subst lookup_loop.simps) (simp add: st(1) [simplified])
      moreover have "{k..<length points - start - 1} = insert k {Suc k..<length points - start - 1}" using lt by auto
      ultimately show ?thesis using R2(2) st(3) by auto
    qed
  qed
  with that show ?thesis by blast
qed

text \<open>
  Rows of the tables that never count. \<open>te\<close> is a key of the table for the vowel \<open>e\<close> alone, which is read only for the keys of the other
  one; and \<open>re\<close>, \<open>ze\<close> and \<open>yo\<close> are keys twice in the table of small kana, where the second row is not inserted.
\<close>

lemma te_is_never_lengthened:
  assumes "ic_codepoint (codepoints ! (pos - 1)) = 0x3066"
  shows "map_of prolongedMapForErow 0x3066 \<noteq> None" "\<not> CheckSubstituteChoon codepoints pos prolongedMap"
  using assms by (simp_all add: CheckSubstituteChoon_def find_codepoint_def prolongedMap_def prolongedMapForErow_def)

lemma second_rows_are_lost:
  "map_of lowerMap 0x308C = Some 0x3043 \<and> (0x308C, 0x3047) \<in> set lowerMap"
  "map_of lowerMap 0x305C = Some 0x3043 \<and> (0x305C, 0x3047) \<in> set lowerMap"
  "map_of lowerMap 0x3088 = Some 0x3045 \<and> (0x3088, 0x3049) \<in> set lowerMap"
  by (simp_all add: lowerMap_def)

subsection \<open>Properties\<close>

text \<open>What is assumed of the sort of the standard library: it permutes, and no element is behind a greater one.\<close>

definition sorts_by :: "('a \<Rightarrow> 'a \<Rightarrow> bool) \<Rightarrow> ('a list \<Rightarrow> 'a list) \<Rightarrow> bool" where
  "sorts_by lt srt \<longleftrightarrow> (\<forall>xs. mset (srt xs) = mset xs \<and> sorted_wrt (\<lambda>x y. \<not> lt y x) (srt xs))"

definition result_key :: "cl_result \<Rightarrow> nat \<times> int" where
  "result_key r = (unat (cr_end r), sint (ep_value (cr_entryPtr r)))"

lemma result_key_iff:
  "result_less a b \<longleftrightarrow> result_key a < result_key b" "result_same a b \<longleftrightarrow> result_key a = result_key b"
proof -
  have "cr_entryPtr a = cr_entryPtr b \<longleftrightarrow> sint (ep_value (cr_entryPtr a)) = sint (ep_value (cr_entryPtr b))"
    by (cases "cr_entryPtr a"; cases "cr_entryPtr b") (auto simp: signed_word_eqI)
  moreover have "cr_end a = cr_end b \<longleftrightarrow> unat (cr_end a) = unat (cr_end b)" by (auto intro: unat_eqI)
  ultimately show "result_less a b \<longleftrightarrow> result_key a < result_key b" "result_same a b \<longleftrightarrow> result_key a = result_key b"
    by (auto simp: result_less_def result_same_def result_key_def word_less_nat_alt less_le)
qed

lemma std_unique_sorted:
  assumes "sorted_wrt (\<lambda>x y. \<not> key y < key x) xs" "\<And>x y. eq x y \<longleftrightarrow> key x = key y"
  shows "sorted_wrt (\<lambda>x y. key x < (key y :: 'b :: linorder)) (std_unique eq xs)"
  using assms
proof (induction eq xs rule: std_unique.induct)
  case (1 eq x y zs)
  show ?case
  proof (cases "eq x y")
    case True
    with "1.IH"(1) [OF True] "1.prems" show ?thesis by simp
  next
    case False
    have "sorted_wrt (\<lambda>x y. \<not> key y < key x) (y # zs)" using "1.prems"(1) by simp
    from "1.IH"(2) [OF False this "1.prems"(2)] have IH: "sorted_wrt (\<lambda>x y. key x < key y) (std_unique eq (y # zs))" .
    have "\<not> key y < key x" "key x \<noteq> key y" using "1.prems" False by simp_all
    then have "key x < key y" by simp
    moreover have "key y \<le> key z" if "z \<in> set (std_unique eq (y # zs))" for z
      using std_unique_key(1) [of eq key "y # zs"] "1.prems" that by (auto simp: not_less)
    ultimately have "key x < key z" if "z \<in> set (std_unique eq (y # zs))" for z using that by fastforce
    with IH False show ?thesis by simp
  qed
qed simp_all

lemma set_alternatives:
  "set (alternatives h value0 cl points start) = \<Union> (set ` spelled_results h value0 cl points start ` {0..<length points - start - 1})"
  by (simp add: alternatives_def image_image)

text \<open>C13: The search for other spellings is exact: from a position of the input it reports every entry of the dictionary whose word is the input from there to
  some end with at least one character replaced or left out as the character lattice allows, and no other entry. The walk over all spellings at
  once, the merging of equal states and the removal of double results lose nothing; the results come in the order of their ends, each entry once for an end.
  The first character is never varied.
\<close>

theorem spelling_search_is_exact:
  assumes "sorts_by result_less srt" "start < length points" "length points < 2 ^ 16" "spellings_inside h value0 cl points start"
  shows "\<exists>rs. lookupCandidatesFrom srt h value0 status0 cl points start rs0 = Some (rs \<noteq> [], rs)
    \<and> set rs \<subseteq> set (alternatives h value0 cl points start)
    \<and> result_key ` set rs = result_key ` set (alternatives h value0 cl points start)
    \<and> sorted_wrt (\<lambda>a b. result_key a < result_key b) rs"
proof -
  let ?b = "ic_bytes (points ! start)" and ?alt = "set (alternatives h value0 cl points start)"
  have "0 \<in> set [0..<length points - start]" using assms(2) by simp
  with assms(4) have "lookup_word h value0 ?b \<noteq> None" unfolding spellings_inside_def list_all_iff by fastforce
  then obtain stat trav where st: "index_step h ?b (da_traversal_new value0) = Some (stat, trav)"
    using dictionary.step_inside [OF at_root [of h value0], of ?b] by auto
  note l = dictionary.step_told [OF at_root [of h value0] st]
  show ?thesis
  proof (cases "stat = TsNoNode")
    case True
    then have d: "dead h value0 (snd p)" if "p \<in> set (spellings cl points start 0)" for p
      using l that by (simp add: dead_def verdict_def)
    have "alternatives h value0 cl points start = []"
      using spelled_results_dead [of cl points start 0 h value0] d by (simp add: alternatives_def)
    then show ?thesis using st True assms(2) by (simp add: lookupCandidatesFrom_def)
  next
    case False
    let ?s = "(ts_make status0 trav (word_of_nat start) (word_of_nat (start + 1)) Mod_ORIGINAL)\<lparr>ts_lastStatus := stat\<rparr>"
    have "spells h value0 ?s Mod_ORIGINAL ?b"
      using dictionary.step_at [OF at_root [of h value0] st False] l False by (simp add: spells_def ts_make_def verdict_def)
    then have "covers h value0 (spellings cl points start 0) start (start + Suc 0) [?s]" by (simp add: covers_def ts_make_def)
    from lookup_loop_results [OF this _ assms(3,4), of status0 "[]"] assms(2) obtain raw
      where raw: "lookup_loop h status0 cl points (start + 1) [?s] [] = Some raw" "set raw = ?alt"
      unfolding set_alternatives by auto
    show ?thesis
    proof (cases "raw = []")
      case True
      then show ?thesis using st False assms(2) raw by (simp add: lookupCandidatesFrom_def Let_def)
    next
      case ne: False
      let ?rs = "std_unique result_same (srt raw)"
      have srt: "set (srt raw) = set raw" "sorted_wrt (\<lambda>a b. \<not> result_key b < result_key a) (srt raw)"
        using assms(1) mset_eq_setD [of "srt raw" raw] unfolding sorts_by_def result_key_iff by blast+
      have "lookupCandidatesFrom srt h value0 status0 cl points start rs0 = Some (?rs \<noteq> [], ?rs)"
        using st False assms(2) raw(1) ne by (simp add: lookupCandidatesFrom_def Let_def split: list.splits)
      moreover have "set ?rs \<subseteq> ?alt" "result_key ` set ?rs = result_key ` ?alt"
        using std_unique_key [of result_same result_key, OF result_key_iff(2), of "srt raw"] unfolding srt(1) raw(2) by blast+
      moreover have "sorted_wrt (\<lambda>a b. result_key a < result_key b) ?rs" by (rule std_unique_sorted [OF srt(2) result_key_iff(2)])
      ultimately show ?thesis by blast
    qed
  qed
qed

text \<open>The word \<open>a\<close> of the small dictionary with a small \<open>tsu\<close> behind it, which is the last character of the input and can be left out.\<close>

definition long_points :: "input_codepoint list" where
  "long_points = [\<lparr>ic_codepoint = 0x3042, ic_charClass = HIRAGANA, ic_bytes = [0x61]\<rparr>,
     \<lparr>ic_codepoint = 0x3063, ic_charClass = HIRAGANA OR SMALL_KANA, ic_bytes = [0x62]\<rparr>]"

lemma long_lattice: "cl_nodeList (cl_Parse long_points cl_new) = [[], [\<lparr>cn_cp = mkInputCodepoint [], cn_type = 0x88\<rparr>]]"
  by code_simp

lemma sort_key_sorts: "sorts_by result_less (sort_key result_key)"
proof -
  have "sorted_wrt (\<lambda>a b. \<not> result_key b < result_key a) (sort_key result_key xs)" for xs
    using sorted_sort_key [of result_key xs] by (simp add: sorted_wrt_map not_less)
  then show ?thesis by (simp add: sorts_by_def result_key_iff)
qed

theorem spelling_search_is_exact_witness:
  "lookupCandidatesFrom (sort_key result_key) small_dictionary 0 TsOk (cl_Parse long_points cl_new) long_points 0 []
    = Some (True, [\<lparr>cr_entryPtr = mk_entry 1, cr_flags = 0xA9, cr_start = 0, cr_end = 2\<rparr>])"
proof -
  let ?cl = "cl_Parse long_points cl_new" and ?r = "\<lparr>cr_entryPtr = mk_entry 1, cr_flags = 0xA9, cr_start = 0, cr_end = 2\<rparr>"
  have len: "length long_points = 2" and bs: "ic_bytes (long_points ! 0) = [0x61]" "ic_bytes (long_points ! 1) = [0x62]"
    by (simp_all add: long_points_def)
  have v: "variants_at ?cl long_points 1 = [(1, [0x62]), (0x88, [])]"
    by (simp add: variants_at_def long_lattice node_bytes_def cn_hasType_def modifier_defs bs(2) [simplified])
  have sp: "spellings ?cl long_points 0 0 = [(1, [0x61])]" "spellings ?cl long_points 0 (Suc 0) = [(1, [0x61, 0x62]), (0x89, [0x61])]"
    using v by (simp_all add: bs modifier_defs)
  have "[0..<2 - 0] = [0, Suc 0]" "[0..<2 - 0 - 1] = [0]" by (simp_all add: upt_rec)
  note rg = this
  have ins: "spellings_inside small_dictionary 0 ?cl long_points 0"
    unfolding spellings_inside_def len rg list.pred_inject sp by (simp add: small_lookups)
  have alt: "alternatives small_dictionary 0 ?cl long_points 0 = [?r]"
    unfolding alternatives_def len rg list.map concat.simps spelled_results_def sp using v
    by (simp add: reported_def word_ptrs_def small_lookups small_ptrs modifier_defs ExistFlag_def)
  have "(0::nat) < length long_points" "length long_points < 2 ^ 16" by (simp_all add: len)
  from spelling_search_is_exact [OF sort_key_sorts this ins, of TsOk "[]", unfolded alt] obtain rs
    where rs: "lookupCandidatesFrom (sort_key result_key) small_dictionary 0 TsOk ?cl long_points 0 [] = Some (rs \<noteq> [], rs)"
      "set rs \<subseteq> {?r}" "result_key ` set rs = {result_key ?r}" "sorted_wrt (\<lambda>a b. result_key a < result_key b) rs" by auto
  then have "rs = [?r]" by (cases rs; cases "tl rs") auto
  with rs(1) show ?thesis by simp
qed

end
