(* ===== verification/Makers.thy ===== *)
theory Makers
  imports CharLattice
begin

text \<open>
  The makers of unknown words as the analyzer holds them: \<open>src/src/core/analysis/unk_nodes.h/.cc\<close> (their creation from the descriptors of
  \<open>core/spec/spec_types.h\<close>), \<open>DicReader::readEntry\<close>, and the call of \<open>UnkMaker::spawnNodes\<close>. All makers stay inside of the input, which is the
  contract \<open>seed_maker\<close>.
\<close>

subsection \<open>The makers of unknown words\<close>

text \<open>
  What a function takes from memory that is not initialised, and from the standard library: the sortings, which are not stable, and the contents
  of new arrays. One value stands for all uninitialised reads of a type (\<open>rt_i32\<close>, \<open>rt_status\<close>, \<open>rt_buffer\<close>). The theorems hold for all of them that keep
  their promises (\<open>runtime_ok\<close>).
\<close>

record runtime =
  rt_fadd :: "score \<Rightarrow> score \<Rightarrow> score"
  rt_fmul :: "score \<Rightarrow> score \<Rightarrow> score"
  rt_sort_results :: "cl_result list \<Rightarrow> cl_result list"
  rt_sort_idx :: "(nat \<Rightarrow> nat \<Rightarrow> bool) \<Rightarrow> nat list \<Rightarrow> nat list"
  rt_nth_element :: "(nat \<Rightarrow> nat \<Rightarrow> bool) \<Rightarrow> nat \<Rightarrow> nat list \<Rightarrow> nat list"
  rt_memory :: fresh_memory
  rt_i32 :: i32
  rt_status :: traverse_status
  rt_buffer :: dic_entry_buffer
  rt_fresh64 :: "nat \<Rightarrow> u64 list"
  rt_fresh32 :: "nat \<Rightarrow> u32 list"
  rt_freshScores :: "nat \<Rightarrow> score list"

datatype unk_maker_type = UmtInvalid | UmtSingle | UmtChunking | UmtOnomatopoeia | UmtNumeric | UmtNormalize

datatype unk_feature_type = NotPrefixOfDic | NormalizedActions

record unk_maker_feature =
  umf_targetPlaceholder :: i32
  umf_targetFeature :: i32
  umf_featureType :: unk_feature_type

record unk_descriptor =
  ud_index :: i32
  ud_name :: byte_string
  ud_type :: unk_maker_type
  ud_patternRow :: i32
  ud_patternPtr :: i32
  ud_priority :: i32
  ud_charClass :: character_class
  ud_features :: "unk_maker_feature list"
  ud_replaceFields :: "i32 list"

text \<open>The classes derived from \<open>UnkMaker\<close>. The normalizing maker has no character class.\<close>

datatype unk_creator =
    ChunkingUnkMaker unk_maker
  | SingleUnkMaker unk_maker
  | OnomatopoeiaUnkMaker unk_maker
  | NumericUnkMaker unk_maker
  | NormalizedNodeMaker unk_maker

record unk_makers =
  um_stage1 :: "unk_creator list"
  um_stage2 :: "unk_creator list"

fun maker_spawnNodes :: "runtime \<Rightarrow> input_codepoint list \<Rightarrow> unk_creator \<Rightarrow> unk_state \<Rightarrow> unk_state option" where
  "maker_spawnNodes rt points (ChunkingUnkMaker m) s = chunking_spawnNodes m points s"
| "maker_spawnNodes rt points (SingleUnkMaker m) s = single_spawnNodes m points s"
| "maker_spawnNodes rt points (OnomatopoeiaUnkMaker m) s = onomatopoeia_spawnNodes m (rt_status rt) points s"
| "maker_spawnNodes rt points (NumericUnkMaker m) s = numeric_spawnNodes m (rt_buffer rt) points s"
| "maker_spawnNodes rt points (NormalizedNodeMaker m) s = normalized_spawnNodes (rt_sort_results rt) (rt_status rt) m (rt_buffer rt) points s"

text \<open>\<open>DicReader::readEntry\<close>: whether the entry could be read is checked in debug builds only.\<close>

definition readEntry :: "runtime \<Rightarrow> entries_holder \<Rightarrow> entry_ptr \<Rightarrow> dic_entry_buffer" where
  "readEntry rt h p = snd (fillFromStorage p (eh_entries h) (setCounts (eh_numFeatures h) (eh_numData h) (rt_buffer rt)))"

definition handlePrefixIndex :: "unk_descriptor \<Rightarrow> unk_config \<Rightarrow> status_code \<times> unk_config" where
  "handlePrefixIndex info conf =
     (case ud_features info of
        [] \<Rightarrow> (StOk, conf)
      | f # fs \<Rightarrow> (if fs \<noteq> [] then StNotImplemented else StOk, conf\<lparr>uc_targetPlaceholder := umf_targetPlaceholder f\<rparr>))"

definition make_creator :: "unk_maker_type \<Rightarrow> unk_maker \<Rightarrow> unk_creator option" where
  "make_creator type m =
     (case type of
        UmtChunking \<Rightarrow> Some (ChunkingUnkMaker m)
      | UmtSingle \<Rightarrow> Some (SingleUnkMaker m)
      | UmtOnomatopoeia \<Rightarrow> Some (OnomatopoeiaUnkMaker m)
      | UmtNumeric \<Rightarrow> Some (NumericUnkMaker m)
      | UmtNormalize \<Rightarrow> Some (NormalizedNodeMaker m)
      | UmtInvalid \<Rightarrow> None)"

definition make_unk :: "runtime \<Rightarrow> entries_holder \<Rightarrow> unk_descriptor \<Rightarrow> unk_makers \<Rightarrow> status_code \<times> unk_makers" where
  "make_unk rt h x ms =
     (if ud_priority x \<noteq> 0 \<and> ud_priority x \<noteq> 1 then (StInvalidState, ms)
      else let eptr = mk_entry (ud_patternPtr x);
               conf = unk_config_new (readEntry rt h eptr) eptr;
               conf = conf\<lparr>uc_replaceWithSurface := uc_replaceWithSurface conf @ ud_replaceFields x\<rparr>
           in case handlePrefixIndex x conf of
                (status, conf) \<Rightarrow>
                  if status \<noteq> StOk then (status, ms)
                  else let conf = fillPatternFields conf
                       in case make_creator (ud_type x)
                           \<lparr>um_entries = h, um_charClass = ud_charClass x, um_info = conf, um_fresh = rt_i32 rt, um_value0 = rt_i32 rt\<rparr> of
                            None \<Rightarrow> (StNotImplemented, ms)
                          | Some c \<Rightarrow>
                              (StOk, if ud_priority x = 0 then ms\<lparr>um_stage1 := um_stage1 ms @ [c]\<rparr> else ms\<lparr>um_stage2 := um_stage2 ms @ [c]\<rparr>))"

fun makeMakers :: "runtime \<Rightarrow> entries_holder \<Rightarrow> unk_descriptor list \<Rightarrow> unk_makers \<Rightarrow> status_code \<times> unk_makers" where
  "makeMakers rt h [] ms = (StOk, ms)"
| "makeMakers rt h (x # xs) ms = (case make_unk rt h x ms of (status, ms) \<Rightarrow> if status \<noteq> StOk then (status, ms) else makeMakers rt h xs ms)"

subsection \<open>All makers stay in the input\<close>

text \<open>A maker only appends seeds that lie in the input and are not empty.\<close>

definition makers_inv :: "nat \<Rightarrow> u16 \<Rightarrow> unk_state \<Rightarrow> bool" where
  "makers_inv n k s \<longleftrightarrow> seeds_inside n s \<and> lbd_maxBoundaries (snd s) = k"

lemma spawn_inv:
  assumes "makers_inv n k s" "unat start < unat stop" "unat stop \<le> n"
  shows "makers_inv n k (spawn_unk m w notPrefix start stop s)"
  using assms spawn_inside [of n s start stop m w notPrefix] by (auto simp: makers_inv_def spawn_unk_def appendSeed_def split: prod.splits)

lemma next_position: "unat (j :: u16) < 65535 \<Longrightarrow> unat (j + 1) = unat j + 1"
  by (simp add: unat_word_ariths(1))

lemma positions:
  assumes "i < length points" "length points < 65535"
  shows "unat (word_of_nat i :: u16) = i" "unat (word_of_nat i + 1 :: u16) = Suc i"
proof -
  show u: "unat (word_of_nat i :: u16) = i" using assms by (intro unat_of_nat_small) simp
  show "unat (word_of_nat i + 1 :: u16) = Suc i" using next_position [of "word_of_nat i"] assms unfolding u by simp
qed

lemma one_surface: "i < length points \<Longrightarrow> input_surface points i (Suc i) = ic_bytes (points ! i)"
  by (simp add: input_surface_def text_of_def take_Suc_conv_app_nth Cons_nth_drop_Suc [symmetric])

lemma pattern_bits:
  assumes "h \<in> {2, 3, 4}" "find_pattern points i 2 0 AND HalfLenToPattern h \<noteq> 0"
  shows "i + 2 * h \<le> length points"
proof -
  have m: "HalfLenToPattern 2 = 4" "HalfLenToPattern 3 = 8" "HalfLenToPattern 4 = 16" by code_simp+
  have a: "(4::u16) AND 4 = 4" "(4::u16) AND 8 = 0" "(4::u16) AND 16 = 0" "(8::u16) AND 4 = 0" "(8::u16) AND 8 = 8" "(8::u16) AND 16 = 0"
    "(16::u16) AND 4 = 0" "(16::u16) AND 8 = 0" "(16::u16) AND 16 = 16" by simp_all
  have "find_pattern points i 2 0 AND HalfLenToPattern h = 0" if "\<not> repeats points i h"
    using assms(1) that unfolding find_pattern_repeats
    by (elim insertE) (auto simp: m bit.conj_disj_distrib2)
  then show ?thesis using assms(2) by (auto simp: repeats_def)
qed

subsection \<open>What a maker keeps\<close>

text \<open>
  Something the makers keep: it is kept when a maker adds a seed for a part of the input and a node for its text. Of each maker it
  is then shown once that it keeps it.
\<close>

locale word_invariant =
  fixes I :: "unk_state \<Rightarrow> bool" and points :: "input_codepoint list" and m :: unk_maker
  assumes spawn_keeps:
    "I s \<Longrightarrow> unat start < unat stop \<Longrightarrow> unat stop \<le> length points \<Longrightarrow>
     I (spawn_unk m (input_surface points (unat start) (unat stop)) notPrefix start stop s)"
begin

lemma chunk_rest_keeps:
  assumes "unat i \<le> unat j" "unat j + length rest = length points" "length points < 65535" "I s"
  shows "I (chunk_rest m points i rest j s)"
  using assms
proof (induction rest arbitrary: j s)
  case (Cons cp rest)
  have j: "unat (j + 1) = unat j + 1" using Cons.prems(2,3) by (intro next_position) simp
  have "I (spawn_unk m (input_surface points (unat i) (unat (j + 1))) True i (j + 1) s)"
    using Cons.prems j by (intro spawn_keeps) simp_all
  then show ?case using Cons j by simp
qed simp

lemma chunk_loop_keeps:
  assumes "chunk_loop m points i j trav s = Some s'"
  shows "unat i \<le> unat j \<longrightarrow> length points < 65535 \<longrightarrow> I s \<longrightarrow> I s'"
proof (rule chunk_loop.raw_induct [OF _ assms, where P = "\<lambda>m' points' i j trav s s'. m' = m \<longrightarrow> points' = points \<longrightarrow> unat i \<le> unat j \<longrightarrow> length points < 65535 \<longrightarrow> I s \<longrightarrow> I s'", THEN mp, THEN mp, OF _ refl refl], intro impI)
  fix loop :: "unk_maker \<Rightarrow> input_codepoint list \<Rightarrow> u16 \<Rightarrow> u16 \<Rightarrow> da_traversal \<Rightarrow> unk_state \<Rightarrow> unk_state option"
  fix m' points' i j trav s s'
  assume IH: "\<And>m' points' i j trav s s'. loop m' points' i j trav s = Some s' \<Longrightarrow>
      m' = m \<longrightarrow> points' = points \<longrightarrow> unat i \<le> unat j \<longrightarrow> length points < 65535 \<longrightarrow> I s \<longrightarrow> I s'"
    and body': "(if unat j < length points'
         then if \<not> hasClass (points' ! unat j) (um_charClass m') then Some s
              else case index_step (um_entries m') (ic_bytes (points' ! unat j)) trav of None \<Rightarrow> None
                   | Some (status, trav) \<Rightarrow>
                       (case status of TsOk \<Rightarrow> loop m' points' i (j + 1) trav s
                        | TsNoLeaf \<Rightarrow> loop m' points' i (j + 1) trav (spawn_unk m' (input_surface points' (unat i) (unat (j + 1))) False i (j + 1) s)
                        | TsNoNode \<Rightarrow> loop m' points' i (word_of_nat (length points') + 1) trav (chunk_rest m' points' i (drop (unat j) points') j s))
         else Some s) = Some s'"
    and same: "m' = m" "points' = points"
    and prems: "unat i \<le> unat j" "length points < 65535" "I s"
  note body = body' [unfolded same]
  show "I s'"
  proof (cases "unat j < length points \<and> hasClass (points ! unat j) (um_charClass m)")
    case True
    then have j: "unat (j + 1) = unat j + 1" "unat j < length points" using prems(2) True next_position [of j] by simp_all
    obtain status trav' where st: "index_step (um_entries m) (ic_bytes (points ! unat j)) trav = Some (status, trav')"
      using body True by (auto split: option.splits)
    have sp: "I (spawn_unk m (input_surface points (unat i) (unat (j + 1))) False i (j + 1) s)"
      using prems j by (intro spawn_keeps) simp_all
    have rest: "I (chunk_rest m points i (drop (unat j) points) j s)"
      using prems j by (intro chunk_rest_keeps) simp_all
    have last: "unat (word_of_nat (length points) + 1 :: u16) = length points + 1"
      using prems(2) by (subst next_position) (simp_all add: unat_of_nat_small del: unat_of_nat)
    show ?thesis
    proof (cases status)
      case TsOk
      with body True st have "loop m points i (j + 1) trav' s = Some s'" by simp
      from IH [OF this] prems j show ?thesis by simp
    next
      case TsNoLeaf
      with body True st have "loop m points i (j + 1) trav' (spawn_unk m (input_surface points (unat i) (unat (j + 1))) False i (j + 1) s) = Some s'" by simp
      from IH [OF this] prems sp j show ?thesis by simp
    next
      case TsNoNode
      with body True st have "loop m points i (word_of_nat (length points) + 1) trav' (chunk_rest m points i (drop (unat j) points) j s) = Some s'" by simp
      from IH [OF this] prems rest last j show ?thesis by simp
    qed
  qed (use body prems in \<open>auto split: if_splits\<close>)
qed

lemma chunking_keeps:
  assumes "chunking_spawnNodes m points s = Some s'" "length points < 65535" "I s"
  shows "I s'"
proof (rule fold_option_inv [where P = I, OF assms(1) [unfolded chunking_spawnNodes_def] assms(3)])
  fix i s s' assume "i \<in> set [0..<length points]" and inv: "I s"
    and f: "(if \<not> hasClass (points ! i) (um_charClass m) then Some s
       else chunk_loop m points (word_of_nat i) (word_of_nat i) (da_traversal_new (um_value0 m)) s) = Some s'"
  then show "I s'"
  proof (cases "hasClass (points ! i) (um_charClass m)")
    case True
    with f have "chunk_loop m points (word_of_nat i) (word_of_nat i) (da_traversal_new (um_value0 m)) s = Some s'" by simp
    from chunk_loop_keeps [OF this] assms(2) inv show ?thesis by simp
  qed simp
qed

lemma single_keeps:
  assumes "single_spawnNodes m points s = Some s'" "length points < 65535" "I s"
  shows "I s'"
proof (rule fold_option_inv [where P = "I", OF assms(1) [unfolded single_spawnNodes_def] assms(3)])
  fix i s s' assume "i \<in> set [0..<length points]" and inv: "I s"
    and f: "(if \<not> hasClass (points ! i) (um_charClass m) then Some s
         else (case index_step (um_entries m) (ic_bytes (points ! i)) (da_traversal_new (um_value0 m)) of
                 None \<Rightarrow> None
               | Some (TsOk, _) \<Rightarrow> Some s
               | Some (status, _) \<Rightarrow>
                   Some (spawn_unk m (ic_bytes (points ! i)) (status = TsNoNode) (word_of_nat i) (word_of_nat i + 1) s))) = Some s'"
  then have i: "i < length points" by simp
  have "I (spawn_unk m (input_surface points (unat (word_of_nat i :: u16)) (unat (word_of_nat i + 1 :: u16))) np (word_of_nat i) (word_of_nat i + 1) s)" for np
    by (rule spawn_keeps [OF inv]) (simp_all only: positions [OF i assms(2)], use i in simp_all)
  then have "I (spawn_unk m (ic_bytes (points ! i)) np (word_of_nat i) (word_of_nat i + 1) s)" for np
    unfolding positions [OF i assms(2)] one_surface [OF i] .
  then show "I s'" using f inv by (auto split: if_splits option.splits traverse_status.splits)
qed

lemma onomatopoeia_at_keeps:
  assumes "length points < 65535" "i < length points"
  shows "onomatopoeia_at m points i pattern hs nextstep trav status s = Some s' \<Longrightarrow>
    (\<And>h. h \<in> set hs \<Longrightarrow> 0 < h \<and> (pattern AND HalfLenToPattern h \<noteq> 0 \<longrightarrow> i + 2 * h \<le> length points)) \<Longrightarrow> I s \<Longrightarrow> I s'"
proof (induction hs arbitrary: nextstep trav status s)
  case (Cons halfLen halfLens)
  let ?stop = "i + halfLen * 2"
  show ?case
  proof (cases "pattern AND HalfLenToPattern halfLen \<noteq> 0")
    case True
    then have stop: "?stop \<le> length points" "0 < halfLen" using Cons.prems(2) [of halfLen] by simp_all
    then have u: "unat (word_of_nat i :: u16) = i" "unat (word_of_nat ?stop :: u16) = ?stop"
      using assms by (intro unat_of_nat_small; simp)+
    have "I (spawn_unk m (input_surface points (unat (word_of_nat i :: u16)) (unat (word_of_nat ?stop :: u16))) np (word_of_nat i) (word_of_nat ?stop) s)" for np
      by (rule spawn_keeps [OF Cons.prems(3)]) (simp_all only: u stop, use stop in simp)
    then have sp: "I (spawn_unk m (input_surface points i ?stop) np (word_of_nat i) (word_of_nat ?stop) s)" for np
      unfolding u .
    from True Cons.prems(1) obtain status1 trav1 where st: "step_over (um_entries m) (take (?stop - nextstep) (drop nextstep points)) trav status = Some (status1, trav1)"
      by (auto simp: Let_def split: option.splits)
    then have "onomatopoeia_at m points i pattern halfLens (max nextstep ?stop) trav1 status1
        (if status1 = TsOk then s else spawn_unk m (input_surface points i ?stop) (status1 = TsNoNode) (word_of_nat i) (word_of_nat ?stop) s) = Some s'"
      using Cons.prems(1) True by (simp add: Let_def)
    then show ?thesis by (rule Cons.IH) (use Cons.prems(2,3) sp in auto)
  next
    case False
    show ?thesis by (rule Cons.IH) (use Cons.prems False in auto)
  qed
qed simp

lemma onomatopoeia_keeps:
  assumes "onomatopoeia_spawnNodes m status0 points s = Some s'" "length points < 65535" "I s"
  shows "I s'"
proof (rule fold_option_inv [where P = "I", OF assms(1) [unfolded onomatopoeia_spawnNodes_def] assms(3)])
  fix i s s' assume "i \<in> set [0..<length points]" and inv: "I s"
    and f: "(let pattern = FindOnomatopoeia (um_charClass m) points i
         in if pattern = 0 then Some s
            else onomatopoeia_at m points i pattern [2, 3, 4] i (da_traversal_new (um_value0 m)) status0 s) = Some s'"
  then have i: "i < length points" by simp
  show "I s'"
  proof (cases "FindOnomatopoeia (um_charClass m) points i = 0")
    case False
    then have p: "FindOnomatopoeia (um_charClass m) points i = find_pattern points i 2 0" by (auto simp: FindOnomatopoeia_def split: if_splits)
    from f False have "onomatopoeia_at m points i (find_pattern points i 2 0) [2, 3, 4] i (da_traversal_new (um_value0 m)) status0 s = Some s'"
      by (simp add: p Let_def)
    then show ?thesis by (rule onomatopoeia_at_keeps [OF assms(2) i _ _ inv]) (use pattern_bits in auto)
  qed (use f inv in simp)
qed

lemma numeric_keeps:
  assumes "numeric_spawnNodes m buffer0 points s = Some s'" "length points < 65535" "I s"
  shows "I s'"
proof (rule fold_option_inv [where P = I, OF assms(1) [unfolded numeric_spawnNodes_def] assms(3)])
  fix i s s' assume "i \<in> set [0..<length points]" and f: "numeric_spawn_at m buffer0 points i s = Some s'" and inv: "I s"
  then have i: "i < length points" by simp
  let ?len = "FindLongestNumber (um_charClass m) points i"
  show "I s'"
  proof (cases "?len > 0")
    case True
    have le: "i + ?len \<le> length points"
      using longest_number_bound [of points i 0 "um_charClass m"] assms(2) i by (simp add: FindLongestNumber_def)
    have u: "unat (word_of_nat i :: u16) = i" "unat (word_of_nat (i + ?len) :: u16) = i + ?len"
      using assms(2) i le by (intro unat_of_nat_small; simp)+
    have "I (spawn_unk m (input_surface points (unat (word_of_nat i :: u16)) (unat (word_of_nat (i + ?len) :: u16))) np (word_of_nat i) (word_of_nat (i + ?len)) s)" for np
      by (rule spawn_keeps [OF inv]) (simp_all only: u, use True le in simp_all)
    then have "I (spawn_unk m (input_surface points i (i + ?len)) np (word_of_nat i) (word_of_nat (i + ?len)) s)" for np unfolding u .
    then show ?thesis using f inv True
      by (auto simp: numeric_spawn_at_def Let_def simp del: of_nat_add split: option.splits traverse_status.splits if_splits)
  qed (use f inv in \<open>simp add: numeric_spawn_at_def Let_def\<close>)
qed

end

subsubsection \<open>The normalizing maker\<close>

definition state_inside :: "nat \<Rightarrow> nat \<Rightarrow> traversal_state \<Rightarrow> bool" where
  "state_inside n start s \<longleftrightarrow> unat (ts_start s) = start \<and> start < unat (ts_end s) \<and> unat (ts_end s) \<le> n"

definition result_inside :: "nat \<Rightarrow> nat \<Rightarrow> cl_result \<Rightarrow> bool" where
  "result_inside n start r \<longleftrightarrow> unat (cr_start r) = start \<and> start < unat (cr_end r) \<and> unat (cr_end r) \<le> n"

definition search_inside :: "nat \<Rightarrow> nat \<Rightarrow> cl_search \<Rightarrow> bool" where
  "search_inside n start s \<longleftrightarrow> list_all (state_inside n start) (fst s) \<and> list_all (result_inside n start) (snd s)"

lemma tryWalk_inside:
  assumes "tryWalk h status0 n pState cp newFlag doStep s = Some s'" "state_inside n start pState" "search_inside n start s" "n < 65535"
  shows "search_inside n start s'"
proof -
  have e: "unat (ts_end pState + 1) = unat (ts_end pState) + 1" using assms(2,4) by (intro next_position) (simp add: state_inside_def)
  have n: "unat (word_of_nat n :: u16) = n" using assms(4) by (intro unat_of_nat_small) simp
  have m: "unat (min (ts_end pState + 1) (word_of_nat n)) = min (unat (ts_end pState) + 1) n"
    by (simp add: min_def word_le_nat_alt e n del: unat_of_nat)
  have in1: "start < unat (min (ts_end pState + 1) (word_of_nat n))" "unat (min (ts_end pState + 1) (word_of_nat n)) \<le> n"
    unfolding m using assms(2) by (auto simp: state_inside_def)
  then show ?thesis using assms(1-3)
    by (auto simp: tryWalk_def Let_def ts_make_def search_inside_def state_inside_def result_inside_def push_results_ptrs list_all_iff
        split: option.splits if_splits)
qed

lemma walk_state_inside:
  assumes "walk_state h status0 points nodes pos s st = Some st'" "state_inside (length points) start s" "search_inside (length points) start st" "length points < 65535"
  shows "search_inside (length points) start st'"
proof -
  let ?st = "if unat (ts_end s) \<noteq> pos
       then (fst st @ [ts_make status0 (ts_traversal s) (ts_start s) (ts_end s) (ts_allFlags s)], snd st) else st"
  have st: "search_inside (length points) start ?st" using assms(2,3) by (auto simp: search_inside_def state_inside_def ts_make_def)
  from assms(1) obtain t where t: "tryWalk h status0 (length points) s (points ! pos) Mod_ORIGINAL True ?st = Some t"
    "fold_option (\<lambda>n. tryWalk h status0 (length points) s (cn_cp n) (cn_type n) (\<not> cn_hasType n Mod_DELETE)) nodes t = Some st'"
    by (auto simp: walk_state_def Let_def bind_eq_Some_conv)
  show ?thesis
    by (rule fold_option_inv [where P = "search_inside (length points) start", OF t(2)])
      (use tryWalk_inside [OF t(1) assms(2) st assms(4)] tryWalk_inside [OF _ assms(2) _ assms(4)] in auto)
qed

lemma set_unique_states: "set (unique_states states) \<subseteq> set states"
proof -
  obtain xs n c where u: "unique same_state states = (xs, n, c)" by (cases "unique same_state states")
  have "unique_states states = std_unique same_state states" using unique_result(1) [OF u] by (simp add: unique_states_def u)
  then show ?thesis using std_unique_key(1) [of same_state "\<lambda>s. (ts_end s, ts_allFlags s, ts_traversal s)" states] by (simp add: same_state_def)
qed

lemma lookup_loop_inside:
  assumes "lookup_loop h status0 cl points step states result = Some r" "length points < 65535"
    and "list_all (state_inside (length points) start) states" "list_all (result_inside (length points) start) result"
  shows "list_all (result_inside (length points) start) r"
  using assms
proof (induction h status0 cl points step states result rule: lookup_loop.induct)
  case (1 h status0 cl points step states result)
  show ?case
  proof (cases "step < length points \<and> states \<noteq> []")
    case True
    then obtain states2 result2 where d: "doTraverseStep h status0 cl points step states result = Some (states2, result2)"
      "lookup_loop h status0 cl points (step + 1) (unique_states states2) result2 = Some r"
      using "1.prems"(1) by (auto simp: lookup_loop.simps [of h status0 cl points step states result] split: option.splits)
    have "search_inside (length points) start (states2, result2)"
    proof (rule fold_option_inv [where P = "search_inside (length points) start", OF d(1) [unfolded doTraverseStep_def]])
      show "search_inside (length points) start ([], result)" using "1.prems"(4) by (simp add: search_inside_def)
    qed (use walk_state_inside "1.prems"(2,3) in \<open>auto simp: list_all_iff\<close>)
    then have "list_all (state_inside (length points) start) (unique_states states2)" "list_all (result_inside (length points) start) result2"
      using set_unique_states [of states2] by (auto simp: search_inside_def list_all_iff)
    from "1.IH" [OF True d(1) refl d(2) "1.prems"(2) this] show ?thesis .
  qed (use "1.prems" in \<open>auto simp: lookup_loop.simps [of h status0 cl points step states result]\<close>)
qed

text \<open>A sorting of the standard library gives back a permutation.\<close>

definition runtime_ok :: "runtime \<Rightarrow> bool" where
  "runtime_ok rt \<longleftrightarrow> (\<forall>rs. set (rt_sort_results rt rs) = set rs)
     \<and> (\<forall>n. length (rt_fresh64 rt n) = n) \<and> (\<forall>n. length (rt_fresh32 rt n) = n) \<and> (\<forall>n. length (rt_freshScores rt n) = n)"

lemma lookup_inside:
  assumes "lookupCandidatesFrom srt h value0 status0 cl points i result0 = Some (found, r)" "i < length points" "length points < 65535"
    and "\<And>rs. set (srt rs) = set rs"
  shows "found \<longrightarrow> list_all (result_inside (length points) i) r"
proof
  assume found
  then obtain trav stat result where st: "index_step h (ic_bytes (points ! i)) (da_traversal_new value0) = Some (stat, trav)"
    "lookup_loop h status0 cl points (i + 1)
      [(ts_make status0 trav (word_of_nat i) (word_of_nat (i + 1)) Mod_ORIGINAL)\<lparr>ts_lastStatus := stat\<rparr>] [] = Some result"
    "r = std_unique result_same (srt result)"
    using assms(1,2) by (auto simp: lookupCandidatesFrom_def Let_def split: option.splits if_splits list.splits)
  have "state_inside (length points) i ((ts_make status0 trav (word_of_nat i) (word_of_nat (i + 1)) Mod_ORIGINAL)\<lparr>ts_lastStatus := stat\<rparr>)"
    using positions [OF assms(2,3)] assms(2) by (simp add: state_inside_def ts_make_def add.commute)
  then have "list_all (result_inside (length points) i) result" by (intro lookup_loop_inside [OF st(2) assms(3)]) simp_all
  moreover have "set r \<subseteq> set (srt result)"
    unfolding st(3) by (rule std_unique_key(1) [of result_same "\<lambda>c. (cr_entryPtr c, cr_end c)"]) (simp add: result_same_def)
  ultimately show "list_all (result_inside (length points) i) r" using assms(4) by (auto simp: list_all_iff)
qed

text \<open>The same for the normalizing maker, which makes its nodes from entries of the dictionary.\<close>

locale candidate_invariant = word_invariant +
  fixes buffer0 :: dic_entry_buffer
  assumes candidate_keeps:
    "I s \<Longrightarrow> unat (cr_start r) < unat (cr_end r) \<Longrightarrow> unat (cr_end r) \<le> length points \<Longrightarrow>
     I (spawn_candidate m buffer0 points r s)"
begin

lemma candidates_keep:
  assumes "list_all (result_inside (length points) i) rs" "I s"
  shows "I (fold (spawn_candidate m buffer0 points) rs s)"
  using assms
proof (induction rs arbitrary: s)
  case (Cons r rs)
  have "I (spawn_candidate m buffer0 points r s)"
    using Cons.prems by (intro candidate_keeps) (simp_all add: result_inside_def)
  then show ?case using Cons by simp
qed simp

lemma normalized_keeps:
  assumes "normalized_spawnNodes srt status0 m buffer0 points s = Some s'" "length points < 65535" "\<And>rs. set (srt rs) = set rs" "I s"
  shows "I s'"
proof (cases "isApplicable (cl_Parse points cl_new)")
  case True
  let ?f = "\<lambda>i (result, s).
            case lookupCandidatesFrom srt (um_entries m) (um_value0 m) status0 (cl_Parse points cl_new) points i result of
              None \<Rightarrow> None
            | Some (found, result) \<Rightarrow> Some (result, if found then fold (spawn_candidate m buffer0 points) result s else s)"
  from assms(1) True obtain r where r: "fold_option ?f [0..<unat (word_of_nat (length points) :: u16)] ([], s) = Some (r, s')"
    by (auto simp: normalized_spawnNodes_def)
  have n: "unat (word_of_nat (length points) :: u16) = length points" using assms(2) by (intro unat_of_nat_small) simp
  have "I (snd (r, s'))"
  proof (rule fold_option_inv [where P = "\<lambda>rs. I (snd rs)", OF r])
    fix i rs rs' assume i: "i \<in> set [0..<unat (word_of_nat (length points) :: u16)]" and f: "?f i rs = Some rs'" and inv: "I (snd rs)"
    obtain r0 s0 where rs: "rs = (r0, s0)" by (cases rs)
    from f obtain found r1 where l: "lookupCandidatesFrom srt (um_entries m) (um_value0 m) status0 (cl_Parse points cl_new) points i r0 = Some (found, r1)"
      "rs' = (r1, if found then fold (spawn_candidate m buffer0 points) r1 s0 else s0)" by (auto simp: rs split: option.splits)
    have "i < length points" using i by (simp only: n) simp
    from lookup_inside [OF l(1) this assms(2,3)] inv show "I (snd rs')"
      by (auto simp: l(2) rs intro: candidates_keep)
  qed (use assms(4) in simp)
  then show ?thesis by simp
qed (use assms in \<open>simp add: normalized_spawnNodes_def Let_def\<close>)

end

subsection \<open>The contract of a maker\<close>

text \<open>What the analyzer relies on when it calls a maker of nodes (\<open>UnkMaker::spawnNodes\<close>): it only adds words of the input.\<close>

locale seed_maker =
  fixes spawn :: "input_codepoint list \<Rightarrow> unk_state \<Rightarrow> unk_state option"
  assumes stays_inside:
    "spawn points s = Some s' \<Longrightarrow> length points < 65535 \<Longrightarrow> makers_inv (length points) k s \<Longrightarrow> makers_inv (length points) k s'"
begin

lemma from_nothing:
  assumes "spawn points (x, b) = Some (x', b')" "length points < 65535" "lbd_seeds b = []" "sd \<in> set (lbd_seeds b')"
  shows "unat (sd_start sd) < unat (sd_end sd)" "unat (sd_end sd) \<le> length points"
  using stays_inside [OF assms(1,2), of "lbd_maxBoundaries b"] assms(3,4)
  by (simp_all add: makers_inv_def seeds_inside_def list_all_iff)

lemma keeps_boundaries:
  assumes "spawn points (x, b) = Some (x', b')" "length points < 65535" "lbd_seeds b = []"
  shows "lbd_maxBoundaries b' = lbd_maxBoundaries b"
  using stays_inside [OF assms(1,2), of "lbd_maxBoundaries b"] assms(3) by (simp add: makers_inv_def seeds_inside_def)

end

text \<open>The makers keep that all seeds lie in the input.\<close>

lemma candidate_inv:
  assumes "makers_inv n k s" "unat (cr_start r) < unat (cr_end r)" "unat (cr_end r) \<le> n"
  shows "makers_inv n k (spawn_candidate m buffer0 points r s)"
  using assms by (auto simp: spawn_candidate_def makers_inv_def seeds_inside_def appendSeed_def split: prod.splits)

interpretation inside: candidate_invariant "makers_inv (length points) k" points m buffer0 for points k m buffer0
  by unfold_locales (auto intro: spawn_inv candidate_inv)

interpretation chunking_maker: seed_maker "chunking_spawnNodes m" for m
  by unfold_locales (rule inside.chunking_keeps)

interpretation single_maker: seed_maker "single_spawnNodes m" for m
  by unfold_locales (rule inside.single_keeps)

interpretation onomatopoeia_maker: seed_maker "onomatopoeia_spawnNodes m status0" for m status0
  by unfold_locales (rule inside.onomatopoeia_keeps)

interpretation numeric_maker: seed_maker "numeric_spawnNodes m buffer0" for m buffer0
  by unfold_locales (rule inside.numeric_keeps)

lemma maker_contract:
  assumes "runtime_ok rt"
  shows "seed_maker (\<lambda>points. maker_spawnNodes rt points c)"
proof
  fix points s s' k
  assume "maker_spawnNodes rt points c s = Some s'" "length points < 65535" "makers_inv (length points) k s"
  then show "makers_inv (length points) k s'"
    using assms chunking_maker.stays_inside single_maker.stays_inside onomatopoeia_maker.stays_inside numeric_maker.stays_inside
      inside.normalized_keeps
    by (cases c) (auto simp: runtime_ok_def)
qed

lemma maker_inv:
  assumes "maker_spawnNodes rt points c s = Some s'" "length points < 65535" "runtime_ok rt" "makers_inv (length points) k s"
  shows "makers_inv (length points) k s'"
  by (rule seed_maker.stays_inside [OF maker_contract [OF assms(3)] assms(1,2,4)])

text \<open>The settings of a maker, and the step for anything its nodes keep.\<close>

fun creator_maker :: "unk_creator \<Rightarrow> unk_maker" where
  "creator_maker (ChunkingUnkMaker m) = m"
| "creator_maker (SingleUnkMaker m) = m"
| "creator_maker (OnomatopoeiaUnkMaker m) = m"
| "creator_maker (NumericUnkMaker m) = m"
| "creator_maker (NormalizedNodeMaker m) = m"

lemma maker_keeps:
  assumes "candidate_invariant I points (creator_maker c) (rt_buffer rt)"
    and "maker_spawnNodes rt points c s = Some s'" "length points < 65535" "runtime_ok rt" "I s"
  shows "I s'"
proof -
  note w = candidate_invariant.axioms(1) [OF assms(1)]
  show ?thesis
    using assms(2-5) word_invariant.chunking_keeps [OF w] word_invariant.single_keeps [OF w] word_invariant.onomatopoeia_keeps [OF w]
      word_invariant.numeric_keeps [OF w] candidate_invariant.normalized_keeps [OF assms(1)]
    by (cases c) (auto simp: runtime_ok_def)
qed

end
