(* ===== verification/SegmentedFormat.thy ===== *)
theory SegmentedFormat
  imports Output Makers AnalysisPath
begin

text \<open>
  \<open>src/src/core/impl/segmented_format.h/.cc\<close>: the output format that prints the surfaces of the words of the best path, with the output
  manager and the node walker it reads them with. A read outside of a vector is \<open>None\<close>.

  The lemmas show of which seeds the surface that is read is the text the seed was made for: of a dictionary entry whose surface field holds
  that text, and of every unknown word whose maker replaces the surface field; the latter is an invariant of all makers.
\<close>

subsection \<open>The format\<close>

record segmented_formatter =
  sgf_surface :: string_field
  sgf_separator :: byte_string
  sgf_top1 :: analysis_path
  sgf_printer :: byte_string

text \<open>\<open>fieldNames\<close> are the names of the fields of the specification, \<open>indexColumn\<close> is its index column.\<close>

definition sgf_initialize ::
  "output_manager \<Rightarrow> byte_string list \<Rightarrow> i32 \<Rightarrow> byte_string \<Rightarrow> segmented_formatter \<Rightarrow> (status_code \<times> segmented_formatter) option" where
  "sgf_initialize m fieldNames indexColumn separator f =
     map_option (\<lambda>name.
       case om_stringField m name (sgf_surface f) of
         (status, surface) \<Rightarrow>
           if status \<noteq> StOk then (status, f)
           else (StOk, f\<lparr>sgf_surface := surface, sgf_separator := separator\<rparr>))
       (vec_at fieldNames indexColumn)"

lemma sgf_initialized:
  assumes "sgf_initialize m fieldNames indexColumn separator f = Some (StOk, f')"
  shows "sgf_separator f' = separator"
proof -
  from assms obtain name where n: "(case om_stringField m name (sgf_surface f) of
      (status, surface) \<Rightarrow> if status \<noteq> StOk then (status, f) else (StOk, f\<lparr>sgf_surface := surface, sgf_separator := separator\<rparr>)) = (StOk, f')"
    by (auto simp: sgf_initialize_def)
  obtain status surface where o: "om_stringField m name (sgf_surface f) = (status, surface)" by fastforce
  from n show ?thesis unfolding o by (cases "status = StOk") auto
qed

text \<open>The cycle over the boundaries; \<open>nw\<close> is the walker, which every word reuses.\<close>

function sgf_loop ::
  "output_manager \<Rightarrow> string_field \<Rightarrow> byte_string \<Rightarrow> analysis_path \<Rightarrow> node_walker \<Rightarrow> byte_string
    \<Rightarrow> (status_code \<times> analysis_path \<times> byte_string) option" where
  "sgf_loop m surface separator path nw printer =
     (let (ok, path') = nextBoundary path
      in if ok then
           (case nextNodePtr path' of
              None \<Rightarrow> None
            | Some (None, path') \<Rightarrow> Some (StInvalidParameter, path', printer)
            | Some (Some ptr, path') \<Rightarrow>
                (case om_locateNode m (latticeNodePtr ptr) nw of
                   None \<Rightarrow> None
                 | Some (False, nw) \<Rightarrow> Some (StInvalidParameter, path', printer)
                 | Some (True, nw) \<Rightarrow>
                     (case string_field_at m surface nw of
                        None \<Rightarrow> None
                      | Some word \<Rightarrow>
                          sgf_loop m surface separator path' nw
                            (printer @ word @ (if isLastBoundary path' then [] else separator)))))
         else Some (StOk, path', printer @ [0x0a]))"
  by pat_completeness auto
termination
  by (relation "measure (\<lambda>(_, _, _, path, _, _). nat (numBoundaries path - ap_currentChunk path))")
    (auto simp: nextBoundary_def numBoundaries_def Let_def dest!: nextNodePtr_chunk)

declare sgf_loop.simps [simp del]

text \<open>A new walker is at no node; \<open>buffer0\<close> is the memory of its buffer. \<open>l\<close> is the lattice of the analyzer.\<close>

definition om_nodeWalker :: "dic_entry_buffer \<Rightarrow> node_walker" where
  "om_nodeWalker buffer0 = \<lparr>nw_buffer = setCounts 0 0 buffer0, nw_current = EntryPtr_Invalid\<rparr>"

definition sgf_format ::
  "output_manager \<Rightarrow> lattice \<Rightarrow> dic_entry_buffer \<Rightarrow> segmented_formatter \<Rightarrow> (status_code \<times> segmented_formatter) option" where
  "sgf_format m l buffer0 f =
     (case fillIn l (sgf_top1 f) of
        None \<Rightarrow> None
      | Some (status, top1) \<Rightarrow>
          if status \<noteq> StOk then Some (status, f\<lparr>sgf_printer := [], sgf_top1 := top1\<rparr>)
          else map_option (\<lambda>(status, top1, printer). (status, f\<lparr>sgf_printer := printer, sgf_top1 := top1\<rparr>))
                 (sgf_loop m (sgf_surface f) (sgf_separator f) top1 (om_nodeWalker buffer0) []))"

definition sgf_result :: "segmented_formatter \<Rightarrow> byte_string" where
  "sgf_result f = sgf_printer f"

subsection \<open>Printing the words of the path\<close>

text \<open>A walker that has room for the features of an entry.\<close>

definition nw_room :: "entries_holder \<Rightarrow> node_walker \<Rightarrow> bool" where
  "nw_room h w \<longleftrightarrow> unat (eh_numFeatures h) \<le> length (deb_featureBuffer (nw_buffer w))"

text \<open>Whatever the walker has read before, the text is what is read of the entry, and the walker can be used again.\<close>

definition prints_as :: "output_manager \<Rightarrow> string_field \<Rightarrow> entry_ptr \<Rightarrow> byte_string \<Rightarrow> bool" where
  "prints_as m f p word \<longleftrightarrow> (\<forall>w. nw_room (om_entries m) w \<longrightarrow>
     (\<exists>w'. om_locate m p w = Some (True, w') \<and> nw_room (om_entries m) w' \<and> string_field_at m f w' = Some word))"

lemma prints_asD:
  assumes "prints_as m f p word" "nw_room (om_entries m) w"
  obtains w' where "om_locate m p w = Some (True, w')" "nw_room (om_entries m) w'" "string_field_at m f w' = Some word"
  using assms unfolding prints_as_def by blast

lemma sgf_loop_path:
  assumes "length cs < 2 ^ 31" "list_all (\<lambda>c. prints_as m f (lattice_entry (om_lattice m) (latticeNodePtr c)) (surf c)) cs"
    and "chunk \<le> length cs" "nw_room (om_entries m) nw"
  shows "\<exists>path'. sgf_loop m f sep (path_of cs (int chunk - 1) node) nw printer
    = Some (StOk, path', printer @ join_with sep (map surf (drop chunk (rev cs))) @ [0x0a])"
  using assms(3,4)
proof (induction "length cs - chunk" arbitrary: chunk node nw printer)
  case 0
  then show ?case by (subst sgf_loop.simps) (simp add: path_of_next)
next
  case (Suc n)
  then have c: "chunk < length cs" by linarith
  let ?p = "printer @ surf (rev cs ! chunk) @ (if Suc chunk = length cs then [] else sep)"
  have last: "isLastBoundary (path_of cs (int chunk) 0) \<longleftrightarrow> Suc chunk = length cs"
    using c by (auto simp: isLastBoundary_def numBoundaries_def path_of_def)
  have "rev cs ! chunk \<in> set cs" using c by (metis length_rev nth_mem set_rev)
  then have "prints_as m f (lattice_entry (om_lattice m) (latticeNodePtr (rev cs ! chunk))) (surf (rev cs ! chunk))"
    using assms(2) by (simp add: list_all_iff)
  then obtain nw' where w: "om_locateNode m (latticeNodePtr (rev cs ! chunk)) nw = Some (True, nw')"
    "nw_room (om_entries m) nw'" "string_field_at m f nw' = Some (surf (rev cs ! chunk))"
    unfolding om_locateNode_def by (rule prints_asD [OF _ Suc.prems(2)])
  have step: "sgf_loop m f sep (path_of cs (int chunk - 1) node) nw printer = sgf_loop m f sep (path_of cs (int chunk) 0) nw' ?p"
    by (subst sgf_loop.simps) (simp add: path_of_next path_of_node [OF assms(1) c] w last c)
  have n: "n = length cs - Suc chunk" "Suc chunk \<le> length cs" and pos: "int (Suc chunk) - 1 = int chunk"
    using Suc.hyps(2) c by simp_all
  obtain path' where IH: "sgf_loop m f sep (path_of cs (int chunk) 0) nw' ?p
      = Some (StOk, path', ?p @ join_with sep (map surf (drop (Suc chunk) (rev cs))) @ [0x0a])"
    using Suc.hyps(1) [OF n w(2), of 0 ?p] unfolding pos by blast
  have "map surf (drop chunk (rev cs)) = surf (rev cs ! chunk) # map surf (drop (Suc chunk) (rev cs))"
    using c by (simp add: Cons_nth_drop_Suc [symmetric])
  moreover have "Suc chunk = length cs \<longleftrightarrow> map surf (drop (Suc chunk) (rev cs)) = []" using c by auto
  ultimately have "?p @ join_with sep (map surf (drop (Suc chunk) (rev cs))) @ [0x0a]
      = printer @ join_with sep (map surf (drop chunk (rev cs))) @ [0x0a]"
    by (cases "map surf (drop (Suc chunk) (rev cs))") simp_all
  then show ?case using step IH by (simp only:) blast
qed

lemma sgf_format_path:
  assumes "3 < createdBoundaryCount l" "ends_in_eos l" "linked l 0 (eos_top l)" "om_lattice m = l"
    and "list_all (\<lambda>c. prints_as m (sgf_surface f) (lattice_entry l (latticeNodePtr c)) (surf c)) (best_path (eos_top l))"
    and "unat (eh_numFeatures (om_entries m)) \<le> length (deb_featureBuffer buffer0)"
  shows "\<exists>f'. sgf_format m l buffer0 f = Some (StOk, f')
    \<and> sgf_result f' = join_with (sgf_separator f) (map surf (rev (best_path (eos_top l)))) @ [0x0a]"
proof -
  have len: "length (best_path (eos_top l)) < 2 ^ 31"
    using best_path_length [OF assms(3)] unsigned_less [of "cn_boundary (eos_top l)", where 'a=nat] by simp
  have room: "nw_room (om_entries m) (om_nodeWalker buffer0)" using assms(6) by (simp add: nw_room_def om_nodeWalker_def setCounts_def)
  have "list_all (\<lambda>c. prints_as m (sgf_surface f) (lattice_entry (om_lattice m) (latticeNodePtr c)) (surf c)) (best_path (eos_top l))"
    using assms(5) by (simp only: assms(4))
  from sgf_loop_path [where chunk = 0, OF len this le0 room, of "sgf_separator f" "ap_currentNode (sgf_top1 f)" "[]"]
  show ?thesis by (auto simp: sgf_format_def fillIn_linked [OF assms(1-3)] sgf_result_def)
qed

subsection \<open>Words of the dictionary\<close>

text \<open>A full buffer has read as many values as were asked for, whatever was in it.\<close>

lemma fill_reads_same:
  assumes "fillFromStorage p s b = (True, b')" "deb_numFeatures c = deb_numFeatures b" "deb_numData c = deb_numData b"
    and "unat (deb_numFeatures b) + unat (deb_numData b) < 2 ^ 31"
  shows "\<exists>c'. fillFromStorage p s c = (True, c') \<and> deb_features c' = deb_features b'
    \<and> unat (deb_numFeatures b) \<le> length (deb_featureBuffer c')"
proof -
  define total where "total = (if isAlias p then deb_numFeatures b + 1 else deb_numFeatures b + deb_numData b)"
  obtain vs t where vs: "ilt_fill_cnt (unat total) (isr_rawWithLimit s (dicPtr p) total) = (vs, t)" by fastforce
  have "unat (deb_numFeatures b + 1) = unat (deb_numFeatures b) + 1" "unat (deb_numFeatures b + deb_numData b) = unat (deb_numFeatures b) + unat (deb_numData b)"
    using assms(4) by (simp_all add: unat_word_ariths(1))
  then have le: "unat (deb_numFeatures b) \<le> unat total" by (simp add: total_def)
  have full: "\<not> length vs < unat total" and f: "deb_features b' = take (unat (deb_numFeatures b)) (vs @ drop (length vs) (deb_featureBuffer b))"
    using assms(1) vs by (auto simp: fillFromStorage_def deb_fill_def total_def deb_features_def Let_def split: if_splits)
  have "deb_features b' = take (unat (deb_numFeatures b)) vs" using f full le by simp
  moreover have "\<exists>c'. fillFromStorage p s c = (True, c') \<and> deb_features c' = take (unat (deb_numFeatures b)) (vs @ drop (length vs) (deb_featureBuffer c))
      \<and> length vs \<le> length (deb_featureBuffer c')"
    using vs full assms(2,3) by (auto simp: fillFromStorage_def deb_fill_def total_def deb_features_def Let_def split: if_splits)
  ultimately show ?thesis using full le by auto
qed

text \<open>The string in a field of a dictionary entry, read into an empty buffer.\<close>

definition entry_string :: "entries_holder \<Rightarrow> string_field \<Rightarrow> entry_ptr \<Rightarrow> byte_string option" where
  "entry_string h f p =
     (case fillBuffer h p \<lparr>deb_numFeatures = 0, deb_numData = 0, deb_featureBuffer = [], deb_dataBuffer = [], deb_remainingData = ilt_empty_new\<rparr> of
        (False, _) \<Rightarrow> None
      | (True, b) \<Rightarrow>
          (case vec_at (deb_features b) (sf_index f) of
             None \<Rightarrow> None
           | Some v \<Rightarrow> if sint v < 0 then None else ssr_readAt (sf_reader f) v))"

definition entry_counts_ok :: "entries_holder \<Rightarrow> bool" where
  "entry_counts_ok h \<longleftrightarrow> unat (eh_numFeatures h) + unat (eh_numData h) < 2 ^ 31"

lemma entry_prints:
  assumes "entry_string (om_entries m) f p = Some word" "isDic p" "0 \<le> sint (sf_index f)" "entry_counts_ok (om_entries m)"
  shows "prints_as m f p word"
  unfolding prints_as_def
proof (intro allI impI)
  fix w assume room: "nw_room (om_entries m) w"
  let ?h = "om_entries m"
  let ?b0 = "\<lparr>deb_numFeatures = 0, deb_numData = 0, deb_featureBuffer = [], deb_dataBuffer = [], deb_remainingData = ilt_empty_new\<rparr>"
  from assms(1) obtain b v where b: "fillBuffer ?h p ?b0 = (True, b)" and v: "vec_at (deb_features b) (sf_index f) = Some v"
    "\<not> sint v < 0" "ssr_readAt (sf_reader f) v = Some word"
    by (auto simp: entry_string_def split: prod.splits bool.splits option.splits if_splits)
  let ?c = "setCounts (eh_numFeatures ?h) (eh_numData ?h) (nw_buffer w)"
  obtain c' where c': "fillFromStorage p (eh_entries ?h) ?c = (True, c')" "deb_features c' = deb_features b"
    "unat (eh_numFeatures ?h) \<le> length (deb_featureBuffer c')"
    using fill_reads_same [OF b [unfolded fillBuffer_def], of ?c] assms(4) by (auto simp: setCounts_def entry_counts_ok_def)
  have "\<not> isSpecial p" using assms(2) special_or_dic by blast
  moreover have "p \<noteq> EntryPtr_Invalid"
  proof
    assume "p = EntryPtr_Invalid"
    then show False using assms(2) by (simp add: isDic_def EntryPtr_Invalid_def mk_entry_def i32_min_def)
  qed
  ultimately show "\<exists>w'. om_locate m p w = Some (True, w') \<and> nw_room ?h w' \<and> string_field_at m f w' = Some word"
    using c' v assms(3)
    by (simp add: om_locate_def Let_def nw_room_def string_field_at_def nw_valueOf_def nw_isSuccess_def)
qed

subsection \<open>Unknown words\<close>

text \<open>An extra node of an unknown word whose surface field sends the reader to the text that is kept with the node.\<close>

definition named_node :: "string_field \<Rightarrow> byte_string \<Rightarrow> extra_nodes \<Rightarrow> nat \<Rightarrow> bool" where
  "named_node f word x i \<longleftrightarrow> i < length (xc_nodes x) \<and> xn_type (xc_nodes x ! i) = XtUnknown \<and> xn_surface (xc_nodes x ! i) = word
     \<and> length (nodeContent x i) = xc_numFields x \<and> sint (nodeContent x i ! unat (sf_index f)) < 0"

lemma named_prints:
  assumes "named_node f word (om_xtra m) (unat (extPtr p))" "isSpecial p" "length (xc_nodes (om_xtra m)) < 2 ^ 30"
    and "0 \<le> sint (sf_index f)" "unat (sf_index f) < unat (eh_numFeatures (om_entries m))"
    and "xc_numFields (om_xtra m) = unat (eh_numFeatures (om_entries m))"
  shows "prints_as m f p word"
  unfolding prints_as_def
proof (intro allI impI)
  fix w assume room: "nw_room (om_entries m) w"
  let ?h = "om_entries m" and ?x = "om_xtra m" and ?i = "unat (extPtr p)"
  let ?node = "xc_nodes ?x ! ?i"
  have i: "?i < length (xc_nodes ?x)" "xn_type ?node = XtUnknown" "xn_surface ?node = word"
    "length (nodeContent ?x ?i) = unat (eh_numFeatures ?h)" "sint (nodeContent ?x ?i ! unat (sf_index f)) < 0"
    using assms(1,6) by (simp_all add: named_node_def)
  have "?i < 2 ^ 30" using i(1) assms(3) by linarith
  note plain = extra_pointer_plain [OF this]
  have dic: "\<not> isDic p" using assms(2) special_or_dic by blast
  have at: "extra_at ?x p = Some ?node" using i(1) dic by (simp add: extra_at_def xc_node_def)
  define b where "b = setCounts (eh_numFeatures ?h) (eh_numData ?h) (nw_buffer w)"
  obtain ok b' where b': "fillFromStorage (xn_templatePtr ?node) (eh_entries ?h) b = (ok, b')" by fastforce
  have cnt: "deb_numFeatures b' = eh_numFeatures ?h" "unat (eh_numFeatures ?h) \<le> length (deb_featureBuffer b')"
    using fill_keeps [OF b'] room by (simp_all add: b_def setCounts_def nw_room_def)
  let ?b = "overwriteFeaturesWith (nodeContent ?x ?i) b'"
  have feats: "deb_features ?b = nodeContent ?x ?i" by (rule overwritten_features) (use cnt i(4) in simp_all)
  have "length (deb_featureBuffer ?b) = length (deb_featureBuffer b')"
    using cnt(2) i(4) by (simp add: overwriteFeaturesWith_def fold_updates)
  then have room': "unat (eh_numFeatures ?h) \<le> length (deb_featureBuffer ?b)" using cnt(2) by simp
  have "om_locate m p w = Some (True, \<lparr>nw_buffer = ?b, nw_current = p\<rparr>)"
    using assms(2) plain at i(2) b' by (simp add: om_locate_def b_def [symmetric] Let_def)
  moreover have "vec_at (nodeContent ?x ?i) (sf_index f) = Some (nodeContent ?x ?i ! unat (sf_index f))"
    using assms(5) i(4) by (simp add: vec_at_def)
  ultimately show "\<exists>w'. om_locate m p w = Some (True, w') \<and> nw_room ?h w' \<and> string_field_at m f w' = Some word"
    using room' assms(4) i(3,5) plain dic at
    by (simp add: nw_room_def string_field_at_def nw_valueOf_def nw_isSuccess_def feats)
qed

text \<open>A maker whose nodes have the fields of the dictionary and replace the surface field by the hash of their text.\<close>

definition replaces_surface :: "entries_holder \<Rightarrow> string_field \<Rightarrow> unk_maker \<Rightarrow> bool" where
  "replaces_surface h f m \<longleftrightarrow> length (deb_features (uc_base (um_info m))) = unat (eh_numFeatures h)
     \<and> eh_numFeatures (um_entries m) = eh_numFeatures h \<and> sf_index f \<in> set (uc_replaceWithSurface (um_info m))"

text \<open>Every node makes its own seed, and the text of every seed can be read.\<close>

definition seed_named :: "entries_holder \<Rightarrow> string_field \<Rightarrow> input_codepoint list \<Rightarrow> extra_nodes \<Rightarrow> node_seed \<Rightarrow> bool" where
  "seed_named h f points x sd \<longleftrightarrow>
     (let word = input_surface points (unat (sd_start sd)) (unat (sd_end sd)); p = sd_entryPtr sd
      in isDic p \<and> entry_string h f p = Some word \<or> isSpecial p \<and> named_node f word x (unat (extPtr p)))"

definition seeds_named :: "entries_holder \<Rightarrow> string_field \<Rightarrow> input_codepoint list \<Rightarrow> unk_state \<Rightarrow> bool" where
  "seeds_named h f points s \<longleftrightarrow> xc_numFields (fst s) = unat (eh_numFeatures h) \<and> length (xc_nodes (fst s)) \<le> length (lbd_seeds (snd s))
     \<and> (length (lbd_seeds (snd s)) < 2 ^ 30 \<longrightarrow> list_all (seed_named h f points (fst s)) (lbd_seeds (snd s)))"

lemma named_appended: "named_node f word x i \<Longrightarrow> named_node f word (appended x n) i"
  by (auto simp: named_node_def appended_def nodeContent_def nth_append)

lemma seed_named_appended: "seed_named h f points x sd \<Longrightarrow> seed_named h f points (appended x n) sd"
  using named_appended by (auto simp: seed_named_def Let_def)

lemma node_named:
  assumes "xn_type n = XtUnknown" "xn_surface n = word" "take (xc_numFields x) (xn_content n) = fillElems conf (hashUnkString word) fs"
    and "length fs = xc_numFields x" "sf_index f \<in> set (uc_replaceWithSurface conf)" "unat (sf_index f) < xc_numFields x"
  shows "named_node f word (appended x n) (length (xc_nodes x))"
  using assms fillElems_replaced [OF assms(5), of fs "hashUnkString word"] hash_is_special [of word]
  by (simp add: named_node_def) (simp add: appended_def)

lemma add_named:
  assumes "seeds_named h f points (x, b)" "xn_index n = word_of_nat (length (xc_nodes x))"
    and "named_node f (input_surface points (unat start) (unat stop)) (appended x n) (length (xc_nodes x))"
  shows "seeds_named h f points (appended x n, appendSeed (xn_ptr n) start stop b)"
proof -
  have "seed_named h f points (appended x n) \<lparr>sd_entryPtr = xn_ptr n, sd_start = start, sd_end = stop\<rparr>"
    if "length (xc_nodes x) < 2 ^ 30"
  proof -
    have "length (xc_nodes x) < 2 ^ 31" using that by simp
    note ptr = extra_pointer [OF this assms(2)]
    show ?thesis using ptr assms(3) by (simp add: seed_named_def)
  qed
  then show ?thesis using assms(1) seed_named_appended
    by (auto simp: seeds_named_def appendSeed_def appended_def list_all_iff)
qed

lemma spawn_named:
  assumes "replaces_surface h f m" "unat (sf_index f) < unat (eh_numFeatures h)" "seeds_named h f points s"
  shows "seeds_named h f points (spawn_unk m (input_surface points (unat start) (unat stop)) notPrefix start stop s)"
proof -
  obtain x b where s: "s = (x, b)" by (cases s)
  let ?word = "input_surface points (unat start) (unat stop)"
  let ?n = "unk_node (um_fresh m) ?word (um_info m) notPrefix x"
  have nf: "xc_numFields x = unat (eh_numFeatures h)" using assms(3) by (simp add: seeds_named_def s)
  then have len: "length (deb_features (uc_base (um_info m))) = xc_numFields x" using assms(1) by (simp add: replaces_surface_def)
  have "named_node f ?word (appended x ?n) (length (xc_nodes x))"
    by (rule node_named [where conf = "um_info m" and fs = "deb_features (uc_base (um_info m))"])
      (use assms(1,2) nf len in \<open>simp_all add: replaces_surface_def unk_node_def Let_def\<close>)
  then have "seeds_named h f points (appended x ?n, appendSeed (xn_ptr ?n) start stop b)"
    by (intro add_named [OF assms(3) [unfolded s]]) (simp add: unk_node_def Let_def)
  then show ?thesis by (simp add: spawn_unk_def s makePtr_node [OF len])
qed

text \<open>The node that is made from an entry of the dictionary.\<close>

lemma makePtr_entry_node:
  assumes "eh_numFeatures entries = nf" "xc_numFields x = unat nf" "unat nf \<le> length (deb_featureBuffer buffer0)"
  obtains n fs where "makePtr_entry fresh entries buffer0 surface conf eptr feature x = (xn_ptr n, appended x n)"
    "xn_index n = word_of_nat (length (xc_nodes x))" "xn_type n = XtUnknown" "xn_surface n = surface"
    "take (xc_numFields x) (xn_content n) = fillElems conf (hashUnkString surface) fs" "length fs = xc_numFields x"
proof -
  let ?fs = "deb_features (snd (fillBuffer entries eptr buffer0))"
  obtain ok b where fb: "fillBuffer entries eptr buffer0 = (ok, b)" by fastforce
  have fs: "length ?fs = xc_numFields x"
    using fill_keeps [OF fb [unfolded fillBuffer_def]] assms by (simp add: fb deb_features_def setCounts_def)
  let ?content = "fillElems conf (hashUnkString surface) ?fs @ replicate (xc_numPlaceholders x) 0"
  let ?n = "\<lparr>xn_index = word_of_nat (length (xc_nodes x)), xn_type = XtUnknown, xn_dictionaryNodes = [], xn_contentHash = hashUnkString surface,
          xn_surface = surface, xn_templatePtr = eptr,
          xn_content = (if uc_targetPlaceholder conf \<noteq> -1 then ?content[xc_numFields x + unat (uc_targetPlaceholder conf) := feature] else ?content)\<rparr>"
  have "makePtr_entry fresh entries buffer0 surface conf eptr feature x = (xn_ptr ?n, appended x ?n)"
    using fs by (simp add: makePtr_entry_def makeZeroedUnk_def allocateExtra_appended Let_def copy_content_def fresh_node_def)
  then show thesis by (rule that [where fs = ?fs]) (use fs in simp_all)
qed

lemma candidate_named:
  assumes "replaces_surface h f m" "unat (sf_index f) < unat (eh_numFeatures h)"
    and "unat (eh_numFeatures h) \<le> length (deb_featureBuffer buffer0)" "seeds_named h f points s"
  shows "seeds_named h f points (spawn_candidate m buffer0 points r s)"
proof -
  obtain x b where s: "s = (x, b)" by (cases s)
  let ?word = "input_surface points (unat (cr_start r)) (unat (cr_end r))"
  have nf: "xc_numFields x = unat (eh_numFeatures h)" using assms(4) by (simp add: seeds_named_def s)
  have eh: "eh_numFeatures (um_entries m) = eh_numFeatures h" using assms(1) by (simp add: replaces_surface_def)
  obtain n fs where n: "makePtr_entry (um_fresh m) (um_entries m) buffer0 ?word (um_info m) (cr_entryPtr r) (cr_flags r) x = (xn_ptr n, appended x n)"
    "xn_index n = word_of_nat (length (xc_nodes x))" "xn_type n = XtUnknown" "xn_surface n = ?word"
    "take (xc_numFields x) (xn_content n) = fillElems (um_info m) (hashUnkString ?word) fs" "length fs = xc_numFields x"
    by (rule makePtr_entry_node [OF eh nf assms(3)])
  have "named_node f ?word (appended x n) (length (xc_nodes x))"
    by (rule node_named [OF n(3-6)]) (use assms(1,2) nf in \<open>simp_all add: replaces_surface_def\<close>)
  then have "seeds_named h f points (appended x n, appendSeed (xn_ptr n) (cr_start r) (cr_end r) b)"
    by (rule add_named [OF assms(4) [unfolded s] n(2)])
  then show ?thesis by (simp add: spawn_candidate_def s n(1))
qed

lemma named_invariant:
  assumes "replaces_surface h f m" "unat (sf_index f) < unat (eh_numFeatures h)" "unat (eh_numFeatures h) \<le> length (deb_featureBuffer buffer0)"
  shows "candidate_invariant (seeds_named h f points) points m buffer0"
  by unfold_locales (use spawn_named [OF assms(1,2)] candidate_named [OF assms] in auto)

lemma makers_named:
  assumes "maker_spawnNodes rt points c s = Some s'" "length points < 65535" "runtime_ok rt"
    and "replaces_surface h f (creator_maker c)" "unat (sf_index f) < unat (eh_numFeatures h)" "unat (eh_numFeatures h) \<le> length (deb_featureBuffer (rt_buffer rt))"
    and "seeds_named h f points s"
  shows "seeds_named h f points s'"
  by (rule maker_keeps [OF named_invariant [OF assms(4-6)] assms(1-3,7)])

text \<open>What has been shown of the seeds is what is printed.\<close>

lemma seed_prints:
  assumes "seeds_named (om_entries m) f points (om_xtra m, b)" "length (lbd_seeds b) < 2 ^ 30" "sd \<in> set (lbd_seeds b)"
    and "0 \<le> sint (sf_index f)" "unat (sf_index f) < unat (eh_numFeatures (om_entries m))" "entry_counts_ok (om_entries m)"
  shows "prints_as m f (sd_entryPtr sd) (input_surface points (unat (sd_start sd)) (unat (sd_end sd)))"
proof -
  let ?word = "input_surface points (unat (sd_start sd)) (unat (sd_end sd))" and ?p = "sd_entryPtr sd"
  have s: "xc_numFields (om_xtra m) = unat (eh_numFeatures (om_entries m))" "length (xc_nodes (om_xtra m)) < 2 ^ 30"
    "seed_named (om_entries m) f points (om_xtra m) sd"
    using assms(1-3) by (simp_all add: seeds_named_def list_all_iff)
  from s(3) consider "isDic ?p" "entry_string (om_entries m) f ?p = Some ?word"
    | "isSpecial ?p" "named_node f ?word (om_xtra m) (unat (extPtr ?p))"
    by (auto simp: seed_named_def Let_def)
  then show ?thesis
  proof cases
    case 1
    then show ?thesis by (intro entry_prints assms(4,6))
  next
    case 2
    then show ?thesis by (intro named_prints s(1,2) assms(4,5))
  qed
qed

end
