(* ===== verification/FeatureBuffers.thy ===== *)
theory FeatureBuffers
  imports NgramFeatures
begin

text \<open>
  The loops of \<open>PartialNgramFeatureApplyImpl\<close> in \<open>src/src/core/impl/feature_impl_ngram_partial.h\<close>, which apply the staged features to all nodes of a
  boundary: the buffers they share, the alternation of the two value buffers, and the scores they leave. Prefetching is not modelled.
\<close>

subsection \<open>Buffers\<close>

record feature_buffer =
  fb_currentElems :: u32
  fb_t1Buffer :: "u64 list"
  fb_t2Buffer1 :: "u64 list"
  fb_t2Buffer2 :: "u64 list"
  fb_valueBuffer1 :: "u32 list"
  fb_valueBuffer2 :: "u32 list"
  fb_scoreBuffer :: "score list"

text \<open>A row of a matrix that is stored row by row, and its replacement.\<close>

definition mat_row :: "nat \<Rightarrow> nat \<Rightarrow> 'a list \<Rightarrow> 'a list" where
  "mat_row rowSize i buf = take rowSize (drop (rowSize * i) buf)"

definition set_mat_row :: "nat \<Rightarrow> nat \<Rightarrow> 'a list \<Rightarrow> 'a list \<Rightarrow> 'a list" where
  "set_mat_row rowSize i vs buf = take (rowSize * i) buf @ vs @ drop (rowSize * i + rowSize) buf"

text \<open>The memory of the buffers is what the pool hands out: the arguments \<open>fresh64\<close> and so on.\<close>

definition allocateBuffers ::
  "(nat \<Rightarrow> u64 list) \<Rightarrow> (nat \<Rightarrow> u32 list) \<Rightarrow> (nat \<Rightarrow> score list) \<Rightarrow> partial_ngrams \<Rightarrow> nat \<Rightarrow> nat \<Rightarrow> feature_buffer" where
  "allocateBuffers fresh64 fresh32 freshScores pn maxStarts maxEnds =
     (let maxNgrams = max (length (pn_unigrams pn)) (max (length (pn_bigrams pn)) (length (pn_trigrams pn)))
      in \<lparr>fb_currentElems = 0xffffffff,
          fb_t1Buffer = fresh64 (length (pn_bigrams pn) * maxStarts),
          fb_t2Buffer1 = fresh64 (length (pn_trigrams pn) * maxStarts),
          fb_t2Buffer2 = fresh64 (length (pn_trigrams pn) * maxStarts),
          fb_valueBuffer1 = fresh32 maxNgrams, fb_valueBuffer2 = fresh32 maxNgrams, fb_scoreBuffer = freshScores maxEnds\<rparr>)"

subsection \<open>Applying features to all nodes of a boundary\<close>

text \<open>
  The loop over the rows from 1 on, which all the functions that score have: the features of a row are computed into the first
  buffer, the buffers are swapped, and the score of the row before is computed from what is now the first buffer; behind the loop the score of the
  last row is computed from the second. The result has the buffers that are the first and the second in the end.
\<close>

function pipeline ::
  "(nat \<Rightarrow> u32 list \<Rightarrow> u32 list) \<Rightarrow> (nat \<Rightarrow> score \<Rightarrow> score list \<Rightarrow> score list) \<Rightarrow> (u32 list \<Rightarrow> score) \<Rightarrow> nat \<Rightarrow> nat
     \<Rightarrow> u32 list \<times> u32 list \<times> score list \<Rightarrow> u32 list \<times> u32 list \<times> score list" where
  "pipeline features store score row numRows (buf1, buf2, result) =
     (if row < numRows
      then let buf1 = features row buf1;
               (buf1, buf2) = (buf2, buf1)
           in pipeline features store score (row + 1) numRows (buf1, buf2, store (row - 1) (score buf1) result)
      else (buf1, buf2, store (row - 1) (score buf2) result))"
  by pat_completeness auto
termination by (relation "measure (\<lambda>(_, _, _, row, numRows, _). numRows - row)") auto

declare pipeline.simps [simp del]

definition store_at :: "nat \<Rightarrow> score \<Rightarrow> score list \<Rightarrow> score list" where
  "store_at i v result = result[i := v]"

definition add_at :: "(score \<Rightarrow> score \<Rightarrow> score) \<Rightarrow> nat \<Rightarrow> score \<Rightarrow> score list \<Rightarrow> score list" where
  "add_at fadd i v result = result[i := fadd (result ! i) v]"

text \<open>The two buffers of \<open>sz\<close> elements; after \<open>numRows - 1\<close> swaps their contents are written back to the memory.\<close>

definition with_buffers ::
  "nat \<Rightarrow> nat \<Rightarrow> (u32 list \<times> u32 list \<Rightarrow> u32 list \<times> u32 list \<times> score list) \<Rightarrow> feature_buffer \<Rightarrow> feature_buffer \<times> score list" where
  "with_buffers sz numRows body fb =
     (case body (take sz (fb_valueBuffer1 fb), take sz (fb_valueBuffer2 fb)) of
        (buf1, buf2, result) \<Rightarrow>
          let (v1, v2) = (if odd numRows then (buf1, buf2) else (buf2, buf1))
          in (fb\<lparr>fb_valueBuffer1 := v1 @ drop sz (fb_valueBuffer1 fb), fb_valueBuffer2 := v2 @ drop sz (fb_valueBuffer2 fb)\<rparr>, result))"

definition applyUni ::
  "(score \<Rightarrow> score \<Rightarrow> score) \<Rightarrow> score list \<Rightarrow> partial_ngrams \<Rightarrow> u64 list list \<Rightarrow> feature_buffer \<Rightarrow> score list \<Rightarrow> feature_buffer \<times> score list" where
  "applyUni fadd weights pn p0 fb result =
     (if p0 = [] then (fb, result)
      else let msk = weight_mask weights
           in with_buffers (length (pn_unigrams pn)) (length p0) (\<lambda>(buf1, buf2).
                pipeline (\<lambda>row. uniStep0 pn (p0 ! row) msk) store_at (computeUnrolled4RawPerceptron fadd weights) 1 (length p0)
                  (buf1, uniStep0 pn (p0 ! 0) msk buf2, result)) fb)"

definition applyBiStep1 :: "partial_ngrams \<Rightarrow> u64 list list \<Rightarrow> feature_buffer \<Rightarrow> feature_buffer" where
  "applyBiStep1 pn p0 fb =
     (let n = length (pn_bigrams pn)
      in fb\<lparr>fb_t1Buffer := fold (\<lambda>row buf. set_mat_row n row (biStep0 pn (p0 ! row) (mat_row n row buf)) buf) [0..<length p0] (fb_t1Buffer fb),
            fb_currentElems := word_of_nat (length p0)\<rparr>)"

definition applyBiStep2 ::
  "(score \<Rightarrow> score \<Rightarrow> score) \<Rightarrow> score list \<Rightarrow> partial_ngrams \<Rightarrow> u64 list \<Rightarrow> feature_buffer \<Rightarrow> score list \<Rightarrow> feature_buffer \<times> score list" where
  "applyBiStep2 fadd weights pn p1 fb result =
     (let n = length (pn_bigrams pn); numElems = unat (fb_currentElems fb); msk = weight_mask weights; state = fb_t1Buffer fb
      in if numElems = 0 then (fb, result)
         else with_buffers n numElems (\<lambda>(buf1, buf2).
                pipeline (\<lambda>row. biStep1 pn p1 (mat_row n row state) msk) (add_at fadd) (computeUnrolled4RawPerceptron fadd weights) 1 numElems
                  (buf1, biStep1 pn p1 (mat_row n 0 state) msk buf2, result)) fb)"

definition applyTriStep1 :: "partial_ngrams \<Rightarrow> u64 list list \<Rightarrow> feature_buffer \<Rightarrow> feature_buffer" where
  "applyTriStep1 pn p0 fb =
     (let n = length (pn_trigrams pn)
      in fb\<lparr>fb_t2Buffer1 := fold (\<lambda>row buf. set_mat_row n row (triStep0 pn (p0 ! row) (mat_row n row buf)) buf) [0..<length p0] (fb_t2Buffer1 fb),
            fb_currentElems := word_of_nat (length p0)\<rparr>)"

definition applyTriStep2 :: "partial_ngrams \<Rightarrow> u64 list \<Rightarrow> feature_buffer \<Rightarrow> feature_buffer" where
  "applyTriStep2 pn p1 fb =
     (let n = length (pn_trigrams pn); numElems = unat (fb_currentElems fb); state = fb_t2Buffer1 fb
      in fb\<lparr>fb_t2Buffer2 := fold (\<lambda>row buf. set_mat_row n row (triStep1 pn p1 (mat_row n row state) (mat_row n row buf)) buf)
                               [0..<numElems] (fb_t2Buffer2 fb)\<rparr>)"

definition applyTriStep3 ::
  "(score \<Rightarrow> score \<Rightarrow> score) \<Rightarrow> score list \<Rightarrow> partial_ngrams \<Rightarrow> u64 list \<Rightarrow> feature_buffer \<Rightarrow> score list \<Rightarrow> feature_buffer \<times> score list" where
  "applyTriStep3 fadd weights pn p2 fb result =
     (let n = length (pn_trigrams pn); numElems = unat (fb_currentElems fb); msk = weight_mask weights; state = fb_t2Buffer2 fb
      in if numElems = 0 then (fb, result)
         else with_buffers n numElems (\<lambda>(buf1, buf2).
                pipeline (\<lambda>row. triStep2 pn p2 (mat_row n row state) msk) (add_at fadd) (computeUnrolled4RawPerceptron fadd weights) 1 numElems
                  (buf1, triStep2 pn p2 (mat_row n 0 state) msk buf2, result)) fb)"

text \<open>\<open>applyBiTri\<close>: the scores of the pairs are computed once for each left node, and copied for each candidate.\<close>

definition applyBiTri ::
  "(score \<Rightarrow> score \<Rightarrow> score) \<Rightarrow> score list \<Rightarrow> partial_ngrams \<Rightarrow> u64 list \<Rightarrow> u64 list list \<Rightarrow> u64 list list \<Rightarrow> u32 list \<Rightarrow> feature_buffer \<Rightarrow> score list
     \<Rightarrow> feature_buffer \<times> score list" where
  "applyBiTri fadd weights pn t0 t1 t2 t1idxes fb result =
     (let numElems = length t2; msk = weight_mask weights; scoreOf = computeUnrolled4RawPerceptron fadd weights
      in if numElems = 0 then (fb, result)
         else let (fb, scbuf) = with_buffers (length (pn_bigrams pn)) (length t1) (\<lambda>(buf1, buf2).
                    pipeline (\<lambda>row. biFull pn t0 (t1 ! row) msk) store_at scoreOf 1 (length t1)
                      (buf1, biFull pn t0 (t1 ! 0) msk buf2, take (length t1) (fb_scoreBuffer fb))) fb;
                  fb = fb\<lparr>fb_scoreBuffer := scbuf @ drop (length t1) (fb_scoreBuffer fb)\<rparr>;
                  result = fold (\<lambda>i result. result[i := scbuf ! unat (t1idxes ! i)]) [0..<length t1idxes] result
              in with_buffers (length (pn_trigrams pn)) numElems (\<lambda>(buf1, buf2).
                   pipeline (\<lambda>row. triFull pn t0 (t1 ! unat (t1idxes ! row)) (t2 ! row) msk) (add_at fadd) scoreOf 1 numElems
                     (buf1, triFull pn t0 (t1 ! unat (t1idxes ! 0)) (t2 ! 0) msk buf2, result)) fb)"

subsection \<open>What the loops over the rows compute\<close>

lemma pipeline_scores:
  assumes "\<And>r b. r < n \<Longrightarrow> length b = m \<Longrightarrow> features r b = vals r" "\<And>r. r < n \<Longrightarrow> length (vals r) = m"
  shows "0 < row \<Longrightarrow> row \<le> n \<Longrightarrow> length buf1 = m \<Longrightarrow> buf2 = vals (row - 1) \<Longrightarrow>
    \<exists>b1 b2. pipeline features store score row n (buf1, buf2, result)
        = (b1, b2, fold (\<lambda>r. store r (score (vals r))) [row - 1..<n] result)
      \<and> length b1 = m \<and> length b2 = m"
proof (induction "n - row" arbitrary: row buf1 buf2 result)
  case 0
  then have "row = n" "[row - 1..<n] = [n - 1]" by (simp_all add: upt_rec)
  then show ?case using 0 assms(2) [of "n - 1"] by (simp add: pipeline.simps)
next
  case (Suc k)
  then have row: "row < n" "0 < row" by simp_all
  have f: "features row buf1 = vals row" using assms(1) row(1) Suc.prems(3) by blast
  have "[row - 1..<n] = (row - 1) # [row..<n]" using row by (simp add: upt_conv_Cons)
  moreover have "\<exists>b1 b2. pipeline features store score (row + 1) n (buf2, vals row, store (row - 1) (score buf2) result)
        = (b1, b2, fold (\<lambda>r. store r (score (vals r))) [row + 1 - 1..<n] (store (row - 1) (score buf2) result))
      \<and> length b1 = m \<and> length b2 = m"
    using Suc.hyps(2) row Suc.prems(4) assms(2) [of "row - 1"] by (intro Suc.hyps(1)) simp_all
  ultimately show ?case
    using row f Suc.prems(4) by (subst pipeline.simps) (simp add: Let_def)
qed

lemma fold_store:
  assumes "n \<le> length result"
  shows "fold (\<lambda>r res. res[r := g r (res ! r)]) [0..<n] result = map (\<lambda>r. g r (result ! r)) [0..<n] @ drop n result"
  using assms
proof (induction n)
  case (Suc n)
  then have "drop n result = result ! n # drop (Suc n) result" by (simp add: Cons_nth_drop_Suc)
  with Suc show ?case by (simp add: list_update_append nth_append)
qed simp

lemma length_rows:
  assumes "\<And>r. r < k \<Longrightarrow> length (vals r) = n"
  shows "length (concat (map vals [0..<k])) = n * k"
  using assms by (induction k) simp_all

lemma mat_row_rows:
  assumes "\<And>r. r < k \<Longrightarrow> length (vals r) = n" "i < k"
  shows "mat_row n i (concat (map vals [0..<k]) @ rest) = vals i"
proof -
  have "[0..<k] = [0..<i] @ i # [Suc i..<k]"
    using assms(2) upt_add_eq_append [of 0 i "k - i"] upt_conv_Cons [of i k] by simp
  then have "concat (map vals [0..<k]) = concat (map vals [0..<i]) @ vals i @ concat (map vals [Suc i..<k])" by simp
  moreover have "length (concat (map vals [0..<i])) = n * i" using assms by (intro length_rows) simp
  ultimately show ?thesis using assms by (simp add: mat_row_def)
qed

lemma fill_rows:
  assumes "\<And>r st. r < k \<Longrightarrow> length st = n \<Longrightarrow> f r st = vals r" "\<And>r. r < k \<Longrightarrow> length (vals r) = n" "n * k \<le> length buf"
  shows "fold (\<lambda>row buf. set_mat_row n row (f row (mat_row n row buf)) buf) [0..<k] buf = concat (map vals [0..<k]) @ drop (n * k) buf"
  using assms
proof (induction k)
  case (Suc k)
  let ?b = "concat (map vals [0..<k]) @ drop (n * k) buf"
  have IH: "fold (\<lambda>row buf. set_mat_row n row (f row (mat_row n row buf)) buf) [0..<k] buf = ?b"
    using Suc.prems by (intro Suc.IH) simp_all
  have len: "length (concat (map vals [0..<k])) = n * k" using Suc.prems(2) by (intro length_rows) simp
  have "length (mat_row n k ?b) = n" using Suc.prems(3) len by (simp add: mat_row_def)
  then have "f k (mat_row n k ?b) = vals k" using Suc.prems(1) [of k] by simp
  then show ?case using IH len by (simp add: set_mat_row_def add.commute)
qed simp

lemma fill_rows_row:
  assumes "\<And>r st. r < k \<Longrightarrow> length st = n \<Longrightarrow> f r st = vals r" "\<And>r. r < k \<Longrightarrow> length (vals r) = n" "n * k \<le> length buf"
  defines "buf' \<equiv> fold (\<lambda>row buf. set_mat_row n row (f row (mat_row n row buf)) buf) [0..<k] buf"
  shows "length buf' = length buf" "i < k \<Longrightarrow> mat_row n i buf' = vals i"
proof -
  have e: "buf' = concat (map vals [0..<k]) @ drop (n * k) buf" unfolding buf'_def by (rule fill_rows [OF assms(1-3)])
  show "length buf' = length buf" using length_rows [of k vals n] assms(2,3) unfolding e by simp
  show "mat_row n i buf' = vals i" if "i < k" unfolding e by (rule mat_row_rows [OF assms(2) that])
qed

text \<open>Only the value buffers change, and not in size.\<close>

definition values_only :: "feature_buffer \<Rightarrow> feature_buffer \<Rightarrow> bool" where
  "values_only fb fb' \<longleftrightarrow> (\<exists>x y. fb' = fb\<lparr>fb_valueBuffer1 := x, fb_valueBuffer2 := y\<rparr>
     \<and> length x = length (fb_valueBuffer1 fb) \<and> length y = length (fb_valueBuffer2 fb))"

lemma values_only_refl: "values_only fb fb"
  unfolding values_only_def by (intro exI [of _ "fb_valueBuffer1 fb"] exI [of _ "fb_valueBuffer2 fb"] conjI) simp_all

lemma with_buffers_result:
  assumes "body (take sz (fb_valueBuffer1 fb), take sz (fb_valueBuffer2 fb)) = (b1, b2, result)" "length b1 = sz" "length b2 = sz"
    and "sz \<le> length (fb_valueBuffer1 fb)" "sz \<le> length (fb_valueBuffer2 fb)"
  shows "\<exists>fb'. with_buffers sz n body fb = (fb', result) \<and> values_only fb fb'"
proof (cases "odd n")
  case True
  then have "with_buffers sz n body fb = (fb\<lparr>fb_valueBuffer1 := b1 @ drop sz (fb_valueBuffer1 fb), fb_valueBuffer2 := b2 @ drop sz (fb_valueBuffer2 fb)\<rparr>, result)"
    by (simp add: with_buffers_def assms(1))
  then show ?thesis using assms(2-5) unfolding values_only_def by fastforce
next
  case False
  then have "with_buffers sz n body fb = (fb\<lparr>fb_valueBuffer1 := b2 @ drop sz (fb_valueBuffer1 fb), fb_valueBuffer2 := b1 @ drop sz (fb_valueBuffer2 fb)\<rparr>, result)"
    by (simp add: with_buffers_def assms(1))
  then show ?thesis using assms(2-5) unfolding values_only_def by fastforce
qed

text \<open>The room that \<open>allocateBuffers\<close> makes for boundaries of at most \<open>starts\<close> nodes.\<close>

definition fb_ok :: "partial_ngrams \<Rightarrow> nat \<Rightarrow> feature_buffer \<Rightarrow> bool" where
  "fb_ok pn starts fb \<longleftrightarrow>
     list_all (\<lambda>n. n \<le> length (fb_valueBuffer1 fb) \<and> n \<le> length (fb_valueBuffer2 fb))
       [length (pn_unigrams pn), length (pn_bigrams pn), length (pn_trigrams pn)]
   \<and> length (pn_bigrams pn) * starts \<le> length (fb_t1Buffer fb)
   \<and> length (pn_trigrams pn) * starts \<le> length (fb_t2Buffer1 fb) \<and> length (pn_trigrams pn) * starts \<le> length (fb_t2Buffer2 fb)"

lemma fb_ok_allocate:
  assumes "\<And>n. length (fresh64 n) = n" "\<And>n. length (fresh32 n) = n"
  shows "fb_ok pn starts (allocateBuffers fresh64 fresh32 freshScores pn starts ends)"
  using assms by (auto simp: fb_ok_def allocateBuffers_def Let_def)

lemma fb_room:
  assumes "fb_ok pn starts fb" "n \<le> starts"
  shows "length (pn_bigrams pn) * n \<le> length (fb_t1Buffer fb)" "length (pn_trigrams pn) * n \<le> length (fb_t2Buffer1 fb)"
    "length (pn_trigrams pn) * n \<le> length (fb_t2Buffer2 fb)"
  using assms(1) by (simp_all only: fb_ok_def order_trans [OF mult_le_mono2 [OF assms(2)]])

lemma values_only_ok: "values_only fb fb' \<Longrightarrow> fb_ok pn starts fb \<Longrightarrow> fb_ok pn starts fb'"
  by (auto simp: values_only_def fb_ok_def)

lemma values_only_states:
  assumes "values_only fb fb'"
  shows "fb_currentElems fb' = fb_currentElems fb" "fb_t1Buffer fb' = fb_t1Buffer fb" "fb_t2Buffer1 fb' = fb_t2Buffer1 fb"
    "fb_t2Buffer2 fb' = fb_t2Buffer2 fb"
  using assms by (auto simp: values_only_def)

lemma fb_ok_t2: "fb_ok pn starts fb \<Longrightarrow> length x = length (fb_t2Buffer2 fb) \<Longrightarrow> fb_ok pn starts (fb\<lparr>fb_t2Buffer2 := x\<rparr>)"
  by (simp add: fb_ok_def)

lemma pipeline_buffers:
  assumes "\<And>r b. r < n \<Longrightarrow> length b = sz \<Longrightarrow> features r b = vals r" "\<And>r. r < n \<Longrightarrow> length (vals r) = sz" "0 < n"
    and "sz \<le> length (fb_valueBuffer1 fb)" "sz \<le> length (fb_valueBuffer2 fb)"
    and "n \<le> length result" "\<And>r v res. store r v res = res[r := g (res ! r) v]"
  shows "\<exists>fb'. with_buffers sz n (\<lambda>(buf1, buf2). pipeline features store score 1 n (buf1, features 0 buf2, result)) fb
      = (fb', map (\<lambda>r. g (result ! r) (score (vals r))) [0..<n] @ drop n result) \<and> values_only fb fb'"
proof -
  let ?b1 = "take sz (fb_valueBuffer1 fb)" and ?b2 = "take sz (fb_valueBuffer2 fb)"
  have f: "fold (\<lambda>r. store r (score (vals r))) [0..<n] result = map (\<lambda>r. g (result ! r) (score (vals r))) [0..<n] @ drop n result"
  proof -
    have "store r v = (\<lambda>res. res[r := g (res ! r) v])" for r v by (rule ext) (rule assms(7))
    then show ?thesis using fold_store [OF assms(6), of "\<lambda>r x. g x (score (vals r))"] by (simp only:)
  qed
  have b2: "features 0 ?b2 = vals (1 - 1)" using assms(1) [of 0 ?b2] assms(3,5) by simp
  have "length ?b1 = sz" "(1::nat) \<le> n" using assms(3,4) by simp_all
  from pipeline_scores [of n sz features vals 1 ?b1 _ store score result, OF assms(1,2) _ this(2,1) b2]
  obtain b1 b2 where "pipeline features store score 1 n (?b1, features 0 ?b2, result)
        = (b1, b2, fold (\<lambda>r. store r (score (vals r))) [0..<n] result)" "length b1 = sz" "length b2 = sz" by auto
  then show ?thesis
    unfolding f by (intro with_buffers_result [where ?b1.0 = b1 and ?b2.0 = b2] assms(4,5)) simp_all
qed

subsection \<open>What the features score\<close>

definition uni_score :: "(score \<Rightarrow> score \<Rightarrow> score) \<Rightarrow> score list \<Rightarrow> partial_ngrams \<Rightarrow> u64 list \<Rightarrow> score" where
  "uni_score fadd weights pn t0 = computeUnrolled4RawPerceptron fadd weights (uni_indices pn t0 (weight_mask weights))"

definition bi_score :: "(score \<Rightarrow> score \<Rightarrow> score) \<Rightarrow> score list \<Rightarrow> partial_ngrams \<Rightarrow> u64 list \<Rightarrow> u64 list \<Rightarrow> score" where
  "bi_score fadd weights pn t0 t1 = computeUnrolled4RawPerceptron fadd weights (bi_indices pn t0 t1 (weight_mask weights))"

definition tri_score :: "(score \<Rightarrow> score \<Rightarrow> score) \<Rightarrow> score list \<Rightarrow> partial_ngrams \<Rightarrow> u64 list \<Rightarrow> u64 list \<Rightarrow> u64 list \<Rightarrow> score" where
  "tri_score fadd weights pn t0 t1 t2 = computeUnrolled4RawPerceptron fadd weights (tri_indices pn t0 t1 t2 (weight_mask weights))"

lemma map_nth_range: "map (\<lambda>r. f (xs ! r)) [0..<length xs] = map f xs"
  by (rule nth_equalityI) simp_all

lemma applyUni_scores:
  assumes "pn_ok pn" "fb_ok pn starts fb" "length p0 \<le> length result"
  shows "\<exists>fb'. applyUni fadd weights pn p0 fb result = (fb', map (uni_score fadd weights pn) p0 @ drop (length p0) result) \<and> values_only fb fb'"
proof (cases "p0 = []")
  case True
  with True values_only_refl show ?thesis by (simp add: applyUni_def)
next
  case False
  have len: "length (pn_unigrams pn) \<le> length (fb_valueBuffer1 fb)" "length (pn_unigrams pn) \<le> length (fb_valueBuffer2 fb)"
    using assms(2) by (simp_all add: fb_ok_def)
  have "0 < length p0" using False by simp
  note pipeline_buffers [of "length p0" "length (pn_unigrams pn)" "\<lambda>row. uniStep0 pn (p0 ! row) (weight_mask weights)"
      "\<lambda>r. uni_indices pn (p0 ! r) (weight_mask weights)", OF steps_fill(1) [OF assms(1)] _ this len assms(3),
      of store_at "\<lambda>x v. v" "computeUnrolled4RawPerceptron fadd weights"]
  then show ?thesis
    using False map_nth_range [of "uni_score fadd weights pn" p0] by (simp add: applyUni_def Let_def store_at_def uni_score_def)
qed

definition bi_states_at :: "partial_ngrams \<Rightarrow> u64 list list \<Rightarrow> feature_buffer \<Rightarrow> bool" where
  "bi_states_at pn p0 fb \<longleftrightarrow> list_all (\<lambda>r. mat_row (length (pn_bigrams pn)) r (fb_t1Buffer fb) = bi_state pn (p0 ! r)) [0..<length p0]"

definition tri_states0_at :: "partial_ngrams \<Rightarrow> u64 list list \<Rightarrow> feature_buffer \<Rightarrow> bool" where
  "tri_states0_at pn p0 fb \<longleftrightarrow> list_all (\<lambda>r. mat_row (length (pn_trigrams pn)) r (fb_t2Buffer1 fb) = tri_state0 pn (p0 ! r)) [0..<length p0]"

definition tri_states1_at :: "partial_ngrams \<Rightarrow> u64 list list \<Rightarrow> u64 list \<Rightarrow> feature_buffer \<Rightarrow> bool" where
  "tri_states1_at pn p0 p1 fb \<longleftrightarrow> list_all (\<lambda>r. mat_row (length (pn_trigrams pn)) r (fb_t2Buffer2 fb) = tri_state1 pn (p0 ! r) p1) [0..<length p0]"

lemma applyBiStep1_states:
  assumes "pn_ok pn" "fb_ok pn starts fb" "length p0 \<le> starts"
  shows "bi_states_at pn p0 (applyBiStep1 pn p0 fb)" "fb_ok pn starts (applyBiStep1 pn p0 fb)"
    "fb_currentElems (applyBiStep1 pn p0 fb) = word_of_nat (length p0)"
proof -
  let ?n = "length (pn_bigrams pn)"
  have room: "?n * length p0 \<le> length (fb_t1Buffer fb)" by (rule fb_room(1) [OF assms(2,3)])
  note r = fill_rows_row [of "length p0" ?n "\<lambda>row. biStep0 pn (p0 ! row)" "\<lambda>r. bi_state pn (p0 ! r)", OF steps_fill(2) [OF assms(1)] _ room]
  show "bi_states_at pn p0 (applyBiStep1 pn p0 fb)"
    using r(2) by (simp add: bi_states_at_def applyBiStep1_def Let_def list_all_iff)
  show "fb_ok pn starts (applyBiStep1 pn p0 fb)"
    using r(1) assms(2) by (simp add: fb_ok_def applyBiStep1_def Let_def)
  show "fb_currentElems (applyBiStep1 pn p0 fb) = word_of_nat (length p0)" by (simp add: applyBiStep1_def Let_def)
qed

lemma applyTriStep1_states:
  assumes "pn_ok pn" "fb_ok pn starts fb" "length p0 \<le> starts"
  shows "tri_states0_at pn p0 (applyTriStep1 pn p0 fb)" "fb_ok pn starts (applyTriStep1 pn p0 fb)"
    "fb_currentElems (applyTriStep1 pn p0 fb) = word_of_nat (length p0)" "fb_t1Buffer (applyTriStep1 pn p0 fb) = fb_t1Buffer fb"
proof -
  let ?n = "length (pn_trigrams pn)"
  have room: "?n * length p0 \<le> length (fb_t2Buffer1 fb)" by (rule fb_room(2) [OF assms(2,3)])
  note r = fill_rows_row [of "length p0" ?n "\<lambda>row. triStep0 pn (p0 ! row)" "\<lambda>r. tri_state0 pn (p0 ! r)", OF steps_fill(4) [OF assms(1)] _ room]
  show "tri_states0_at pn p0 (applyTriStep1 pn p0 fb)"
    using r(2) by (simp add: tri_states0_at_def applyTriStep1_def Let_def list_all_iff)
  show "fb_ok pn starts (applyTriStep1 pn p0 fb)"
    using r(1) assms(2) by (simp add: fb_ok_def applyTriStep1_def Let_def)
  show "fb_currentElems (applyTriStep1 pn p0 fb) = word_of_nat (length p0)" "fb_t1Buffer (applyTriStep1 pn p0 fb) = fb_t1Buffer fb"
    by (simp_all add: applyTriStep1_def Let_def)
qed

lemma applyTriStep2_states:
  assumes "pn_ok pn" "fb_ok pn starts fb" "length p0 \<le> starts" "unat (fb_currentElems fb) = length p0" "tri_states0_at pn p0 fb"
  shows "tri_states1_at pn p0 p1 (applyTriStep2 pn p1 fb)" "fb_ok pn starts (applyTriStep2 pn p1 fb)"
    "\<exists>x. applyTriStep2 pn p1 fb = fb\<lparr>fb_t2Buffer2 := x\<rparr>"
proof -
  let ?n = "length (pn_trigrams pn)"
  have room: "?n * length p0 \<le> length (fb_t2Buffer2 fb)" by (rule fb_room(3) [OF assms(2,3)])
  have "triStep1 pn p1 (mat_row ?n r (fb_t2Buffer1 fb)) st = tri_state1 pn (p0 ! r) p1" if "r < length p0" "length st = ?n" for r st
    using steps_fill(5) [OF assms(1) that(2)] assms(5) that(1) by (simp add: tri_states0_at_def list_all_iff)
  note r = fill_rows_row [of "length p0" ?n "\<lambda>row. triStep1 pn p1 (mat_row ?n row (fb_t2Buffer1 fb))" "\<lambda>r. tri_state1 pn (p0 ! r) p1",
      OF this state_lengths(3) room]
  let ?b = "fold (\<lambda>row buf. set_mat_row ?n row (triStep1 pn p1 (mat_row ?n row (fb_t2Buffer1 fb)) (mat_row ?n row buf)) buf) [0..<length p0] (fb_t2Buffer2 fb)"
  have e: "applyTriStep2 pn p1 fb = fb\<lparr>fb_t2Buffer2 := ?b\<rparr>" by (simp only: applyTriStep2_def Let_def assms(4))
  have b: "fb_t2Buffer2 (applyTriStep2 pn p1 fb) = ?b" unfolding e by simp
  show "tri_states1_at pn p0 p1 (applyTriStep2 pn p1 fb)"
    unfolding tri_states1_at_def list_all_iff set_upt b by (intro ballI r(2)) simp_all
  have "length ?b = length (fb_t2Buffer2 fb)" by (rule r(1))
  then show "fb_ok pn starts (applyTriStep2 pn p1 fb)"
    unfolding e by (rule fb_ok_t2 [OF assms(2)])
  show "\<exists>x. applyTriStep2 pn p1 fb = fb\<lparr>fb_t2Buffer2 := x\<rparr>"
    unfolding e by (rule exI) (rule refl)
qed

lemma applyBiStep2_scores:
  assumes "pn_ok pn" "fb_ok pn starts fb" "unat (fb_currentElems fb) = length p0" "bi_states_at pn p0 fb" "length p0 \<le> length result"
  shows "\<exists>fb'. applyBiStep2 fadd weights pn p1 fb result
      = (fb', map (\<lambda>r. fadd (result ! r) (bi_score fadd weights pn (p0 ! r) p1)) [0..<length p0] @ drop (length p0) result) \<and> values_only fb fb'"
proof (cases "p0 = []")
  case True
  with True values_only_refl assms(3) show ?thesis by (simp add: applyBiStep2_def Let_def)
next
  case False
  let ?n = "length (pn_bigrams pn)"
  have len: "?n \<le> length (fb_valueBuffer1 fb)" "?n \<le> length (fb_valueBuffer2 fb)" using assms(2) by (simp_all add: fb_ok_def)
  have st: "biStep1 pn p1 (mat_row ?n r (fb_t1Buffer fb)) msk b = bi_indices pn (p0 ! r) p1 msk" if "r < length p0" "length b = ?n" for r b msk
    using steps_fill(3) [OF assms(1) that(2)] assms(4) that(1) by (simp add: bi_states_at_def list_all_iff)
  have "0 < length p0" using False by simp
  note pipeline_buffers [of "length p0" ?n "\<lambda>row. biStep1 pn p1 (mat_row ?n row (fb_t1Buffer fb)) (weight_mask weights)"
      "\<lambda>r. bi_indices pn (p0 ! r) p1 (weight_mask weights)", OF st _ this len assms(5), of "add_at fadd" fadd "computeUnrolled4RawPerceptron fadd weights"]
  then show ?thesis using False by (simp add: applyBiStep2_def Let_def add_at_def bi_score_def assms(3))
qed

lemma applyTriStep3_scores:
  assumes "pn_ok pn" "fb_ok pn starts fb" "unat (fb_currentElems fb) = length p0" "tri_states1_at pn p0 p1 fb" "length p0 \<le> length result"
  shows "\<exists>fb'. applyTriStep3 fadd weights pn p2 fb result
      = (fb', map (\<lambda>r. fadd (result ! r) (tri_score fadd weights pn (p0 ! r) p1 p2)) [0..<length p0] @ drop (length p0) result) \<and> values_only fb fb'"
proof (cases "p0 = []")
  case True
  with True values_only_refl assms(3) show ?thesis by (simp add: applyTriStep3_def Let_def)
next
  case False
  let ?n = "length (pn_trigrams pn)"
  have len: "?n \<le> length (fb_valueBuffer1 fb)" "?n \<le> length (fb_valueBuffer2 fb)" using assms(2) by (simp_all add: fb_ok_def)
  have st: "triStep2 pn p2 (mat_row ?n r (fb_t2Buffer2 fb)) msk b = tri_indices pn (p0 ! r) p1 p2 msk" if "r < length p0" "length b = ?n" for r b msk
    using steps_fill(6) [OF assms(1) that(2)] assms(4) that(1) by (simp add: tri_states1_at_def list_all_iff)
  have "0 < length p0" using False by simp
  note pipeline_buffers [of "length p0" ?n "\<lambda>row. triStep2 pn p2 (mat_row ?n row (fb_t2Buffer2 fb)) (weight_mask weights)"
      "\<lambda>r. tri_indices pn (p0 ! r) p1 p2 (weight_mask weights)", OF st _ this len assms(5), of "add_at fadd" fadd "computeUnrolled4RawPerceptron fadd weights"]
  then show ?thesis using False by (simp add: applyTriStep3_def Let_def add_at_def tri_score_def assms(3))
qed

subsection \<open>Scores of a node with all candidates on its left\<close>

lemma fold_copy:
  assumes "n \<le> length result"
  shows "fold (\<lambda>i res. res[i := g i]) [0..<n] result = map g [0..<n] @ drop n result"
  using fold_store [OF assms, of "\<lambda>r _. g r"] .

definition scores_only :: "feature_buffer \<Rightarrow> feature_buffer \<Rightarrow> bool" where
  "scores_only fb fb' \<longleftrightarrow> (\<exists>x y z. fb' = fb\<lparr>fb_valueBuffer1 := x, fb_valueBuffer2 := y, fb_scoreBuffer := z\<rparr>
     \<and> length x = length (fb_valueBuffer1 fb) \<and> length y = length (fb_valueBuffer2 fb) \<and> length z = length (fb_scoreBuffer fb))"

lemma scores_only_trans:
  assumes "values_only fb fb1" "length z = length (fb_scoreBuffer fb)" "values_only (fb1\<lparr>fb_scoreBuffer := z\<rparr>) fb2"
  shows "scores_only fb fb2"
proof -
  obtain x y where 1: "fb1 = fb\<lparr>fb_valueBuffer1 := x, fb_valueBuffer2 := y\<rparr>" "length x = length (fb_valueBuffer1 fb)" "length y = length (fb_valueBuffer2 fb)"
    using assms(1) unfolding values_only_def by blast
  obtain x' y' where 2: "fb2 = fb1\<lparr>fb_scoreBuffer := z, fb_valueBuffer1 := x', fb_valueBuffer2 := y'\<rparr>" "length x' = length (fb_valueBuffer1 fb1)"
    "length y' = length (fb_valueBuffer2 fb1)" using assms(3) unfolding values_only_def by auto
  have "fb2 = fb\<lparr>fb_valueBuffer1 := x', fb_valueBuffer2 := y', fb_scoreBuffer := z\<rparr>" unfolding 2(1) 1(1) by simp
  moreover have "length x' = length (fb_valueBuffer1 fb)" "length y' = length (fb_valueBuffer2 fb)" using 1 2(2,3) by simp_all
  ultimately show ?thesis unfolding scores_only_def using assms(2) by blast
qed

lemma values_scores_only: "values_only fb fb' \<Longrightarrow> scores_only fb fb'"
  unfolding values_only_def scores_only_def by (elim exE conjE, rule_tac x = x in exI, rule_tac x = y in exI, rule_tac x = "fb_scoreBuffer fb" in exI) simp

lemma applyBiTri_scores:
  assumes "pn_ok pn" "fb_ok pn starts fb" "t1 \<noteq> []" "length t1 \<le> length (fb_scoreBuffer fb)" "length t1idxes = length t2"
    and "list_all (\<lambda>i. unat i < length t1) t1idxes" "length t2 \<le> length result"
  shows "\<exists>fb'. applyBiTri fadd weights pn t0 t1 t2 t1idxes fb result
      = (fb', map (\<lambda>i. fadd (bi_score fadd weights pn t0 (t1 ! unat (t1idxes ! i))) (tri_score fadd weights pn t0 (t1 ! unat (t1idxes ! i)) (t2 ! i)))
                [0..<length t2] @ drop (length t2) result) \<and> scores_only fb fb'"
proof (cases "t2 = []")
  case True
  then show ?thesis using values_scores_only [OF values_only_refl] by (simp add: applyBiTri_def Let_def)
next
  case False
  let ?msk = "weight_mask weights" and ?sc = "computeUnrolled4RawPerceptron fadd weights"
  let ?sb = "take (length t1) (fb_scoreBuffer fb)"
  have len: "length (pn_bigrams pn) \<le> length (fb_valueBuffer1 fb)" "length (pn_bigrams pn) \<le> length (fb_valueBuffer2 fb)"
    using assms(2) by (simp_all add: fb_ok_def)
  have "0 < length t1" "length t1 \<le> length ?sb" using assms(3,4) by simp_all
  from pipeline_buffers [of "length t1" "length (pn_bigrams pn)" "\<lambda>row. biFull pn t0 (t1 ! row) ?msk" "\<lambda>r. bi_indices pn t0 (t1 ! r) ?msk",
      OF steps_fill(7) [OF assms(1)] _ this(1) len this(2), of store_at "\<lambda>x v. v" ?sc]
  obtain fb1 where fb1: "with_buffers (length (pn_bigrams pn)) (length t1) (\<lambda>(buf1, buf2).
      pipeline (\<lambda>row. biFull pn t0 (t1 ! row) ?msk) store_at ?sc 1 (length t1) (buf1, biFull pn t0 (t1 ! 0) ?msk buf2, ?sb)) fb
      = (fb1, map (\<lambda>r. bi_score fadd weights pn t0 (t1 ! r)) [0..<length t1])" "values_only fb fb1"
    by (auto simp: store_at_def bi_score_def)
  define scbuf where "scbuf = map (\<lambda>r. bi_score fadd weights pn t0 (t1 ! r)) [0..<length t1]"
  define fb2 where "fb2 = fb1\<lparr>fb_scoreBuffer := scbuf @ drop (length t1) (fb_scoreBuffer fb1)\<rparr>"
  let ?res = "fold (\<lambda>i result. result[i := scbuf ! unat (t1idxes ! i)]) [0..<length t1idxes] result"
  have res: "?res = map (\<lambda>i. scbuf ! unat (t1idxes ! i)) [0..<length t2] @ drop (length t2) result"
    unfolding assms(5) by (rule fold_copy [OF assms(7)])
  have ok2: "fb_ok pn starts fb2" using values_only_ok [OF fb1(2) assms(2)] by (simp add: fb2_def fb_ok_def)
  have len: "length (pn_trigrams pn) \<le> length (fb_valueBuffer1 fb2)" "length (pn_trigrams pn) \<le> length (fb_valueBuffer2 fb2)"
    using ok2 by (simp_all add: fb_ok_def)
  have "0 < length t2" "length t2 \<le> length ?res" using False assms(7) by (simp_all add: res)
  from pipeline_buffers [of "length t2" "length (pn_trigrams pn)" "\<lambda>row. triFull pn t0 (t1 ! unat (t1idxes ! row)) (t2 ! row) ?msk"
      "\<lambda>r. tri_indices pn t0 (t1 ! unat (t1idxes ! r)) (t2 ! r) ?msk", OF steps_fill(8) [OF assms(1)] _ this(1) len this(2), of "add_at fadd" fadd ?sc]
  obtain fb3 where fb3: "with_buffers (length (pn_trigrams pn)) (length t2) (\<lambda>(buf1, buf2).
      pipeline (\<lambda>row. triFull pn t0 (t1 ! unat (t1idxes ! row)) (t2 ! row) ?msk) (add_at fadd) ?sc 1 (length t2)
        (buf1, triFull pn t0 (t1 ! unat (t1idxes ! 0)) (t2 ! 0) ?msk buf2, ?res)) fb2
      = (fb3, map (\<lambda>r. fadd (?res ! r) (tri_score fadd weights pn t0 (t1 ! unat (t1idxes ! r)) (t2 ! r))) [0..<length t2] @ drop (length t2) ?res)"
    "values_only fb2 fb3"
    by (auto simp: add_at_def tri_score_def)
  have "map (\<lambda>r. fadd (?res ! r) (tri_score fadd weights pn t0 (t1 ! unat (t1idxes ! r)) (t2 ! r))) [0..<length t2] @ drop (length t2) ?res
      = map (\<lambda>i. fadd (bi_score fadd weights pn t0 (t1 ! unat (t1idxes ! i))) (tri_score fadd weights pn t0 (t1 ! unat (t1idxes ! i)) (t2 ! i)))
          [0..<length t2] @ drop (length t2) result"
    unfolding res using assms(5,6) by (auto simp: nth_append scbuf_def list_all_length)
  moreover have "applyBiTri fadd weights pn t0 t1 t2 t1idxes fb result
      = (fb3, map (\<lambda>r. fadd (?res ! r) (tri_score fadd weights pn t0 (t1 ! unat (t1idxes ! r)) (t2 ! r))) [0..<length t2] @ drop (length t2) ?res)"
    using False fb1(1) fb3(1) by (simp only: applyBiTri_def Let_def prod.case length_0_conv if_False scbuf_def [symmetric] fb2_def [symmetric])
  moreover have "scores_only fb fb3"
    using fb1(2) assms(4) fb3(2) unfolding fb2_def by (intro scores_only_trans [OF fb1(2)]) (auto simp: scbuf_def values_only_def)
  ultimately show ?thesis by (simp only:) blast
qed

end
