(* ===== verification/ScoreProcessor.thy ===== *)
theory ScoreProcessor
  imports FeatureBuffers AnalysisPath
begin

text \<open>
  The scoring of a lattice with full beams: \<open>ScoreProcessor\<close> of \<open>src/src/core/analysis/score_processor.h\<close> and \<open>score_processor.cc\<close>, the score buffers of
  \<open>ngram_computations.h\<close>, and \<open>bootstrapAnalysis\<close> and \<open>computeScoresFull\<close> of \<open>analyzer_impl.cc\<close>. The functions that the build generates for a
  specification are the argument \<open>static\<close>, the score plugin the argument \<open>plugin\<close>. A null pointer that is followed is the result \<open>None\<close>.
\<close>

subsection \<open>State\<close>

record score_processor =
  sp_ngrams :: partial_ngrams
  sp_curSize :: u32
  sp_bufferT0 :: "score list"
  sp_bufferT1 :: "score list"
  sp_bufferT2 :: "score list"
  sp_features :: feature_buffer
  sp_beam :: "beam_element list"

definition bufferT0 :: "score_processor \<Rightarrow> score list" where
  "bufferT0 p = take (unat (sp_curSize p)) (sp_bufferT0 p)"

definition bufferT1 :: "score_processor \<Rightarrow> score list" where
  "bufferT1 p = take (unat (sp_curSize p)) (sp_bufferT1 p)"

definition bufferT2 :: "score_processor \<Rightarrow> score list" where
  "bufferT2 p = take (unat (sp_curSize p)) (sp_bufferT2 p)"

text \<open>A slice of a buffer that has been written, back in its buffer.\<close>

definition write_back :: "'a list \<Rightarrow> 'a list \<Rightarrow> 'a list" where
  "write_back part buf = part @ drop (length part) buf"

text \<open>The constructor: the sizes of the greatest boundary behind BOS.\<close>

definition max_starts :: "lattice \<Rightarrow> u32" where
  "max_starts l = fold (\<lambda>idx m. max m (localNodeCount (boundary l idx))) [2..<createdBoundaryCount l] 0"

definition max_ends :: "lattice \<Rightarrow> u32" where
  "max_ends l = fold (\<lambda>idx m. max m (word_of_nat (length (lb_endingNodes (bd_left (boundary l idx)))))) [2..<createdBoundaryCount l] 0"

definition mk_score_processor ::
  "(nat \<Rightarrow> u64 list) \<Rightarrow> (nat \<Rightarrow> u32 list) \<Rightarrow> (nat \<Rightarrow> score list) \<Rightarrow> partial_ngrams \<Rightarrow> lattice \<Rightarrow> score_processor" where
  "mk_score_processor fresh64 fresh32 freshScores pn l =
     (let maxNodes = unat (max_starts l);
          fb = allocateBuffers fresh64 fresh32 freshScores pn maxNodes (unat (max_ends l))
      in \<lparr>sp_ngrams = pn, sp_curSize = 0, sp_bufferT0 = freshScores maxNodes, sp_bufferT1 = freshScores maxNodes, sp_bufferT2 = freshScores maxNodes,
          sp_features = fb\<lparr>fb_valueBuffer1 := map (\<lambda>_. 0) (fb_valueBuffer1 fb)\<rparr>, sp_beam = []\<rparr>)"

subsection \<open>Operations\<close>

definition startBoundary :: "u32 \<Rightarrow> score_processor \<Rightarrow> score_processor" where
  "startBoundary currentNodes p = p\<lparr>sp_curSize := currentNodes\<rparr>"

definition boundary_patterns :: "lattice \<Rightarrow> nat \<Rightarrow> u64 list list" where
  "boundary_patterns l bnd = rb_patterns (bd_right (boundary l bnd))"

definition applyT0 :: "(score \<Rightarrow> score \<Rightarrow> score) \<Rightarrow> score list \<Rightarrow> lattice \<Rightarrow> nat \<Rightarrow> score_processor \<Rightarrow> score_processor" where
  "applyT0 fadd weights l bnd p =
     (let patterns = boundary_patterns l bnd;
          (fb, t0) = applyUni fadd weights (sp_ngrams p) patterns (sp_features p) (bufferT0 p);
          fb = applyBiStep1 (sp_ngrams p) patterns fb;
          fb = applyTriStep1 (sp_ngrams p) patterns fb
      in p\<lparr>sp_bufferT0 := write_back t0 (sp_bufferT0 p), sp_features := fb\<rparr>)"

definition applyT1 :: "(score \<Rightarrow> score \<Rightarrow> score) \<Rightarrow> score list \<Rightarrow> lattice \<Rightarrow> lattice_node_ptr \<Rightarrow> score_processor \<Rightarrow> score_processor" where
  "applyT1 fadd weights l node p =
     (let result = bufferT0 p @ drop (length (bufferT0 p)) (bufferT1 p);
          item = node_patterns l node;
          (fb, result) = applyBiStep2 fadd weights (sp_ngrams p) item (sp_features p) result;
          fb = applyTriStep2 (sp_ngrams p) item fb
      in p\<lparr>sp_bufferT1 := write_back result (sp_bufferT1 p), sp_features := fb\<rparr>)"

definition sp_resolveBeamAt :: "lattice \<Rightarrow> lattice_node_ptr \<Rightarrow> score_processor \<Rightarrow> score_processor" where
  "sp_resolveBeamAt l node p = p\<lparr>sp_beam := resolveBeamAt l (unat (np_boundary node)) (unat (np_position node))\<rparr>"

definition applyT2 :: "(score \<Rightarrow> score \<Rightarrow> score) \<Rightarrow> score list \<Rightarrow> lattice \<Rightarrow> nat \<Rightarrow> score_processor \<Rightarrow> score_processor option" where
  "applyT2 fadd weights l beamIdx p =
     map_option (\<lambda>ptr.
       let item = node_patterns l (latticeNodePtr ptr);
           result = bufferT1 p @ drop (length (bufferT1 p)) (bufferT2 p);
           (fb, result) = applyTriStep3 fadd weights (sp_ngrams p) item (sp_features p) result
       in p\<lparr>sp_bufferT2 := write_back result (sp_bufferT2 p), sp_features := fb\<rparr>)
     (cn_previous (be_ptr (sp_beam p ! beamIdx)))"

type_synonym score_plugin = "lattice \<Rightarrow> connection_ptr \<Rightarrow> score \<Rightarrow> score"

definition plugin_ptr :: "nat \<Rightarrow> nat \<Rightarrow> nat \<Rightarrow> nat \<Rightarrow> beam_element \<Rightarrow> connection_ptr" where
  "plugin_ptr bnd left t0 beam prev = ConnectionPtr (word_of_nat bnd) (word_of_nat left) (word_of_nat t0) (word_of_nat beam) (Some (be_ptr prev))"

definition applyPluginToFullBeam :: "score_plugin option \<Rightarrow> lattice \<Rightarrow> nat \<Rightarrow> nat \<Rightarrow> nat \<Rightarrow> score_processor \<Rightarrow> score_processor" where
  "applyPluginToFullBeam plugin l bndNum left beam p =
     (case plugin of
        None \<Rightarrow> p
      | Some updateScore \<Rightarrow>
          let prev = sp_beam p ! beam;
              score = map (\<lambda>t0. updateScore l (plugin_ptr bndNum left t0 beam prev) (bufferT2 p ! t0)) [0..<length (bufferT2 p)]
          in p\<lparr>sp_bufferT2 := write_back score (sp_bufferT2 p)\<rparr>)"

definition copyFeatureScores :: "nat \<Rightarrow> nat \<Rightarrow> score_processor \<Rightarrow> boundary_scores \<Rightarrow> boundary_scores" where
  "copyFeatureScores left beam p bndconn = importBeamScore left 0 beam (bufferT2 p) bndconn"

subsection \<open>Scoring all boundaries\<close>

definition score_beam ::
  "(score \<Rightarrow> score \<Rightarrow> score) \<Rightarrow> score list \<Rightarrow> score_plugin option \<Rightarrow> nat \<Rightarrow> nat \<Rightarrow> nat \<Rightarrow> score_processor \<times> lattice
     \<Rightarrow> (score_processor \<times> lattice) option" where
  "score_beam fadd weights plugin bnd t1idx beamIdx pl =
     (case pl of (p, l) \<Rightarrow>
        map_option (\<lambda>p.
          let p = applyPluginToFullBeam plugin l bnd t1idx beamIdx p
          in (p, update_boundary bnd (\<lambda>b. b\<lparr>bd_scores := copyFeatureScores t1idx beamIdx p (bd_scores b)\<rparr>) l))
        (applyT2 fadd weights l beamIdx p))"

definition score_left ::
  "(score \<Rightarrow> score \<Rightarrow> score) \<Rightarrow> score list \<Rightarrow> score_plugin option \<Rightarrow> nat \<Rightarrow> nat \<Rightarrow> score_processor \<times> lattice \<Rightarrow> (score_processor \<times> lattice) option" where
  "score_left fadd weights plugin bnd t1idx pl =
     (case pl of (p, l) \<Rightarrow>
        let t1node = lb_endingNodes (bd_left (boundary l bnd)) ! t1idx;
            p = applyT1 fadd weights l t1node p;
            p = sp_resolveBeamAt l t1node p
        in fold_option (score_beam fadd weights plugin bnd t1idx) [0..<length (sp_beam p)] (p, l))"

text \<open>
  One boundary of \<open>computeScoresFull\<close>. With static patterns the generated function computes the patterns of the boundary too, and fills the
  buffers as \<open>applyT0\<close> does.
\<close>

definition initialize_beams :: "lattice_boundary \<Rightarrow> lattice_boundary" where
  "initialize_beams b = b\<lparr>bd_right := (bd_right b)\<lparr>rb_beam := map initializeBlock (rb_beam (bd_right b))\<rparr>\<rparr>"

definition score_boundary ::
  "(score \<Rightarrow> score \<Rightarrow> score) \<Rightarrow> score list \<Rightarrow> score_plugin option \<Rightarrow> (nat \<Rightarrow> score_processor \<times> lattice \<Rightarrow> (score_processor \<times> lattice) option) option
     \<Rightarrow> nat \<Rightarrow> score_processor \<times> lattice \<Rightarrow> (score_processor \<times> lattice) option" where
  "score_boundary fadd weights plugin static bnd pl =
     (case pl of (p, l) \<Rightarrow>
        let l = update_boundary bnd initialize_beams l;
            p = startBoundary (localNodeCount (boundary l bnd)) p;
            pl = (case static of None \<Rightarrow> Some (applyT0 fadd weights l bnd p, l) | Some computeT0All \<Rightarrow> computeT0All bnd (p, l))
        in case Option.bind pl (fold_option (score_left fadd weights plugin bnd) [0..<length (lb_endingNodes (bd_left (boundary l bnd)))]) of
             None \<Rightarrow> None
           | Some (p, l) \<Rightarrow> map_option (Pair p) (makeBeams fadd bnd l))"

definition computeScoresFull ::
  "(score \<Rightarrow> score \<Rightarrow> score) \<Rightarrow> score list \<Rightarrow> score_plugin option \<Rightarrow> (nat \<Rightarrow> score_processor \<times> lattice \<Rightarrow> (score_processor \<times> lattice) option) option
     \<Rightarrow> score_processor \<times> lattice \<Rightarrow> (status_code \<times> score_processor \<times> lattice) option" where
  "computeScoresFull fadd weights plugin static pl =
     (if createdBoundaryCount (snd pl) \<le> 3 then Some (StOk, pl)
      else map_option (Pair StOk) (fold_option (score_boundary fadd weights plugin static) [2..<createdBoundaryCount (snd pl)] pl))"

text \<open>\<open>bootstrapAnalysis\<close>: the first elements of the beams of the two BOS nodes.\<close>

definition set_first :: "'a \<Rightarrow> 'a list list \<Rightarrow> 'a list list" where
  "set_first x rows = rows[0 := (rows ! 0)[0 := x]]"

definition bos_beam :: "beam_element \<Rightarrow> lattice_boundary \<Rightarrow> lattice_boundary" where
  "bos_beam e b = b\<lparr>bd_right := (bd_right b)\<lparr>rb_beam := set_first e (map initializeBlock (rb_beam (bd_right b)))\<rparr>\<rparr>"

definition bos_ref :: beam_element where
  "bos_ref = \<lparr>be_ptr = ConnectionPtr 0 0 0 0 None, be_totalScore = 0\<rparr>"

definition bos1_ref :: beam_element where
  "bos1_ref = \<lparr>be_ptr = ConnectionPtr 1 0 0 0 (Some (be_ptr bos_ref)), be_totalScore = 0\<rparr>"

definition bootstrapAnalysis ::
  "(nat \<Rightarrow> u64 list) \<Rightarrow> (nat \<Rightarrow> u32 list) \<Rightarrow> (nat \<Rightarrow> score list) \<Rightarrow> partial_ngrams \<Rightarrow> lattice \<Rightarrow> score_processor \<times> lattice" where
  "bootstrapAnalysis fresh64 fresh32 freshScores pn l =
     (mk_score_processor fresh64 fresh32 freshScores pn l, update_boundary 1 (bos_beam bos1_ref) (update_boundary 0 (bos_beam bos_ref) l))"

subsection \<open>The stored scores\<close>

text \<open>The room for the scores of a boundary: for each node a row of scores of all left nodes, for each element of their beams.\<close>

definition scores_ok :: "nat \<Rightarrow> boundary_scores \<Rightarrow> bool" where
  "scores_ok n s \<longleftrightarrow> 0 < unat (bs_numScorers s) \<and> unat (bs_numLeft s) * unat (bs_numScorers s) < 2 ^ 32 \<and> length (bs_scores s) = n
     \<and> list_all (\<lambda>row. length row = unat (bs_numBeam s) * (unat (bs_numLeft s) * unat (bs_numScorers s))) (bs_scores s)"

definition score_at :: "boundary_scores \<Rightarrow> nat \<Rightarrow> nat \<Rightarrow> nat \<Rightarrow> score" where
  "score_at s node beam left = beamLeft s node beam left ! 0"

definition same_shape :: "boundary_scores \<Rightarrow> boundary_scores \<Rightarrow> bool" where
  "same_shape s s' \<longleftrightarrow> (\<exists>rows. s' = s\<lparr>bs_scores := rows\<rparr>)"

lemma same_shape_refl: "same_shape s s"
  unfolding same_shape_def by (rule exI [of _ "bs_scores s"]) simp

lemma same_shape_trans: "same_shape s t \<Longrightarrow> same_shape t u \<Longrightarrow> same_shape s u"
  unfolding same_shape_def by auto

lemma score_index_nat:
  assumes "scores_ok n s" "left < unat (bs_numLeft s)"
  shows "score_index s beam left 0 = unat (bs_numLeft s) * unat (bs_numScorers s) * beam + left * unat (bs_numScorers s)"
proof -
  have b: "unat (bs_numLeft s) * unat (bs_numScorers s) < 2 ^ 32" using assms(1) by (simp add: scores_ok_def)
  then have 1: "unat (bs_numLeft s * bs_numScorers s) = unat (bs_numLeft s) * unat (bs_numScorers s)"
    by (simp add: unat_word_ariths(2))
  have l: "unat (word_of_nat left :: u32) = left"
    using assms(2) order_less_trans [OF _ unsigned_less [of "bs_numLeft s", where 'a=nat]] by (intro unat_of_nat_small) simp
  have "left * unat (bs_numScorers s) \<le> unat (bs_numLeft s) * unat (bs_numScorers s)" using assms(2) by (intro mult_right_mono) simp_all
  then have "left * unat (bs_numScorers s) < 2 ^ 32" using b by linarith
  then have "unat (word_of_nat left * bs_numScorers s :: u32) = left * unat (bs_numScorers s)"
    using l by (simp add: unat_word_ariths(2) del: unat_of_nat)
  with 1 show ?thesis unfolding score_index_def by (simp only:)
qed

lemma index_inj:
  fixes L S :: nat
  assumes "0 < S" "left < L" "left' < L" "L * S * beam + left * S = L * S * beam' + left' * S"
  shows "beam = beam' \<and> left = left'"
proof -
  have "S * (L * beam + left) = S * (L * beam' + left')" using assms(4) by (simp add: algebra_simps)
  then have e: "L * beam + left = L * beam' + left'" using assms(1) by simp
  have "(L * beam + left) div L = beam" "(L * beam' + left') div L = beam'" using assms(2,3) by simp_all
  with e have "beam = beam'" by simp
  with e show ?thesis by simp
qed

lemma index_bound:
  fixes L S :: nat
  assumes "0 < S" "left < L" "beam < B"
  shows "L * S * beam + left * S < B * (L * S)"
proof -
  have "left * S < L * S" using assms by simp
  moreover have "L * S * beam + L * S = L * S * Suc beam" by simp
  moreover have "L * S * Suc beam \<le> L * S * B" using assms(3) by (intro mult_left_mono) simp_all
  ultimately show ?thesis by (simp only: mult.commute [of B])
qed

lemma score_at_index:
  assumes "scores_ok n s"
  shows "score_at s node beam left = bs_scores s ! node ! score_index s beam left 0"
proof -
  have "0 < unat (bs_numScorers s)" using assms by (simp add: scores_ok_def)
  then show ?thesis by (simp add: score_at_def beamLeft_def)
qed

lemma set_score_step:
  fixes v :: score
  assumes "scores_ok n s" "left < unat (bs_numLeft s)" "beam < unat (bs_numBeam s)" "node < n"
  defines "s' \<equiv> set_score node beam left 0 v s"
  shows "scores_ok n s'" "same_shape s s'" "score_at s' node beam left = v"
    "left' < unat (bs_numLeft s) \<Longrightarrow> (node', beam', left') \<noteq> (node, beam, left) \<Longrightarrow> score_at s' node' beam' left' = score_at s node' beam' left'"
proof -
  let ?i = "score_index s beam left 0"
  have sh: "bs_numScorers s' = bs_numScorers s" "bs_numLeft s' = bs_numLeft s" "bs_numBeam s' = bs_numBeam s"
    "bs_scores s' = (bs_scores s)[node := (bs_scores s ! node)[?i := v]]"
    by (simp_all add: s'_def set_score_def)
  have si: "score_index s' b lf sc = score_index s b lf sc" for b lf sc by (simp add: score_index_def sh)
  have S: "0 < unat (bs_numScorers s)" and n: "length (bs_scores s) = n"
    and row: "length (bs_scores s ! node) = unat (bs_numBeam s) * (unat (bs_numLeft s) * unat (bs_numScorers s))"
    using assms(1,4) by (simp_all add: scores_ok_def list_all_length)
  show ok: "scores_ok n s'"
    using assms(1,4) row by (simp add: scores_ok_def sh list_all_length nth_list_update)
  show "same_shape s s'" unfolding same_shape_def s'_def set_score_def by (rule exI) (rule refl)
  have "?i < length (bs_scores s ! node)"
    unfolding row score_index_nat [OF assms(1,2)] by (rule index_bound [OF S assms(2,3)])
  then show "score_at s' node beam left = v"
    unfolding score_at_index [OF ok] si sh(4) using assms(4) n by simp
  show "score_at s' node' beam' left' = score_at s node' beam' left'"
    if l': "left' < unat (bs_numLeft s)" and ne: "(node', beam', left') \<noteq> (node, beam, left)"
  proof (cases "node' = node")
    case True
    have "score_index s beam' left' 0 \<noteq> ?i"
      unfolding score_index_nat [OF assms(1,2)] score_index_nat [OF assms(1) l'] using index_inj [OF S l' assms(2)] ne True by blast
    then show ?thesis
      unfolding score_at_index [OF ok] score_at_index [OF assms(1)] si sh(4) using True assms(4) n by simp
  next
    case False
    then show ?thesis unfolding score_at_index [OF ok] score_at_index [OF assms(1)] si sh(4) by simp
  qed
qed

text \<open>The scores of the first \<open>m\<close> nodes have been stored, and no others have changed.\<close>

definition imported :: "nat \<Rightarrow> boundary_scores \<Rightarrow> nat \<Rightarrow> nat \<Rightarrow> score list \<Rightarrow> nat \<Rightarrow> boundary_scores \<Rightarrow> bool" where
  "imported n s left beam vs m s' \<longleftrightarrow> scores_ok n s' \<and> same_shape s s' \<and> (\<forall>node < m. score_at s' node beam left = vs ! node)
    \<and> (\<forall>node' beam' left'. left' < unat (bs_numLeft s) \<longrightarrow> (beam', left') \<noteq> (beam, left) \<longrightarrow> score_at s' node' beam' left' = score_at s node' beam' left')"

lemma importedD:
  assumes "imported n s left beam vs m s'"
  shows "scores_ok n s'" "same_shape s s'" "node < m \<Longrightarrow> score_at s' node beam left = vs ! node"
    "left' < unat (bs_numLeft s) \<Longrightarrow> (beam', left') \<noteq> (beam, left) \<Longrightarrow> score_at s' node' beam' left' = score_at s node' beam' left'"
proof -
  note a = assms [unfolded imported_def]
  show "scores_ok n s'" "same_shape s s'" using a by (simp_all only:)
  show "score_at s' node beam left = vs ! node" if "node < m"
    by (rule a [THEN conjunct2, THEN conjunct2, THEN conjunct1, rule_format, OF that])
  show "score_at s' node' beam' left' = score_at s node' beam' left'" if "left' < unat (bs_numLeft s)" "(beam', left') \<noteq> (beam, left)"
    by (rule a [THEN conjunct2, THEN conjunct2, THEN conjunct2, rule_format, OF that])
qed

lemma importedI:
  assumes "scores_ok n s'" "same_shape s s'" "\<And>node. node < m \<Longrightarrow> score_at s' node beam left = vs ! node"
    "\<And>node' beam' left'. left' < unat (bs_numLeft s) \<Longrightarrow> (beam', left') \<noteq> (beam, left) \<Longrightarrow> score_at s' node' beam' left' = score_at s node' beam' left'"
  shows "imported n s left beam vs m s'"
  unfolding imported_def by (intro conjI allI impI) (rule assms; assumption)+

lemma importBeamScore_scores:
  assumes "scores_ok n s" "left < unat (bs_numLeft s)" "beam < unat (bs_numBeam s)" "length vs \<le> n"
  shows "imported n s left beam vs (length vs) (importBeamScore left 0 beam vs s)"
proof -
  have "imported n s left beam vs m (fold (\<lambda>el. set_score el beam left 0 (vs ! el)) [0..<m] s)" if "m \<le> n" for m
    using that
  proof (induction m)
    case 0
    then show ?case using assms(1) same_shape_refl by (simp add: imported_def)
  next
    case (Suc m)
    define s1 where "s1 = fold (\<lambda>el. set_score el beam left 0 (vs ! el)) [0..<m] s"
    have IH: "imported n s left beam vs m s1" using Suc unfolding s1_def by simp
    have nl: "bs_numLeft s1 = bs_numLeft s" "bs_numBeam s1 = bs_numBeam s"
      using importedD(2) [OF IH] by (auto simp: same_shape_def)
    note st = set_score_step [OF importedD(1) [OF IH], unfolded nl, OF assms(2,3), where node = m and v = "vs ! m"]
    have m: "m < n" using Suc.prems by simp
    have "imported n s left beam vs (Suc m) (set_score m beam left 0 (vs ! m) s1)"
    proof (rule importedI)
      show "scores_ok n (set_score m beam left 0 (vs ! m) s1)" by (rule st(1) [OF m])
      show "same_shape s (set_score m beam left 0 (vs ! m) s1)" by (rule same_shape_trans [OF importedD(2) [OF IH] st(2) [OF m]])
      show "score_at (set_score m beam left 0 (vs ! m) s1) node beam left = vs ! node" if "node < Suc m" for node
        using that st(3) [OF m] st(4) [OF m assms(2), where node' = node and beam' = beam] importedD(3) [OF IH, of node] by (cases "node = m") auto
      show "score_at (set_score m beam left 0 (vs ! m) s1) node' beam' left' = score_at s node' beam' left'"
        if "left' < unat (bs_numLeft s)" "(beam', left') \<noteq> (beam, left)" for node' beam' left'
        using st(4) [OF m that(1), where node' = node' and beam' = beam'] importedD(4) [OF IH that, of node'] that(2) by simp
    qed
    then show ?case by (simp add: s1_def)
  qed
  from this [OF assms(4)] show ?thesis by (simp add: importBeamScore_def)
qed

subsection \<open>What scoring leaves alone\<close>

definition with_scores :: "nat \<Rightarrow> boundary_scores \<Rightarrow> lattice \<Rightarrow> lattice" where
  "with_scores k s l = update_boundary k (\<lambda>b. b\<lparr>bd_scores := s\<rparr>) l"

lemma boundary_update:
  "boundary (update_boundary k f l) j = (if j = k \<and> k < length (lt_boundaries l) then f (boundary l j) else boundary l j)"
  by (cases "k < length (lt_boundaries l)") (simp_all add: update_boundary_def boundary_def nth_list_update list_update_beyond)

lemma update_boundary_twice: "update_boundary k g (update_boundary k f l) = update_boundary k (\<lambda>b. g (f b)) l"
  by (cases "k < length (lt_boundaries l)") (simp_all add: update_boundary_def list_update_beyond)

lemma update_boundary_sizes [simp]:
  "lt_config (update_boundary k f l) = lt_config l" "length (lt_boundaries (update_boundary k f l)) = length (lt_boundaries l)"
  by (simp_all add: update_boundary_def)

lemma with_scores_simps:
  "lt_config (with_scores k s l) = lt_config l" "length (lt_boundaries (with_scores k s l)) = length (lt_boundaries l)"
  "bd_left (boundary (with_scores k s l) j) = bd_left (boundary l j)" "bd_right (boundary (with_scores k s l) j) = bd_right (boundary l j)"
  "bd_cfg (boundary (with_scores k s l) j) = bd_cfg (boundary l j)"
  "j \<noteq> k \<Longrightarrow> boundary (with_scores k s l) j = boundary l j"
  by (simp_all add: with_scores_def boundary_update)

lemma with_scores_twice: "with_scores k s' (with_scores k s l) = with_scores k s' l"
  by (simp add: with_scores_def update_boundary_twice)

lemma with_scores_own: "k < length (lt_boundaries l) \<Longrightarrow> bd_scores (boundary (with_scores k s l) k) = s"
  by (simp add: with_scores_def boundary_update)

lemma with_scores_step:
  assumes "k < length (lt_boundaries l)"
  shows "update_boundary k (\<lambda>b. b\<lparr>bd_scores := f (bd_scores b)\<rparr>) (with_scores k s l) = with_scores k (f s) l"
proof -
  have "update_boundary k (\<lambda>b. b\<lparr>bd_scores := f (bd_scores b)\<rparr>) (with_scores k s l)
      = update_boundary k (\<lambda>b. b\<lparr>bd_scores := s, bd_scores := f s\<rparr>) l"
    by (simp add: with_scores_def update_boundary_twice)
  then show ?thesis by (simp add: with_scores_def)
qed

lemma with_scores_same: "with_scores k (bd_scores (boundary l k)) l = l"
  by (simp add: with_scores_def update_boundary_def boundary_def)

lemma with_scores_nodes:
  "node_patterns (with_scores k s l) p = node_patterns l p" "beam_row (with_scores k s l) j i = beam_row l j i"
  "resolveBeamAt (with_scores k s l) j i = resolveBeamAt l j i" "node_beam (with_scores k s l) p = node_beam l p"
  "boundary_patterns (with_scores k s l) j = boundary_patterns l j"
  by (simp_all add: node_patterns_def beam_row_def resolveBeamAt_def node_beam_def boundary_patterns_def with_scores_simps)

text \<open>Scoring changes scores and beams, but no node: neither the nodes themselves nor their patterns nor where they end.\<close>

definition same_nodes :: "lattice \<Rightarrow> lattice \<Rightarrow> bool" where
  "same_nodes l l' \<longleftrightarrow> lt_config l' = lt_config l \<and> length (lt_boundaries l') = length (lt_boundaries l)
     \<and> (\<forall>j. lb_endingNodes (bd_left (boundary l' j)) = lb_endingNodes (bd_left (boundary l j))
          \<and> rb_nodeInfo (bd_right (boundary l' j)) = rb_nodeInfo (bd_right (boundary l j))
          \<and> rb_entryData (bd_right (boundary l' j)) = rb_entryData (bd_right (boundary l j))
          \<and> rb_patterns (bd_right (boundary l' j)) = rb_patterns (bd_right (boundary l j)) \<and> bd_cfg (boundary l' j) = bd_cfg (boundary l j))"

lemma same_nodes_refl: "same_nodes l l"
  by (simp add: same_nodes_def)

lemma same_nodes_trans: "same_nodes l m \<Longrightarrow> same_nodes m n \<Longrightarrow> same_nodes l n"
  by (simp add: same_nodes_def)

lemma same_nodes_scores: "same_nodes l (with_scores k s l)"
  by (simp add: same_nodes_def with_scores_simps)

lemma same_nodes_right:
  assumes "\<And>b. bd_left (f b) = bd_left b" "\<And>b. bd_cfg (f b) = bd_cfg b" "\<And>b. rb_nodeInfo (bd_right (f b)) = rb_nodeInfo (bd_right b)"
    "\<And>b. rb_entryData (bd_right (f b)) = rb_entryData (bd_right b)" "\<And>b. rb_patterns (bd_right (f b)) = rb_patterns (bd_right b)"
  shows "same_nodes l (update_boundary k f l)"
  using assms by (simp add: same_nodes_def boundary_update)

subsection \<open>The score of a connection\<close>

definition plug :: "score_plugin option \<Rightarrow> lattice \<Rightarrow> connection_ptr \<Rightarrow> score \<Rightarrow> score" where
  "plug plugin l ptr x = (case plugin of None \<Rightarrow> x | Some updateScore \<Rightarrow> updateScore l ptr x)"

text \<open>A plugin reads the nodes of the lattice, and not the scores and beams the search is working on.\<close>

definition plugin_reads_nodes :: "score_plugin option \<Rightarrow> bool" where
  "plugin_reads_nodes plugin \<longleftrightarrow> (\<forall>l l'. same_nodes l l' \<longrightarrow> plug plugin l' = plug plugin l)"

definition previous_patterns :: "lattice \<Rightarrow> beam_element \<Rightarrow> u64 list" where
  "previous_patterns l e = (case cn_previous (be_ptr e) of None \<Rightarrow> [] | Some ptr \<Rightarrow> node_patterns l (latticeNodePtr ptr))"

definition connection_score ::
  "(score \<Rightarrow> score \<Rightarrow> score) \<Rightarrow> score list \<Rightarrow> score_plugin option \<Rightarrow> partial_ngrams \<Rightarrow> lattice \<Rightarrow> nat \<Rightarrow> nat \<Rightarrow> nat \<Rightarrow> nat \<Rightarrow> score" where
  "connection_score fadd weights plugin pn l k node left beam =
     (let q = lb_endingNodes (bd_left (boundary l k)) ! left;
          e = node_beam l q ! beam;
          t0 = boundary_patterns l k ! node; t1 = node_patterns l q; t2 = previous_patterns l e
      in plug plugin l (plugin_ptr k left node beam e)
           (fadd (fadd (uni_score fadd weights pn t0) (bi_score fadd weights pn t0 t1)) (tri_score fadd weights pn t0 t1 t2)))"

subsection \<open>What the buffers hold\<close>

definition sp_room :: "partial_ngrams \<Rightarrow> nat \<Rightarrow> score_processor \<Rightarrow> bool" where
  "sp_room pn starts p \<longleftrightarrow> sp_ngrams p = pn \<and> fb_ok pn starts (sp_features p)
     \<and> starts \<le> length (sp_bufferT0 p) \<and> starts \<le> length (sp_bufferT1 p) \<and> starts \<le> length (sp_bufferT2 p)"

text \<open>Ready for the left nodes: the first stages of all features and the scores of the single nodes.\<close>

definition t0_ready :: "(score \<Rightarrow> score \<Rightarrow> score) \<Rightarrow> score list \<Rightarrow> partial_ngrams \<Rightarrow> u64 list list \<Rightarrow> score_processor \<Rightarrow> bool" where
  "t0_ready fadd weights pn p0 p \<longleftrightarrow> unat (sp_curSize p) = length p0 \<and> unat (fb_currentElems (sp_features p)) = length p0
     \<and> bi_states_at pn p0 (sp_features p) \<and> tri_states0_at pn p0 (sp_features p) \<and> bufferT0 p = map (uni_score fadd weights pn) p0"

definition t1_ready :: "(score \<Rightarrow> score \<Rightarrow> score) \<Rightarrow> score list \<Rightarrow> partial_ngrams \<Rightarrow> u64 list list \<Rightarrow> u64 list \<Rightarrow> score_processor \<Rightarrow> bool" where
  "t1_ready fadd weights pn p0 p1 p \<longleftrightarrow> tri_states1_at pn p0 p1 (sp_features p)
     \<and> bufferT1 p = map (\<lambda>t0. fadd (uni_score fadd weights pn t0) (bi_score fadd weights pn t0 p1)) p0"

lemma t0_ready_cong:
  assumes "t0_ready fadd weights pn p0 p" "sp_curSize p' = sp_curSize p" "sp_bufferT0 p' = sp_bufferT0 p"
    "fb_currentElems (sp_features p') = fb_currentElems (sp_features p)" "fb_t1Buffer (sp_features p') = fb_t1Buffer (sp_features p)"
    "fb_t2Buffer1 (sp_features p') = fb_t2Buffer1 (sp_features p)"
  shows "t0_ready fadd weights pn p0 p'"
  using assms(1) unfolding t0_ready_def bufferT0_def bi_states_at_def tri_states0_at_def assms(2-6) .

lemma t1_ready_cong:
  assumes "t1_ready fadd weights pn p0 p1 p" "sp_curSize p' = sp_curSize p" "sp_bufferT1 p' = sp_bufferT1 p"
    "fb_t2Buffer2 (sp_features p') = fb_t2Buffer2 (sp_features p)"
  shows "t1_ready fadd weights pn p0 p1 p'"
  using assms(1) unfolding t1_ready_def bufferT1_def tri_states1_at_def assms(2-4) .

lemma applyT0_ready:
  assumes "pn_ok pn" "sp_room pn starts p" "length (boundary_patterns l k) \<le> starts" "length (boundary_patterns l k) < 2 ^ 32"
    and "unat (sp_curSize p) = length (boundary_patterns l k)"
  shows "sp_room pn starts (applyT0 fadd weights l k p)" "t0_ready fadd weights pn (boundary_patterns l k) (applyT0 fadd weights l k p)"
proof -
  let ?p0 = "boundary_patterns l k" and ?fb = "sp_features p"
  have r: "sp_ngrams p = pn" "fb_ok pn starts ?fb" "starts \<le> length (sp_bufferT0 p)" "starts \<le> length (sp_bufferT1 p)" "starts \<le> length (sp_bufferT2 p)"
    using assms(2) by (simp_all add: sp_room_def)
  have len: "length (bufferT0 p) = length ?p0" using r(3) assms(3,5) by (simp add: bufferT0_def)
  obtain fb1 where fb1: "applyUni fadd weights pn ?p0 ?fb (bufferT0 p) = (fb1, map (uni_score fadd weights pn) ?p0)" "values_only ?fb fb1"
    using applyUni_scores [OF assms(1) r(2), of ?p0 "bufferT0 p" fadd weights] len by auto
  define fb2 where "fb2 = applyBiStep1 pn ?p0 fb1"
  define fb3 where "fb3 = applyTriStep1 pn ?p0 fb2"
  note b = applyBiStep1_states [OF assms(1) values_only_ok [OF fb1(2) r(2)] assms(3), folded fb2_def]
  note t = applyTriStep1_states [OF assms(1) b(2) assms(3), folded fb3_def]
  have e: "applyT0 fadd weights l k p = p\<lparr>sp_bufferT0 := write_back (map (uni_score fadd weights pn) ?p0) (sp_bufferT0 p), sp_features := fb3\<rparr>"
    by (simp add: applyT0_def Let_def r(1) fb1(1) fb2_def fb3_def)
  show "sp_room pn starts (applyT0 fadd weights l k p)"
    unfolding e using r t(2) assms(3) by (simp add: sp_room_def write_back_def)
  show "t0_ready fadd weights pn ?p0 (applyT0 fadd weights l k p)"
    unfolding e using t b(1) assms(4,5) by (simp add: t0_ready_def bufferT0_def write_back_def bi_states_at_def unat_of_nat_small)
qed

lemma applyT1_ready:
  assumes "pn_ok pn" "sp_room pn starts p" "length p0 \<le> starts" "t0_ready fadd weights pn p0 p"
  shows "sp_room pn starts (applyT1 fadd weights l q p)" "t0_ready fadd weights pn p0 (applyT1 fadd weights l q p)"
    "t1_ready fadd weights pn p0 (node_patterns l q) (applyT1 fadd weights l q p)"
proof -
  let ?fb = "sp_features p" and ?p1 = "node_patterns l q"
  have r: "sp_ngrams p = pn" "fb_ok pn starts ?fb" "starts \<le> length (sp_bufferT0 p)" "starts \<le> length (sp_bufferT1 p)" "starts \<le> length (sp_bufferT2 p)"
    using assms(2) by (simp_all add: sp_room_def)
  have t0: "unat (sp_curSize p) = length p0" "unat (fb_currentElems ?fb) = length p0" "bi_states_at pn p0 ?fb" "tri_states0_at pn p0 ?fb"
    "bufferT0 p = map (uni_score fadd weights pn) p0" using assms(4) by (simp_all add: t0_ready_def)
  have T1: "length (bufferT1 p) = length p0" using r(4) t0(1) assms(3) by (simp add: bufferT1_def)
  let ?vs = "map (\<lambda>t0. fadd (uni_score fadd weights pn t0) (bi_score fadd weights pn t0 ?p1)) p0"
  have "map (\<lambda>r. fadd (map (uni_score fadd weights pn) p0 ! r) (bi_score fadd weights pn (p0 ! r) ?p1)) [0..<length p0] = ?vs"
    by (rule nth_equalityI) simp_all
  then obtain fb1 where fb1: "applyBiStep2 fadd weights pn ?p1 ?fb (map (uni_score fadd weights pn) p0) = (fb1, ?vs)" "values_only ?fb fb1"
    using applyBiStep2_scores [OF assms(1) r(2) t0(2,3), of "map (uni_score fadd weights pn) p0" fadd weights ?p1] by auto
  note v = values_only_states [OF fb1(2)]
  have s0: "tri_states0_at pn p0 fb1" "unat (fb_currentElems fb1) = length p0" "bi_states_at pn p0 fb1"
    using t0(2-4) by (simp_all add: tri_states0_at_def bi_states_at_def v)
  define fb2 where "fb2 = applyTriStep2 pn ?p1 fb1"
  note t = applyTriStep2_states [OF assms(1) values_only_ok [OF fb1(2) r(2)] assms(3) s0(2,1), of ?p1, folded fb2_def]
  obtain x where x: "fb2 = fb1\<lparr>fb_t2Buffer2 := x\<rparr>" using t(3) by blast
  have e: "applyT1 fadd weights l q p = p\<lparr>sp_bufferT1 := write_back ?vs (sp_bufferT1 p), sp_features := fb2\<rparr>"
    by (simp add: applyT1_def Let_def r(1) t0(5) T1 fb1(1) fb2_def)
  show "sp_room pn starts (applyT1 fadd weights l q p)"
    unfolding e using r t(2) assms(3) by (simp add: sp_room_def write_back_def)
  show "t0_ready fadd weights pn p0 (applyT1 fadd weights l q p)"
    unfolding e by (rule t0_ready_cong [OF assms(4)]) (simp_all add: x v)
  show "t1_ready fadd weights pn p0 ?p1 (applyT1 fadd weights l q p)"
    unfolding e using t(1) t0(1) by (simp add: t1_ready_def bufferT1_def write_back_def)
qed

lemma applyT2_ready:
  assumes "pn_ok pn" "sp_room pn starts p" "length p0 \<le> starts" "t0_ready fadd weights pn p0 p" "t1_ready fadd weights pn p0 p1 p"
    and "cn_previous (be_ptr (sp_beam p ! beam)) = Some ptr"
  shows "\<exists>p'. applyT2 fadd weights l beam p = Some p' \<and> sp_room pn starts p' \<and> t0_ready fadd weights pn p0 p' \<and> t1_ready fadd weights pn p0 p1 p'
    \<and> sp_beam p' = sp_beam p
    \<and> bufferT2 p' = map (\<lambda>t0. fadd (fadd (uni_score fadd weights pn t0) (bi_score fadd weights pn t0 p1))
                                 (tri_score fadd weights pn t0 p1 (node_patterns l (latticeNodePtr ptr)))) p0"
proof -
  let ?fb = "sp_features p" and ?p2 = "node_patterns l (latticeNodePtr ptr)"
  have r: "sp_ngrams p = pn" "fb_ok pn starts ?fb" "starts \<le> length (sp_bufferT0 p)" "starts \<le> length (sp_bufferT1 p)" "starts \<le> length (sp_bufferT2 p)"
    using assms(2) by (simp_all add: sp_room_def)
  have t0: "unat (sp_curSize p) = length p0" "unat (fb_currentElems ?fb) = length p0" using assms(4) by (simp_all add: t0_ready_def)
  let ?us = "map (\<lambda>t0. fadd (uni_score fadd weights pn t0) (bi_score fadd weights pn t0 p1)) p0"
  have t1: "tri_states1_at pn p0 p1 ?fb" "bufferT1 p = ?us" using assms(5) by (simp_all add: t1_ready_def)
  have T2: "length (bufferT2 p) = length p0" using r(5) t0(1) assms(3) by (simp add: bufferT2_def)
  let ?vs = "map (\<lambda>t0. fadd (fadd (uni_score fadd weights pn t0) (bi_score fadd weights pn t0 p1)) (tri_score fadd weights pn t0 p1 ?p2)) p0"
  have "map (\<lambda>r. fadd (?us ! r) (tri_score fadd weights pn (p0 ! r) p1 ?p2)) [0..<length p0] = ?vs"
    by (rule nth_equalityI) simp_all
  then obtain fb1 where fb1: "applyTriStep3 fadd weights pn ?p2 ?fb ?us = (fb1, ?vs)" "values_only ?fb fb1"
    using applyTriStep3_scores [OF assms(1) r(2) t0(2) t1(1), of ?us fadd weights ?p2] by auto
  note v = values_only_states [OF fb1(2)]
  let ?p = "p\<lparr>sp_bufferT2 := write_back ?vs (sp_bufferT2 p), sp_features := fb1\<rparr>"
  have "applyT2 fadd weights l beam p = Some ?p"
    by (simp add: applyT2_def Let_def assms(6) r(1) t1(2) T2 fb1(1))
  moreover have "sp_room pn starts ?p" using r values_only_ok [OF fb1(2) r(2)] assms(3) by (simp add: sp_room_def write_back_def)
  moreover have "t0_ready fadd weights pn p0 ?p"
    by (rule t0_ready_cong [OF assms(4)]) (simp_all add: v)
  moreover have "t1_ready fadd weights pn p0 p1 ?p"
    by (rule t1_ready_cong [OF assms(5)]) (simp_all add: v)
  moreover have "bufferT2 ?p = ?vs" using t0(1) by (simp add: bufferT2_def write_back_def)
  ultimately show ?thesis by (intro exI [of _ ?p]) simp
qed

end
