(* ===== verification/FullSearch.thy ===== *)
theory FullSearch
  imports ScoreProcessor
begin

text \<open>
  The search of \<open>computeScoresFull\<close> is exact: step by step the stored scores are those of the connections, the beams those of the search equation,
  and a lattice whose EOS is reached yields a path that the segmented format prints.
\<close>

subsection \<open>Scoring one boundary\<close>

text \<open>The beams of the nodes that end at a boundary fit its room for scores, and all their elements have a node before them.\<close>

definition active_beam :: "lattice \<Rightarrow> nat \<Rightarrow> nat \<Rightarrow> beam_element list" where
  "active_beam l k left = (let q = lb_endingNodes (bd_left (boundary l k)) ! left in resolveBeamAt l (unat (np_boundary q)) (unat (np_position q)))"

definition beams_fit :: "lattice \<Rightarrow> nat \<Rightarrow> bool" where
  "beams_fit l k \<longleftrightarrow> list_all (\<lambda>left. length (active_beam l k left) \<le> unat (bs_numBeam (bd_scores (boundary l k)))
       \<and> list_all (\<lambda>e. cn_previous (be_ptr e) \<noteq> None) (active_beam l k left))
     [0..<length (lb_endingNodes (bd_left (boundary l k)))]"

definition left_ready ::
  "(score \<Rightarrow> score \<Rightarrow> score) \<Rightarrow> score list \<Rightarrow> partial_ngrams \<Rightarrow> nat \<Rightarrow> u64 list list \<Rightarrow> u64 list \<Rightarrow> beam_element list \<Rightarrow> score_processor \<Rightarrow> bool" where
  "left_ready fadd weights pn starts p0 p1 es p \<longleftrightarrow> sp_room pn starts p \<and> t0_ready fadd weights pn p0 p \<and> t1_ready fadd weights pn p0 p1 p \<and> sp_beam p = es"

text \<open>The scores of a set of pairs of a left node and a place in its beam have been stored.\<close>

definition scores_done :: "(nat \<Rightarrow> nat \<Rightarrow> nat \<Rightarrow> score) \<Rightarrow> nat \<Rightarrow> nat \<Rightarrow> (nat \<times> nat) set \<Rightarrow> boundary_scores \<Rightarrow> bool" where
  "scores_done c n L T s \<longleftrightarrow> (\<forall>x \<in> T. fst x < L \<and> (\<forall>node < n. score_at s node (snd x) (fst x) = c node (fst x) (snd x)))"

lemma ready_updates:
  "t0_ready fadd weights pn p0 (p\<lparr>sp_bufferT2 := x\<rparr>) \<longleftrightarrow> t0_ready fadd weights pn p0 p"
  "t1_ready fadd weights pn p0 p1 (p\<lparr>sp_bufferT2 := x\<rparr>) \<longleftrightarrow> t1_ready fadd weights pn p0 p1 p"
  "t0_ready fadd weights pn p0 (p\<lparr>sp_beam := es\<rparr>) \<longleftrightarrow> t0_ready fadd weights pn p0 p"
  "t1_ready fadd weights pn p0 p1 (p\<lparr>sp_beam := es\<rparr>) \<longleftrightarrow> t1_ready fadd weights pn p0 p1 p"
  "sp_room pn starts (p\<lparr>sp_beam := es\<rparr>) \<longleftrightarrow> sp_room pn starts p"
  "length x = length (sp_bufferT2 p) \<Longrightarrow> sp_room pn starts (p\<lparr>sp_bufferT2 := x\<rparr>) \<longleftrightarrow> sp_room pn starts p"
  by (simp_all add: t0_ready_def t1_ready_def bufferT0_def bufferT1_def sp_room_def)

lemma scores_done_import:
  assumes "scores_done c n (unat (bs_numLeft s)) T s" "imported n s left beam vs n s'" "left < unat (bs_numLeft s)"
    and "\<And>node. node < n \<Longrightarrow> vs ! node = c node left beam"
  shows "scores_done c n (unat (bs_numLeft s)) (insert (left, beam) T) s'"
  unfolding scores_done_def
proof (intro ballI conjI allI impI)
  fix x assume x: "x \<in> insert (left, beam) T"
  show "fst x < unat (bs_numLeft s)" using x assms(1,3) by (auto simp: scores_done_def)
  fix node assume node: "node < n"
  show "score_at s' node (snd x) (fst x) = c node (fst x) (snd x)"
  proof (cases "x = (left, beam)")
    case True
    then show ?thesis using importedD(3) [OF assms(2) node] assms(4) [OF node] by simp
  next
    case False
    then have "x \<in> T" using x by simp
    then have "fst x < unat (bs_numLeft s)" "score_at s node (snd x) (fst x) = c node (fst x) (snd x)"
      using assms(1) node by (auto simp: scores_done_def)
    moreover have "(snd x, fst x) \<noteq> (beam, left)" using False by (cases x) auto
    ultimately show ?thesis using importedD(4) [OF assms(2)] by simp
  qed
qed

lemma plugin_buffer:
  fixes plugin :: "score_plugin option"
  assumes "sp_room pn starts p" "unat (sp_curSize p) \<le> starts"
    and p': "p' = applyPluginToFullBeam plugin l k left beam p"
  shows "bufferT2 p' = map (\<lambda>t0. plug plugin l (plugin_ptr k left t0 beam (sp_beam p ! beam)) (bufferT2 p ! t0)) [0..<length (bufferT2 p)]"
    "\<exists>x. p' = p\<lparr>sp_bufferT2 := x\<rparr> \<and> length x = length (sp_bufferT2 p)"
proof -
  have len: "length (bufferT2 p) = unat (sp_curSize p)" using assms(1,2) by (simp add: bufferT2_def sp_room_def)
  show "bufferT2 p' = map (\<lambda>t0. plug plugin l (plugin_ptr k left t0 beam (sp_beam p ! beam)) (bufferT2 p ! t0)) [0..<length (bufferT2 p)]"
  proof (cases plugin)
    case None
    then show ?thesis by (simp add: p' applyPluginToFullBeam_def plug_def map_nth)
  next
    case (Some f)
    then have "bufferT2 p' = take (unat (sp_curSize p)) (write_back
        (map (\<lambda>t0. plug plugin l (plugin_ptr k left t0 beam (sp_beam p ! beam)) (bufferT2 p ! t0)) [0..<length (bufferT2 p)]) (sp_bufferT2 p))"
      by (simp add: p' applyPluginToFullBeam_def plug_def Let_def bufferT2_def [of "p\<lparr>sp_bufferT2 := _\<rparr>"])
    then show ?thesis using len by (simp add: write_back_def)
  qed
  show "\<exists>x. p' = p\<lparr>sp_bufferT2 := x\<rparr> \<and> length x = length (sp_bufferT2 p)"
  proof (cases plugin)
    case None
    then show ?thesis unfolding p' by (intro exI [of _ "sp_bufferT2 p"]) (simp add: applyPluginToFullBeam_def)
  next
    case (Some f)
    have "length (bufferT2 p) \<le> length (sp_bufferT2 p)" by (simp add: bufferT2_def)
    then show ?thesis unfolding p' applyPluginToFullBeam_def Let_def Some option.case
      by (intro exI conjI) (rule refl, simp add: write_back_def)
  qed
qed

lemma applyT2_scores: "applyT2 fadd weights (with_scores k s l) beam p = applyT2 fadd weights l beam p"
  by (simp add: applyT2_def with_scores_nodes)

lemma score_beam_step:
  assumes pn: "pn_ok pn" and k: "k < length (lt_boundaries l)" and plugin: "plugin_reads_nodes plugin"
    and n: "n = length (boundary_patterns l k)" "n \<le> starts"
    and q: "q = lb_endingNodes (bd_left (boundary l k)) ! left"
    and rd: "left_ready fadd weights pn starts (boundary_patterns l k) (node_patterns l q) (active_beam l k left) p"
    and beam: "beam < length (active_beam l k left)" "cn_previous (be_ptr (active_beam l k left ! beam)) \<noteq> None"
    and s: "scores_ok n s" "left < unat (bs_numLeft s)" "beam < unat (bs_numBeam s)"
    and T: "scores_done (\<lambda>node left beam. connection_score fadd weights plugin pn l k node left beam) n (unat (bs_numLeft s)) T s"
  shows "\<exists>p' s'. score_beam fadd weights plugin k left beam (p, with_scores k s l) = Some (p', with_scores k s' l)
    \<and> left_ready fadd weights pn starts (boundary_patterns l k) (node_patterns l q) (active_beam l k left) p'
    \<and> scores_ok n s' \<and> same_shape s s'
    \<and> scores_done (\<lambda>node left beam. connection_score fadd weights plugin pn l k node left beam) n (unat (bs_numLeft s)) (insert (left, beam) T) s'"
proof -
  let ?p0 = "boundary_patterns l k" and ?p1 = "node_patterns l q" and ?e = "active_beam l k left ! beam"
  have rd': "sp_room pn starts p" "t0_ready fadd weights pn ?p0 p" "t1_ready fadd weights pn ?p0 ?p1 p" "sp_beam p = active_beam l k left"
    using rd by (simp_all add: left_ready_def)
  obtain ptr where ptr: "cn_previous (be_ptr ?e) = Some ptr" using beam(2) by auto
  have len: "length ?p0 \<le> starts" using n by simp
  from applyT2_ready [OF pn rd'(1) len rd'(2,3), of beam ptr l] ptr rd'(4)
  obtain p1 where p1: "applyT2 fadd weights l beam p = Some p1" "sp_room pn starts p1" "t0_ready fadd weights pn ?p0 p1"
    "t1_ready fadd weights pn ?p0 ?p1 p1" "sp_beam p1 = active_beam l k left"
    "bufferT2 p1 = map (\<lambda>t0. fadd (fadd (uni_score fadd weights pn t0) (bi_score fadd weights pn t0 ?p1))
       (tri_score fadd weights pn t0 ?p1 (node_patterns l (latticeNodePtr ptr)))) ?p0" by auto
  have cur: "unat (sp_curSize p1) \<le> starts" using p1(3) len by (simp add: t0_ready_def)
  define p2 where "p2 = applyPluginToFullBeam plugin (with_scores k s l) k left beam p1"
  note pl = plugin_buffer [OF p1(2) cur p2_def]
  obtain x where x: "p2 = p1\<lparr>sp_bufferT2 := x\<rparr>" "length x = length (sp_bufferT2 p1)" using pl(2) by blast
  have rd2: "left_ready fadd weights pn starts ?p0 ?p1 (active_beam l k left) p2"
    unfolding left_ready_def x(1) using p1(2-5) x(2) by (simp add: ready_updates)
  let ?vs = "map (\<lambda>node. connection_score fadd weights plugin pn l k node left beam) [0..<n]"
  have e: "?e = node_beam l q ! beam"
    using beam(1) unfolding active_beam_def Let_def q [symmetric] resolveBeamAt_def node_beam_def by (rule takeWhile_nth)
  have "plug plugin (with_scores k s l) = plug plugin l" using plugin same_nodes_scores [of l k s] by (simp add: plugin_reads_nodes_def)
  then have "bufferT2 p2 = ?vs"
    unfolding pl(1) p1(5,6) by (simp add: connection_score_def Let_def q [symmetric] e [symmetric] previous_patterns_def ptr n(1))
  moreover have "imported n s left beam ?vs n (importBeamScore left 0 beam ?vs s)"
    using importBeamScore_scores [OF s, of ?vs] by simp
  ultimately have im: "imported n s left beam ?vs n (copyFeatureScores left beam p2 s)" by (simp only: copyFeatureScores_def)
  have "score_beam fadd weights plugin k left beam (p, with_scores k s l) = Some (p2, with_scores k (copyFeatureScores left beam p2 s) l)"
    by (simp add: score_beam_def applyT2_scores p1(1) Let_def p2_def [symmetric] with_scores_step [OF k])
  moreover have "scores_done (\<lambda>node left beam. connection_score fadd weights plugin pn l k node left beam) n (unat (bs_numLeft s))
      (insert (left, beam) T) (copyFeatureScores left beam p2 s)"
    by (rule scores_done_import [OF T im s(2)]) simp
  ultimately show ?thesis using rd2 importedD(1,2) [OF im] by blast
qed

lemma fold_option_snoc:
  "fold_option f (xs @ [x]) s = (case fold_option f xs s of None \<Rightarrow> None | Some s' \<Rightarrow> f x s')"
  by (induction xs arbitrary: s) (auto split: option.splits)

lemma score_left_step:
  assumes pn: "pn_ok pn" and k: "k < length (lt_boundaries l)" and plugin: "plugin_reads_nodes plugin"
    and n: "n = length (boundary_patterns l k)" "n \<le> starts" and fit: "beams_fit l k"
    and left: "left < length (lb_endingNodes (bd_left (boundary l k)))"
    and p: "sp_room pn starts p" "t0_ready fadd weights pn (boundary_patterns l k) p"
    and s: "scores_ok n s" "left < unat (bs_numLeft s)" "same_shape (bd_scores (boundary l k)) s"
    and T: "scores_done (\<lambda>node left beam. connection_score fadd weights plugin pn l k node left beam) n (unat (bs_numLeft s)) T s"
  shows "\<exists>p' s'. score_left fadd weights plugin k left (p, with_scores k s l) = Some (p', with_scores k s' l)
    \<and> sp_room pn starts p' \<and> t0_ready fadd weights pn (boundary_patterns l k) p' \<and> scores_ok n s' \<and> same_shape s s'
    \<and> scores_done (\<lambda>node left beam. connection_score fadd weights plugin pn l k node left beam) n (unat (bs_numLeft s))
        (T \<union> {left} \<times> {..<length (active_beam l k left)}) s'"
proof -
  define q where "q = lb_endingNodes (bd_left (boundary l k)) ! left"
  let ?p0 = "boundary_patterns l k" and ?es = "active_beam l k left"
  let ?c = "\<lambda>node left beam. connection_score fadd weights plugin pn l k node left beam"
  have es: "length ?es \<le> unat (bs_numBeam s)" "\<And>b. b < length ?es \<Longrightarrow> cn_previous (be_ptr (?es ! b)) \<noteq> None"
    using fit left s(3) by (auto simp: beams_fit_def list_all_length same_shape_def)
  have len: "length ?p0 \<le> starts" using n by simp
  define p1 where "p1 = sp_resolveBeamAt l q (applyT1 fadd weights l q p)"
  note a = applyT1_ready [OF pn p(1) len p(2), of l q]
  have rd: "left_ready fadd weights pn starts ?p0 (node_patterns l q) ?es p1"
    using a by (simp add: left_ready_def p1_def sp_resolveBeamAt_def active_beam_def q_def [symmetric] ready_updates Let_def)
  have loop: "\<exists>p' s'. fold_option (score_beam fadd weights plugin k left) [0..<m] (p1, with_scores k s l) = Some (p', with_scores k s' l)
    \<and> left_ready fadd weights pn starts ?p0 (node_patterns l q) ?es p' \<and> scores_ok n s' \<and> same_shape s s'
    \<and> scores_done ?c n (unat (bs_numLeft s)) (T \<union> {left} \<times> {..<m}) s'" if "m \<le> length ?es" for m
    using that
  proof (induction m)
    case 0
    then show ?case using rd s(1) T same_shape_refl by (intro exI [of _ p1] exI [of _ s]) simp
  next
    case (Suc m)
    then obtain p2 s2 where IH: "fold_option (score_beam fadd weights plugin k left) [0..<m] (p1, with_scores k s l) = Some (p2, with_scores k s2 l)"
      "left_ready fadd weights pn starts ?p0 (node_patterns l q) ?es p2" "scores_ok n s2" "same_shape s s2"
      "scores_done ?c n (unat (bs_numLeft s)) (T \<union> {left} \<times> {..<m}) s2" by auto
    have nl: "bs_numLeft s2 = bs_numLeft s" "bs_numBeam s2 = bs_numBeam s" using IH(4) by (auto simp: same_shape_def)
    have m: "m < length ?es" "m < unat (bs_numBeam s2)" using Suc.prems es(1) nl by simp_all
    from score_beam_step [OF pn k plugin n q_def IH(2) m(1) es(2) [OF m(1)] IH(3) _ m(2), of "T \<union> {left} \<times> {..<m}"] s(2) IH(5)
    obtain p3 s3 where st: "score_beam fadd weights plugin k left m (p2, with_scores k s2 l) = Some (p3, with_scores k s3 l)"
      "left_ready fadd weights pn starts ?p0 (node_patterns l q) ?es p3" "scores_ok n s3" "same_shape s2 s3"
      "scores_done ?c n (unat (bs_numLeft s)) (insert (left, m) (T \<union> {left} \<times> {..<m})) s3" unfolding nl by blast
    have "insert (left, m) (T \<union> {left} \<times> {..<m}) = T \<union> {left} \<times> {..<Suc m}" by auto
    then show ?case using IH(1) st same_shape_trans [OF IH(4) st(4)] by (intro exI [of _ p3] exI [of _ s3]) (simp add: fold_option_snoc)
  qed
  have "score_left fadd weights plugin k left (p, with_scores k s l)
      = fold_option (score_beam fadd weights plugin k left) [0..<length ?es] (p1, with_scores k s l)"
  proof -
    have "applyT1 fadd weights (with_scores k s l) q p = applyT1 fadd weights l q p" by (simp add: applyT1_def with_scores_nodes)
    moreover have "sp_resolveBeamAt (with_scores k s l) q r = sp_resolveBeamAt l q r" for r by (simp add: sp_resolveBeamAt_def with_scores_nodes)
    moreover have "sp_beam p1 = ?es" using rd by (simp add: left_ready_def)
    ultimately show ?thesis by (simp add: score_left_def Let_def with_scores_simps q_def [symmetric] p1_def [symmetric])
  qed
  with loop [OF order_refl] show ?thesis unfolding left_ready_def by (simp only:) blast
qed

subsection \<open>The search over all boundaries\<close>

definition search_candidates ::
  "(score \<Rightarrow> score \<Rightarrow> score) \<Rightarrow> score list \<Rightarrow> score_plugin option \<Rightarrow> partial_ngrams \<Rightarrow> lattice \<Rightarrow> nat \<Rightarrow> nat \<Rightarrow> candidate list" where
  "search_candidates fadd weights plugin pn l k node =
     concat (map (\<lambda>left. map (\<lambda>beam.
         bc_pack (fadd (be_totalScore (active_beam l k left ! beam)) (connection_score fadd weights plugin pn l k node left beam))
           (word_of_nat left) (word_of_nat beam)) [0..<length (active_beam l k left)])
       [0..<length (lb_endingNodes (bd_left (boundary l k)))])"

text \<open>The beam a node should have: the best continuations of the beams of the nodes that end before it.\<close>

definition search_beam ::
  "(score \<Rightarrow> score \<Rightarrow> score) \<Rightarrow> score list \<Rightarrow> score_plugin option \<Rightarrow> partial_ngrams \<Rightarrow> lattice \<Rightarrow> nat \<Rightarrow> nat \<Rightarrow> beam_element list" where
  "search_beam fadd weights plugin pn l k node =
     (let n = unat (lc_beamSize (lt_config l));
          best = take n (rev (sort (search_candidates fadd weights plugin pn l k node)))
      in map (beam_element_of l (boundary l k) k node) best @ replicate (n - length best) wiped)"

definition boundary_fits :: "lattice \<Rightarrow> nat \<Rightarrow> bool" where
  "boundary_fits l k \<longleftrightarrow>
     (let b = boundary l k; n = length (boundary_patterns l k)
      in unat (localNodeCount b) = n \<and> length (rb_beam (bd_right b)) = n \<and> n \<le> 2 ^ 16 \<and> scores_ok n (bd_scores b)
       \<and> bs_numBeam (bd_scores b) = lc_beamSize (lt_config l) \<and> ends_before l k \<and> ends_exist l k
       \<and> list_all (\<lambda>p. 0 < unat (np_boundary p)) (lb_endingNodes (bd_left b)))"

definition lattice_fits :: "lattice \<Rightarrow> bool" where
  "lattice_fits l \<longleftrightarrow> createdBoundaryCount l \<le> 2 ^ 16 \<and> 0 < lc_beamSize (lt_config l) \<and> lc_beamSize (lt_config l) < 0x10000
     \<and> list_all (boundary_fits l) [2..<createdBoundaryCount l]"

text \<open>
  The boundaries before \<open>k\<close> have been searched: their beams are linked, of the size of the configuration, lead back to a node each, and
  are those they should be.
\<close>

definition beam_row_ok :: "lattice \<Rightarrow> nat \<Rightarrow> nat \<Rightarrow> bool" where
  "beam_row_ok l j i \<longleftrightarrow> length (beam_row l j i) = unat (lc_beamSize (lt_config l))
     \<and> list_all (\<lambda>e. cn_previous (be_ptr e) \<noteq> None) (resolveBeamAt l j i)"

definition searched ::
  "(score \<Rightarrow> score \<Rightarrow> score) \<Rightarrow> score list \<Rightarrow> score_plugin option \<Rightarrow> partial_ngrams \<Rightarrow> lattice \<Rightarrow> nat \<Rightarrow> bool" where
  "searched fadd weights plugin pn l k \<longleftrightarrow> beams_linked l k \<and> resolveBeamAt l 1 0 \<noteq> []
     \<and> list_all (\<lambda>j. list_all (beam_row_ok l j) [0..<length (rb_beam (bd_right (boundary l j)))]) [1..<k]
     \<and> list_all (\<lambda>j. list_all (\<lambda>i. beam_row l j i = search_beam fadd weights plugin pn l j i)
         [0..<length (rb_beam (bd_right (boundary l j)))]) [2..<k]"

lemma linked_left:
  assumes "\<And>j. j < k \<Longrightarrow> boundary l' j = boundary l j" "createdBoundaryCount l' = createdBoundaryCount l"
  shows "linked l slot c \<Longrightarrow> unat (cn_boundary c) < k \<Longrightarrow> linked l' slot c"
proof (induction c arbitrary: slot rule: best_path.induct)
  case (1 bnd left right beam previous)
  have b: "boundary l' (unat bnd) = boundary l (unat bnd)" using assms(1) "1.prems"(2) by simp
  show ?case
  proof (cases "2 < unat bnd")
    case True
    then show ?thesis
      using "1.prems" "1.IH" [OF True]
      by (auto simp: linked.simps [of _ _ bnd] beam_row_def b assms(2) split: option.splits)
  qed (simp add: linked.simps)
qed

lemma beams_linked_left:
  assumes "\<And>j. j < k \<Longrightarrow> boundary l' j = boundary l j" "createdBoundaryCount l' = createdBoundaryCount l" "beams_linked l k"
  shows "beams_linked l' k"
proof -
  have "let c = be_ptr (beam_row l' j i ! m) in unat (cn_boundary c) = j \<and> unat (cn_right c) = i \<and> linked l' m c"
    if j: "j < k" and i: "i < length (rb_beam (bd_right (boundary l' j)))" and m: "m < length (resolveBeamAt l' j i)" for j i m
  proof -
    have same: "boundary l' j = boundary l j" by (rule assms(1) [OF j])
    then have r: "beam_row l' j i = beam_row l j i" by (simp add: beam_row_def)
    have "i < length (rb_beam (bd_right (boundary l j)))" "m < length (resolveBeamAt l j i)"
      using i m by (simp_all add: same resolveBeamAt_def r)
    note d = beams_linkedD [OF assms(3) j this]
    have "unat (cn_boundary (be_ptr (beam_row l j i ! m))) < k" using d(1) j by simp
    from linked_left [OF assms(1,2) d(3) this] d(1,2) show ?thesis by (simp add: Let_def r)
  qed
  then show ?thesis unfolding beams_linked_def by blast
qed

text \<open>What the search does for a boundary depends on the nodes, and on the beams before it.\<close>

definition same_left :: "nat \<Rightarrow> lattice \<Rightarrow> lattice \<Rightarrow> bool" where
  "same_left k l l' \<longleftrightarrow> same_nodes l l' \<and> (\<forall>j < k. rb_beam (bd_right (boundary l' j)) = rb_beam (bd_right (boundary l j)))"

lemma same_left_row: "same_left k l l' \<Longrightarrow> j < k \<Longrightarrow> beam_row l' j i = beam_row l j i \<and> resolveBeamAt l' j i = resolveBeamAt l j i"
  by (simp add: same_left_def beam_row_def resolveBeamAt_def)

lemma same_nodes_patterns:
  assumes "same_nodes l l'"
  shows "node_patterns l' p = node_patterns l p" "boundary_patterns l' j = boundary_patterns l j"
    "lb_endingNodes (bd_left (boundary l' j)) = lb_endingNodes (bd_left (boundary l j))" "previous_patterns l' e = previous_patterns l e"
    "createdBoundaryCount l' = createdBoundaryCount l" "lt_config l' = lt_config l" "localNodeCount (boundary l' j) = localNodeCount (boundary l j)"
  using assms by (simp_all add: same_nodes_def node_patterns_def boundary_patterns_def previous_patterns_def createdBoundaryCount_def localNodeCount_def
    split: option.splits)

lemma takeWhile_take_short: "length (takeWhile P xs) \<le> n \<Longrightarrow> takeWhile P (take n xs) = takeWhile P xs"
  by (induction xs arbitrary: n) (auto simp: take_Cons split: nat.splits)

lemma search_candidate_left:
  assumes "length (lb_endingNodes (bd_left (boundary l k))) < 2 ^ 15" "c \<in> set (search_candidates fadd weights plugin pn l k node)"
  shows "unat (bc_left c) < length (lb_endingNodes (bd_left (boundary l k)))"
proof -
  from assms(2) obtain left score beam where left: "left < length (lb_endingNodes (bd_left (boundary l k)))"
    and c: "c = bc_pack score (word_of_nat left) beam" by (auto simp: search_candidates_def)
  have "left < 2 ^ 15" using left assms(1) by simp
  then have u: "unat (word_of_nat left :: u16) = left" by (intro unat_of_nat_small) simp
  then have "(word_of_nat left :: u16) < 0x8000" using \<open>left < 2 ^ 15\<close> by (simp add: word_less_nat_alt)
  then have "bc_left c = word_of_nat left" unfolding c by (rule bc_pack_parts(2))
  then show ?thesis using u left by simp
qed

lemma search_cong:
  assumes sl: "same_left k l l'" and plugin: "plugin_reads_nodes plugin"
    and ends: "list_all (\<lambda>p. unat (np_boundary p) < k) (lb_endingNodes (bd_left (boundary l k)))"
    and few: "length (lb_endingNodes (bd_left (boundary l k))) < 2 ^ 15"
  shows "left < length (lb_endingNodes (bd_left (boundary l k))) \<Longrightarrow> active_beam l' k left = active_beam l k left"
    "search_candidates fadd weights plugin pn l' k node = search_candidates fadd weights plugin pn l k node"
    "search_beam fadd weights plugin pn l' k node = search_beam fadd weights plugin pn l k node"
proof -
  let ?ends = "lb_endingNodes (bd_left (boundary l k))"
  have sn: "same_nodes l l'" using sl by (simp add: same_left_def)
  note nodes = same_nodes_patterns [OF sn]
  have q: "unat (np_boundary (?ends ! left)) < k" if "left < length ?ends" for left using ends that by (simp add: list_all_length)
  note row = same_left_row [OF sl q]
  show act: "active_beam l' k left = active_beam l k left" if "left < length ?ends" for left
    using row [OF that] by (simp add: active_beam_def nodes)
  have nb: "node_beam l' (?ends ! left) = node_beam l (?ends ! left)" if "left < length ?ends" for left
    using row [OF that] by (simp add: node_beam_def)
  have plug: "plug plugin l' = plug plugin l" using plugin sn by (simp add: plugin_reads_nodes_def)
  have cs: "connection_score fadd weights plugin pn l' k node left beam = connection_score fadd weights plugin pn l k node left beam"
    if "left < length ?ends" for left beam
    by (simp add: connection_score_def nodes nb [OF that] plug)
  show cand: "search_candidates fadd weights plugin pn l' k node = search_candidates fadd weights plugin pn l k node"
    unfolding search_candidates_def nodes by (intro arg_cong [where f = concat] map_cong) (simp_all add: act cs)
  have el: "beam_element_of l' (boundary l' k) k node c = beam_element_of l (boundary l k) k node c" if "unat (bc_left c) < length ?ends" for c
    by (simp add: beam_element_of_def Let_def nodes nb [OF that])
  show "search_beam fadd weights plugin pn l' k node = search_beam fadd weights plugin pn l k node"
    unfolding search_beam_def Let_def nodes cand
    by (intro arg_cong2 [where f = "(@)"] map_cong refl el search_candidate_left [OF few]) (auto dest: in_set_takeD)
qed

text \<open>The candidates that \<open>makeBeams\<close> reads off the stored scores.\<close>

lemma fill_search:
  assumes k: "k < length (lt_boundaries l)" and ends: "ends_before l k" and sh: "same_shape (bd_scores (boundary l k)) s"
    and n: "node < n" and fit: "beams_fit l k"
    and scored: "scores_done (\<lambda>node left beam. connection_score fadd weights plugin pn l k node left beam) n (unat (bs_numLeft s))
      (SIGMA left : {..<length (lb_endingNodes (bd_left (boundary l k)))}. {..<length (active_beam l k left)}) s"
  shows "beam_candidates fadd (with_scores k s l) (boundary (with_scores k s l) k) node = search_candidates fadd weights plugin pn l k node"
proof -
  let ?ends = "lb_endingNodes (bd_left (boundary l k))"
  have L: "unat (bs_numLeft s) = length ?ends" "bs_numBeam s = bs_numBeam (bd_scores (boundary l k))"
    using ends sh by (auto simp: ends_before_def same_shape_def)
  have "map (\<lambda>beam. bc_pack (fadd (be_totalScore (node_beam l (?ends ! left) ! beam)) (beamLeft s node beam left ! 0))
           (word_of_nat left) (word_of_nat beam)) [0..<active_count s (node_beam l (?ends ! left))]
      = map (\<lambda>beam. bc_pack (fadd (be_totalScore (active_beam l k left ! beam)) (connection_score fadd weights plugin pn l k node left beam))
           (word_of_nat left) (word_of_nat beam)) [0..<length (active_beam l k left)]" if left: "left < length ?ends" for left
  proof -
    have act: "active_beam l k left = takeWhile (\<lambda>e. \<not> isFake e) (node_beam l (?ends ! left))"
      by (simp add: active_beam_def Let_def resolveBeamAt_def node_beam_def)
    have "length (active_beam l k left) \<le> unat (bs_numBeam s)"
      using fit left L(2) by (simp add: beams_fit_def list_all_length)
    then have "takeWhile (\<lambda>e. \<not> isFake e) (take (unat (bs_numBeam s)) (node_beam l (?ends ! left))) = active_beam l k left"
      unfolding act by (metis takeWhile_take_short)
    moreover have "beamLeft s node beam left ! 0 = connection_score fadd weights plugin pn l k node left beam" if "beam < length (active_beam l k left)" for beam
    proof -
      have "(left, beam) \<in> (SIGMA left : {..<length ?ends}. {..<length (active_beam l k left)})" using left that by simp
      then show ?thesis using scored n unfolding scores_done_def score_at_def by fastforce
    qed
    moreover have "node_beam l (?ends ! left) ! beam = active_beam l k left ! beam" if "beam < length (active_beam l k left)" for beam
      unfolding act by (rule takeWhile_nth [symmetric]) (use that act in simp)
    ultimately show ?thesis by (simp add: active_count_def)
  qed
  then show ?thesis
    unfolding beam_candidates_def Let_def search_candidates_def with_scores_own [OF k] with_scores_simps L(1) with_scores_nodes
    by (intro arg_cong [where f = concat] list.map_cong0) (simp only: set_upt atLeastLessThan_iff)
qed

lemma makeBeams_same_nodes:
  assumes "makeBeams fadd k l = Some l'"
  shows "same_nodes l l'"
proof -
  have "same_nodes l l'" if "fold_option (makeBeam_node fadd k) xs l = Some l'" for xs l l'
    using that
  proof (induction xs arbitrary: l)
    case (Cons x xs)
    from Cons.prems obtain m where m: "makeBeam_node fadd k x l = Some m" "fold_option (makeBeam_node fadd k) xs m = Some l'"
      by (auto split: option.splits)
    have "same_nodes l m" using m(1) by (auto simp: makeBeam_node_def Let_def set_beam_row_def Option.bind_eq_Some_conv intro!: same_nodes_right)
    then show ?case using same_nodes_trans Cons.IH [OF m(2)] by blast
  qed (simp add: same_nodes_refl)
  with assms show ?thesis by (simp add: makeBeams_def)
qed

lemma boundary_fits_cong:
  assumes "boundary_fits l j" "same_nodes l l'" "\<And>i. length (rb_beam (bd_right (boundary l' i))) = length (rb_beam (bd_right (boundary l i)))"
    and "same_shape (bd_scores (boundary l j)) (bd_scores (boundary l' j))"
    and "\<And>n. scores_ok n (bd_scores (boundary l j)) \<Longrightarrow> scores_ok n (bd_scores (boundary l' j))"
  shows "boundary_fits l' j"
proof -
  note nodes = same_nodes_patterns [OF assms(2)]
  have sh: "bs_numLeft (bd_scores (boundary l' j)) = bs_numLeft (bd_scores (boundary l j))"
    "bs_numBeam (bd_scores (boundary l' j)) = bs_numBeam (bd_scores (boundary l j))" using assms(4) by (auto simp: same_shape_def)
  have "ends_before l' j = ends_before l j" "ends_exist l' j = ends_exist l j"
    by (simp_all add: ends_before_def ends_exist_def nodes sh assms(3))
  then show ?thesis using assms(1,5) by (simp add: boundary_fits_def Let_def nodes sh assms(3))
qed

lemma boundary_fitsD:
  assumes "boundary_fits l k"
  shows "unat (localNodeCount (boundary l k)) = length (boundary_patterns l k)" "length (rb_beam (bd_right (boundary l k))) = length (boundary_patterns l k)"
    "length (boundary_patterns l k) \<le> 2 ^ 16" "scores_ok (length (boundary_patterns l k)) (bd_scores (boundary l k))"
    "bs_numBeam (bd_scores (boundary l k)) = lc_beamSize (lt_config l)" "ends_before l k" "ends_exist l k"
    "list_all (\<lambda>p. unat (np_boundary p) < k) (lb_endingNodes (bd_left (boundary l k)))"
    "length (lb_endingNodes (bd_left (boundary l k))) < 2 ^ 15"
    "unat (bs_numLeft (bd_scores (boundary l k))) = length (lb_endingNodes (bd_left (boundary l k)))"
    "left < length (lb_endingNodes (bd_left (boundary l k))) \<Longrightarrow> 0 < unat (np_boundary (lb_endingNodes (bd_left (boundary l k)) ! left))"
  using assms by (auto simp: boundary_fits_def Let_def ends_before_def ends_exist_def list_all_length)

lemma searchedD:
  assumes "searched fadd weights plugin pn l k" "0 < j" "j < k" "i < length (rb_beam (bd_right (boundary l j)))"
  shows "beam_row_ok l j i" "2 \<le> j \<Longrightarrow> beam_row l j i = search_beam fadd weights plugin pn l j i"
  using assms by (auto simp: searched_def list_all_iff)

lemma searched_beams_fit:
  assumes "searched fadd weights plugin pn l k" "boundary_fits l k"
  shows "beams_fit l k"
  unfolding beams_fit_def
proof (rule list_all_length [THEN iffD2], intro allI impI)
  fix i assume "i < length [0..<length (lb_endingNodes (bd_left (boundary l k)))]"
  then have i: "i < length (lb_endingNodes (bd_left (boundary l k)))" by simp
  let ?q = "lb_endingNodes (bd_left (boundary l k)) ! i"
  note fits = boundary_fitsD [OF assms(2)]
  have q: "0 < unat (np_boundary ?q)" "unat (np_boundary ?q) < k" "unat (np_position ?q) < length (rb_beam (bd_right (boundary l (unat (np_boundary ?q)))))"
    using fits(7,11) i by (auto simp: ends_exist_def list_all_length)
  have r: "length (beam_row l (unat (np_boundary ?q)) (unat (np_position ?q))) = unat (lc_beamSize (lt_config l))"
    "list_all (\<lambda>e. cn_previous (be_ptr e) \<noteq> None) (resolveBeamAt l (unat (np_boundary ?q)) (unat (np_position ?q)))"
    using searchedD(1) [OF assms(1) q] by (simp_all only: beam_row_ok_def)
  have act: "active_beam l k i = resolveBeamAt l (unat (np_boundary ?q)) (unat (np_position ?q))" by (simp add: active_beam_def Let_def)
  have "length (active_beam l k i) \<le> unat (lc_beamSize (lt_config l))"
    using length_takeWhile_le [of "\<lambda>e. \<not> isFake e" "beam_row l (unat (np_boundary ?q)) (unat (np_position ?q))"]
    by (simp only: act resolveBeamAt_def r(1))
  then show "length (active_beam l k ([0..<length (lb_endingNodes (bd_left (boundary l k)))] ! i)) \<le> unat (bs_numBeam (bd_scores (boundary l k)))
      \<and> list_all (\<lambda>e. cn_previous (be_ptr e) \<noteq> None) (active_beam l k ([0..<length (lb_endingNodes (bd_left (boundary l k)))] ! i))"
    using i r(2) fits(5) by (simp add: act)
qed

text \<open>The beam a node should have is as long as the configuration says, and every element before the fake ones leads back to a node.\<close>

lemma search_beam_row:
  "length (search_beam fadd weights plugin pn l k node) = unat (lc_beamSize (lt_config l))"
  "list_all (\<lambda>e. cn_previous (be_ptr e) \<noteq> None) (takeWhile (\<lambda>e. \<not> isFake e) (search_beam fadd weights plugin pn l k node))"
proof -
  let ?n = "unat (lc_beamSize (lt_config l))"
  let ?best = "take ?n (rev (sort (search_candidates fadd weights plugin pn l k node)))"
  have e: "search_beam fadd weights plugin pn l k node = map (beam_element_of l (boundary l k) k node) ?best @ replicate (?n - length ?best) wiped"
    by (simp add: search_beam_def Let_def)
  show "length (search_beam fadd weights plugin pn l k node) = ?n" unfolding e by simp
  show "list_all (\<lambda>e. cn_previous (be_ptr e) \<noteq> None) (takeWhile (\<lambda>e. \<not> isFake e) (search_beam fadd weights plugin pn l k node))"
    unfolding list_all_length
  proof (intro allI impI)
    fix m assume m: "m < length (takeWhile (\<lambda>e. \<not> isFake e) (search_beam fadd weights plugin pn l k node))"
    from resolve_best [OF m [unfolded e]] have b: "m < length ?best" by (simp only: length_map)
    have "takeWhile (\<lambda>e. \<not> isFake e) (search_beam fadd weights plugin pn l k node) ! m = search_beam fadd weights plugin pn l k node ! m"
      by (rule takeWhile_nth [OF m])
    also have "\<dots> = beam_element_of l (boundary l k) k node (?best ! m)"
      unfolding e using b by (simp only: nth_append length_map nth_map if_True)
    finally show "cn_previous (be_ptr (takeWhile (\<lambda>e. \<not> isFake e) (search_beam fadd weights plugin pn l k node) ! m)) \<noteq> None"
      by (simp add: beam_element_of_def Let_def)
  qed
qed

lemma score_lefts:
  assumes pn: "pn_ok pn" and k: "k < length (lt_boundaries l)" and plugin: "plugin_reads_nodes plugin" and fit: "beams_fit l k"
    and n: "n = length (boundary_patterns l k)" "n \<le> starts" and p: "sp_room pn starts p" "t0_ready fadd weights pn (boundary_patterns l k) p"
    and s: "scores_ok n (bd_scores (boundary l k))" "unat (bs_numLeft (bd_scores (boundary l k))) = length (lb_endingNodes (bd_left (boundary l k)))"
  defines "c \<equiv> \<lambda>node left beam. connection_score fadd weights plugin pn l k node left beam"
  shows "\<exists>p' s'. fold_option (score_left fadd weights plugin k) [0..<length (lb_endingNodes (bd_left (boundary l k)))] (p, l) = Some (p', with_scores k s' l)
    \<and> sp_room pn starts p' \<and> scores_ok n s' \<and> same_shape (bd_scores (boundary l k)) s'
    \<and> scores_done c n (unat (bs_numLeft s')) (SIGMA left : {..<length (lb_endingNodes (bd_left (boundary l k)))}. {..<length (active_beam l k left)}) s'"
proof -
  let ?ends = "lb_endingNodes (bd_left (boundary l k))" and ?s = "bd_scores (boundary l k)"
  have "\<exists>p' s'. fold_option (score_left fadd weights plugin k) [0..<t] (p, l) = Some (p', with_scores k s' l)
    \<and> sp_room pn starts p' \<and> t0_ready fadd weights pn (boundary_patterns l k) p' \<and> scores_ok n s' \<and> same_shape ?s s'
    \<and> scores_done c n (unat (bs_numLeft s')) (SIGMA left : {..<t}. {..<length (active_beam l k left)}) s'" if "t \<le> length ?ends" for t
    using that
  proof (induction t)
    case 0
    have "scores_done c n L {} ?s" for L by (simp add: scores_done_def)
    then show ?case using p s(1) same_shape_refl with_scores_same [of k l] by (intro exI [of _ p] exI [of _ ?s]) simp
  next
    case (Suc t)
    then obtain p2 s2 where IH: "fold_option (score_left fadd weights plugin k) [0..<t] (p, l) = Some (p2, with_scores k s2 l)"
      "sp_room pn starts p2" "t0_ready fadd weights pn (boundary_patterns l k) p2" "scores_ok n s2" "same_shape ?s s2"
      "scores_done c n (unat (bs_numLeft s2)) (SIGMA left : {..<t}. {..<length (active_beam l k left)}) s2" by auto
    have t: "t < length ?ends" "t < unat (bs_numLeft s2)" using Suc.prems s(2) IH(5) by (auto simp: same_shape_def)
    from score_left_step [OF pn k plugin n fit t(1) IH(2,3,4) t(2) IH(5) IH(6) [unfolded c_def]]
    obtain p3 s3 where st: "score_left fadd weights plugin k t (p2, with_scores k s2 l) = Some (p3, with_scores k s3 l)"
      "sp_room pn starts p3" "t0_ready fadd weights pn (boundary_patterns l k) p3" "scores_ok n s3" "same_shape s2 s3"
      "scores_done c n (unat (bs_numLeft s2)) ((SIGMA left : {..<t}. {..<length (active_beam l k left)}) \<union> {t} \<times> {..<length (active_beam l k t)}) s3"
      unfolding c_def by blast
    have set: "(SIGMA left : {..<t}. {..<length (active_beam l k left)}) \<union> {t} \<times> {..<length (active_beam l k t)}
        = (SIGMA left : {..<Suc t}. {..<length (active_beam l k left)})" by (auto simp: less_Suc_eq)
    have "bs_numLeft s3 = bs_numLeft s2" using st(5) by (auto simp: same_shape_def)
    then show ?case
      using IH(1) st same_shape_trans [OF IH(5) st(5)] unfolding set by (intro exI [of _ p3] exI [of _ s3]) (simp add: fold_option_snoc)
  qed
  from this [OF order_refl] show ?thesis by (elim exE conjE) (intro exI conjI; assumption)
qed

lemma beams_from_scores:
  assumes k: "k < length (lt_boundaries l)" "k < 2 ^ 16" and linked: "beams_linked l k" and fits: "boundary_fits l k" and fit: "beams_fit l k"
    and size: "0 < lc_beamSize (lt_config l)" "lc_beamSize (lt_config l) < 0x10000"
    and s: "same_shape (bd_scores (boundary l k)) s"
    and scored: "scores_done (\<lambda>node left beam. connection_score fadd weights plugin pn l k node left beam) (length (boundary_patterns l k)) (unat (bs_numLeft s))
      (SIGMA left : {..<length (lb_endingNodes (bd_left (boundary l k)))}. {..<length (active_beam l k left)}) s"
  shows "\<exists>l'. makeBeams fadd k (with_scores k s l) = Some l' \<and> same_but_beams k (with_scores k s l) l' \<and> same_nodes l l' \<and> beams_linked l' (k + 1)
    \<and> (\<forall>i < length (boundary_patterns l k). beam_row l' k i = search_beam fadd weights plugin pn l k i)"
proof -
  let ?l = "with_scores k s l" and ?n = "length (boundary_patterns l k)"
  note f = boundary_fitsD [OF fits]
  have sh: "bs_numLeft s = bs_numLeft (bd_scores (boundary l k))" "bs_numBeam s = bs_numBeam (bd_scores (boundary l k))"
    using s by (auto simp: same_shape_def)
  have sc: "bd_scores (boundary ?l k) = s" by (rule with_scores_own [OF k(1)])
  have eb: "ends_before ?l k" "ends_exist ?l k" using f(6,7) by (simp_all add: ends_before_def ends_exist_def with_scores_simps sc sh)
  have lk: "beams_linked ?l k"
    by (rule beams_linked_left [OF _ _ linked]) (simp_all add: with_scores_simps createdBoundaryCount_def)
  have size': "0 < lc_beamSize (lt_config ?l)" "lc_beamSize (lt_config ?l) < 0x10000" "bs_numBeam (bd_scores (boundary ?l k)) < 0x10000"
    using size f(5) by (simp_all add: with_scores_simps sc sh word_less_nat_alt)
  have cnt: "k < createdBoundaryCount ?l" "k < length (lt_boundaries ?l)" using k(1) by (simp_all add: createdBoundaryCount_def with_scores_simps)
  have n: "unat (localNodeCount (boundary ?l k)) = length (rb_beam (bd_right (boundary ?l k)))" "length (rb_beam (bd_right (boundary ?l k))) = ?n" "?n \<le> 2 ^ 16"
    using f(1-3) by (simp_all add: localNodeCount_def with_scores_simps)
  obtain l' where l': "makeBeams fadd k ?l = Some l'" "same_but_beams k ?l l'" "beams_linked l' (k + 1)"
    using beams_stay_linked [OF lk eb size'(3) cnt(1) k(2) size'(1,2) n(1), of fadd] n(2,3) by auto
  have rows: "\<forall>i < ?n. beam_row l' k i = best_beam fadd k ?l i"
    using fold_makeBeam [OF eb(1) cnt(2) size', of ?n fadd] n l'(1) by (auto simp: makeBeams_def)
  have "best_beam fadd k ?l i = search_beam fadd weights plugin pn l k i" if i: "i < ?n" for i
  proof -
    note c = fill_search [OF k(1) f(6) s i fit scored]
    have "beam_element_of ?l (boundary ?l k) k i = beam_element_of l (boundary l k) k i"
      by (rule ext) (simp add: beam_element_of_def with_scores_simps with_scores_nodes)
    then show ?thesis unfolding best_beam_def search_beam_def c by (simp only: with_scores_simps)
  qed
  moreover have "same_nodes l l'" using same_nodes_trans [OF same_nodes_scores makeBeams_same_nodes [OF l'(1)]] .
  ultimately show ?thesis using l' rows by (intro exI [of _ l']) simp
qed

lemma lattice_fits_step:
  assumes "lattice_fits l" "same_nodes l l'" "\<And>j. length (rb_beam (bd_right (boundary l' j))) = length (rb_beam (bd_right (boundary l j)))"
    and "\<And>j. j \<noteq> k \<Longrightarrow> boundary l' j = boundary l j"
    and "same_shape (bd_scores (boundary l k)) (bd_scores (boundary l' k))"
    and "scores_ok (length (boundary_patterns l k)) (bd_scores (boundary l' k))" "scores_ok (length (boundary_patterns l k)) (bd_scores (boundary l k))"
  shows "lattice_fits l'"
proof -
  note nodes = same_nodes_patterns [OF assms(2)]
  have "boundary_fits l' j" if "2 \<le> j" "j < createdBoundaryCount l" for j
  proof (rule boundary_fits_cong [OF _ assms(2,3)])
    show "boundary_fits l j" using assms(1) that by (simp add: lattice_fits_def list_all_iff)
    show "same_shape (bd_scores (boundary l j)) (bd_scores (boundary l' j))" using assms(4,5) same_shape_refl by (cases "j = k") simp_all
    show "scores_ok n (bd_scores (boundary l' j))" if "scores_ok n (bd_scores (boundary l j))" for n
    proof (cases "j = k")
      case True
      then have "n = length (boundary_patterns l k)" using that assms(7) by (simp add: scores_ok_def)
      then show ?thesis using assms(6) True by simp
    qed (use that assms(4) in simp)
  qed
  then show ?thesis using assms(1) by (simp add: lattice_fits_def list_all_iff nodes)
qed

lemma searched_step:
  assumes "searched fadd weights plugin pn l k" "plugin_reads_nodes plugin" "lattice_fits l" "2 \<le> k" "k < createdBoundaryCount l"
    and "same_nodes l l'" "\<And>j. length (rb_beam (bd_right (boundary l' j))) = length (rb_beam (bd_right (boundary l j)))"
    and "\<And>j. j \<noteq> k \<Longrightarrow> boundary l' j = boundary l j" "beams_linked l' (k + 1)"
    and "\<And>i. i < length (rb_beam (bd_right (boundary l k))) \<Longrightarrow> beam_row l' k i = search_beam fadd weights plugin pn l k i"
  shows "searched fadd weights plugin pn l' (k + 1)"
proof -
  have left: "same_left j l l'" if "j \<le> k" for j using assms(6,8) that by (simp add: same_left_def)
  have same: "search_beam fadd weights plugin pn l' j i = search_beam fadd weights plugin pn l j i" if "2 \<le> j" "j \<le> k" for j i
  proof -
    have "boundary_fits l j" using assms(3,5) that by (simp add: lattice_fits_def list_all_iff)
    note f = boundary_fitsD [OF this]
    show ?thesis by (rule search_cong(3) [OF left [OF that(2)] assms(2) f(8,9)])
  qed
  have rows: "beam_row_ok l' j i \<and> (2 \<le> j \<longrightarrow> beam_row l' j i = search_beam fadd weights plugin pn l' j i)"
    if j: "0 < j" "j < k + 1" and i: "i < length (rb_beam (bd_right (boundary l' j)))" for j i
  proof (cases "j = k")
    case True
    have e: "beam_row l' k i = search_beam fadd weights plugin pn l k i" using assms(10) i by (simp add: True assms(7))
    have "lt_config l' = lt_config l" using assms(6) by (simp add: same_nodes_def)
    then show ?thesis
      using search_beam_row [of fadd weights plugin pn l k i] same [OF assms(4) order_refl, of i]
      unfolding True beam_row_ok_def resolveBeamAt_def e by (simp only: simp_thms)
  next
    case False
    then have jk: "j < k" using j by simp
    have i': "i < length (rb_beam (bd_right (boundary l j)))" using i by (simp add: assms(7))
    have r: "beam_row l' j i = beam_row l j i" by (simp add: beam_row_def assms(8) [OF False])
    have "lt_config l' = lt_config l" using assms(6) by (simp add: same_nodes_def)
    then show ?thesis
      using searchedD [OF assms(1) j(1) jk i'] same [of j i] jk unfolding beam_row_ok_def resolveBeamAt_def r by simp
  qed
  show ?thesis unfolding searched_def list_all_iff set_upt
  proof (intro conjI ballI)
    show "beams_linked l' (k + 1)" by (rule assms(9))
    have "boundary l' 1 = boundary l 1" using assms(4,8) by simp
    then show "resolveBeamAt l' 1 0 \<noteq> []" using assms(1) by (simp add: searched_def resolveBeamAt_def beam_row_def)
    fix j i assume "j \<in> {1..<k + 1}" "i \<in> {0..<length (rb_beam (bd_right (boundary l' j)))}"
    then show "beam_row_ok l' j i" using rows [of j i] by simp
  next
    fix j i assume "j \<in> {2..<k + 1}" "i \<in> {0..<length (rb_beam (bd_right (boundary l' j)))}"
    then show "beam_row l' j i = search_beam fadd weights plugin pn l' j i" using rows [of j i] by simp
  qed
qed

lemma score_boundary_step:
  assumes pn: "pn_ok pn" and plugin: "plugin_reads_nodes plugin" and fits: "lattice_fits l" and k: "2 \<le> k" "k < createdBoundaryCount l"
    and searched: "searched fadd weights plugin pn l k" and room: "sp_room pn starts p" "length (boundary_patterns l k) \<le> starts"
  shows "\<exists>p' l'. score_boundary fadd weights plugin None k (p, l) = Some (p', l') \<and> sp_room pn starts p' \<and> same_nodes l l'
    \<and> lattice_fits l' \<and> searched fadd weights plugin pn l' (k + 1)"
proof -
  let ?p0 = "boundary_patterns l k" and ?ends = "lb_endingNodes (bd_left (boundary l k))"
  have bf: "boundary_fits l j" if "2 \<le> j" "j < createdBoundaryCount l" for j using fits that by (simp add: lattice_fits_def list_all_iff)
  have kl: "k < length (lt_boundaries l)" using k by (simp add: createdBoundaryCount_def)
  note f = boundary_fitsD [OF bf [OF k]]
  define l1 where "l1 = update_boundary k initialize_beams l"
  have sn1: "same_nodes l l1" unfolding l1_def by (rule same_nodes_right) (simp_all add: initialize_beams_def)
  note nodes1 = same_nodes_patterns [OF sn1]
  have b1: "boundary l1 j = (if j = k then initialize_beams (boundary l j) else boundary l j)" for j
    using kl by (simp add: l1_def boundary_update)
  have left1: "same_left k l l1" using sn1 by (simp add: same_left_def b1)
  have s1: "bd_scores (boundary l1 k) = bd_scores (boundary l k)" by (simp add: b1 initialize_beams_def)
  have rb1: "length (rb_beam (bd_right (boundary l1 j))) = length (rb_beam (bd_right (boundary l j)))" for j
    by (simp add: b1 initialize_beams_def)
  have act1: "active_beam l1 k left = active_beam l k left" if "left < length ?ends" for left
    by (rule search_cong(1) [OF left1 plugin f(8,9) that])
  have fit1: "beams_fit l1 k"
    using searched_beams_fit [OF searched bf [OF k]] act1 unfolding beams_fit_def nodes1 s1 by (simp add: list_all_iff)
  have k1: "k < length (lt_boundaries l1)" using kl by (simp add: l1_def)
  define p1 where "p1 = startBoundary (localNodeCount (boundary l1 k)) p"
  have p1: "sp_room pn starts p1" "unat (sp_curSize p1) = length (boundary_patterns l1 k)"
    using room(1) f(1) by (simp_all add: p1_def startBoundary_def sp_room_def nodes1)
  define p2 where "p2 = applyT0 fadd weights l1 k p1"
  have few: "length (boundary_patterns l1 k) \<le> starts" "length (boundary_patterns l1 k) < 2 ^ 32" using room(2) f(3) by (simp_all add: nodes1)
  note p2 = applyT0_ready [OF pn p1(1) few p1(2), of fadd weights, folded p2_def]
  have s: "scores_ok (length (boundary_patterns l1 k)) (bd_scores (boundary l1 k))"
    "unat (bs_numLeft (bd_scores (boundary l1 k))) = length (lb_endingNodes (bd_left (boundary l1 k)))" using f(4,10) by (simp_all add: s1 nodes1)
  from score_lefts [OF pn k1 plugin fit1 refl few(1) p2 s]
  obtain p3 s3 where p3: "fold_option (score_left fadd weights plugin k) [0..<length (lb_endingNodes (bd_left (boundary l1 k)))] (p2, l1) = Some (p3, with_scores k s3 l1)"
    "sp_room pn starts p3" "scores_ok (length (boundary_patterns l1 k)) s3" "same_shape (bd_scores (boundary l1 k)) s3"
    "scores_done (\<lambda>node left beam. connection_score fadd weights plugin pn l1 k node left beam) (length (boundary_patterns l1 k)) (unat (bs_numLeft s3))
      (SIGMA left : {..<length (lb_endingNodes (bd_left (boundary l1 k)))}. {..<length (active_beam l1 k left)}) s3" by blast
  have fits1: "boundary_fits l1 k" by (rule boundary_fits_cong [OF bf [OF k] sn1 rb1]) (simp_all add: s1 same_shape_refl)
  have linked1: "beams_linked l1 k"
    by (rule beams_linked_left [of k l1 l]) (use searched in \<open>simp_all add: b1 nodes1 searched_def\<close>)
  have size: "k < 2 ^ 16" "0 < lc_beamSize (lt_config l1)" "lc_beamSize (lt_config l1) < 0x10000"
    using fits k by (simp_all add: lattice_fits_def nodes1)
  note made = beams_from_scores [OF k1 size(1) linked1 fits1 fit1 size(2,3) p3(4,5)]
  obtain l3 where l3: "makeBeams fadd k (with_scores k s3 l1) = Some l3" "same_but_beams k (with_scores k s3 l1) l3" "same_nodes l1 l3" "beams_linked l3 (k + 1)"
    "\<And>i. i < length (boundary_patterns l1 k) \<Longrightarrow> beam_row l3 k i = search_beam fadd weights plugin pn l1 k i"
    by (rule exE [OF made]) blast
  have sn3: "same_nodes l l3" by (rule same_nodes_trans [OF sn1 l3(3)])
  have b3: "j \<noteq> k \<Longrightarrow> boundary l3 j = boundary l j" for j using l3(2) by (simp add: same_but_beams_def with_scores_simps b1)
  have s3: "bd_scores (boundary l3 k) = s3" using l3(2) with_scores_own [OF k1] by (simp add: same_but_beams_def)
  have rb3: "length (rb_beam (bd_right (boundary l3 j))) = length (rb_beam (bd_right (boundary l j)))" for j
  proof (cases "j = k")
    case True
    have "length (rb_beam (bd_right (boundary l3 k))) = length (rb_beam (bd_right (boundary (with_scores k s3 l1) k)))"
      using l3(2) by (simp only: same_but_beams_def)
    then show ?thesis by (simp only: True with_scores_simps(4) rb1)
  qed (simp add: b3)
  have "score_boundary fadd weights plugin None k (p, l) = Some (p3, l3)"
    using p3(1) l3(1) by (simp add: score_boundary_def Let_def l1_def [symmetric] p1_def [symmetric] p2_def [symmetric])
  moreover have "lattice_fits l3"
    by (rule lattice_fits_step [OF fits sn3 rb3 b3]) (use p3(3,4) f(4) in \<open>simp_all add: s3 s1 nodes1\<close>)
  moreover have "searched fadd weights plugin pn l3 (k + 1)"
  proof (rule searched_step [OF searched plugin fits k sn3 rb3 b3 l3(4)])
    fix i assume "i < length (rb_beam (bd_right (boundary l k)))"
    then have "beam_row l3 k i = search_beam fadd weights plugin pn l1 k i" using l3(5) f(2) by (simp add: nodes1)
    then show "beam_row l3 k i = search_beam fadd weights plugin pn l k i"
      using search_cong(3) [OF left1 plugin f(8,9)] by simp
  qed
  ultimately show ?thesis using p3(2) sn3 by blast
qed

lemma searched_all:
  assumes pn: "pn_ok pn" and plugin: "plugin_reads_nodes plugin" and fits: "lattice_fits l" and size: "3 < createdBoundaryCount l"
    and searched: "searched fadd weights plugin pn l 2" and room: "sp_room pn starts p"
    and starts: "\<And>j. 2 \<le> j \<Longrightarrow> j < createdBoundaryCount l \<Longrightarrow> length (boundary_patterns l j) \<le> starts"
  shows "\<exists>p' l'. computeScoresFull fadd weights plugin None (p, l) = Some (StOk, p', l') \<and> same_nodes l l'
    \<and> lattice_fits l' \<and> searched fadd weights plugin pn l' (createdBoundaryCount l')"
proof -
  let ?n = "createdBoundaryCount l"
  have "\<exists>p' l'. fold_option (score_boundary fadd weights plugin None) [2..<k] (p, l) = Some (p', l') \<and> sp_room pn starts p' \<and> same_nodes l l'
    \<and> lattice_fits l' \<and> searched fadd weights plugin pn l' k" if "2 \<le> k" "k \<le> ?n" for k
    using that
  proof (induction k rule: dec_induct)
    case base
    then show ?case using fits searched room same_nodes_refl by (intro exI [of _ p] exI [of _ l]) simp
  next
    case (step k)
    then obtain p1 l1 where IH: "fold_option (score_boundary fadd weights plugin None) [2..<k] (p, l) = Some (p1, l1)" "sp_room pn starts p1" "same_nodes l l1"
      "lattice_fits l1" "searched fadd weights plugin pn l1 k" by auto
    note nodes = same_nodes_patterns [OF IH(3)]
    have k: "2 \<le> k" "k < createdBoundaryCount l1" "length (boundary_patterns l1 k) \<le> starts" using step starts [of k] by (simp_all add: nodes)
    from score_boundary_step [OF pn plugin IH(4) k(1,2) IH(5,2) k(3)]
    obtain p2 l2 where st: "score_boundary fadd weights plugin None k (p1, l1) = Some (p2, l2)" "sp_room pn starts p2" "same_nodes l1 l2"
      "lattice_fits l2" "searched fadd weights plugin pn l2 (k + 1)" by blast
    have "[2..<Suc k] = [2..<k] @ [k]" using k(1) by simp
    then show ?case using IH(1) st same_nodes_trans [OF IH(3) st(3)] by (intro exI [of _ p2] exI [of _ l2]) (simp add: fold_option_snoc)
  qed
  from this [of ?n] size obtain p' l' where r: "fold_option (score_boundary fadd weights plugin None) [2..<?n] (p, l) = Some (p', l')"
    "same_nodes l l'" "lattice_fits l'" "searched fadd weights plugin pn l' ?n" by auto
  then show ?thesis using size same_nodes_patterns(5) [OF r(2)] by (simp add: computeScoresFull_def)
qed

subsection \<open>The start of an analysis\<close>

text \<open>Each of the two BOS boundaries holds one node with a beam of the size of the configuration.\<close>

definition bos_fits :: "lattice \<Rightarrow> bool" where
  "bos_fits l \<longleftrightarrow> list_all (\<lambda>j. map length (rb_beam (bd_right (boundary l j))) = [unat (lc_beamSize (lt_config l))]) [0, 1]"

lemma fold_max:
  fixes f :: "nat \<Rightarrow> 'a::linorder"
  assumes "x \<in> set xs"
  shows "f x \<le> fold (\<lambda>x m. max m (f x)) xs m0"
proof -
  have ge: "m \<le> fold (\<lambda>x m. max m (f x)) ys m" for ys m
  proof (induction ys arbitrary: m)
    case (Cons y ys)
    have "m \<le> max m (f y)" by simp
    also have "\<dots> \<le> fold (\<lambda>x m. max m (f x)) ys (max m (f y))" by (rule Cons.IH)
    finally show ?case by simp
  qed simp
  from assms show ?thesis
  proof (induction xs arbitrary: m0)
    case (Cons y ys)
    then show ?case using order_trans [OF _ ge [of "max m0 (f y)" ys]] by auto
  qed simp
qed

lemma room_of_processor:
  assumes "\<And>n. length (fresh64 n) = n" "\<And>n. length (fresh32 n) = n" "\<And>n. length (freshScores n) = n"
  shows "sp_room pn (unat (max_starts l)) (mk_score_processor fresh64 fresh32 freshScores pn l)"
proof -
  have "fb_ok pn (unat (max_starts l)) (allocateBuffers fresh64 fresh32 freshScores pn (unat (max_starts l)) (unat (max_ends l)))"
    by (rule fb_ok_allocate [OF assms(1,2)])
  then show ?thesis by (simp add: sp_room_def mk_score_processor_def Let_def assms(3) fb_ok_def)
qed

lemma starts_fit:
  assumes "lattice_fits l" "2 \<le> j" "j < createdBoundaryCount l"
  shows "length (boundary_patterns l j) \<le> unat (max_starts l)"
proof -
  have "boundary_fits l j" using assms by (simp add: lattice_fits_def list_all_iff)
  note f = boundary_fitsD(1) [OF this]
  have "localNodeCount (boundary l j) \<le> max_starts l"
    unfolding max_starts_def using assms(2,3) by (intro fold_max) simp
  then show ?thesis unfolding f [symmetric] by (simp add: word_le_nat_alt)
qed

lemma bootstrap_searched:
  assumes fits: "lattice_fits l" and bos: "bos_fits l" and size: "3 < createdBoundaryCount l"
    and l'_def: "l' = snd (bootstrapAnalysis fresh64 fresh32 freshScores pn l)"
  shows "same_nodes l l'" "lattice_fits l'" "searched fadd weights plugin pn l' 2"
proof -
  have l': "l' = update_boundary 1 (bos_beam bos1_ref) (update_boundary 0 (bos_beam bos_ref) l)" by (simp add: l'_def bootstrapAnalysis_def)
  have n: "1 < length (lt_boundaries l)" using size by (simp add: createdBoundaryCount_def)
  have bos_same: "same_nodes m (update_boundary k (bos_beam e) m)" for k e m
    by (rule same_nodes_right) (simp_all add: bos_beam_def)
  show sn: "same_nodes l l'" unfolding l' by (rule same_nodes_trans [OF bos_same bos_same])
  have b: "boundary l' 0 = bos_beam bos_ref (boundary l 0)" "boundary l' 1 = bos_beam bos1_ref (boundary l 1)" "1 < j \<Longrightarrow> boundary l' j = boundary l j" for j
    using n by (auto simp: l' boundary_update)
  have len: "length (rb_beam (bd_right (boundary l' j))) = length (rb_beam (bd_right (boundary l j)))" for j
  proof -
    consider "j = 0" | "j = 1" | "1 < j" by linarith
    then show ?thesis by cases (simp_all only: b, simp_all add: bos_beam_def set_first_def)
  qed
  note nodes = same_nodes_patterns [OF sn]
  have "boundary_fits l' j" if "2 \<le> j" "j < createdBoundaryCount l" for j
  proof (rule boundary_fits_cong [OF _ sn len])
    show "boundary_fits l j" using fits that by (simp add: lattice_fits_def list_all_iff)
  qed (use b(3) [of j] that in \<open>simp_all add: same_shape_refl\<close>)
  then show "lattice_fits l'" using fits by (simp add: lattice_fits_def list_all_iff nodes)
  have pos: "0 < unat (lc_beamSize (lt_config l))" using fits by (simp add: lattice_fits_def word_less_nat_alt)
  have row: "\<exists>fs. rb_beam (bd_right (bos_beam e (boundary l j))) = [e # fs] \<and> Suc (length fs) = unat (lc_beamSize (lt_config l)) \<and> list_all isFake fs"
    if "j < 2" for j e
  proof -
    have "map length (rb_beam (bd_right (boundary l j))) = [unat (lc_beamSize (lt_config l))]"
      using bos that by (auto simp: bos_fits_def less_2_cases_iff)
    then obtain r where r: "rb_beam (bd_right (boundary l j)) = [r]" "length r = unat (lc_beamSize (lt_config l))" by auto
    then obtain x xs where "r = x # xs" using pos by (cases r) auto
    then show ?thesis using r by (auto simp: bos_beam_def set_first_def initializeBlock_def fake_def isFake_def list_all_iff)
  qed
  obtain fs0 where r0: "rb_beam (bd_right (boundary l' 0)) = [bos_ref # fs0]" "list_all isFake fs0" using row [of 0 bos_ref] b(1) by auto
  obtain fs1 where r1: "rb_beam (bd_right (boundary l' 1)) = [bos1_ref # fs1]" "list_all isFake fs1" "Suc (length fs1) = unat (lc_beamSize (lt_config l))"
    using row [of 1 bos1_ref] b(2) by auto
  note r1' = r1 [unfolded One_nat_def]
  have tw: "takeWhile (\<lambda>e. \<not> isFake e) fs = []" if "list_all isFake fs" for fs using that by (cases fs) simp_all
  have nf: "\<not> isFake bos_ref" "\<not> isFake bos1_ref" by (simp_all add: isFake_def bos_ref_def bos1_ref_def)
  have res: "resolveBeamAt l' 0 0 = [bos_ref]" "resolveBeamAt l' 1 0 = [bos1_ref]"
    using tw [OF r0(2)] tw [OF r1(2)] nf by (simp_all add: resolveBeamAt_def beam_row_def r0 r1')
  have "beams_linked l' 2"
    unfolding beams_linked_def
  proof (intro allI impI)
    fix j i m assume j: "j < 2" and i: "i < length (rb_beam (bd_right (boundary l' j)))" and m: "m < length (resolveBeamAt l' j i)"
    consider "j = 0" | "j = 1" using j by linarith
    then show "let c = be_ptr (beam_row l' j i ! m) in unat (cn_boundary c) = j \<and> unat (cn_right c) = i \<and> linked l' m c"
    proof cases
      case 1
      then have "i = 0" "m = 0" using i m by (simp_all add: r0 res)
      then show ?thesis using 1 by (simp add: beam_row_def r0 bos_ref_def linked_start Let_def)
    next
      case 2
      then have "i = 0" using i by (simp add: r1')
      moreover have "m = 0" using m 2 \<open>i = 0\<close> res(2) by simp
      ultimately show ?thesis using 2 by (simp add: beam_row_def r1' bos1_ref_def linked_start Let_def)
    qed
  qed
  moreover have "beam_row_ok l' 1 i" if "i < length (rb_beam (bd_right (boundary l' 1)))" for i
  proof -
    have "i = 0" using that unfolding r1(1) by simp
    have "length (beam_row l' 1 0) = unat (lc_beamSize (lt_config l'))"
      unfolding beam_row_def r1(1) nth_Cons_0 nodes(6) using r1(3) by (simp only: list.size(4) add_Suc_right add_0_right)
    moreover have "cn_previous (be_ptr bos1_ref) \<noteq> None" by (simp add: bos1_ref_def)
    ultimately show ?thesis unfolding \<open>i = 0\<close> beam_row_ok_def res(2) by (simp only: list.pred_inject simp_thms)
  qed
  moreover have "[1..<2] = [1]" "[2..<2] = ([] :: nat list)" by (simp_all add: upt_rec numeral_2_eq_2)
  ultimately show "searched fadd weights plugin pn l' 2"
    unfolding searched_def by (simp only: list.pred_inject simp_thms res(2)) (simp add: list_all_iff)
qed

subsection \<open>Nodes that are reached\<close>

text \<open>A node is reached when it is the second BOS node, or a node that is reached ends where it starts.\<close>

inductive reached :: "lattice \<Rightarrow> nat \<Rightarrow> nat \<Rightarrow> bool" for l where
  reached_bos: "reached l 1 0"
| reached_step: "q \<in> set (lb_endingNodes (bd_left (boundary l k))) \<Longrightarrow> reached l (unat (np_boundary q)) (unat (np_position q)) \<Longrightarrow>
    2 \<le> k \<Longrightarrow> k < createdBoundaryCount l \<Longrightarrow> i < length (boundary_patterns l k) \<Longrightarrow> reached l k i"

lemma reached_same:
  assumes "reached l k i" "same_nodes l l'"
  shows "reached l' k i"
  using assms(1)
proof induction
  case reached_bos
  show ?case by (rule reached.reached_bos)
next
  case (reached_step q k i)
  then show ?case by (intro reached.reached_step [of q l' k i]) (simp_all add: same_nodes_patterns [OF assms(2)])
qed

lemma search_beam_alive:
  assumes "boundary_fits l k" "0 < lc_beamSize (lt_config l)" "k < 2 ^ 16" "left < length (lb_endingNodes (bd_left (boundary l k)))" "active_beam l k left \<noteq> []"
  shows "takeWhile (\<lambda>e. \<not> isFake e) (search_beam fadd weights plugin pn l k i) \<noteq> []"
proof -
  let ?c = "search_candidates fadd weights plugin pn l k i" and ?n = "unat (lc_beamSize (lt_config l))"
  note f = boundary_fitsD [OF assms(1)]
  have "?c \<noteq> []" using assms(4,5) by (auto simp: search_candidates_def)
  moreover have "0 < ?n" using assms(2) by (simp add: word_less_nat_alt)
  ultimately have "take ?n (rev (sort ?c)) \<noteq> []" by (metis length_0_conv length_sort rev_is_Nil_conv take_eq_Nil neq0_conv)
  then obtain c cs where c: "take ?n (rev (sort ?c)) = c # cs" by (cases "take ?n (rev (sort ?c))") auto
  have "c \<in> set (take ?n (rev (sort ?c)))" by (simp add: c)
  then have "c \<in> set ?c" using in_set_takeD by fastforce
  then have "unat (bc_left c) < 2 ^ 15" using search_candidate_left [OF f(9)] f(9) by fastforce
  then have "bc_left c \<noteq> 0xffff" by auto
  then have "\<not> isFake (beam_element_of l (boundary l k) k i c)" by (simp add: isFake_def beam_element_of_def Let_def)
  then show ?thesis unfolding search_beam_def Let_def c by simp
qed

lemma reached_alive:
  assumes "reached l k i" "searched fadd weights plugin pn l (createdBoundaryCount l)" "lattice_fits l"
  shows "resolveBeamAt l k i \<noteq> []"
  using assms(1)
proof induction
  case reached_bos
  then show ?case using assms(2) by (simp add: searched_def)
next
  case (reached_step q k i)
  have fits: "boundary_fits l k" using assms(3) reached_step by (simp add: lattice_fits_def list_all_iff)
  have k: "0 < k" "k < 2 ^ 16" "i < length (rb_beam (bd_right (boundary l k)))"
    using reached_step assms(3) boundary_fitsD(2) [OF fits] by (auto simp: lattice_fits_def)
  obtain left where left: "left < length (lb_endingNodes (bd_left (boundary l k)))" "q = lb_endingNodes (bd_left (boundary l k)) ! left"
    using reached_step(1) by (auto simp: in_set_conv_nth)
  have "active_beam l k left \<noteq> []" using reached_step.IH by (simp add: active_beam_def left(2) Let_def)
  moreover have "0 < lc_beamSize (lt_config l)" using assms(3) by (simp add: lattice_fits_def)
  ultimately show ?case
    using search_beam_alive [OF fits _ k(2) left(1)] searchedD(2) [OF assms(2) k(1) reached_step(4) k(3) reached_step(3)]
    by (simp add: resolveBeamAt_def)
qed

lemma bootstrap_search:
  assumes "add_children pn_addChild nfs pn_empty = (StOk, pn)" "length nfs < 2 ^ 32" "plugin_reads_nodes plugin"
    and "lattice_fits l" "bos_fits l" "3 < createdBoundaryCount l"
    and "\<And>n. length (fresh64 n) = n" "\<And>n. length (fresh32 n) = n" "\<And>n. length (freshScores n) = n"
  shows "\<exists>p' l'. computeScoresFull fadd weights plugin None (bootstrapAnalysis fresh64 fresh32 freshScores pn l) = Some (StOk, p', l')
    \<and> same_nodes l l' \<and> lattice_fits l' \<and> searched fadd weights plugin pn l' (createdBoundaryCount l')"
proof -
  have "length (pn_unigrams pn_empty) + length (pn_bigrams pn_empty) + length (pn_trigrams pn_empty) + length nfs < 2 ^ 32"
    using assms(2) by (simp add: pn_empty_def)
  from add_children_whole(3) [OF pn_ok_empty this] have pn: "pn_ok pn" by (simp add: assms(1))
  let ?p = "mk_score_processor fresh64 fresh32 freshScores pn l"
  define l0 where "l0 = snd (bootstrapAnalysis fresh64 fresh32 freshScores pn l)"
  have b: "bootstrapAnalysis fresh64 fresh32 freshScores pn l = (?p, l0)" by (simp add: l0_def bootstrapAnalysis_def)
  note start = bootstrap_searched [OF assms(4-6) l0_def]
  note nodes = same_nodes_patterns [OF start(1)]
  have starts: "length (boundary_patterns l0 j) \<le> unat (max_starts l)" if "2 \<le> j" "j < createdBoundaryCount l0" for j
    using starts_fit [OF assms(4) that(1)] that(2) by (simp add: nodes)
  have "3 < createdBoundaryCount l0" using assms(6) by (simp add: nodes)
  from searched_all [OF pn assms(3) start(2) this start(3) room_of_processor [OF assms(7-9)] starts]
  show ?thesis unfolding b using same_nodes_trans [OF start(1)] by blast
qed

subsection \<open>Properties\<close>

text \<open>C2: The search of \<open>computeScoresFull\<close> is exact: from \<open>bootstrapAnalysis\<close> on it never follows a null pointer, ends with success, leaves the nodes of the
  lattice alone, and gives every node of every boundary the beam that the search equation demands: the best continuations of the beams
  of all nodes that end before it, each scored with the sum of the one, two and three node features of the three nodes involved, however the
  stages share their buffers.
\<close>

theorem full_search_is_exact:
  assumes "add_children pn_addChild nfs pn_empty = (StOk, pn)" "length nfs < 2 ^ 32" "plugin_reads_nodes plugin"
    and "lattice_fits l" "bos_fits l" "3 < createdBoundaryCount l"
    and "\<And>n. length (fresh64 n) = n" "\<And>n. length (fresh32 n) = n" "\<And>n. length (freshScores n) = n"
  shows "\<exists>p' l'. computeScoresFull fadd weights plugin None (bootstrapAnalysis fresh64 fresh32 freshScores pn l) = Some (StOk, p', l')
    \<and> same_nodes l l' \<and> list_all (\<lambda>k. list_all (\<lambda>i. beam_row l' k i = search_beam fadd weights plugin pn l' k i)
        [0..<length (boundary_patterns l k)]) [2..<createdBoundaryCount l]"
proof -
  from bootstrap_search [OF assms] obtain p' l' where
    r: "computeScoresFull fadd weights plugin None (bootstrapAnalysis fresh64 fresh32 freshScores pn l) = Some (StOk, p', l')"
      "same_nodes l l'" "lattice_fits l'" "searched fadd weights plugin pn l' (createdBoundaryCount l')" by blast
  note nodes = same_nodes_patterns [OF r(2)]
  have "beam_row l' k i = search_beam fadd weights plugin pn l' k i"
    if k: "2 \<le> k" "k < createdBoundaryCount l" and i: "i < length (boundary_patterns l k)" for k i
  proof -
    have "boundary_fits l' k" using r(3) k by (simp add: lattice_fits_def list_all_iff nodes)
    from boundary_fitsD(2) [OF this] have "i < length (rb_beam (bd_right (boundary l' k)))" using i by (simp add: nodes)
    then show ?thesis using searchedD(2) [OF r(4) _ _ _ k(1)] k by (simp add: nodes)
  qed
  then show ?thesis using r(1,2) by (simp add: list_all_iff)
qed

text \<open>C3: An analysis prints a path: when the node of EOS is reached in the lattice, the search and the segmented format together
  end with success, and the output is the surfaces of the words of the best path, which is linked from the first element of the beam of EOS down to
  BOS and has at least one word, from the first word to the last.
\<close>

theorem analysis_prints_path:
  assumes "add_children pn_addChild nfs pn_empty = (StOk, pn)" "length nfs < 2 ^ 32" "plugin_reads_nodes plugin"
    and "lattice_fits l" "bos_fits l" "3 < createdBoundaryCount l"
    and "\<And>n. length (fresh64 n) = n" "\<And>n. length (fresh32 n) = n" "\<And>n. length (freshScores n) = n"
    and "ends_in_eos l" "reached l (createdBoundaryCount l - 1) 0"
  shows "\<exists>p' l'. computeScoresFull fadd weights plugin None (bootstrapAnalysis fresh64 fresh32 freshScores pn l) = Some (StOk, p', l')
    \<and> linked l' 0 (eos_top l') \<and> best_path (eos_top l') \<noteq> []
    \<and> segmented_format (\<lambda>node. Some (surf node)) sep l' path
       = Some (StOk, join_with sep (map (\<lambda>c. surf (latticeNodePtr c)) (rev (best_path (eos_top l')))) @ [0x0a])"
proof -
  from bootstrap_search [OF assms(1-9)] obtain p' l' where
    r: "computeScoresFull fadd weights plugin None (bootstrapAnalysis fresh64 fresh32 freshScores pn l) = Some (StOk, p', l')"
      "same_nodes l l'" "lattice_fits l'" "searched fadd weights plugin pn l' (createdBoundaryCount l')" by blast
  note nodes = same_nodes_patterns [OF r(2)]
  have eos: "ends_in_eos l'" using assms(10) r(2) by (simp add: ends_in_eos_def nodes) (simp add: same_nodes_def)
  have alive: "resolveBeamAt l' (createdBoundaryCount l' - 1) 0 \<noteq> []"
    using reached_alive [OF reached_same [OF assms(11) r(2)] r(4,3)] by (simp add: nodes)
  have size: "3 < createdBoundaryCount l'" using assms(6) by (simp add: nodes)
  have "boundary_fits l' (createdBoundaryCount l' - 1)" using r(3) size by (simp add: lattice_fits_def list_all_iff)
  moreover have "0 < length (boundary_patterns l (createdBoundaryCount l - 1))" using assms(11,6) by cases auto
  ultimately have node: "0 < length (rb_beam (bd_right (boundary l' (createdBoundaryCount l' - 1))))"
    using boundary_fitsD(2) by (simp add: nodes)
  have bl: "beams_linked l' (createdBoundaryCount l')" using r(4) by (simp add: searched_def)
  have top: "unat (cn_boundary (eos_top l')) = createdBoundaryCount l' - 1" "linked l' 0 (eos_top l')"
    using beams_linkedD(1,3) [OF bl _ node, of 0] size alive by (simp_all add: beam_row_def eos_top_def)
  have "best_path (eos_top l') \<noteq> []" by (rule linked_previous [OF top(2)]) (use top(1) size in auto)
  moreover have "list_all (\<lambda>c. Some (surf (latticeNodePtr c)) = Some (surf (latticeNodePtr c))) (best_path (eos_top l'))" by (simp add: list_all_iff)
  note format_prints_path [OF size eos bl node alive this, of sep path]
  ultimately show ?thesis using r(1) top(2) by (intro exI [of _ p'] exI [of _ l']) simp
qed

text \<open>One word between BOS and EOS.\<close>

definition eos_memory :: fresh_memory where
  "eos_memory = fresh0\<lparr>fm_info := mk_node_info EntryPtr_EOS 3 3\<rparr>"

definition one_word :: lattice where
  "one_word =
     \<lparr>lt_boundaries = [mk_boundary fresh0 cfg0 (mk_lbc 0 0 1), mk_boundary fresh0 cfg0 (mk_lbc 1 0 1),
        addEnd (mk_node_ptr 1 0) (mk_boundary fresh0 cfg0 (mk_lbc 2 1 1)), addEnd (mk_node_ptr 2 0) (mk_boundary eos_memory cfg0 (mk_lbc 3 1 1))],
      lt_config = cfg0\<rparr>"

definition sample_plugin :: score_plugin where
  "sample_plugin l ptr x = (if cn_left ptr = 0 then x else 0)"

lemmas one_word_defs = one_word_def eos_memory_def addEnd_def mk_boundary_def mk_left_boundary_def mk_lbc_def mk_boundary_scores_def mk_right_boundary_def
  allocate2d_def cfg0_def mk_node_ptr_def boundary_def createdBoundaryCount_def boundary_patterns_def

lemma one_word_bounds:
  "createdBoundaryCount one_word = 4" "[2..<4] = [2, 3 :: nat]"
  by (simp_all add: one_word_def createdBoundaryCount_def upt_rec)

lemma one_word_fits: "lattice_fits one_word" "bos_fits one_word" "ends_in_eos one_word"
proof -
  have "boundary_fits one_word 2" "boundary_fits one_word 3"
    by (simp_all add: one_word_defs boundary_fits_def Let_def localNodeCount_def scores_ok_def ends_before_def ends_exist_def)
  then show "lattice_fits one_word"
    unfolding lattice_fits_def one_word_bounds by (simp add: one_word_def cfg0_def)
  show "bos_fits one_word" by (simp add: bos_fits_def one_word_defs)
  show "ends_in_eos one_word" by (simp add: ends_in_eos_def one_word_defs mk_node_info_def)
qed

lemma one_word_reached: "reached one_word (createdBoundaryCount one_word - 1) 0"
proof -
  have two: "reached one_word 2 0"
    by (rule reached_step [of "mk_node_ptr 1 0"]) (simp_all add: one_word_defs reached_bos [unfolded One_nat_def])
  have "reached one_word (unat (np_boundary (mk_node_ptr 2 0))) (unat (np_position (mk_node_ptr 2 0)))"
    using two by (simp add: mk_node_ptr_def)
  from reached_step [OF _ this, of 3 0] have "reached one_word 3 0" by (simp add: one_word_defs)
  then show ?thesis by (simp add: one_word_bounds)
qed

theorem full_search_is_exact_witness:
  "\<exists>p' l'. computeScoresFull (+) [1, 2, 3, 4] (Some sample_plugin) None (bootstrapAnalysis (\<lambda>n. replicate n 7) (\<lambda>n. replicate n 8) (\<lambda>n. replicate n 9) sample_partial one_word)
      = Some (StOk, p', l')
    \<and> same_nodes one_word l' \<and> list_all (\<lambda>k. list_all (\<lambda>i. beam_row l' k i = search_beam (+) [1, 2, 3, 4] (Some sample_plugin) sample_partial l' k i)
        [0..<length (boundary_patterns one_word k)]) [2..<createdBoundaryCount one_word]"
  by (rule full_search_is_exact [OF _ _ _ one_word_fits(1,2), of sample_ngrams])
    (simp_all add: sample_partial_defs one_word_bounds plugin_reads_nodes_def plug_def sample_plugin_def fun_eq_iff)

theorem analysis_prints_path_witness:
  "\<exists>p' l'. computeScoresFull (+) [1, 2, 3, 4] (Some sample_plugin) None (bootstrapAnalysis (\<lambda>n. replicate n 7) (\<lambda>n. replicate n 8) (\<lambda>n. replicate n 9) sample_partial one_word)
      = Some (StOk, p', l')
    \<and> linked l' 0 (eos_top l') \<and> best_path (eos_top l') \<noteq> []
    \<and> segmented_format (\<lambda>node. Some [0x61]) [0x20] l' (path_of [] 0 0)
       = Some (StOk, join_with [0x20] (map (\<lambda>c. [0x61]) (rev (best_path (eos_top l')))) @ [0x0a])"
  by (rule analysis_prints_path [where surf = "\<lambda>_. [0x61]", OF _ _ _ one_word_fits(1,2) _ _ _ _ one_word_fits(3) one_word_reached, of sample_ngrams])
    (simp_all add: sample_partial_defs one_word_bounds plugin_reads_nodes_def plug_def sample_plugin_def fun_eq_iff)

end
