(* ===== verification/NodeFeatures.thy ===== *)
theory NodeFeatures
  imports Patterns LatticeBuild
begin

text \<open>
  \<open>src/src/core/analysis/innode_features.h/.cc\<close> and the whole of \<open>AnalyzerImpl::buildLattice\<close>: the lattice with the features of its nodes.
  The features are the only difference to the lattice of LatticeBuild.
\<close>

subsection \<open>Features of the nodes of a boundary\<close>

definition importOneEntry :: "prim_context \<Rightarrow> node_info \<Rightarrow> i32 list \<Rightarrow> (bool \<times> i32 list) option" where
  "importOneEntry ctx nfo result = fillEntryBuffer ctx (ni_entryPtr nfo) result"

text \<open>The loop stops at the first entry that cannot be imported.\<close>

fun import_rows :: "prim_context \<Rightarrow> node_info list \<Rightarrow> i32 list list \<Rightarrow> (bool \<times> i32 list list) option" where
  "import_rows ctx [] rows = Some (True, rows)"
| "import_rows ctx (nfo # nfos) (row # rows) =
     (case importOneEntry ctx nfo row of
        None \<Rightarrow> None
      | Some (ok, row) \<Rightarrow>
          if \<not> ok then Some (False, row # rows)
          else map_option (\<lambda>(ok, rows). (ok, row # rows)) (import_rows ctx nfos rows))"
| "import_rows ctx (nfo # nfos) [] = None"

definition set_entryData :: "i32 list list \<Rightarrow> lattice_boundary \<Rightarrow> lattice_boundary" where
  "set_entryData rows lb = lb\<lparr>bd_right := (bd_right lb)\<lparr>rb_entryData := rows\<rparr>\<rparr>"

definition set_patterns :: "u64 list list \<Rightarrow> lattice_boundary \<Rightarrow> lattice_boundary" where
  "set_patterns rows lb = lb\<lparr>bd_right := (bd_right lb)\<lparr>rb_patterns := rows\<rparr>\<rparr>"

definition importEntryData :: "prim_context \<Rightarrow> lattice_boundary \<Rightarrow> (status_code \<times> lattice_boundary) option" where
  "importEntryData ctx lb =
     map_option (\<lambda>(ok, rows). (if ok then StOk else StInvalidState, set_entryData rows lb))
       (import_rows ctx (rb_nodeInfo (bd_right lb)) (rb_entryData (bd_right lb)))"

definition patternFeaturesDynamic :: "prim_context \<Rightarrow> pattern_apply \<Rightarrow> lattice_boundary \<Rightarrow> lattice_boundary option" where
  "patternFeaturesDynamic ctx a lb =
     map_option (\<lambda>rows. set_patterns rows lb)
       (pda_applyBatch ctx a (rb_nodeInfo (bd_right lb)) (rb_entryData (bd_right lb)) (rb_patterns (bd_right lb)))"

definition fill_eos :: "lattice_boundary \<Rightarrow> lattice_boundary" where
  "fill_eos lb = set_entryData (map (map (\<lambda>_. rawValue EntryPtr_EOS)) (rb_entryData (bd_right lb))) lb"

text \<open>A change of one boundary that may fail to have a result.\<close>

definition try_boundary :: "nat \<Rightarrow> (lattice_boundary \<Rightarrow> lattice_boundary option) \<Rightarrow> lattice \<Rightarrow> lattice option" where
  "try_boundary k f l = map_option (\<lambda>b. update_boundary k (\<lambda>_. b) l) (f (boundary l k))"

definition patternFeaturesEos :: "prim_context \<Rightarrow> pattern_apply \<Rightarrow> lattice \<Rightarrow> lattice option" where
  "patternFeaturesEos ctx a l =
     try_boundary (createdBoundaryCount l - 1) (\<lambda>lb. patternFeaturesDynamic ctx a (fill_eos lb)) l"

subsection \<open>Building the lattice with features\<close>

text \<open>One turn of the loop of \<open>AnalyzerImpl::buildLattice\<close>; the patterns are nothing when they are generated code.\<close>

definition build_boundary ::
  "fresh_memory \<Rightarrow> prim_context \<Rightarrow> pattern_apply option \<Rightarrow> nat \<Rightarrow> lattice_builder \<times> lattice \<Rightarrow> (status_code \<times> lattice_builder \<times> lattice) option" where
  "build_boundary fresh ctx dynamic k st =
     (case constructSingleBoundary fresh k st of
        (bnd, b, l) \<Rightarrow>
          case dynamic of
            None \<Rightarrow> Some (StOk, b, l)
          | Some a \<Rightarrow>
              case importEntryData ctx (boundary l bnd) of
                None \<Rightarrow> None
              | Some (status, lb) \<Rightarrow>
                  let l = update_boundary bnd (\<lambda>_. lb) l
                  in if status \<noteq> StOk then Some (status, b, l)
                     else if isAccessible b k then map_option (\<lambda>l. (StOk, b, l)) (try_boundary bnd (patternFeaturesDynamic ctx a) l)
                     else Some (StOk, b, l))"

fun build_boundaries ::
  "fresh_memory \<Rightarrow> prim_context \<Rightarrow> pattern_apply option \<Rightarrow> nat list \<Rightarrow> lattice_builder \<times> lattice \<Rightarrow> (status_code \<times> lattice_builder \<times> lattice) option" where
  "build_boundaries fresh ctx dynamic [] st = Some (StOk, st)"
| "build_boundaries fresh ctx dynamic (k # ks) st =
     (case build_boundary fresh ctx dynamic k st of
        None \<Rightarrow> None
      | Some (status, st) \<Rightarrow> if status \<noteq> StOk then Some (status, st) else build_boundaries fresh ctx dynamic ks st)"

definition analyzer_buildLattice ::
  "fresh_memory \<Rightarrow> prim_context \<Rightarrow> pattern_apply option \<Rightarrow> nat \<Rightarrow> lattice_builder \<times> lattice \<Rightarrow> (status_code \<times> lattice_builder \<times> lattice) option" where
  "analyzer_buildLattice fresh ctx dynamic totalBnds st =
     (case build_boundaries fresh ctx dynamic [0..<totalBnds] (fst st, makeBos fresh (snd st)) of
        None \<Rightarrow> None
      | Some (status, b, l) \<Rightarrow>
          if status \<noteq> StOk then Some (status, b, l)
          else let l = makeEos fresh b l
               in map_option (\<lambda>l. (StOk, b, fillEnds b l))
                    (case dynamic of None \<Rightarrow> Some l | Some a \<Rightarrow> patternFeaturesEos ctx a l))"

text \<open>Without dynamic patterns this is the model of LatticeBuild.\<close>

lemma build_boundaries_static:
  "build_boundaries fresh ctx None ks st = Some (StOk, fold (\<lambda>k st. snd (constructSingleBoundary fresh k st)) ks st)"
  by (induction ks arbitrary: st) (auto simp: build_boundary_def split: prod.splits)

lemma buildLattice_static:
  "analyzer_buildLattice fresh ctx None n st = Some (StOk, buildLattice fresh n st)"
  by (simp add: analyzer_buildLattice_def build_boundaries_static buildLattice_def Let_def split: prod.splits)

subsection \<open>The frame of a boundary\<close>

text \<open>Two boundaries differ at most in the entries and patterns of their nodes.\<close>

definition same_frame :: "lattice_boundary \<Rightarrow> lattice_boundary \<Rightarrow> bool" where
  "same_frame b b' \<longleftrightarrow> bd_left b' = bd_left b \<and> bd_cfg b' = bd_cfg b \<and> bd_scores b' = bd_scores b \<and> bd_currentEnding b' = bd_currentEnding b
     \<and> rb_nodeInfo (bd_right b') = rb_nodeInfo (bd_right b) \<and> rb_beam (bd_right b') = rb_beam (bd_right b)
     \<and> length (rb_patterns (bd_right b')) = length (rb_patterns (bd_right b))"

lemma same_frame_refl: "same_frame b b"
  by (simp add: same_frame_def)

lemma same_frame_trans: "same_frame a b \<Longrightarrow> same_frame b c \<Longrightarrow> same_frame a c"
  by (simp add: same_frame_def)

lemma same_frame_sets:
  "same_frame b (set_entryData es b)"
  "length ps = length (rb_patterns (bd_right b)) \<Longrightarrow> same_frame b (set_patterns ps b)"
  by (simp_all add: same_frame_def set_entryData_def set_patterns_def)

lemma same_frame_addEnd: "same_frame b b' \<Longrightarrow> same_frame (addEnd p b) (addEnd p b')"
  by (simp add: same_frame_def addEnd_def)

lemma applyBatch_length: "pda_applyBatch ctx a nis entries results = Some rows \<Longrightarrow> length rows = length results"
  by (induction ctx a nis entries results arbitrary: rows rule: pda_applyBatch.induct) (auto split: option.splits)

lemma importEntryData_frame: "importEntryData ctx b = Some (st, b') \<Longrightarrow> same_frame b b'"
  by (auto simp: importEntryData_def intro: same_frame_sets(1))

lemma patternFeaturesDynamic_frame: "patternFeaturesDynamic ctx a b = Some b' \<Longrightarrow> same_frame b b'"
  by (auto simp: patternFeaturesDynamic_def intro!: same_frame_sets(2) dest: applyBatch_length)

text \<open>Two lattices of boundaries with the same frames.\<close>

definition same_frames :: "lattice \<Rightarrow> lattice \<Rightarrow> bool" where
  "same_frames l l' \<longleftrightarrow> lt_config l' = lt_config l \<and> list_all2 same_frame (lt_boundaries l) (lt_boundaries l')"

lemma same_frames_refl: "same_frames l l"
  by (simp add: same_frames_def list.rel_refl same_frame_refl)

lemma same_frames_count: "same_frames l l' \<Longrightarrow> length (lt_boundaries l') = length (lt_boundaries l)"
  by (auto simp: same_frames_def dest: list_all2_lengthD)

lemma same_frames_boundary: "same_frames l l' \<Longrightarrow> k < length (lt_boundaries l) \<Longrightarrow> same_frame (boundary l k) (boundary l' k)"
  by (simp add: same_frames_def boundary_def list_all2_nthD)

lemma same_frames_trans: "same_frames a b \<Longrightarrow> same_frames b c \<Longrightarrow> same_frames a c"
  unfolding same_frames_def using list_all2_trans [of same_frame same_frame same_frame] same_frame_trans by fastforce

lemma same_frames_update:
  assumes "same_frames l l'" "k < length (lt_boundaries l) \<Longrightarrow> same_frame (f (boundary l k)) (g (boundary l' k))"
  shows "same_frames (update_boundary k f l) (update_boundary k g l')"
proof (cases "k < length (lt_boundaries l)")
  case True
  then show ?thesis using assms by (auto simp: same_frames_def update_boundary_def boundary_def intro!: list_all2_update_cong)
next
  case False
  then show ?thesis using assms(1) same_frames_count [OF assms(1)] by (simp add: same_frames_def update_boundary_def list_update_beyond)
qed

lemma same_frames_right:
  assumes "k < length (lt_boundaries l)" "same_frame (boundary l k) b'"
  shows "same_frames l (update_boundary k (\<lambda>_. b') l)"
proof -
  have "update_boundary k (\<lambda>b. b) l = l" by (simp add: update_boundary_def)
  moreover have "same_frames (update_boundary k (\<lambda>b. b) l) (update_boundary k (\<lambda>_. b') l)"
    by (rule same_frames_update [OF same_frames_refl]) (use assms(2) in simp)
  ultimately show ?thesis by simp
qed

lemma same_frames_append:
  "same_frames l l' \<Longrightarrow> same_frames (l\<lparr>lt_boundaries := lt_boundaries l @ [b]\<rparr>) (l'\<lparr>lt_boundaries := lt_boundaries l' @ [b]\<rparr>)"
  by (simp add: same_frames_def list_all2_appendI same_frame_refl)

lemma makeBoundary_frames:
  assumes "same_frames l l'"
  shows "fst (makeBoundary fresh lbc l') = fst (makeBoundary fresh lbc l)"
    "same_frames (snd (makeBoundary fresh lbc l)) (snd (makeBoundary fresh lbc l'))"
proof -
  have "lt_config l' = lt_config l" using assms by (simp add: same_frames_def)
  then show "same_frames (snd (makeBoundary fresh lbc l)) (snd (makeBoundary fresh lbc l'))"
    using same_frames_append [OF assms] by (simp add: makeBoundary_def)
qed (simp add: makeBoundary_def same_frames_count [OF assms])

lemma construct_frames:
  assumes "same_frames l l'"
  shows "fst (constructSingleBoundary fresh k (b, l')) = fst (constructSingleBoundary fresh k (b, l))"
    "fst (snd (constructSingleBoundary fresh k (b, l'))) = fst (snd (constructSingleBoundary fresh k (b, l)))"
    "same_frames (snd (snd (constructSingleBoundary fresh k (b, l)))) (snd (snd (constructSingleBoundary fresh k (b, l'))))"
    "fst (constructSingleBoundary fresh k (b, l)) = length (lt_boundaries l)"
    "length (lt_boundaries (snd (snd (constructSingleBoundary fresh k (b, l))))) = Suc (length (lt_boundaries l))"
proof -
  have c: "lt_config l' = lt_config l" using assms by (simp add: same_frames_def)
  note defs = constructSingleBoundary_def makeBoundary_def update_boundary_def Let_def prod.case fst_conv snd_conv
  show "fst (constructSingleBoundary fresh k (b, l')) = fst (constructSingleBoundary fresh k (b, l))"
    "fst (constructSingleBoundary fresh k (b, l)) = length (lt_boundaries l)"
    using same_frames_count [OF assms] by (simp_all only: defs)
  show "fst (snd (constructSingleBoundary fresh k (b, l'))) = fst (snd (constructSingleBoundary fresh k (b, l)))"
    "length (lt_boundaries (snd (snd (constructSingleBoundary fresh k (b, l))))) = Suc (length (lt_boundaries l))"
    by (simp_all add: defs)
  show "same_frames (snd (snd (constructSingleBoundary fresh k (b, l)))) (snd (snd (constructSingleBoundary fresh k (b, l'))))"
    using same_frames_append [OF assms] by (simp add: defs c)
qed

lemma try_boundary_frames:
  assumes "try_boundary k f l = Some l'" "k < length (lt_boundaries l)" "\<And>b'. f (boundary l k) = Some b' \<Longrightarrow> same_frame (boundary l k) b'"
  shows "same_frames l l'"
  using assms by (auto simp: try_boundary_def intro: same_frames_right)

lemma build_boundary_frames:
  assumes "same_frames l0 l" "build_boundary fresh ctx dynamic k (b, l) = Some (StOk, b', l')"
  shows "b' = fst (snd (constructSingleBoundary fresh k (b, l0)))" "same_frames (snd (snd (constructSingleBoundary fresh k (b, l0)))) l'"
proof -
  obtain bnd b1 l1 where c: "constructSingleBoundary fresh k (b, l) = (bnd, b1, l1)" by (cases "constructSingleBoundary fresh k (b, l)")
  note f = construct_frames [OF assms(1), of fresh k b, unfolded c fst_conv snd_conv]
  have bnd: "bnd < length (lt_boundaries l1)" using f(1,4,5) same_frames_count [OF f(3)] by simp
  have l': "b' = b1 \<and> same_frames l1 l'"
  proof (cases dynamic)
    case None
    then show ?thesis using assms(2) by (simp add: build_boundary_def c same_frames_refl)
  next
    case (Some a)
    from assms(2) Some obtain status lb where imp: "importEntryData ctx (boundary l1 bnd) = Some (status, lb)"
      by (auto simp: build_boundary_def c split: option.splits)
    let ?l2 = "update_boundary bnd (\<lambda>_. lb) l1"
    have f2: "same_frames l1 ?l2" by (rule same_frames_right [OF bnd importEntryData_frame [OF imp]])
    have bnd2: "bnd < length (lt_boundaries ?l2)" using bnd by (simp add: update_boundary_def)
    have "b' = b1 \<and> (l' = ?l2 \<or> try_boundary bnd (patternFeaturesDynamic ctx a) ?l2 = Some l')"
      using assms(2) Some imp by (auto simp: build_boundary_def c Let_def split: option.splits if_splits)
    moreover have "same_frames ?l2 m" if "try_boundary bnd (patternFeaturesDynamic ctx a) ?l2 = Some m" for m
      by (rule try_boundary_frames [OF that bnd2]) (rule patternFeaturesDynamic_frame)
    ultimately show ?thesis using f2 same_frames_trans [OF f2] by blast
  qed
  show "b' = fst (snd (constructSingleBoundary fresh k (b, l0)))" using l' f(2) by simp
  show "same_frames (snd (snd (constructSingleBoundary fresh k (b, l0)))) l'" using l' same_frames_trans [OF f(3)] by blast
qed

lemma build_boundaries_frames:
  assumes "same_frames l0 l" "build_boundaries fresh ctx dynamic ks (b, l) = Some (StOk, b', l')"
  shows "fst (fold (\<lambda>k st. snd (constructSingleBoundary fresh k st)) ks (b, l0)) = b'
    \<and> same_frames (snd (fold (\<lambda>k st. snd (constructSingleBoundary fresh k st)) ks (b, l0))) l'"
  using assms
proof (induction ks arbitrary: b l0 l)
  case (Cons k ks)
  from Cons.prems(2) obtain b1 l1 where 1: "build_boundary fresh ctx dynamic k (b, l) = Some (StOk, b1, l1)"
    "build_boundaries fresh ctx dynamic ks (b1, l1) = Some (StOk, b', l')" by (auto split: option.splits if_splits)
  note f = build_boundary_frames [OF Cons.prems(1) 1(1)]
  have "snd (constructSingleBoundary fresh k (b, l0)) = (b1, snd (snd (constructSingleBoundary fresh k (b, l0))))" using f(1) by simp
  then show ?case using Cons.IH [OF f(2) 1(2)] by simp
qed simp

lemma makeEos_frames:
  assumes "same_frames l l'"
  shows "same_frames (makeEos fresh b l) (makeEos fresh b l')" "length (lt_boundaries (makeEos fresh b l')) = Suc (length (lt_boundaries l'))"
proof -
  have c: "lt_config l' = lt_config l" using assms by (simp add: same_frames_def)
  show "same_frames (makeEos fresh b l) (makeEos fresh b l')"
    using same_frames_append [OF assms] by (simp add: makeEos_def makeBoundary_def update_boundary_def Let_def c)
qed (simp add: makeEos_def makeBoundary_def update_boundary_def Let_def)

lemma fillEnds_frames:
  assumes "same_frames l l'"
  shows "same_frames (fillEnds b l) (fillEnds b l')"
proof -
  have one: "same_frames (update_boundary k (addEnd p) m) (update_boundary k (addEnd p) m')" if "same_frames m m'" for k p m m'
    using same_frames_update [OF that] same_frame_addEnd same_frames_boundary [OF that] by blast
  have step: "same_frames (fill_end b i m) (fill_end b i m')" if "same_frames m m'" for i m m'
    using that one by (simp add: fill_end_def Let_def)
  have "same_frames (fold (fill_end b) xs m) (fold (fill_end b) xs m')" if "same_frames m m'" for xs m m'
    using that by (induction xs arbitrary: m m') (simp_all add: step)
  then show ?thesis by (simp add: fillEnds_def Let_def one assms)
qed

text \<open>The features are the only difference to the lattice without them.\<close>

lemma buildLattice_frames:
  assumes "analyzer_buildLattice fresh ctx dynamic n (b, l) = Some (StOk, b', l')"
  shows "b' = fst (buildLattice fresh n (b, l))" "same_frames (snd (buildLattice fresh n (b, l))) l'"
proof -
  let ?st = "fold (\<lambda>k st. snd (constructSingleBoundary fresh k st)) [0..<n] (b, makeBos fresh l)"
  from assms obtain b1 l1 l2 where 1: "build_boundaries fresh ctx dynamic [0..<n] (b, makeBos fresh l) = Some (StOk, b1, l1)"
    and 2: "(case dynamic of None \<Rightarrow> Some (makeEos fresh b1 l1) | Some a \<Rightarrow> patternFeaturesEos ctx a (makeEos fresh b1 l1)) = Some l2"
    and 3: "b' = b1" "l' = fillEnds b1 l2"
    by (auto simp: analyzer_buildLattice_def Let_def split: option.splits if_splits)
  from build_boundaries_frames [OF same_frames_refl 1] have st: "fst ?st = b1" "same_frames (snd ?st) l1" by auto
  show "b' = fst (buildLattice fresh n (b, l))" using st(1) 3(1) by (simp add: buildLattice_def Let_def)
  note eos = makeEos_frames [OF st(2), of fresh b1]
  have "same_frames (makeEos fresh b1 l1) l2"
  proof (cases dynamic)
    case (Some a)
    let ?k = "createdBoundaryCount (makeEos fresh b1 l1) - 1" and ?m = "makeEos fresh b1 l1"
    have k: "?k < length (lt_boundaries ?m)" using eos(2) by (simp add: createdBoundaryCount_def)
    have t: "try_boundary ?k (\<lambda>lb. patternFeaturesDynamic ctx a (fill_eos lb)) ?m = Some l2"
      using 2 Some by (simp add: patternFeaturesEos_def)
    show ?thesis
    proof (rule try_boundary_frames [OF t k])
      fix b' assume "patternFeaturesDynamic ctx a (fill_eos (boundary ?m ?k)) = Some b'"
      from same_frame_trans [OF same_frame_sets(1) patternFeaturesDynamic_frame [OF this [unfolded fill_eos_def]]]
      show "same_frame (boundary ?m ?k) b'" .
    qed
  qed (use 2 in \<open>simp add: same_frames_refl\<close>)
  from fillEnds_frames [OF same_frames_trans [OF eos(1) this], of b1]
  show "same_frames (snd (buildLattice fresh n (b, l))) l'" using st(1) by (simp add: buildLattice_def Let_def 3(2))
qed

subsection \<open>When building succeeds\<close>

text \<open>A node whose entry can be read, in a lattice with \<open>m\<close> features for each entry.\<close>

definition readable :: "prim_context \<Rightarrow> nat \<Rightarrow> node_info \<Rightarrow> bool" where
  "readable ctx m ni = (case importOneEntry ctx ni (replicate m 0) of Some (ok, _) \<Rightarrow> ok | None \<Rightarrow> False)"

text \<open>
  A condition for the proofs, not a part of the code: a feature reads inside of the entry, of the table of extra nodes and of the input. The features for the length of a field never do so at EOS, whose entry
  is filled with its negative pointer, so that the condition excludes every specification that has one.
\<close>

fun prim_fits :: "prim_context \<Rightarrow> nat \<Rightarrow> node_info \<Rightarrow> prim_impl \<Rightarrow> bool" where
  "prim_fits ctx m ni (CopyPrim fieldIdx) \<longleftrightarrow> unat fieldIdx < m"
| "prim_fits ctx m ni (ShiftMaskPrim fieldIdx shift msk) \<longleftrightarrow> unat fieldIdx < m"
| "prim_fits ctx m ni (ProvidedPrim providedIdx) \<longleftrightarrow> providedFeature ctx (ni_entryPtr ni) providedIdx \<noteq> None"
| "prim_fits ctx m ni (ByteLengthPrim fieldIdx field) \<longleftrightarrow> False"
| "prim_fits ctx m ni (CodepointLengthPrim fieldIdx field) \<longleftrightarrow> False"
| "prim_fits ctx m ni SurfaceCodepointLengthPrim \<longleftrightarrow> True"
| "prim_fits ctx m ni (CodepointPrim offset) \<longleftrightarrow> True"
| "prim_fits ctx m ni (CodepointTypePrim offset) \<longleftrightarrow> (offset = 0 \<longrightarrow> unat (ni_end ni) \<le> length (pc_codepts ctx))"

fun compute_fits :: "prim_context \<Rightarrow> nat \<Rightarrow> node_info \<Rightarrow> compute_impl \<Rightarrow> bool" where
  "compute_fits ctx m ni (NoopCompute n prim) \<longleftrightarrow> prim_fits ctx m ni prim"
| "compute_fits ctx m ni (ExprCompute n condition ts fs) \<longleftrightarrow>
     prim_fits ctx m ni condition \<and> list_all (prim_fits ctx m ni) ts \<and> list_all (prim_fits ctx m ni) fs"

definition pattern_fits :: "prim_context \<Rightarrow> nat \<Rightarrow> nat \<Rightarrow> pattern_apply \<Rightarrow> node_info \<Rightarrow> bool" where
  "pattern_fits ctx m k a ni \<longleftrightarrow> list_all (\<lambda>p. unat (dp_index p) < k \<and> list_all (compute_fits ctx m ni) (dp_compute p)) (pda_patterns a)"

lemma fold_option_total:
  assumes "P s" "\<And>x s. x \<in> set xs \<Longrightarrow> P s \<Longrightarrow> \<exists>s'. f x s = Some s' \<and> P s'"
  shows "\<exists>s'. fold_option f xs s = Some s' \<and> P s'"
  using assms
proof (induction xs arbitrary: s)
  case (Cons x xs)
  from Cons.prems(2) [of x s] Cons.prems(1) obtain s' where s': "f x s = Some s'" "P s'" by auto
  with Cons.IH [OF s'(2)] Cons.prems(2) show ?case by simp
qed simp

lemma prim_access_fits: "prim_fits ctx (length entry) ni p \<Longrightarrow> \<exists>v. prim_access ctx ni entry p = Some v"
proof (cases p)
  case (CodepointTypePrim offset)
  assume "prim_fits ctx (length entry) ni p"
  then have "offset = 0 \<Longrightarrow> \<exists>v. fold_option (type_step (pc_codepts ctx)) [unat (ni_start ni)..<unat (ni_end ni)] 0 = Some v \<and> True"
    by (intro fold_option_total) (auto simp: CodepointTypePrim type_step_def)
  then show ?thesis by (auto simp: CodepointTypePrim codepointType_access_def)
qed (auto simp: vec_at_def)

lemma mixPrimitives_fits:
  assumes "compute_fits ctx (length entry) ni c"
  shows "\<exists>h'. mixPrimitives ctx ni entry c h = Some h'"
proof -
  have mix: "\<exists>h'. mix_access ctx ni entry p h = Some h'" if "prim_fits ctx (length entry) ni p" for p h
    using prim_access_fits [OF that] by (auto simp: mix_access_def)
  have mixes: "\<exists>h'. fold_option (mix_access ctx ni entry) ps h = Some h'" if "list_all (prim_fits ctx (length entry) ni) ps" for ps h
    using fold_option_total [of "\<lambda>_. True" h ps "mix_access ctx ni entry"] mix that by (auto simp: list_all_iff)
  show ?thesis
  proof (cases c)
    case (ExprCompute n condition ts fs)
    with assms prim_access_fits [of ctx entry ni condition] mixes show ?thesis by auto
  qed (use assms mix in simp)
qed

lemma pda_apply_fits:
  assumes "pattern_fits ctx (length entry) (length row) a ni"
  shows "\<exists>row'. pda_apply ctx ni entry a row = Some row' \<and> length row' = length row"
  unfolding pda_apply_def
proof (rule fold_option_total [where P = "\<lambda>r. length r = length row"])
  fix p and r :: "u64 list" assume p: "p \<in> set (pda_patterns a)" and r: "length r = length row"
  have fits: "unat (dp_index p) < length row" "list_all (compute_fits ctx (length entry) ni) (dp_compute p)"
    using assms p by (auto simp: pattern_fits_def list_all_iff)
  have "\<exists>h. dp_hash ctx ni entry p = Some h \<and> True"
    unfolding dp_hash_def by (rule fold_option_total) (use fits(2) mixPrimitives_fits in \<open>auto simp: list_all_iff\<close>)
  then show "\<exists>r'. dp_apply ctx ni entry p r = Some r' \<and> length r' = length row" using fits(1) r by (auto simp: dp_apply_def)
qed simp

lemma import_readable:
  assumes "readable ctx (length row) ni"
  shows "\<exists>row'. importOneEntry ctx ni row = Some (True, row') \<and> length row' = length row"
  using assms
  by (auto simp: readable_def importOneEntry_def fillEntryBuffer_def Let_def split: if_splits option.splits prod.splits)

lemma import_rows_readable:
  assumes "list_all (readable ctx m) nis" "list_all (\<lambda>row. length row = m) rows" "length nis = length rows"
  shows "\<exists>rows'. import_rows ctx nis rows = Some (True, rows') \<and> list_all (\<lambda>row. length row = m) rows' \<and> length rows' = length rows"
  using assms
proof (induction nis arbitrary: rows)
  case (Cons ni nis)
  then obtain row rows1 where rows: "rows = row # rows1" by (cases rows) auto
  from Cons.prems rows import_readable [of ctx row ni] obtain row' where "importOneEntry ctx ni row = Some (True, row')" "length row' = m" by auto
  with Cons.IH [of rows1] Cons.prems rows show ?case by auto
qed simp

lemma applyBatch_fits:
  assumes "list_all (pattern_fits ctx m k a) nis" "list_all (\<lambda>row. length row = m) entries" "list_all (\<lambda>row. length row = k) rows"
    "length nis = length entries" "length nis = length rows"
  shows "\<exists>rows'. pda_applyBatch ctx a nis entries rows = Some rows'"
  using assms
proof (induction nis arbitrary: entries rows)
  case (Cons ni nis)
  then obtain entry entries1 row rows1 where rows: "entries = entry # entries1" "rows = row # rows1" by (cases entries; cases rows) auto
  from Cons.prems rows pda_apply_fits [of ctx entry row a ni] obtain row' where "pda_apply ctx ni entry a row = Some row'" by auto
  with Cons.IH [of entries1 rows1] Cons.prems rows show ?case by auto
qed simp

lemma built_rows:
  assumes "length ss + 1 < 2 ^ 16"
  shows "rb_nodeInfo (bd_right (built_boundary fresh cfg ss i)) = map seed_node (filter (starts_at i) ss)"
    "rb_entryData (bd_right (built_boundary fresh cfg ss i)) = replicate (num (starts_at i) ss) (replicate (unat (lc_entrySize cfg)) (fm_i32 fresh))"
    "rb_patterns (bd_right (built_boundary fresh cfg ss i)) = replicate (num (starts_at i) ss) (replicate (unat (lc_numFeaturePatterns cfg)) (fm_u64 fresh))"
  using num_u32 [OF assms]
  by (simp_all add: built_boundary_def set_nodes_def mk_boundary_def mk_right_boundary_def allocate2d_def mk_lbc_def del: unat_of_nat)

text \<open>All entries of the seeds can be read, and the features read inside.\<close>

definition features_fit :: "prim_context \<Rightarrow> lattice_config \<Rightarrow> pattern_apply \<Rightarrow> node_seed list \<Rightarrow> nat \<Rightarrow> bool" where
  "features_fit ctx cfg a ss n \<longleftrightarrow>
     list_all (\<lambda>s. readable ctx (unat (lc_entrySize cfg)) (seed_node s)) ss
     \<and> list_all (pattern_fits ctx (unat (lc_entrySize cfg)) (unat (lc_numFeaturePatterns cfg)) a)
         (map seed_node ss @ [mk_node_info EntryPtr_EOS (word_of_nat n) (word_of_nat n)])"

lemma build_boundary_succeeds:
  assumes ok: "seeds_ok b n" and i: "i < n" and b': "lbd_boundaries b' = lbd_boundaries (prepare b)" "lbd_seeds b' = lbd_seeds b"
    and fits: "features_fit ctx (lt_config l) a (lbd_seeds b) n"
  shows "\<exists>l'. build_boundary fresh ctx (Some a) i (b', l) = Some (StOk, connect (lbd_seeds b) i b', l') \<and> lt_config l' = lt_config l"
proof -
  let ?bd = "built_boundary fresh (lt_config l) (lbd_seeds b) i" and ?m = "unat (lc_entrySize (lt_config l))"
    and ?k = "unat (lc_numFeaturePatterns (lt_config l))"
  define bnd where "bnd = length (lt_boundaries l)"
  let ?l1 = "l\<lparr>lt_boundaries := lt_boundaries l @ [?bd]\<rparr>"
  have c: "constructSingleBoundary fresh i (b', l) = (bnd, connect (lbd_seeds b) i b', ?l1)"
    using construct_step [OF ok i b', of fresh l] construct_frames(4) [OF same_frames_refl, of fresh i b' l]
    by (simp add: prod_eq_iff connect_def bnd_def)
  have len: "length (lbd_seeds b) + 1 < 2 ^ 16" using ok by (simp add: seeds_ok_def)
  note rows = built_rows [OF len, of fresh "lt_config l" i]
  have nodes: "set (rb_nodeInfo (bd_right ?bd)) \<subseteq> seed_node ` set (lbd_seeds b)" by (auto simp: rows)
  have n: "length (rb_nodeInfo (bd_right ?bd)) = num (starts_at i) (lbd_seeds b)" by (simp add: rows num_def)
  have "\<exists>es. import_rows ctx (rb_nodeInfo (bd_right ?bd)) (rb_entryData (bd_right ?bd)) = Some (True, es) \<and> list_all (\<lambda>row. length row = ?m) es
      \<and> length es = length (rb_entryData (bd_right ?bd))"
    by (rule import_rows_readable) (use fits nodes n in \<open>auto simp: features_fit_def list_all_iff rows(2)\<close>)
  then obtain es where es: "import_rows ctx (rb_nodeInfo (bd_right ?bd)) (rb_entryData (bd_right ?bd)) = Some (True, es)"
    "list_all (\<lambda>row. length row = ?m) es" "length es = length (rb_entryData (bd_right ?bd))" by blast
  have "\<exists>ps. pda_applyBatch ctx a (rb_nodeInfo (bd_right ?bd)) es (rb_patterns (bd_right ?bd)) = Some ps"
    by (rule applyBatch_fits [OF _ es(2), of _ ?k]) (use fits nodes n es(3) in \<open>auto simp: features_fit_def list_all_iff rows(2,3)\<close>)
  then obtain ps where ps: "pda_applyBatch ctx a (rb_nodeInfo (bd_right ?bd)) es (rb_patterns (bd_right ?bd)) = Some ps" ..
  have bd: "boundary ?l1 bnd = ?bd" by (simp add: boundary_def bnd_def)
  have imp: "importEntryData ctx ?bd = Some (StOk, set_entryData es ?bd)" by (simp add: importEntryData_def es(1))
  have pat: "try_boundary bnd (patternFeaturesDynamic ctx a) (update_boundary bnd (\<lambda>_. set_entryData es ?bd) ?l1) \<noteq> None"
    using ps by (simp add: try_boundary_def patternFeaturesDynamic_def boundary_def update_boundary_def bnd_def set_entryData_def)
  have cfg: "lt_config m = lt_config l0" if "try_boundary bnd f l0 = Some m" for f l0 m
    using that by (auto simp: try_boundary_def update_boundary_def)
  show ?thesis unfolding build_boundary_def c prod.case option.case bd imp Let_def
    using pat cfg by (auto simp: update_boundary_def)
qed

lemma build_boundaries_succeed:
  assumes "seeds_ok b n" "features_fit ctx (lt_config l) a (lbd_seeds b) n" "set ks \<subseteq> {..<n}"
    and "lbd_boundaries b' = lbd_boundaries (prepare b)" "lbd_seeds b' = lbd_seeds b"
  shows "\<exists>l'. build_boundaries fresh ctx (Some a) ks (b', l) = Some (StOk, fold (connect (lbd_seeds b)) ks b', l') \<and> lt_config l' = lt_config l"
  using assms(2-5)
proof (induction ks arbitrary: b' l)
  case (Cons k ks)
  have "k < n" using Cons.prems(2) by simp
  from build_boundary_succeeds [OF assms(1) this Cons.prems(3,4,1)] obtain l1
    where "build_boundary fresh ctx (Some a) k (b', l) = Some (StOk, connect (lbd_seeds b) k b', l1)" "lt_config l1 = lt_config l" by blast
  with Cons.IH [of l1 "connect (lbd_seeds b) k b'"] Cons.prems show ?case by (simp add: connect_def)
qed simp

lemma building_succeeds:
  assumes ok: "seeds_ok b n" and fits: "features_fit ctx cfg a (lbd_seeds b) n"
  shows "\<exists>b' l. analyzer_buildLattice fresh ctx (Some a) n (prepare b, lattice_new cfg) = Some (StOk, b', l)"
proof -
  have "set [0..<n] \<subseteq> {..<n}" by auto
  moreover have "lt_config (makeBos fresh (lattice_new cfg)) = cfg" by (simp add: makeBos_skeleton)
  ultimately obtain l1 where l1: "build_boundaries fresh ctx (Some a) [0..<n] (prepare b, makeBos fresh (lattice_new cfg))
      = Some (StOk, fold (connect (lbd_seeds b)) [0..<n] (prepare b), l1)" "lt_config l1 = cfg"
    using build_boundaries_succeed [OF ok, of ctx "makeBos fresh (lattice_new cfg)" a "[0..<n]" "prepare b" fresh] fits by auto
  let ?b = "fold (connect (lbd_seeds b)) [0..<n] (prepare b)" and ?eos = "eos_boundary fresh cfg (lbd_seeds b) n"
  have eos: "makeEos fresh ?b l1 = l1\<lparr>lt_boundaries := lt_boundaries l1 @ [?eos]\<rparr>"
    using makeEos_skeleton [OF ok, of ?b fresh l1] l1(2) by simp
  have parts: "rb_nodeInfo (bd_right ?eos) = [mk_node_info EntryPtr_EOS (word_of_nat n) (word_of_nat n)]"
    "rb_entryData (bd_right ?eos) = [replicate (unat (lc_entrySize cfg)) (fm_i32 fresh)]"
    "rb_patterns (bd_right ?eos) = [replicate (unat (lc_numFeaturePatterns cfg)) (fm_u64 fresh)]"
    by (simp_all add: eos_boundary_def addEos_def set_node_def mk_boundary_def mk_right_boundary_def allocate2d_def mk_lbc_def)
  have "\<exists>ps. pda_applyBatch ctx a (rb_nodeInfo (bd_right (fill_eos ?eos))) (rb_entryData (bd_right (fill_eos ?eos))) (rb_patterns (bd_right (fill_eos ?eos))) = Some ps"
    by (rule applyBatch_fits [of ctx "unat (lc_entrySize cfg)" "unat (lc_numFeaturePatterns cfg)"])
      (use fits in \<open>simp_all add: features_fit_def fill_eos_def set_entryData_def parts\<close>)
  then obtain l2 where "patternFeaturesEos ctx a (makeEos fresh ?b l1) = Some l2"
    by (auto simp: patternFeaturesEos_def try_boundary_def patternFeaturesDynamic_def createdBoundaryCount_def boundary_def eos)
  then show ?thesis by (simp add: analyzer_buildLattice_def l1(1) Let_def)
qed

end
