(* ===== verification/BuiltLattice.thy ===== *)
theory BuiltLattice
  imports NodeFeatures FullSearch
begin

text \<open>
  The lattice that is built from seeds satisfies what the search asks of a lattice (\<open>lattice_fits\<close>, \<open>bos_fits\<close>, \<open>ends_in_eos\<close>), when the numbers of the
  search stay in their types.
\<close>

subsection \<open>The built lattice is ready for the search\<close>

lemma add_ends_kept:
  "bd_cfg (add_ends ps b) = bd_cfg b" "bd_scores (add_ends ps b) = bd_scores b" "bd_right (add_ends ps b) = bd_right b"
  by (induction ps arbitrary: b) (simp_all add: add_ends_def addEnd_def)

lemma fold_ends_kept:
  "lt_config (fold (\<lambda>(i, p). update_boundary i (addEnd p)) ts l) = lt_config l"
  "length (lt_boundaries (fold (\<lambda>(i, p). update_boundary i (addEnd p)) ts l)) = length (lt_boundaries l)"
  by (induction ts arbitrary: l) (auto simp: update_boundary_def)

lemma built_shape:
  fixes fresh cfg
  assumes "seeds_ok b n"
  defines "l \<equiv> snd (buildLattice fresh n (prepare b, lattice_new cfg))"
  shows "lt_config l = cfg" "length (lt_boundaries l) = n + 3"
    "k < n + 3 \<Longrightarrow> bd_cfg (boundary l k) = bd_cfg (lattice_skeleton fresh cfg (lbd_seeds b) n ! k)
       \<and> bd_scores (boundary l k) = bd_scores (lattice_skeleton fresh cfg (lbd_seeds b) n ! k)
       \<and> bd_right (boundary l k) = bd_right (lattice_skeleton fresh cfg (lbd_seeds b) n ! k)"
proof -
  let ?l = "\<lparr>lt_boundaries = lattice_skeleton fresh cfg (lbd_seeds b) n, lt_config = cfg\<rparr>"
  show "lt_config l = cfg" "length (lt_boundaries l) = n + 3"
    by (simp_all add: l_def buildLattice_skeleton [OF assms(1)] fold_ends_kept skeleton_boundary(1))
  assume "k < n + 3"
  then have "k < length (lt_boundaries ?l)" by (simp add: skeleton_boundary(1))
  from fold_update_boundary [OF this, of "end_targets (lbd_seeds b)"]
  have "boundary l k = add_ends (map snd (filter (\<lambda>t. fst t = k) (end_targets (lbd_seeds b)))) (lattice_skeleton fresh cfg (lbd_seeds b) n ! k)"
    by (simp add: l_def buildLattice_skeleton [OF assms(1)] boundary_def [of ?l])
  then show "bd_cfg (boundary l k) = bd_cfg (lattice_skeleton fresh cfg (lbd_seeds b) n ! k)
       \<and> bd_scores (boundary l k) = bd_scores (lattice_skeleton fresh cfg (lbd_seeds b) n ! k)
       \<and> bd_right (boundary l k) = bd_right (lattice_skeleton fresh cfg (lbd_seeds b) n ! k)"
    by (simp add: add_ends_kept)
qed

text \<open>The counts of the nodes that start and end at a position of the input; EOS starts at its end, BOS ends at its start.\<close>

definition starts_of :: "node_seed list \<Rightarrow> nat \<Rightarrow> nat \<Rightarrow> nat" where
  "starts_of ss n i = (if i < n then num (starts_at i) ss else 1)"

definition ends_of :: "node_seed list \<Rightarrow> nat \<Rightarrow> nat" where
  "ends_of ss i = num (ends_at i) ss + (if i = 0 then 1 else 0)"

lemma skeleton_lbc:
  fixes fresh cfg ss n
  assumes "i \<le> n"
  defines "bd \<equiv> lattice_skeleton fresh cfg ss n ! (i + 2)"
  obtains k where "bd_cfg bd = mk_lbc k (word_of_nat (ends_of ss i)) (word_of_nat (starts_of ss n i))"
    "bd_scores bd = mk_boundary_scores fresh cfg (bd_cfg bd)"
    "rb_patterns (bd_right bd) = allocate2d (lbc_beginNodes (bd_cfg bd)) (lc_numFeaturePatterns cfg) (fm_u64 fresh)"
    "rb_beam (bd_right bd) = allocate2d (lbc_beginNodes (bd_cfg bd)) (lc_beamSize cfg) (fm_beam fresh)"
proof (cases "i < n")
  case True
  then have bd: "bd = built_boundary fresh cfg ss i" by (simp only: bd_def skeleton_boundary)
  show thesis
    by (rule that [of "word_of_nat i + 2"]) (simp_all only: bd built_boundary_def set_nodes_def mk_boundary_def mk_right_boundary_def starts_of_def ends_of_def True
        if_True lattice_boundary.simps right_boundary.simps lattice_boundary.ext_inject)
next
  case False
  then have "i = n" using assms(1) by simp
  then have bd: "bd = eos_boundary fresh cfg ss n" by (simp only: bd_def skeleton_boundary)
  show thesis
    by (rule that [of "word_of_nat (n + 1) + 2"]) (simp_all add: bd eos_boundary_def addEos_def set_node_def mk_boundary_def mk_right_boundary_def starts_of_def ends_of_def
        \<open>i = n\<close>)
qed

lemma end_ptr_parts:
  assumes ok: "seeds_ok b n" and k: "k < length (lbd_seeds b)"
  shows "unat (np_boundary (end_ptr (lbd_seeds b) k)) = unat (sd_start (lbd_seeds b ! k)) + 2"
    "unat (np_position (end_ptr (lbd_seeds b) k)) < num (starts_at (unat (sd_start (lbd_seeds b ! k)))) (lbd_seeds b)"
proof -
  let ?ss = "lbd_seeds b" and ?s = "lbd_seeds b ! k"
  let ?f = "num (\<lambda>s. unat (sd_start s) < unat (sd_start ?s)) ?ss"
  have so: "sorted (map (\<lambda>s. unat (sd_start s)) ?ss)" using ok by (simp add: seeds_ok_def)
  note sl = slice_index [OF so k]
  have "?s \<in> set ?ss" using k by simp
  then have st: "unat (sd_start ?s) < n" "n + 3 < 2 ^ 16" "length ?ss + 1 < 2 ^ 16"
    using ok by (auto simp: seeds_ok_def list_all_iff dest!: bspec [of _ _ ?s])
  have "unat (sd_start ?s + 2) = unat (sd_start ?s) + 2" using st(1,2) by (intro trans [OF unat_add_small]) simp_all
  then show "unat (np_boundary (end_ptr ?ss k)) = unat (sd_start ?s) + 2" by (simp only: end_ptr_def mk_node_ptr_def lattice_node_ptr.simps)
  have "(word_of_nat k - word_of_nat ?f :: u32) = word_of_nat (k - ?f)" using sl(1) by (simp add: of_nat_diff)
  moreover have "unat (ucast (word_of_nat (k - ?f) :: u32) :: u16) = k - ?f"
    using st(3) k by (simp add: unsigned_ucast_eq unsigned_of_nat take_bit_nat_eq_self)
  ultimately have "unat (np_position (end_ptr ?ss k)) = k - ?f" by (simp add: end_ptr_def mk_node_ptr_def)
  then show "unat (np_position (end_ptr ?ss k)) < num (starts_at (unat (sd_start ?s))) ?ss"
    using sl(2) by (simp add: starts_at_def [abs_def])
qed

text \<open>
  The numbers of the search stay in their types: fewer than \<open>2 ^ 15\<close> seeds for the packed candidates, a beam of at most 65535 elements, and the scores
  of one node fit a 32-bit index.
\<close>

definition search_room :: "lattice_config \<Rightarrow> lattice_builder \<Rightarrow> bool" where
  "search_room cfg b \<longleftrightarrow> 0 < lc_beamSize cfg \<and> lc_beamSize cfg < 0x10000 \<and> 0 < lc_scoreCnt cfg \<and> length (lbd_seeds b) + 1 < 2 ^ 15
     \<and> unat (lc_beamSize cfg) * (length (lbd_seeds b) + 1) * unat (lc_scoreCnt cfg) < 2 ^ 32"

lemma counts_small:
  assumes "search_room cfg b"
  shows "ends_of (lbd_seeds b) i < 2 ^ 15" "starts_of (lbd_seeds b) n i < 2 ^ 15"
    "unat (word_of_nat (ends_of (lbd_seeds b) i) :: u32) = ends_of (lbd_seeds b) i"
    "unat (word_of_nat (starts_of (lbd_seeds b) n i) :: u32) = starts_of (lbd_seeds b) n i"
    "ends_of (lbd_seeds b) i \<le> length (lbd_seeds b) + 1"
proof -
  show e: "ends_of (lbd_seeds b) i < 2 ^ 15" and s: "starts_of (lbd_seeds b) n i < 2 ^ 15" and "ends_of (lbd_seeds b) i \<le> length (lbd_seeds b) + 1"
    using assms num_le [of "ends_at i" "lbd_seeds b"] num_le [of "starts_at i" "lbd_seeds b"]
    by (auto simp: search_room_def ends_of_def starts_of_def)
  show "unat (word_of_nat (ends_of (lbd_seeds b) i) :: u32) = ends_of (lbd_seeds b) i"
    "unat (word_of_nat (starts_of (lbd_seeds b) n i) :: u32) = starts_of (lbd_seeds b) n i"
    using e s by (auto intro!: unat_u32)
qed

lemma new_scores_ok:
  assumes "0 < scnt" "unat nb * L * unat scnt < 2 ^ 32" "0 < nb" "unat (word_of_nat L :: u32) = L"
    and "lc_beamSize cfg = nb" "lc_scoreCnt cfg = scnt"
  shows "scores_ok (unat (lbc_beginNodes lbc)) (mk_boundary_scores fresh cfg (lbc\<lparr>lbc_endNodes := word_of_nat L\<rparr>))"
proof -
  have nb: "0 < unat nb" "0 < unat scnt" using assms(1,3) by (simp_all add: word_less_nat_alt)
  have le: "L * unat scnt \<le> unat nb * L * unat scnt" using nb(1) by (simp add: mult.assoc)
  have le2: "unat nb * L \<le> unat nb * L * unat scnt" using nb(2) by simp
  have "unat nb * L < 2 ^ 32" using le2 assms(2) by linarith
  then have 1: "unat (nb * word_of_nat L) = unat nb * L"
    using assms(4) by (simp add: unat_word_ariths(2) del: unat_of_nat)
  have "unat (nb * word_of_nat L * scnt) = unat nb * L * unat scnt"
    using assms(2) by (subst unat_word_ariths(2)) (simp add: 1 del: unat_of_nat)
  moreover have "L * unat scnt < 2 ^ 32" using le assms(2) by linarith
  ultimately show ?thesis using assms nb(2) by (simp add: scores_ok_def mk_boundary_scores_def Let_def list_all_iff del: unat_of_nat)
qed

lemma built_boundary_counts:
  assumes ok: "seeds_ok b n" and room: "search_room cfg b" and frames: "same_frames (snd (buildLattice fresh n (prepare b, lattice_new cfg))) l" and i: "i \<le> n" "kk = i + 2"
  shows "unat (localNodeCount (boundary l kk)) = starts_of (lbd_seeds b) n i" "length (boundary_patterns l kk) = starts_of (lbd_seeds b) n i"
    "length (rb_beam (bd_right (boundary l kk))) = starts_of (lbd_seeds b) n i"
    "scores_ok (starts_of (lbd_seeds b) n i) (bd_scores (boundary l kk))" "bs_numBeam (bd_scores (boundary l kk)) = lc_beamSize cfg"
    "unat (bs_numLeft (bd_scores (boundary l kk))) = ends_of (lbd_seeds b) i"
    "lb_endingNodes (bd_left (boundary l kk)) = (if i = 0 then [mk_node_ptr 1 0] else [])
        @ map (end_ptr (lbd_seeds b)) (filter (\<lambda>k. ends_at i (lbd_seeds b ! k)) [0..<length (lbd_seeds b)])"
    "length (lb_endingNodes (bd_left (boundary l kk))) = ends_of (lbd_seeds b) i"
proof -
  let ?l0 = "snd (buildLattice fresh n (prepare b, lattice_new cfg))" and ?ss = "lbd_seeds b"
  note shape = built_shape [OF ok, where fresh = fresh and cfg = cfg]
  have "kk < length (lt_boundaries ?l0)" using shape(2) i by simp
  note fr = same_frames_boundary [OF frames this, unfolded same_frame_def]
  have "kk < n + 3" using i by simp
  note sh = shape(3) [OF this]
  note cs = counts_small [OF room, of i] counts_small(2,4) [OF room, of n i]
  obtain k where sk: "bd_cfg (boundary l kk) = mk_lbc k (word_of_nat (ends_of ?ss i)) (word_of_nat (starts_of ?ss n i))"
    "bd_scores (boundary l kk) = mk_boundary_scores fresh cfg (bd_cfg (boundary l kk))"
    "length (rb_patterns (bd_right (boundary l kk))) = unat (lbc_beginNodes (bd_cfg (boundary l kk)))"
    "length (rb_beam (bd_right (boundary l kk))) = unat (lbc_beginNodes (bd_cfg (boundary l kk)))"
    using skeleton_lbc [OF i(1), where fresh = fresh and cfg = cfg and ss = ?ss, folded i(2)] fr sh by (metis allocate2d_def length_replicate)
  have lbc: "lbc_beginNodes (bd_cfg (boundary l kk)) = word_of_nat (starts_of ?ss n i)" "bd_cfg (boundary l kk) = (mk_lbc k 0 (word_of_nat (starts_of ?ss n i)))\<lparr>lbc_endNodes := word_of_nat (ends_of ?ss i)\<rparr>"
    by (simp_all only: sk(1) mk_lbc_def lattice_boundary_config.simps)
  show "unat (localNodeCount (boundary l kk)) = starts_of ?ss n i" using cs(7) by (simp add: localNodeCount_def lbc(1) del: unat_of_nat)
  show "length (boundary_patterns l kk) = starts_of ?ss n i" "length (rb_beam (bd_right (boundary l kk))) = starts_of ?ss n i"
    using sk(3,4) cs(7) by (simp_all add: boundary_patterns_def lbc(1) del: unat_of_nat)
  show "bs_numBeam (bd_scores (boundary l kk)) = lc_beamSize cfg" "unat (bs_numLeft (bd_scores (boundary l kk))) = ends_of ?ss i"
    using cs(3) by (simp_all add: sk(2) mk_boundary_scores_def Let_def lbc(2) del: unat_of_nat)
  have "unat (lc_beamSize cfg) * ends_of ?ss i * unat (lc_scoreCnt cfg) \<le> unat (lc_beamSize cfg) * (length ?ss + 1) * unat (lc_scoreCnt cfg)"
    using cs(5) by (intro mult_right_mono mult_left_mono) simp_all
  then have "unat (lc_beamSize cfg) * ends_of ?ss i * unat (lc_scoreCnt cfg) < 2 ^ 32" using room unfolding search_room_def by linarith
  from new_scores_ok [OF _ this _ cs(3) refl refl, of "mk_lbc k 0 (word_of_nat (starts_of ?ss n i))" fresh] room cs(7)
  show "scores_ok (starts_of ?ss n i) (bd_scores (boundary l kk))"
    by (simp add: sk(2) lbc(2) search_room_def mk_lbc_def del: unat_of_nat)
  show ends: "lb_endingNodes (bd_left (boundary l kk)) = (if i = 0 then [mk_node_ptr 1 0] else [])
        @ map (end_ptr ?ss) (filter (\<lambda>k. ends_at i (?ss ! k)) [0..<length ?ss])"
    using built_ends(1) [OF ok i(1), of fresh cfg] fr by (simp add: i(2))
  show "length (lb_endingNodes (bd_left (boundary l kk))) = ends_of ?ss i"
    unfolding ends by (simp add: ends_of_def length_filter_nth)
qed

lemma bos_shape:
  assumes ok: "seeds_ok b n" and frames: "same_frames (snd (buildLattice fresh n (prepare b, lattice_new cfg))) l"
  shows "length (lt_boundaries l) = n + 3" "lt_config l = cfg" "j < 2 \<Longrightarrow> map length (rb_beam (bd_right (boundary l j))) = [unat (lc_beamSize cfg)]"
    "map ni_entryPtr (rb_nodeInfo (bd_right (boundary l (n + 2)))) = [EntryPtr_EOS]"
proof -
  let ?l0 = "snd (buildLattice fresh n (prepare b, lattice_new cfg))"
  note shape = built_shape [OF ok, where fresh = fresh and cfg = cfg]
  show "length (lt_boundaries l) = n + 3" "lt_config l = cfg" using same_frames_count [OF frames] shape(1,2) frames by (simp_all add: same_frames_def)
  have fr: "rb_beam (bd_right (boundary l j)) = rb_beam (bd_right (lattice_skeleton fresh cfg (lbd_seeds b) n ! j))"
    "rb_nodeInfo (bd_right (boundary l j)) = rb_nodeInfo (bd_right (lattice_skeleton fresh cfg (lbd_seeds b) n ! j))" if "j < n + 3" for j
    using same_frames_boundary [OF frames, of j] shape(2,3) that by (simp_all add: same_frame_def)
  have "rb_nodeInfo (bd_right (boundary l (n + 2))) = rb_nodeInfo (bd_right (eos_boundary fresh cfg (lbd_seeds b) n))"
    by (subst fr(2)) (simp_all only: skeleton_boundary(3) add_less_cancel_left rel_simps)
  then show "map ni_entryPtr (rb_nodeInfo (bd_right (boundary l (n + 2)))) = [EntryPtr_EOS]"
    by (simp add: eos_boundary_def addEos_def set_node_def mk_boundary_def mk_right_boundary_def mk_lbc_def mk_node_info_def)
  have bos: "map length (rb_beam (bd_right (bos_boundary fresh cfg w))) = [unat (lc_beamSize cfg)]" for w
    by (simp add: bos_boundary_def addBos_def set_node_def mk_boundary_def mk_right_boundary_def mk_lbc_def allocate2d_def Let_def)
  assume "j < 2"
  then consider "j = 0" | "j = 1" by linarith
  then show "map length (rb_beam (bd_right (boundary l j))) = [unat (lc_beamSize cfg)]"
    using bos fr(1) [of j] skeleton_boundary(4,5) [of fresh cfg "lbd_seeds b" n] by cases simp_all
qed

text \<open>The pointers of a boundary lead to nodes that exist, further left.\<close>

lemma end_exists:
  assumes ok: "seeds_ok b n" and room: "search_room cfg b" and frames: "same_frames (snd (buildLattice fresh n (prepare b, lattice_new cfg))) l" and i: "i \<le> n"
    and p: "p \<in> set (lb_endingNodes (bd_left (boundary l (i + 2))))"
  shows "0 < unat (np_boundary p)" "unat (np_boundary p) < i + 2"
    "unat (np_position p) < length (rb_beam (bd_right (boundary l (unat (np_boundary p)))))"
proof -
  note cnt = built_boundary_counts [OF ok room frames _ refl]
  consider "i = 0" "p = mk_node_ptr 1 0" | k where "k < length (lbd_seeds b)" "ends_at i (lbd_seeds b ! k)" "p = end_ptr (lbd_seeds b) k"
    using p unfolding cnt(7) [OF i] by (auto split: if_splits)
  then have "0 < unat (np_boundary p) \<and> unat (np_boundary p) < i + 2 \<and> unat (np_position p) < length (rb_beam (bd_right (boundary l (unat (np_boundary p)))))"
  proof cases
    case 1
    have "length (rb_beam (bd_right (boundary l 1))) = 1" using bos_shape(3) [OF ok frames, of 1] by (metis length_map length_Cons list.size(3) One_nat_def one_less_numeral_iff semiring_norm(76))
    then show ?thesis using 1 by (simp add: mk_node_ptr_def)
  next
    case 2
    note e = end_ptr_parts [OF ok 2(1)]
    have "lbd_seeds b ! k \<in> set (lbd_seeds b)" using 2(1) by simp
    then have s: "unat (sd_start (lbd_seeds b ! k)) < unat (sd_end (lbd_seeds b ! k))" "unat (sd_end (lbd_seeds b ! k)) \<le> n"
      using ok by (auto simp: seeds_ok_def list_all_iff)
    have "unat (sd_end (lbd_seeds b ! k)) = i" using 2(2) by (simp add: ends_at_def)
    moreover have "length (rb_beam (bd_right (boundary l (unat (sd_start (lbd_seeds b ! k)) + 2)))) = num (starts_at (unat (sd_start (lbd_seeds b ! k)))) (lbd_seeds b)"
      using cnt(3) [of "unat (sd_start (lbd_seeds b ! k))"] s by (simp add: starts_of_def)
    ultimately show ?thesis using e s by (simp add: 2(3))
  qed
  then show "0 < unat (np_boundary p)" "unat (np_boundary p) < i + 2"
    "unat (np_position p) < length (rb_beam (bd_right (boundary l (unat (np_boundary p)))))" by simp_all
qed

lemma built_fits:
  assumes ok: "seeds_ok b n" and room: "search_room cfg b" and frames: "same_frames (snd (buildLattice fresh n (prepare b, lattice_new cfg))) l"
  shows "lattice_fits l" "bos_fits l" "ends_in_eos l" "createdBoundaryCount l = n + 3"
proof -
  note shape = bos_shape [OF ok frames]
  note cnt = built_boundary_counts [OF ok room frames _ refl]
  show count: "createdBoundaryCount l = n + 3" by (simp add: createdBoundaryCount_def shape(1))
  show "bos_fits l" using shape(3) [of 0] shape(3) [of 1] by (simp add: bos_fits_def shape(2))
  show "ends_in_eos l" using shape(4) by (simp add: ends_in_eos_def count)
  have "boundary_fits l k" if k: "2 \<le> k" "k < n + 3" for k
  proof -
    define i where "i = k - 2"
    have i: "i \<le> n" "k = i + 2" using k by (simp_all add: i_def)
    note c = cnt [OF i(1)]
    have es: "length (lb_endingNodes (bd_left (boundary l (i + 2)))) < 2 ^ 15" using c(8) counts_small(1) [OF room] by simp
    have "starts_of (lbd_seeds b) n i \<le> 2 ^ 16" using counts_small(2) [OF room, of n i] by simp
    moreover have "ends_before l (i + 2)"
      unfolding ends_before_def list_all_iff using c(6,8) es end_exists(2) [OF ok room frames i(1)] by fastforce
    moreover have "ends_exist l (i + 2)"
      unfolding ends_exist_def list_all_iff using end_exists(2,3) [OF ok room frames i(1)] by blast
    moreover have "list_all (\<lambda>p. 0 < unat (np_boundary p)) (lb_endingNodes (bd_left (boundary l (i + 2))))"
      unfolding list_all_iff using end_exists(1) [OF ok room frames i(1)] by blast
    ultimately show ?thesis unfolding boundary_fits_def Let_def i(2) using c(1-5) by (simp only: shape(2) simp_thms)
  qed
  moreover have "n + 3 \<le> 2 ^ 16" using ok by (simp add: seeds_ok_def)
  ultimately show "lattice_fits l" using room by (simp add: lattice_fits_def count shape(2) search_room_def list_all_iff)
qed

end
