(* ===== verification/Segmentation.thy ===== *)
theory Segmentation
  imports BuiltLattice UnkMakers
begin

text \<open>
  From seeds to a segmentation: when the seeds lead from the start of the input to its end, the best path of the search is a sequence of
  words of which each starts where the one before it ends.
\<close>

subsection \<open>The words of a path tile the input\<close>

text \<open>Every node of a chain starts where the one before it ends, and has at least one code point.\<close>

fun tiles :: "nat \<Rightarrow> nat \<Rightarrow> node_info list \<Rightarrow> bool" where
  "tiles a z [] \<longleftrightarrow> a = z"
| "tiles a z (ni # nis) \<longleftrightarrow> unat (ni_start ni) = a \<and> a < unat (ni_end ni) \<and> tiles (unat (ni_end ni)) z nis"

lemma tiles_snoc:
  "tiles a (unat (ni_start ni)) nis \<Longrightarrow> unat (ni_start ni) < unat (ni_end ni) \<Longrightarrow> tiles a (unat (ni_end ni)) (nis @ [ni])"
  by (induction a "unat (ni_start ni)" nis rule: tiles.induct) auto

lemma searched_mono: "searched fadd weights plugin pn l n \<Longrightarrow> k \<le> n \<Longrightarrow> searched fadd weights plugin pn l k"
  by (auto simp: searched_def beams_linked_def list_all_iff)

text \<open>An element of a beam goes back to an element of the beam of a node that ends where its own node starts.\<close>

lemma element_previous:
  assumes "searched fadd weights plugin pn l (createdBoundaryCount l)" "lattice_fits l" "2 \<le> k" "k < createdBoundaryCount l"
    and i: "i < length (rb_beam (bd_right (boundary l k)))" and m: "m < length (resolveBeamAt l k i)"
  obtains q m' where "cn_previous (be_ptr (beam_row l k i ! m)) = Some (be_ptr (node_beam l q ! m'))"
    "q \<in> set (lb_endingNodes (bd_left (boundary l k)))" "m' < length (resolveBeamAt l (unat (np_boundary q)) (unat (np_position q)))"
proof -
  let ?ends = "lb_endingNodes (bd_left (boundary l k))" and ?n = "unat (lc_beamSize (lt_config l))"
  let ?best = "take ?n (rev (sort (search_candidates fadd weights plugin pn l k i)))"
  have fits: "boundary_fits l k" using assms(2-4) by (simp add: lattice_fits_def list_all_iff)
  note f = boundary_fitsD [OF fits]
  have row: "beam_row l k i = map (beam_element_of l (boundary l k) k i) ?best @ replicate (?n - length ?best) wiped"
    using searchedD(2) [OF assms(1) _ assms(4) i assms(3)] assms(3) by (simp add: search_beam_def Let_def)
  have "m < length ?best" using resolve_best [OF m [unfolded resolveBeamAt_def row]] by simp
  then have e: "beam_row l k i ! m = beam_element_of l (boundary l k) k i (?best ! m)" unfolding row by (simp add: nth_append)
  have "?best ! m \<in> set ?best" using \<open>m < length ?best\<close> by (rule nth_mem)
  then have "?best ! m \<in> set (search_candidates fadd weights plugin pn l k i)" using in_set_takeD by fastforce
  then obtain left score beam where left: "left < length ?ends" and beam: "beam < length (active_beam l k left)"
    and c: "?best ! m = bc_pack score (word_of_nat left) (word_of_nat beam)" by (auto simp: search_candidates_def)
  have "beams_fit l k" by (rule searched_beams_fit [OF searched_mono [OF assms(1)] fits]) (use assms(4) in simp)
  then have "length (active_beam l k left) \<le> ?n" using left f(5) by (simp add: beams_fit_def list_all_length)
  then have "beam < 2 ^ 16" using beam assms(2) by (simp add: lattice_fits_def word_less_nat_alt)
  then have ub: "unat (word_of_nat beam :: u16) = beam" by (intro unat_of_nat_small) simp
  have "left < 2 ^ 15" using left f(9) by simp
  then have ul: "unat (word_of_nat left :: u16) = left" by (intro unat_of_nat_small) simp
  then have "(word_of_nat left :: u16) < 0x8000" using \<open>left < 2 ^ 15\<close> by (simp add: word_less_nat_alt)
  note parts = bc_pack_parts(2,3) [OF this, of score "word_of_nat beam", folded c]
  show thesis
  proof (rule that [of "?ends ! left" beam])
    show "cn_previous (be_ptr (beam_row l k i ! m)) = Some (be_ptr (node_beam l (?ends ! left) ! beam))"
      by (simp add: e beam_element_of_def Let_def parts ul ub del: unat_of_nat)
  qed (use left beam in \<open>simp_all add: active_beam_def Let_def\<close>)
qed

lemma active_linked:
  assumes "beams_linked l (createdBoundaryCount l)" "k < createdBoundaryCount l" "i < length (rb_beam (bd_right (boundary l k)))"
    and "m < length (resolveBeamAt l k i)" "be_ptr (beam_row l k i ! m) = c"
  shows "unat (cn_boundary c) = k" "unat (cn_right c) = i" "linked l m c"
  using beams_linkedD [OF assms(1-4)] assms(5) by simp_all

text \<open>What the lattice says of the nodes that end at a boundary: they start two boundaries after their start, and end there.\<close>

definition ends_tile :: "node_seed list \<Rightarrow> lattice \<Rightarrow> bool" where
  "ends_tile ss l \<longleftrightarrow> (\<forall>k. 2 < k \<longrightarrow> k < createdBoundaryCount l \<longrightarrow> (\<forall>q \<in> set (lb_endingNodes (bd_left (boundary l k))).
     node_at l q \<in> seed_node ` set ss \<and> unat (np_boundary q) = unat (ni_start (node_at l q)) + 2
     \<and> unat (ni_start (node_at l q)) < unat (ni_end (node_at l q)) \<and> unat (ni_end (node_at l q)) + 2 = k))"

lemma path_tiles:
  assumes "searched fadd weights plugin pn l (createdBoundaryCount l)" "lattice_fits l" "ends_tile ss l"
    and "2 \<le> k" "k < createdBoundaryCount l" "i < length (rb_beam (bd_right (boundary l k)))" "m < length (resolveBeamAt l k i)"
  shows "tiles 0 (k - 2) (map (\<lambda>c. node_at l (latticeNodePtr c)) (rev (best_path (be_ptr (beam_row l k i ! m)))))
    \<and> set (map (\<lambda>c. node_at l (latticeNodePtr c)) (best_path (be_ptr (beam_row l k i ! m)))) \<subseteq> seed_node ` set ss"
  using assms(4-7)
proof (induction k arbitrary: i m rule: less_induct)
  case (less k)
  let ?c = "be_ptr (beam_row l k i ! m)"
  have bl: "beams_linked l (createdBoundaryCount l)" using assms(1) by (simp add: searched_def)
  note c = active_linked [OF bl less.prems(2-4) refl]
  show ?case
  proof (cases "k = 2")
    case True
    then have "best_path ?c = []" using c(1) by (intro best_path_start) simp
    then show ?thesis using True by simp
  next
    case False
    then have k: "2 < k" using less.prems(1) by simp
    obtain q m' where q: "cn_previous ?c = Some (be_ptr (node_beam l q ! m'))" "q \<in> set (lb_endingNodes (bd_left (boundary l k)))"
      "m' < length (resolveBeamAt l (unat (np_boundary q)) (unat (np_position q)))"
      by (rule element_previous [OF assms(1,2) less.prems])
    let ?p = "be_ptr (beam_row l (unat (np_boundary q)) (unat (np_position q)) ! m')"
    have node: "node_at l q \<in> seed_node ` set ss" "unat (np_boundary q) = unat (ni_start (node_at l q)) + 2"
      "unat (ni_start (node_at l q)) < unat (ni_end (node_at l q))" "unat (ni_end (node_at l q)) + 2 = k"
      using assms(3) k less.prems(2) q(2) by (simp_all add: ends_tile_def)
    have fits: "boundary_fits l k" using assms(2) less.prems(1,2) by (simp add: lattice_fits_def list_all_iff)
    then have pos: "unat (np_position q) < length (rb_beam (bd_right (boundary l (unat (np_boundary q)))))"
      using boundary_fitsD(7) [OF fits] q(2) by (simp add: ends_exist_def list_all_iff)
    have b: "unat (np_boundary q) < k" "2 \<le> unat (np_boundary q)" "unat (np_boundary q) < createdBoundaryCount l" using node less.prems(2) by simp_all
    note p = active_linked [OF bl b(3) pos q(3) refl]
    have "latticeNodePtr ?p = q" using p(1,2) by (cases q) (simp add: latticeNodePtr_def mk_node_ptr_def word_unat_eq_iff)
    moreover have "best_path ?c = ?p # best_path ?p" using q(1) k c(1) by (cases ?c) (simp add: best_path.simps node_beam_def)
    moreover note IH = less.IH [OF b(1,2,3) pos q(3)]
    moreover have "tiles 0 (unat (ni_start (node_at l q))) (map (\<lambda>c. node_at l (latticeNodePtr c)) (rev (best_path ?p)))" using IH node(2) by simp
    note tiles_snoc [OF this node(3)]
    moreover have "k - 2 = unat (ni_end (node_at l q))" using node(4) by simp
    ultimately show ?thesis using node(1) by simp
  qed
qed

lemma built_ends_tile:
  assumes ok: "seeds_ok b n" and room: "search_room cfg b" and frames: "same_frames (snd (buildLattice fresh n (prepare b, lattice_new cfg))) l"
  shows "ends_tile (lbd_seeds b) l"
  unfolding ends_tile_def
proof (intro allI impI ballI)
  fix k q assume k: "2 < k" "k < createdBoundaryCount l" and q: "q \<in> set (lb_endingNodes (bd_left (boundary l k)))"
  let ?ss = "lbd_seeds b" and ?l0 = "snd (buildLattice fresh n (prepare b, lattice_new cfg))"
  define i where "i = k - 2"
  have i: "i \<le> n" "k = i + 2" "i \<noteq> 0" using k built_fits(4) [OF ok room frames] by (simp_all add: i_def)
  obtain m where m: "m < length ?ss" "ends_at i (?ss ! m)" "q = end_ptr ?ss m"
    using q i(3) unfolding built_boundary_counts(7) [OF ok room frames i(1,2)] by auto
  note e = end_ptr_parts [OF ok m(1), folded m(3)]
  have s: "?ss ! m \<in> set ?ss" using m(1) by simp
  then have se: "unat (sd_start (?ss ! m)) < unat (sd_end (?ss ! m))" "unat (sd_end (?ss ! m)) \<le> n" using ok by (auto simp: seeds_ok_def list_all_iff)
  have "unat (np_boundary q) < length (lt_boundaries ?l0)" using e(1) se built_shape(2) [OF ok] by simp
  from same_frames_boundary [OF frames this] have "node_at l q = node_at ?l0 q" by (simp add: node_at_def same_frame_def)
  then have node: "node_at l q = seed_node (?ss ! m)" using end_ptr_node [OF ok m(1)] m(3) by simp
  show "node_at l q \<in> seed_node ` set ?ss \<and> unat (np_boundary q) = unat (ni_start (node_at l q)) + 2
     \<and> unat (ni_start (node_at l q)) < unat (ni_end (node_at l q)) \<and> unat (ni_end (node_at l q)) + 2 = k"
    using s e(1) se m(2) i(2) by (simp add: node seed_node_def mk_node_info_def ends_at_def)
qed

text \<open>A position of the input that the seeds connect with its start is reached in the lattice.\<close>

lemma built_reached:
  assumes ok: "seeds_ok b n" and room: "search_room cfg b" and frames: "same_frames (snd (buildLattice fresh n (prepare b, lattice_new cfg))) l"
    and "(0, i) \<in> (seed_edges (lbd_seeds b))\<^sup>*" "i \<le> n" "p < starts_of (lbd_seeds b) n i"
  shows "reached l (i + 2) p"
  using assms(4-6)
proof (induction i arbitrary: p rule: rtrancl_induct)
  case base
  note c = built_boundary_counts [OF ok room frames _ refl, of 0]
  have "mk_node_ptr 1 0 \<in> set (lb_endingNodes (bd_left (boundary l (0 + 2))))" by (subst c(7)) simp_all
  moreover have "reached l (unat (np_boundary (mk_node_ptr 1 0))) (unat (np_position (mk_node_ptr 1 0)))"
    using reached_bos by (simp add: mk_node_ptr_def)
  ultimately show ?case
    using reached_step [of "mk_node_ptr 1 0" l "0 + 2" p] c(2) base(2) built_fits(4) [OF ok room frames] by simp
next
  case (step j k)
  then obtain s where "s \<in> set (lbd_seeds b)" "j = unat (sd_start s)" "k = unat (sd_end s)" by (auto simp: seed_edges_def)
  then obtain m where m: "m < length (lbd_seeds b)" "j = unat (sd_start (lbd_seeds b ! m))" "k = unat (sd_end (lbd_seeds b ! m))"
    by (auto simp: in_set_conv_nth)
  let ?q = "end_ptr (lbd_seeds b) m"
  have "lbd_seeds b ! m \<in> set (lbd_seeds b)" using m(1) by simp
  then have jk: "j < k" "k \<le> n" using ok m(2,3) by (auto simp: seeds_ok_def list_all_iff)
  note c = built_boundary_counts [OF ok room frames jk(2) refl]
  note e = end_ptr_parts [OF ok m(1), folded m(2)]
  have "m \<in> set (filter (\<lambda>m. ends_at k (lbd_seeds b ! m)) [0..<length (lbd_seeds b)])" using m by (simp add: ends_at_def)
  then have q: "?q \<in> set (lb_endingNodes (bd_left (boundary l (k + 2))))" unfolding c(7) set_append set_map by (intro UnI2 imageI)
  have "reached l (unat (np_boundary ?q)) (unat (np_position ?q))"
    using step.IH [of "unat (np_position ?q)"] e jk by (simp add: starts_of_def)
  from reached_step [OF q this] show ?case using jk(2) step.prems(2) c(2) built_fits(4) [OF ok room frames] by simp
qed

lemma same_nodes_tile:
  assumes "same_nodes l l'" "ends_tile ss l"
  shows "ends_tile ss l'"
proof -
  have "node_at l' q = node_at l q" for q using assms(1) by (simp add: node_at_def same_nodes_def)
  then show ?thesis using assms(2) by (simp add: ends_tile_def same_nodes_patterns [OF assms(1)])
qed

text \<open>The surface of a node is the part of the input it covers.\<close>

definition covered :: "input_codepoint list \<Rightarrow> node_info \<Rightarrow> byte_string" where
  "covered points ni = input_surface points (unat (ni_start ni)) (unat (ni_end ni))"

lemma tiles_text:
  assumes "tiles a z nis"
  shows "a \<le> z \<and> concat (map (covered points) nis) = text_of (take (z - a) (drop a points))"
  using assms
proof (induction nis arbitrary: a)
  case (Cons ni nis)
  let ?e = "unat (ni_end ni)"
  from Cons have st: "unat (ni_start ni) = a" "a < ?e" and IH: "?e \<le> z" "concat (map (covered points) nis) = text_of (take (z - ?e) (drop ?e points))" by auto
  have "z - a = (?e - a) + (z - ?e)" "?e = (?e - a) + a" using st(2) IH(1) by linarith+
  then have "take (z - a) (drop a points) = take (?e - a) (drop a points) @ take (z - ?e) (drop ?e points)"
    by (metis take_add drop_drop)
  moreover have "covered points ni = text_of (take (?e - a) (drop a points))" using st by (simp add: covered_def input_surface_def)
  ultimately show ?case using st(2) IH by (simp add: text_of_def)
qed (simp add: text_of_def)

lemma analysis_of_built:
  assumes ok: "seeds_ok b n" and room: "search_room cfg b" and frames: "same_frames (snd (buildLattice fresh n (prepare b, lattice_new cfg))) l"
    and conn: "(0, n) \<in> (seed_edges (lbd_seeds b))\<^sup>*" and n: "0 < n"
    and pn: "add_children pn_addChild nfs pn_empty = (StOk, pn)" "length nfs < 2 ^ 32" "plugin_reads_nodes plugin"
    and fr: "\<And>n. length (fresh64 n) = n" "\<And>n. length (fresh32 n) = n" "\<And>n. length (freshScores n) = n"
  obtains p' l' where "computeScoresFull fadd weights plugin None (bootstrapAnalysis fresh64 fresh32 freshScores pn l) = Some (StOk, p', l')"
    "same_nodes l l'"
    "tiles 0 n (map (\<lambda>c. node_at l' (latticeNodePtr c)) (rev (best_path (eos_top l'))))"
    "set (map (\<lambda>c. node_at l' (latticeNodePtr c)) (best_path (eos_top l'))) \<subseteq> seed_node ` set (lbd_seeds b)"
    "3 < createdBoundaryCount l'" "ends_in_eos l'" "linked l' 0 (eos_top l')"
proof -
  note fits = built_fits [OF ok room frames]
  from bootstrap_search [OF pn fits(1,2) _ fr, of fadd weights] n fits(4) obtain p' l' where
    r: "computeScoresFull fadd weights plugin None (bootstrapAnalysis fresh64 fresh32 freshScores pn l) = Some (StOk, p', l')"
      "same_nodes l l'" "lattice_fits l'" "searched fadd weights plugin pn l' (createdBoundaryCount l')" by auto
  note nodes = same_nodes_patterns [OF r(2)]
  have cnt: "createdBoundaryCount l' = n + 3" "createdBoundaryCount l' - 1 = n + 2" by (simp_all add: nodes fits(4))
  have size: "3 < createdBoundaryCount l'" "2 \<le> n + 2" "n + 2 < createdBoundaryCount l'" using n by (simp_all add: cnt)
  have "reached l (n + 2) 0" by (rule built_reached [OF ok room frames conn order_refl]) (simp add: starts_of_def)
  from reached_alive [OF reached_same [OF this r(2)] r(4,3)] have alive: "resolveBeamAt l' (n + 2) 0 \<noteq> []" .
  have "length (boundary_patterns l' (n + 2)) = 1"
    using built_boundary_counts(2) [OF ok room frames order_refl refl] by (simp add: nodes starts_of_def)
  moreover have "boundary_fits l' (n + 2)" using r(3) size by (simp add: lattice_fits_def list_all_iff)
  ultimately have node: "0 < length (rb_beam (bd_right (boundary l' (n + 2))))" using boundary_fitsD(2) by fastforce
  have eos: "ends_in_eos l'" using fits(3) r(2) by (simp add: ends_in_eos_def nodes) (simp add: same_nodes_def)
  have bl: "beams_linked l' (createdBoundaryCount l')" using r(4) by (simp add: searched_def)
  have top: "eos_top l' = be_ptr (beam_row l' (n + 2) 0 ! 0)" by (simp only: eos_top_def beam_row_def cnt(2))
  note t = path_tiles [OF r(4,3) same_nodes_tile [OF r(2) built_ends_tile [OF ok room frames]] size(2,3) node, of 0, folded top]
  show thesis
  proof (rule that [OF r(1,2)])
    show "tiles 0 n (map (\<lambda>c. node_at l' (latticeNodePtr c)) (rev (best_path (eos_top l'))))"
      "set (map (\<lambda>c. node_at l' (latticeNodePtr c)) (best_path (eos_top l'))) \<subseteq> seed_node ` set (lbd_seeds b)" using t alive by simp_all
    show "3 < createdBoundaryCount l'" "ends_in_eos l'" by (rule size(1), rule eos)
    show "linked l' 0 (eos_top l')" unfolding top by (rule beams_linkedD(3) [OF bl size(3) node]) (use alive in simp)
  qed
qed

end
