(* ===== verification/GlobalBeam.thy ===== *)
theory GlobalBeam
  imports FullSearch
begin

text \<open>
  The search with a global beam: the operations of \<open>src/src/core/analysis/score_processor.cc\<close> that score the nodes of a boundary with the best candidates
  on their left only, and \<open>AnalyzerImpl::computeScoresGbeam\<close>. The functions that choose and sort candidates are in Beam.
\<close>

subsection \<open>State\<close>

text \<open>The settings of the global beam, and the buffers of the processor that are kept from one boundary to the next.\<close>

record gbeam_config =
  gc_globalBeamSize :: i32
  gc_rightGbeamCheck :: i32
  gc_rightGbeamSize :: i32

record gbeam_buffers =
  gb_candidates :: "candidate list"
  gb_t1patBuf :: "u64 list list"
  gb_scoreBuf :: "score list"
  gb_prescores :: "score list list"

type_synonym gbeam_state = "score_processor \<times> gbeam_buffers \<times> lattice"

subsection \<open>Plugins\<close>

definition gbeam_ptr :: "lattice \<Rightarrow> nat \<Rightarrow> nat \<Rightarrow> candidate \<Rightarrow> connection_ptr" where
  "gbeam_ptr l bndIdx t0idx t1bc =
     (let t1nptr = lb_endingNodes (bd_left (boundary l bndIdx)) ! unat (bc_left t1bc);
          t1beam = node_beam l t1nptr ! unat (bc_beam t1bc)
      in ConnectionPtr (word_of_nat bndIdx) (bc_left t1bc) (word_of_nat t0idx) (bc_beam t1bc) (Some (be_ptr t1beam)))"

definition applyPluginToGbeam ::
  "score_plugin option \<Rightarrow> lattice \<Rightarrow> nat \<Rightarrow> nat \<Rightarrow> candidate list \<Rightarrow> score list \<Rightarrow> score list" where
  "applyPluginToGbeam plugin l bndIdx t0idx gbeam scores =
     (case plugin of
        None \<Rightarrow> scores
      | Some updateScore \<Rightarrow>
          fold (\<lambda>t1i scores. scores[t1i := updateScore l (gbeam_ptr l bndIdx t0idx (gbeam ! t1i)) (scores ! t1i)]) [0..<length gbeam] scores)"

definition applyPluginToPrescores ::
  "score_plugin option \<Rightarrow> lattice \<Rightarrow> nat \<Rightarrow> candidate list \<Rightarrow> score list list \<Rightarrow> score list list" where
  "applyPluginToPrescores plugin l bndIdx gbeam prescores =
     (case plugin of
        None \<Rightarrow> prescores
      | Some updateScore \<Rightarrow>
          let t0num = unat (localNodeCount (boundary l bndIdx))
          in fold (\<lambda>t1i pre. pre[t1i := fold (\<lambda>t0 scores. scores[t0 := updateScore l (gbeam_ptr l bndIdx t0 (gbeam ! t1i)) (scores ! t0)])
                    [0..<t0num] (pre ! t1i)]) [0..<length gbeam] prescores)"

subsection \<open>Scores of the best candidates for all nodes\<close>

definition prescore_row ::
  "(score \<Rightarrow> score \<Rightarrow> score) \<Rightarrow> score list \<Rightarrow> nat list \<Rightarrow> u64 list list \<Rightarrow> u64 list list \<Rightarrow> nat \<Rightarrow> score_processor \<times> score list list
     \<Rightarrow> score_processor \<times> score list list" where
  "prescore_row fadd weights t1positions t1data t2data i st =
     (case st of (p, pre) \<Rightarrow>
        let t1 = t1data ! (t1positions ! i);
            t2 = t2data ! i;
            scores = bufferT0 p @ drop (length (bufferT0 p)) (pre ! i);
            fb = applyTriStep2 (sp_ngrams p) t1 (sp_features p);
            (fb, scores) = applyBiStep2 fadd weights (sp_ngrams p) t1 fb scores;
            (fb, scores) = applyTriStep3 fadd weights (sp_ngrams p) t2 fb scores
        in (p\<lparr>sp_features := fb\<rparr>, pre[i := scores]))"

definition computeT0Prescores ::
  "(score \<Rightarrow> score \<Rightarrow> score) \<Rightarrow> score list \<Rightarrow> gbeam_config \<Rightarrow> nat \<Rightarrow> nat list \<Rightarrow> u64 list list \<Rightarrow> u64 list list \<Rightarrow> score_processor \<times> score list list
     \<Rightarrow> score_processor \<times> score list list" where
  "computeT0Prescores fadd weights cfg gbeamSize t1positions t1data t2data st =
     (let theMax = nat (min (sint (gc_rightGbeamCheck cfg)) (int gbeamSize))
      in fold (prescore_row fadd weights t1positions t1data t2data) [0..<theMax] st)"

subsection \<open>Scoring a boundary\<close>

text \<open>Features of the pairs and triples of a node with candidates \<open>gbeam\<close>, the plugin, and their place in the lattice.\<close>

definition score_candidates ::
  "(score \<Rightarrow> score \<Rightarrow> score) \<Rightarrow> score list \<Rightarrow> score_plugin option \<Rightarrow> nat \<Rightarrow> nat \<Rightarrow> candidate list \<Rightarrow> u64 list list \<Rightarrow> u64 list list \<Rightarrow> nat list
     \<Rightarrow> score_processor \<times> score list \<times> lattice \<Rightarrow> score_processor \<times> score list \<times> lattice" where
  "score_candidates fadd weights plugin bndIdx t0idx gbeam t1data t2data t1Ptrs st =
     (case st of (p, result, l) \<Rightarrow>
        let t0 = boundary_patterns l bndIdx ! t0idx;
            t0Score = bufferT0 p ! t0idx;
            (fb, result) = applyBiTri fadd weights (sp_ngrams p) t0 t1data t2data (map word_of_nat t1Ptrs) (sp_features p) result;
            result = applyPluginToGbeam plugin l bndIdx t0idx gbeam result;
            (result, l) = copyT0Scores fadd bndIdx t0idx gbeam result t0Score l
        in (p\<lparr>sp_features := fb\<rparr>, result, l))"

text \<open>One node when all nodes are scored with all candidates.\<close>

definition score_node ::
  "(score \<Rightarrow> score \<Rightarrow> score) \<Rightarrow> score list \<Rightarrow> score_plugin option \<Rightarrow> ((nat \<Rightarrow> nat \<Rightarrow> bool) \<Rightarrow> nat list \<Rightarrow> nat list)
     \<Rightarrow> nat \<Rightarrow> candidate list \<Rightarrow> u64 list list \<Rightarrow> u64 list list \<Rightarrow> nat list \<Rightarrow> nat
     \<Rightarrow> score_processor \<times> score list \<times> lattice \<Rightarrow> (score_processor \<times> score list \<times> lattice) option" where
  "score_node fadd weights plugin sort_idx bndIdx gbeam t1data t2data t1Ptrs t0idx st =
     (case score_candidates fadd weights plugin bndIdx t0idx gbeam t1data t2data t1Ptrs st of
        (p, result, l) \<Rightarrow> map_option (\<lambda>l. (p, result, l)) (makeT0Beam sort_idx bndIdx t0idx gbeam result l))"

text \<open>
  One node when the nodes to keep are chosen first: the scores of the first \<open>full\<close> candidates are those computed before, the others are computed for a node
  that is kept only.
\<close>

definition score_head ::
  "(score \<Rightarrow> score \<Rightarrow> score) \<Rightarrow> nat \<Rightarrow> nat \<Rightarrow> candidate list \<Rightarrow> score list list \<Rightarrow> nat \<Rightarrow> score list \<Rightarrow> lattice \<Rightarrow> score list \<times> lattice" where
  "score_head fadd bndIdx full gbeam pre t0idx result l =
     copyT0Scores fadd bndIdx t0idx (take full gbeam) (map (\<lambda>i. pre ! i ! t0idx) [0..<full] @ drop full result) 0 l"

definition score_kept ::
  "(score \<Rightarrow> score \<Rightarrow> score) \<Rightarrow> score list \<Rightarrow> score_plugin option \<Rightarrow> ((nat \<Rightarrow> nat \<Rightarrow> bool) \<Rightarrow> nat list \<Rightarrow> nat list)
     \<Rightarrow> nat \<Rightarrow> nat \<Rightarrow> candidate list \<Rightarrow> score list list \<Rightarrow> u64 list list \<Rightarrow> u64 list list \<Rightarrow> nat list \<Rightarrow> nat
     \<Rightarrow> score_processor \<times> score list \<times> lattice \<Rightarrow> (score_processor \<times> score list \<times> lattice) option" where
  "score_kept fadd weights plugin sort_idx bndIdx full gbeam pre t1data t2data t1Ptrs t0idx st =
     (case st of (p, result, l) \<Rightarrow>
        let (result, l) = score_head fadd bndIdx full gbeam pre t0idx result l;
            (p, result, l) =
              (if drop full t1Ptrs \<noteq> [] then
                 case score_candidates fadd weights plugin bndIdx t0idx (drop full gbeam) t1data (drop full t2data) (drop full t1Ptrs) (p, drop full result, l) of
                   (p, tail, l) \<Rightarrow> (p, take full result @ tail, l)
               else (p, result, l))
        in map_option (\<lambda>l. (p, result, l)) (makeT0Beam sort_idx bndIdx t0idx gbeam result l))"

definition score_cut ::
  "(score \<Rightarrow> score \<Rightarrow> score) \<Rightarrow> ((nat \<Rightarrow> nat \<Rightarrow> bool) \<Rightarrow> nat list \<Rightarrow> nat list)
     \<Rightarrow> nat \<Rightarrow> nat \<Rightarrow> candidate list \<Rightarrow> score list list \<Rightarrow> nat
     \<Rightarrow> score_processor \<times> score list \<times> lattice \<Rightarrow> (score_processor \<times> score list \<times> lattice) option" where
  "score_cut fadd sort_idx bndIdx full gbeam pre t0idx st =
     (case st of (p, result, l) \<Rightarrow>
        let (result, l) = score_head fadd bndIdx full gbeam pre t0idx result l
        in map_option (\<lambda>l. (p, result, l)) (makeT0Beam sort_idx bndIdx t0idx (take full gbeam) result l))"

text \<open>The two sortings of the standard library are arguments, as in Beam.\<close>

definition computeGbeamScores ::
  "(score \<Rightarrow> score \<Rightarrow> score) \<Rightarrow> score list \<Rightarrow> score_plugin option \<Rightarrow> ((nat \<Rightarrow> nat \<Rightarrow> bool) \<Rightarrow> nat list \<Rightarrow> nat list)
     \<Rightarrow> ((nat \<Rightarrow> nat \<Rightarrow> bool) \<Rightarrow> nat \<Rightarrow> nat list \<Rightarrow> nat list) \<Rightarrow> gbeam_config \<Rightarrow> nat \<Rightarrow> candidate list \<Rightarrow> gbeam_state \<Rightarrow> gbeam_state option" where
  "computeGbeamScores fadd weights plugin sort_idx nth_element cfg bndIdx gbeam st =
     (case st of (p, g, l) \<Rightarrow>
        let bnd = boundary l bndIdx;
            (m, t1Ptrs) = dedupT1 bnd gbeam;
            t1data = gatherT1 l m (gb_t1patBuf g);
            g = g\<lparr>gb_t1patBuf := t1data @ drop (length t1data) (gb_t1patBuf g)\<rparr>
        in case gatherT2 l bnd gbeam of
          None \<Rightarrow> None
        | Some t2data \<Rightarrow>
            let t0data = boundary_patterns l bndIdx;
                result = take (length gbeam) (gb_scoreBuf g);
                back = (\<lambda>g (p, result, l). (p, g\<lparr>gb_scoreBuf := result @ drop (length result) (gb_scoreBuf g)\<rparr>, l))
            in if sint (gc_rightGbeamCheck cfg) > 0 then
                 let nodes = unat (localNodeCount bnd);
                     full = min (min (nat (sint (gc_rightGbeamCheck cfg))) nodes) (length gbeam);
                     toKeep = min (unat (gc_rightGbeamSize cfg)) nodes;
                     (p, pre) = computeT0Prescores fadd weights cfg (length gbeam) t1Ptrs t1data t2data (p, gb_prescores g);
                     pre = applyPluginToPrescores plugin l bndIdx (take full gbeam) pre;
                     g = g\<lparr>gb_prescores := pre\<rparr>;
                     order = makeT0cutoffBeam fadd nth_element pre (unat (fb_currentElems (sp_features p))) full toKeep
                 in case fold_option (\<lambda>t0pos. score_kept fadd weights plugin sort_idx bndIdx full gbeam pre t1data t2data t1Ptrs (order ! t0pos))
                           [0..<toKeep] (p, result, l) of
                      None \<Rightarrow> None
                    | Some st \<Rightarrow> map_option (back g)
                        (fold_option (\<lambda>t0pos. score_cut fadd sort_idx bndIdx full gbeam pre (order ! t0pos)) [toKeep..<length t0data] st)
               else map_option (back g)
                 (fold_option (score_node fadd weights plugin sort_idx bndIdx gbeam t1data t2data t1Ptrs) [0..<length t0data] (p, result, l)))"

subsection \<open>Scoring a lattice\<close>

definition gbeam_boundary ::
  "(score \<Rightarrow> score \<Rightarrow> score) \<Rightarrow> score list \<Rightarrow> score_plugin option \<Rightarrow> (nat \<Rightarrow> score_processor \<times> lattice \<Rightarrow> (score_processor \<times> lattice) option) option
     \<Rightarrow> ((nat \<Rightarrow> nat \<Rightarrow> bool) \<Rightarrow> nat list \<Rightarrow> nat list)
     \<Rightarrow> ((nat \<Rightarrow> nat \<Rightarrow> bool) \<Rightarrow> nat \<Rightarrow> nat list \<Rightarrow> nat list) \<Rightarrow> gbeam_config \<Rightarrow> nat \<Rightarrow> gbeam_state \<Rightarrow> gbeam_state option" where
  "gbeam_boundary fadd weights plugin static sort_idx nth_element cfg bnd st =
     (case st of (p, g, l) \<Rightarrow>
        if localNodeCount (boundary l bnd) = 0 then Some (p, g, l)
        else let p = startBoundary (localNodeCount (boundary l bnd)) p
             in case (case static of None \<Rightarrow> Some (applyT0 fadd weights l bnd p, l) | Some computeT0All \<Rightarrow> computeT0All bnd (p, l)) of
                  None \<Rightarrow> None
                | Some (p, l) \<Rightarrow>
                    case makeGlobalBeam bnd (lc_globalBeamSize (lt_config l)) l of
                      None \<Rightarrow> None
                    | Some (gbeam, l) \<Rightarrow>
                        computeGbeamScores fadd weights plugin sort_idx nth_element cfg bnd gbeam (p, g\<lparr>gb_candidates := gbeam\<rparr>, l))"

text \<open>The other scorers come after the features, each with its number; the first one that fails ends the analysis.\<close>

fun score_lattice :: "(nat \<Rightarrow> lattice \<Rightarrow> status_code \<times> lattice) list \<Rightarrow> nat \<Rightarrow> lattice \<Rightarrow> status_code \<times> lattice" where
  "score_lattice [] idx l = (StOk, l)"
| "score_lattice (s # scorers) idx l =
     (case s idx l of (st, l) \<Rightarrow> if st \<noteq> StOk then (st, l) else score_lattice scorers (idx + 1) l)"

definition computeScoresGbeam ::
  "(score \<Rightarrow> score \<Rightarrow> score) \<Rightarrow> (score \<Rightarrow> score \<Rightarrow> score) \<Rightarrow> score list \<Rightarrow> score list \<Rightarrow> score_plugin option
     \<Rightarrow> (nat \<Rightarrow> score_processor \<times> lattice \<Rightarrow> (score_processor \<times> lattice) option) option \<Rightarrow> ((nat \<Rightarrow> nat \<Rightarrow> bool) \<Rightarrow> nat list \<Rightarrow> nat list)
     \<Rightarrow> ((nat \<Rightarrow> nat \<Rightarrow> bool) \<Rightarrow> nat \<Rightarrow> nat list \<Rightarrow> nat list) \<Rightarrow> gbeam_config \<Rightarrow> (nat \<Rightarrow> lattice \<Rightarrow> status_code \<times> lattice) list
     \<Rightarrow> gbeam_state \<Rightarrow> (status_code \<times> gbeam_state) option" where
  "computeScoresGbeam fadd fmul weights scoreWeights plugin static sort_idx nth_element cfg scorers st =
     (let bndCount = createdBoundaryCount (snd (snd st))
      in if bndCount \<le> 3 then Some (StOk, st)
         else case fold_option (gbeam_boundary fadd weights plugin static sort_idx nth_element cfg) [2..<bndCount] st of
           None \<Rightarrow> None
         | Some (p, g, l) \<Rightarrow>
             if scorers = [] then Some (StOk, p, g, l)
             else case score_lattice scorers 1 l of
               (status, l) \<Rightarrow>
                 if status \<noteq> StOk then Some (status, p, g, l)
                 else case adjustBeamScores fadd fmul scoreWeights l of
                   None \<Rightarrow> None
                 | Some l \<Rightarrow> map_option (\<lambda>l. (StOk, p, g, l)) (remakeEosBeam fadd fmul sort_idx scoreWeights (gb_candidates g) l))"

end
