(* ===== verification/Analyzer.thy ===== *)
theory Analyzer
  imports Makers Output Segmentation GlobalBeam "HOL-Library.Signed_Division"
begin

text \<open>
  \<open>src/src/core/analysis/analyzer.h/.cc\<close>, \<open>analyzer_impl.h/.cc\<close>, \<open>analysis_input.h/.cc\<close>, with \<open>core/core.h/.cc\<close> and \<open>core/features_api.h/.cc\<close> that
  set the analyzer up: the whole analysis of one input.
\<close>

subsection \<open>The features\<close>

text \<open>
  The code the build generates for a specification. Its patterns take the context, the nodes of a boundary with their entries, the feature buffers, the
  rows of the patterns and the scores of the nodes, and give the last four back. Its functions for n-grams are not modelled: a factory has none, as the
  base class of the source.
\<close>

type_synonym static_patterns =
  "prim_context \<Rightarrow> node_info list \<Rightarrow> i32 list list \<Rightarrow> feature_buffer \<Rightarrow> u64 list list \<Rightarrow> score list
    \<Rightarrow> i32 list list \<times> feature_buffer \<times> u64 list list \<times> score list"

record static_factory =
  sff_runtimeHash :: u64
  sff_pattern :: "static_patterns option"

record feature_holder =
  fh_patternDynamic :: "pattern_apply option"
  fh_patternStatic :: "static_patterns option"
  fh_ngramDynamic :: "ngram_impl list option"
  fh_ngramPartialDynamic :: "partial_ngrams option"
  fh_ngram :: "ngram_impl list option"
  fh_ngramPartial :: "partial_ngrams option"

definition fh_new :: feature_holder where
  "fh_new = \<lparr>fh_patternDynamic = None, fh_patternStatic = None, fh_ngramDynamic = None, fh_ngramPartialDynamic = None, fh_ngram = None, fh_ngramPartial = None\<rparr>"

definition fh_validate :: "feature_holder \<Rightarrow> status_code" where
  "fh_validate fh = (if fh_patternDynamic fh = None \<or> fh_ngram fh = None \<or> fh_ngramPartial fh = None then StInvalidState else StOk)"

text \<open>\<open>dicHash\<close> is the hash of the specification, which is computed outside of the model.\<close>

definition makeFeatures ::
  "dic_field list \<Rightarrow> features_spec \<Rightarrow> u64 \<Rightarrow> static_factory option \<Rightarrow> feature_holder \<Rightarrow> (status_code \<times> feature_holder) option" where
  "makeFeatures flds spec dicHash sff fh =
     map_option (\<lambda>(status, pattern).
       let fh = fh\<lparr>fh_patternDynamic := Some pattern\<rparr>
       in if status \<noteq> StOk then (status, fh)
          else case add_children dynamic_addChild (fsp_ngram spec) [] of
            (status, ngram) \<Rightarrow>
              let fh = fh\<lparr>fh_ngramDynamic := Some ngram\<rparr>
              in if status \<noteq> StOk then (status, fh)
                 else case add_children pn_addChild (fsp_ngram spec) pn_empty of
                   (status, partial) \<Rightarrow>
                     let fh = fh\<lparr>fh_ngramPartialDynamic := Some partial\<rparr>
                     in if status \<noteq> StOk then (status, fh)
                        else let fh = (case sff of
                                  None \<Rightarrow> fh
                                | Some f \<Rightarrow> if dicHash = sff_runtimeHash f then fh\<lparr>fh_patternStatic := sff_pattern f\<rparr> else fh)
                             in (StOk, fh\<lparr>fh_ngram := Some ngram, fh_ngramPartial := Some partial\<rparr>))
     (pda_initialize flds spec)"

subsection \<open>The core\<close>

record scoring_config =
  sc_beamSize :: i32
  sc_numScorers :: i32

record core_holder =
  ch_spec :: features_spec
  ch_unkCreators :: "unk_descriptor list"
  ch_entries :: entries_holder
  ch_fields :: "dic_field list"
  ch_unkMakers :: unk_makers
  ch_features :: feature_holder
  ch_latticeCfg :: lattice_config

text \<open>
  The constructor sets the sizes of entries and patterns only. \<open>beamSize\<close> and \<open>scoreCnt\<close> have no value until \<open>latticeConfig\<close>, the only reader of the
  configuration, sets them in its copy; the zeros are never read.
\<close>

definition core_new :: "features_spec \<Rightarrow> unk_descriptor list \<Rightarrow> entries_holder \<Rightarrow> dic_field list \<Rightarrow> core_holder" where
  "core_new spec unks h flds =
     \<lparr>ch_spec = spec, ch_unkCreators = unks, ch_entries = h, ch_fields = flds, ch_unkMakers = \<lparr>um_stage1 = [], um_stage2 = []\<rparr>, ch_features = fh_new,
      ch_latticeCfg = \<lparr>lc_entrySize = eh_numFeatures h, lc_numFeaturePatterns = word_of_nat (length (fsp_pattern spec)), lc_beamSize = 0, lc_scoreCnt = 0,
        lc_globalBeamSize = 0\<rparr>\<rparr>"

definition core_initialize :: "runtime \<Rightarrow> u64 \<Rightarrow> static_factory option \<Rightarrow> core_holder \<Rightarrow> (status_code \<times> core_holder) option" where
  "core_initialize rt dicHash sff c =
     (case makeMakers rt (ch_entries c) (ch_unkCreators c) (ch_unkMakers c) of
        (status, ms) \<Rightarrow>
          let c = c\<lparr>ch_unkMakers := ms\<rparr>
          in if status \<noteq> StOk then Some (status, c)
             else map_option (\<lambda>(status, fh). (status, c\<lparr>ch_features := fh\<rparr>)) (makeFeatures (ch_fields c) (ch_spec c) dicHash sff (ch_features c)))"

definition core_latticeConfig :: "scoring_config \<Rightarrow> core_holder \<Rightarrow> lattice_config" where
  "core_latticeConfig sconf c = (ch_latticeCfg c)\<lparr>lc_beamSize := sc_beamSize sconf, lc_scoreCnt := sc_numScorers sconf\<rparr>"

subsection \<open>Input\<close>

record analysis_input =
  ai_max_size :: u64
  ai_raw_input :: byte_string
  ai_codepoints :: "input_codepoint list"

definition ai_new :: "u64 \<Rightarrow> analysis_input" where
  "ai_new maxSize = \<lparr>ai_max_size = maxSize, ai_raw_input = [], ai_codepoints = []\<rparr>"

definition ai_reset :: "byte_string \<Rightarrow> analysis_input \<Rightarrow> status_code \<times> analysis_input" where
  "ai_reset data i =
     (if length data > unat (ai_max_size i) then (StInvalidParameter, i)
      else case preprocessRawData data [] of
             (status, points) \<Rightarrow>
               let i = i\<lparr>ai_raw_input := data, ai_codepoints := points\<rparr>
               in if status \<noteq> StOk then (status, i)
                  else if length points > unat (- 1 :: u16) then (StInvalidState, i)
                  else (StOk, i))"

definition ai_numCodepoints :: "analysis_input \<Rightarrow> u16" where
  "ai_numCodepoints i = word_of_nat (length (ai_codepoints i))"

definition ai_surface :: "analysis_input \<Rightarrow> i32 \<Rightarrow> i32 \<Rightarrow> byte_string" where
  "ai_surface i start stop = input_surface (ai_codepoints i) (unat start) (unat stop)"

subsection \<open>State\<close>

record analyzer_config =
  ac_pageSize :: u64
  ac_maxInputBytes :: u64
  ac_globalBeamSize :: i32
  ac_otherScorersTopN :: i32
  ac_rightGbeamCheck :: i32
  ac_rightGbeamSize :: i32
  ac_storeAllPatterns :: bool
  ac_autoBeamStep :: i32
  ac_autoBeamBase :: i32
  ac_autoBeamMax :: i32

text \<open>A scorer is asked for the scores of the lattice with its number; a factory makes one or fails.\<close>

type_synonym score_computer = "extra_nodes \<Rightarrow> nat \<Rightarrow> lattice \<Rightarrow> status_code \<times> lattice"

record scorer_def =
  sdf_feature :: "score list option"
  sdf_others :: "(status_code \<times> score_computer) list"
  sdf_scoreWeights :: "score list"

text \<open>
  The analyzer. Memory is not in its state: a block of the allocator is new wherever the code takes one (Memory shows that blocks do not overlap). The output
  manager is computed from it (\<open>an_output\<close>), because it only holds pointers.
\<close>

record analyzer =
  an_cfg :: analyzer_config
  an_core :: core_holder
  an_input :: analysis_input
  an_latticeConfig :: lattice_config
  an_lattice :: lattice
  an_latticeBldr :: lattice_builder
  an_xtra :: extra_nodes
  an_sproc :: "(score_processor \<times> gbeam_buffers \<times> score_plugin option) option"
  an_scorers :: "score_computer list"
  an_ngramStats :: ngram_stats
  an_plugin :: "score_plugin option"

definition an_output :: "analyzer \<Rightarrow> output_manager" where
  "an_output a = \<lparr>om_xtra = an_xtra a, om_entries = ch_entries (an_core a), om_fields = ch_fields (an_core a), om_lattice = an_lattice a\<rparr>"

definition an_context :: "analyzer \<Rightarrow> prim_context" where
  "an_context a = \<lparr>pc_extra = an_xtra a, pc_entries = ch_entries (an_core a), pc_fields = ch_fields (an_core a), pc_codepts = ai_codepoints (an_input a)\<rparr>"

text \<open>\<open>JPP_RETURN_IF_ERROR\<close>: the rest runs only after success.\<close>

definition and_then :: "(status_code \<times> 's) option \<Rightarrow> ('s \<Rightarrow> (status_code \<times> 's) option) \<Rightarrow> (status_code \<times> 's) option" where
  "and_then r f = (case r of None \<Rightarrow> None | Some (status, s) \<Rightarrow> if status \<noteq> StOk then Some (status, s) else f s)"

subsection \<open>Set-up\<close>

definition an_new :: "core_holder \<Rightarrow> scoring_config \<Rightarrow> analyzer_config \<Rightarrow> analyzer" where
  "an_new core sconf cfg =
     \<lparr>an_cfg = cfg, an_core = core, an_input = ai_new (ac_maxInputBytes cfg), an_latticeConfig = core_latticeConfig sconf core,
      an_lattice = lattice_new (core_latticeConfig sconf core),
      an_latticeBldr = \<lparr>lbd_seeds = [], lbd_boundaries = [], lbd_connectible = [], lbd_maxBoundaries = 0\<rparr>,
      an_xtra = xc_new (eh_numFeatures (ch_entries core)) (fsp_numPlaceholders (ch_spec core)), an_sproc = None, an_scorers = [],
      an_ngramStats = stats_initialize (fsp_ngram (ch_spec core)), an_plugin = None\<rparr>"

definition an_updateConfig :: "analyzer \<Rightarrow> analyzer" where
  "an_updateConfig a = a\<lparr>an_lattice := (an_lattice a)\<lparr>lt_config := an_latticeConfig a\<rparr>\<rparr>"

definition an_reset :: "analyzer \<Rightarrow> analyzer" where
  "an_reset a = a\<lparr>an_lattice := lattice_reset (an_lattice a), an_xtra := xc_reset (an_xtra a), an_sproc := None, an_plugin := None\<rparr>"

text \<open>Integers are divided as in C++, towards zero.\<close>

definition autoBeamSizes :: "analyzer \<Rightarrow> i32 \<times> analyzer" where
  "autoBeamSizes a =
     (let cfg = an_cfg a
      in if ac_autoBeamStep cfg = 0 then (0, a)
         else let inputSize = int (unat (ai_numCodepoints (an_input a)));
                  addedBeam = word_of_int (inputSize sdiv sint (ac_autoBeamStep cfg)) :: i32;
                  beamSize = (if sint (ac_autoBeamMax cfg) < sint (ac_autoBeamBase cfg + addedBeam) then ac_autoBeamMax cfg else ac_autoBeamBase cfg + addedBeam);
                  a = a\<lparr>an_latticeConfig := (an_latticeConfig a)\<lparr>lc_beamSize := beamSize, lc_globalBeamSize := beamSize\<rparr>\<rparr>
              in (beamSize, an_updateConfig a))"

definition resetForInput :: "byte_string \<Rightarrow> analyzer \<Rightarrow> status_code \<times> analyzer" where
  "resetForInput input a =
     (let a = an_reset a
      in case ai_reset input (an_input a) of
           (status, i) \<Rightarrow>
             let a = a\<lparr>an_input := i\<rparr>
             in if status \<noteq> StOk then (status, a)
                else (StOk, snd (autoBeamSizes (a\<lparr>an_latticeBldr := builder_reset (ai_numCodepoints i) (an_latticeBldr a)\<rparr>))))"

definition patterns_to_store :: "features_spec \<Rightarrow> u32" where
  "patterns_to_store spec = word_of_nat (length (fsp_pattern spec)) - fsp_numUniOnlyPats spec"

fun make_scorers :: "(status_code \<times> score_computer) list \<Rightarrow> score_computer list \<Rightarrow> status_code \<times> score_computer list" where
  "make_scorers [] made = (StOk, made)"
| "make_scorers ((status, s) # others) made = (if status \<noteq> StOk then (status, made) else make_scorers others (made @ [s]))"

definition initScorers :: "scorer_def \<Rightarrow> analyzer \<Rightarrow> status_code \<times> analyzer" where
  "initScorers sd a =
     (let cfg = an_cfg a; lc = an_latticeConfig a; fh = ch_features (an_core a)
      in if fh_validate fh \<noteq> StOk then (fh_validate fh, a)
         else if length (sdf_scoreWeights sd) \<noteq> unat (lc_scoreCnt lc) then (StInvalidParameter, a)
         else if lc_beamSize lc = 0 then (StInvalidParameter, a)
         else if sint (ac_rightGbeamCheck cfg) > 0 \<and> sint (ac_rightGbeamSize cfg) \<le> 0 then (StInvalidParameter, a)
         else case make_scorers (sdf_others sd) [] of
           (status, scorers) \<Rightarrow>
             let a = a\<lparr>an_scorers := scorers\<rparr>
             in if status \<noteq> StOk then (status, a)
                else let lc = (if \<not> ac_storeAllPatterns cfg \<and> fh_patternStatic fh \<noteq> None
                           then lc\<lparr>lc_numFeaturePatterns := patterns_to_store (ch_spec (an_core a))\<rparr> else lc);
                         lc = (if sint (ac_globalBeamSize cfg) > 0 then lc\<lparr>lc_globalBeamSize := ac_globalBeamSize cfg\<rparr> else lc);
                         a = a\<lparr>an_latticeConfig := lc\<rparr>
                     in if sdf_others sd \<noteq> [] \<and> sint (ac_globalBeamSize cfg) \<le> 0 then (StInvalidState, a)
                        else (StOk, an_updateConfig a))"

definition setGlobalBeam :: "i32 \<Rightarrow> i32 \<Rightarrow> i32 \<Rightarrow> analyzer \<Rightarrow> bool \<times> analyzer" where
  "setGlobalBeam leftBeam rightCheck rightBeam a =
     (let c = an_cfg a;
          a = (if ac_globalBeamSize c \<noteq> leftBeam then
                 an_updateConfig (a\<lparr>an_cfg := (an_cfg a)\<lparr>ac_globalBeamSize := leftBeam\<rparr>,
                   an_latticeConfig := (an_latticeConfig a)\<lparr>lc_globalBeamSize := leftBeam\<rparr>\<rparr>)
               else a);
          a = a\<lparr>an_cfg := (an_cfg a)\<lparr>ac_rightGbeamSize := rightBeam, ac_rightGbeamCheck := rightCheck\<rparr>\<rparr>;
          result = (ac_globalBeamSize c \<noteq> leftBeam \<or> ac_rightGbeamSize c \<noteq> rightBeam \<or> ac_rightGbeamCheck c \<noteq> rightCheck)
      in (result, if result then a\<lparr>an_sproc := None\<rparr> else a))"

definition setStoreAllPatterns :: "bool \<Rightarrow> analyzer \<Rightarrow> bool \<times> analyzer" where
  "setStoreAllPatterns v a =
     (if ac_storeAllPatterns (an_cfg a) = v then (False, a)
      else let spec = ch_spec (an_core a);
               a = a\<lparr>an_cfg := (an_cfg a)\<lparr>ac_storeAllPatterns := v\<rparr>\<rparr>;
               n = (if \<not> v \<and> fh_patternStatic (ch_features (an_core a)) \<noteq> None then patterns_to_store spec else word_of_nat (length (fsp_pattern spec)))
           in (True, an_updateConfig (a\<lparr>an_latticeConfig := (an_latticeConfig a)\<lparr>lc_numFeaturePatterns := n\<rparr>\<rparr>)))"

subsection \<open>Seeds\<close>

definition makeNodeSeedsFromDic :: "runtime \<Rightarrow> analyzer \<Rightarrow> (status_code \<times> analyzer) option" where
  "makeNodeSeedsFromDic rt a =
     map_option (\<lambda>b. (StOk, a\<lparr>an_latticeBldr := b\<rparr>))
       (dictionary_spawnNodes (ch_entries (an_core a)) (rt_i32 rt) (ai_codepoints (an_input a)) (an_latticeBldr a))"

text \<open>No maker returns false.\<close>

definition makeUnkNodes :: "runtime \<Rightarrow> unk_creator list \<Rightarrow> analyzer \<Rightarrow> (status_code \<times> analyzer) option" where
  "makeUnkNodes rt makers a =
     map_option (\<lambda>(x, b). (StOk, a\<lparr>an_xtra := x, an_latticeBldr := b\<rparr>))
       (fold_option (maker_spawnNodes rt (ai_codepoints (an_input a))) makers (an_xtra a, an_latticeBldr a))"

definition makeUnkNodes1 :: "runtime \<Rightarrow> analyzer \<Rightarrow> (status_code \<times> analyzer) option" where
  "makeUnkNodes1 rt a = makeUnkNodes rt (um_stage1 (ch_unkMakers (an_core a))) a"

definition makeUnkNodes2 :: "runtime \<Rightarrow> analyzer \<Rightarrow> (status_code \<times> analyzer) option" where
  "makeUnkNodes2 rt a = makeUnkNodes rt (um_stage2 (ch_unkMakers (an_core a))) a"

definition checkLatticeConnectivity :: "analyzer \<Rightarrow> bool \<times> analyzer" where
  "checkLatticeConnectivity a = (case checkConnectability (an_latticeBldr a) of (ok, b) \<Rightarrow> (ok, a\<lparr>an_latticeBldr := b\<rparr>))"

definition an_prepare :: "analyzer \<Rightarrow> (status_code \<times> analyzer) option" where
  "an_prepare a = Some (StOk, a\<lparr>an_latticeBldr := prepare (an_latticeBldr a)\<rparr>)"

definition prepareNodeSeeds :: "runtime \<Rightarrow> analyzer \<Rightarrow> (status_code \<times> analyzer) option" where
  "prepareNodeSeeds rt a =
     and_then (makeNodeSeedsFromDic rt a) (\<lambda>a.
     and_then (makeUnkNodes1 rt a) (\<lambda>a.
       case checkLatticeConnectivity a of
         (True, a) \<Rightarrow> an_prepare a
       | (False, a) \<Rightarrow>
           and_then (makeUnkNodes2 rt a) (\<lambda>a.
             case checkLatticeConnectivity a of
               (True, a) \<Rightarrow> an_prepare a
             | (False, a) \<Rightarrow> Some (StInvalidState, a))))"

subsection \<open>Lattice and scores\<close>

definition an_buildLattice :: "runtime \<Rightarrow> analyzer \<Rightarrow> (status_code \<times> analyzer) option" where
  "an_buildLattice rt a =
     (let fh = ch_features (an_core a)
      in map_option (\<lambda>(status, b, l). (status, a\<lparr>an_latticeBldr := b, an_lattice := l\<rparr>))
           (analyzer_buildLattice (rt_memory rt) (an_context a) (if fh_patternStatic fh = None then fh_patternDynamic fh else None)
             (unat (ai_numCodepoints (an_input a))) (an_latticeBldr a, an_lattice a)))"

text \<open>The buffers of the global beam have no place when there is none.\<close>

definition mk_gbeam_buffers :: "runtime \<Rightarrow> analyzer_config \<Rightarrow> lattice \<Rightarrow> gbeam_buffers" where
  "mk_gbeam_buffers rt cfg l =
     (if sint (ac_globalBeamSize cfg) > 0 then
        \<lparr>gb_candidates = [],
         gb_t1patBuf = map (\<lambda>_. rt_fresh64 rt (unat (lc_numFeaturePatterns (lt_config l)))) [0..<unat (max_ends l)],
         gb_scoreBuf = rt_freshScores rt (unat (ac_globalBeamSize cfg)),
         gb_prescores = (if sint (ac_rightGbeamCheck cfg) > 0
           then map (\<lambda>_. rt_freshScores rt (unat (max_starts l))) [0..<unat (ac_rightGbeamCheck cfg)] else [])\<rparr>
      else \<lparr>gb_candidates = [], gb_t1patBuf = [], gb_scoreBuf = [], gb_prescores = []\<rparr>)"

definition an_bootstrap :: "runtime \<Rightarrow> analyzer \<Rightarrow> (status_code \<times> analyzer) option" where
  "an_bootstrap rt a =
     map_option (\<lambda>pn.
       case bootstrapAnalysis (rt_fresh64 rt) (rt_fresh32 rt) (rt_freshScores rt) pn (an_lattice a) of
         (p, l) \<Rightarrow> (StOk, a\<lparr>an_sproc := Some (p, mk_gbeam_buffers rt (an_cfg a) (an_lattice a), an_plugin a), an_lattice := l\<rparr>))
       (fh_ngramPartial (ch_features (an_core a)))"

text \<open>The generated function and the patterns it leaves out, for one boundary.\<close>

definition computeT0All :: "static_patterns \<Rightarrow> prim_context \<Rightarrow> nat \<Rightarrow> score_processor \<times> lattice \<Rightarrow> score_processor \<times> lattice" where
  "computeT0All gen ctx bnd pl =
     (case pl of (p, l) \<Rightarrow>
        let right = bd_right (boundary l bnd);
            fb = (sp_features p)\<lparr>fb_currentElems := word_of_nat (length (rb_nodeInfo right))\<rparr>
        in case gen ctx (rb_nodeInfo right) (rb_entryData right) fb (rb_patterns right) (bufferT0 p) of
             (entries, fb, patterns, t0) \<Rightarrow>
               (p\<lparr>sp_bufferT0 := write_back t0 (sp_bufferT0 p), sp_features := fb\<rparr>,
                update_boundary bnd (\<lambda>b. set_patterns patterns (set_entryData entries b)) l))"

fun uni_only_rows :: "prim_context \<Rightarrow> pattern_apply \<Rightarrow> node_info list \<Rightarrow> i32 list list \<Rightarrow> u64 list list \<Rightarrow> u64 list list option" where
  "uni_only_rows ctx a (ni # nis) (entry # entries) (result # results) =
     (case pda_applyUniOnly ctx ni entry a result of
        None \<Rightarrow> None
      | Some r \<Rightarrow> map_option (\<lambda>rs. r # rs) (uni_only_rows ctx a nis entries results))"
| "uni_only_rows ctx a [] entries results = Some results"
| "uni_only_rows ctx a nis entries results = None"

definition computeUniOnlyPatterns :: "pattern_apply \<Rightarrow> prim_context \<Rightarrow> nat \<Rightarrow> lattice \<Rightarrow> lattice option" where
  "computeUniOnlyPatterns a ctx bnd l =
     try_boundary bnd (\<lambda>b. map_option (\<lambda>rows. set_patterns rows b)
       (uni_only_rows ctx a (rb_nodeInfo (bd_right b)) (rb_entryData (bd_right b)) (rb_patterns (bd_right b)))) l"

definition an_static :: "analyzer \<Rightarrow> (nat \<Rightarrow> score_processor \<times> lattice \<Rightarrow> (score_processor \<times> lattice) option) option" where
  "an_static a =
     (let fh = ch_features (an_core a)
      in map_option (\<lambda>gen bnd pl.
           case computeT0All gen (an_context a) bnd pl of
             (p, l) \<Rightarrow>
               if ac_storeAllPatterns (an_cfg a) then
                 Option.bind (fh_patternDynamic fh) (\<lambda>d. map_option (Pair p) (computeUniOnlyPatterns d (an_context a) bnd l))
               else Some (p, l)) (fh_patternStatic fh))"

definition an_gbeam_config :: "analyzer_config \<Rightarrow> gbeam_config" where
  "an_gbeam_config cfg =
     \<lparr>gc_globalBeamSize = ac_globalBeamSize cfg, gc_rightGbeamCheck = ac_rightGbeamCheck cfg, gc_rightGbeamSize = ac_rightGbeamSize cfg\<rparr>"

text \<open>The processor keeps the plugin it was made with. The scorer of the features is given; without it \<open>Analyzer::initialize\<close> fails.\<close>

definition an_computeScores :: "runtime \<Rightarrow> scorer_def \<Rightarrow> analyzer \<Rightarrow> (status_code \<times> analyzer) option" where
  "an_computeScores rt sd a =
     (case an_sproc a of
        None \<Rightarrow> Some (StInvalidState, a)
      | Some (p, g, plugin) \<Rightarrow>
          case sdf_feature sd of
            None \<Rightarrow> None
          | Some weights \<Rightarrow>
              if sint (ac_globalBeamSize (an_cfg a)) \<le> 0 then
                map_option (\<lambda>(status, p, l). (status, a\<lparr>an_sproc := Some (p, g, plugin), an_lattice := l\<rparr>))
                  (computeScoresFull (rt_fadd rt) weights plugin (an_static a) (p, an_lattice a))
              else
                map_option (\<lambda>(status, p, g, l). (status, a\<lparr>an_sproc := Some (p, g, plugin), an_lattice := l\<rparr>))
                  (computeScoresGbeam (rt_fadd rt) (rt_fmul rt) weights (sdf_scoreWeights sd) plugin (an_static a) (rt_sort_idx rt) (rt_nth_element rt)
                    (an_gbeam_config (an_cfg a)) (map (\<lambda>s. s (an_xtra a)) (an_scorers a)) (p, g, an_lattice a)))"

subsection \<open>Analysis\<close>

definition an_initialize :: "core_holder \<Rightarrow> analyzer_config \<Rightarrow> scoring_config \<Rightarrow> scorer_def \<Rightarrow> status_code \<times> analyzer option" where
  "an_initialize core cfg sconf sd =
     (let total = length (sdf_others sd) + 1
      in if sint (sc_numScorers sconf) \<noteq> int total then (StInvalidParameter, None)
         else if sdf_feature sd = None then (StInvalidParameter, None)
         else if length (sdf_scoreWeights sd) \<noteq> total then (StInvalidParameter, None)
         else case initScorers sd (an_new core sconf cfg) of (status, a) \<Rightarrow> (status, if status = StOk then Some a else None))"

definition an_analyze :: "runtime \<Rightarrow> scorer_def \<Rightarrow> byte_string \<Rightarrow> score_plugin option \<Rightarrow> analyzer \<Rightarrow> (status_code \<times> analyzer) option" where
  "an_analyze rt sd input plugin a =
     and_then (Some (resetForInput input a)) (\<lambda>a.
     and_then (prepareNodeSeeds rt (a\<lparr>an_plugin := plugin\<rparr>)) (\<lambda>a.
     and_then (an_buildLattice rt a) (\<lambda>a.
     and_then (an_bootstrap rt a) (an_computeScores rt sd))))"

end
