(* ===== verification/Analysis.thy ===== *)
theory Analysis
  imports Analyzer SegmentedFormat
begin

text \<open>
  The analysis of an input is a segmentation of it: the seeds of all makers lie in the input, the preparation succeeds exactly when they lead through
  it, and then the words of the best path follow each other from the first character to the last, and the segmented format prints them as the input.
\<close>

subsection \<open>Seeds that lead through the input\<close>

lemma append_inv:
  assumes "makers_inv n k (x, b)" "unat start < unat stop" "unat stop \<le> n"
  shows "makers_inv n k (x, append_entries start stop entries b)"
  using assms
proof (induction start stop entries b rule: append_entries.induct)
  case (1 start stop entries b)
  then show ?case
    by (auto simp: append_entries.simps [of start stop entries b] makers_inv_def seeds_inside_def appendSeed_def split: prod.splits bool.splits)
qed

lemma spawn_positions_inv:
  assumes "spawn_positions h points start position trav b = Some b'" "unat position + length points \<le> n" "unat start \<le> unat position" "n < 65535"
    and "makers_inv n k (x, b)"
  shows "makers_inv n k (x, b')"
  using assms
proof (induction h points start position trav b rule: spawn_positions.induct)
  case (2 h cp points start position trav b)
  have p: "unat (position + 1) = unat position + 1" using "2.prems"(2,4) by (intro next_position) simp
  obtain st trav' where st: "index_step h (ic_bytes cp) trav = Some (st, trav')" using "2.prems"(1) by (auto split: option.splits)
  have b: "makers_inv n k (x, append_entries start (position + 1) (index_entries h trav') b)" using "2.prems" p by (intro append_inv) simp_all
  show ?case
  proof (cases st)
    case TsOk
    show ?thesis by (rule "2.IH"(1) [OF st refl TsOk]) (use "2.prems" p b st TsOk in simp_all)
  next
    case TsNoLeaf
    show ?thesis by (rule "2.IH"(2) [OF st refl TsNoLeaf]) (use "2.prems" p st TsNoLeaf in simp_all)
  next
    case TsNoNode
    then show ?thesis using "2.prems" st by simp
  qed
qed simp

lemma spawn_starts_inv:
  assumes "spawn_starts h value0 points start b = Some b'" "unat start + length points \<le> n" "n < 65535" "makers_inv n k (x, b)"
  shows "makers_inv n k (x, b')"
  using assms
proof (induction h value0 points start b rule: spawn_starts.induct)
  case (2 h value0 cp points start b)
  then obtain b1 where b1: "spawn_positions h (cp # points) start start (da_traversal_new value0) b = Some b1" "spawn_starts h value0 points (start + 1) b1 = Some b'"
    by (auto split: option.splits)
  have p: "unat (start + 1) = unat start + 1" using "2.prems"(2,3) by (intro next_position) simp
  have "makers_inv n k (x, b1)" by (rule spawn_positions_inv [OF b1(1) _ _ "2.prems"(3,4)]) (use "2.prems"(2) in simp_all)
  then show ?case using "2.IH" [OF b1(1)] b1(2) "2.prems"(2,3) p by simp
qed simp

lemma dictionary_inv:
  assumes "dictionary_spawnNodes h value0 points b = Some b'" "length points < 65535" "makers_inv (length points) k (x, b)"
  shows "makers_inv (length points) k (x, b')"
proof -
  have "unat (word_of_nat (length points) :: u16) = length points" using assms(2) by (intro unat_of_nat_small) simp
  then have "spawn_starts h value0 points 0 b = Some b'" using assms(1) by (simp add: dictionary_spawnNodes_def Let_def)
  from spawn_starts_inv [OF this _ assms(2,3)] show ?thesis by simp
qed

text \<open>An analyzer whose seeds lie in its input; preparing them changes nothing but the extra nodes and the builder.\<close>

definition seeding :: "analyzer \<Rightarrow> analyzer \<Rightarrow> bool" where
  "seeding a a' \<longleftrightarrow> (let n = length (ai_codepoints (an_input a)) in makers_inv n (word_of_nat n + 1) (an_xtra a', an_latticeBldr a')
     \<and> (\<exists>x b. a' = a\<lparr>an_xtra := x, an_latticeBldr := b\<rparr>))"

lemma seeding_same: "seeding a a' \<Longrightarrow> an_input a' = an_input a \<and> an_core a' = an_core a"
  by (auto simp: seeding_def Let_def)

lemma seeding_update:
  assumes "seeding a a'" "makers_inv (length (ai_codepoints (an_input a))) (word_of_nat (length (ai_codepoints (an_input a))) + 1) (x, b)"
  shows "seeding a (a'\<lparr>an_xtra := x, an_latticeBldr := b\<rparr>)"
proof -
  from assms(1) obtain x1 b1 where "a' = a\<lparr>an_xtra := x1, an_latticeBldr := b1\<rparr>" by (auto simp: seeding_def Let_def)
  then have "a'\<lparr>an_xtra := x, an_latticeBldr := b\<rparr> = a\<lparr>an_xtra := x, an_latticeBldr := b\<rparr>" by simp
  then show ?thesis unfolding seeding_def Let_def using assms(2) by (intro conjI exI) simp_all
qed

lemma dic_seeding:
  assumes "makeNodeSeedsFromDic rt a' = Some (st, a2)" "seeding a a'" "length (ai_codepoints (an_input a)) < 65535"
  shows "st = StOk" "seeding a a2"
proof -
  from assms(1) obtain b where b: "dictionary_spawnNodes (ch_entries (an_core a')) (rt_i32 rt) (ai_codepoints (an_input a')) (an_latticeBldr a') = Some b"
    "st = StOk" "a2 = a'\<lparr>an_xtra := an_xtra a', an_latticeBldr := b\<rparr>" by (auto simp: makeNodeSeedsFromDic_def)
  show "st = StOk" by (rule b(2))
  show "seeding a a2" unfolding b(3)
    by (rule seeding_update [OF assms(2)]) (use dictionary_inv [OF b(1)] assms(2,3) seeding_same [OF assms(2)] in \<open>auto simp: seeding_def Let_def\<close>)
qed

lemma unk_seeding:
  assumes "makeUnkNodes rt makers a' = Some (st, a2)" "seeding a a'" "length (ai_codepoints (an_input a)) < 65535" "runtime_ok rt"
  shows "st = StOk" "seeding a a2"
proof -
  let ?n = "length (ai_codepoints (an_input a))"
  from assms(1) obtain x b where b: "fold_option (maker_spawnNodes rt (ai_codepoints (an_input a'))) makers (an_xtra a', an_latticeBldr a') = Some (x, b)"
    "st = StOk" "a2 = a'\<lparr>an_xtra := x, an_latticeBldr := b\<rparr>" by (auto simp: makeUnkNodes_def)
  show "st = StOk" by (rule b(2))
  have "makers_inv ?n (word_of_nat ?n + 1) (x, b)"
    by (rule fold_option_inv [where P = "makers_inv ?n (word_of_nat ?n + 1)", OF b(1)])
      (use maker_inv [OF _ _ assms(4)] assms(2,3) seeding_same [OF assms(2)] in \<open>auto simp: seeding_def Let_def\<close>)
  then show "seeding a a2" unfolding b(3) by (rule seeding_update [OF assms(2)])
qed

lemma check_seeding:
  assumes "checkLatticeConnectivity a' = (ok, a2)" "seeding a a'" "length (ai_codepoints (an_input a)) < 65535"
  shows "seeding a a2" "sorted (map (\<lambda>s. unat (sd_start s)) (lbd_seeds (an_latticeBldr a2)))"
    "ok \<longleftrightarrow> (0, length (ai_codepoints (an_input a))) \<in> (seed_edges (lbd_seeds (an_latticeBldr a2)))\<^sup>*"
proof -
  let ?n = "length (ai_codepoints (an_input a))"
  from assms(1) obtain b where b: "checkConnectability (an_latticeBldr a') = (ok, b)" "a2 = a'\<lparr>an_xtra := an_xtra a', an_latticeBldr := b\<rparr>"
    by (auto simp: checkLatticeConnectivity_def split: prod.splits)
  have seeds: "lbd_seeds b = sort_key sd_start (lbd_seeds (an_latticeBldr a'))" "lbd_maxBoundaries b = lbd_maxBoundaries (an_latticeBldr a')"
    using b(1) by (auto simp: checkConnectability_def sortSeeds_def Let_def)
  have inv: "makers_inv ?n (word_of_nat ?n + 1) (an_xtra a', an_latticeBldr a')" using assms(2) by (simp add: seeding_def Let_def)
  then show "seeding a a2" unfolding b(2) by (intro seeding_update [OF assms(2)]) (simp add: makers_inv_def seeds_inside_def seeds list_all_iff)
  show "sorted (map (\<lambda>s. unat (sd_start s)) (lbd_seeds (an_latticeBldr a2)))"
    using sorted_sort_key [of sd_start "lbd_seeds (an_latticeBldr a')"] unfolding sorted_unat_key by (simp add: b(2) seeds)
  have k: "unat (lbd_maxBoundaries (an_latticeBldr a')) = ?n + 1"
    using inv assms(3) next_position [of "word_of_nat ?n"] by (simp add: makers_inv_def unat_of_nat_small del: unat_of_nat)
  have "\<forall>s \<in> set (lbd_seeds (an_latticeBldr a')). sd_start s \<le> sd_end s \<and> sd_end s < lbd_maxBoundaries (an_latticeBldr a')"
  proof
    fix s assume "s \<in> set (lbd_seeds (an_latticeBldr a'))"
    then have "unat (sd_start s) < unat (sd_end s)" "unat (sd_end s) \<le> ?n" using inv by (simp_all add: makers_inv_def seeds_inside_def list_all_iff)
    then show "sd_start s \<le> sd_end s \<and> sd_end s < lbd_maxBoundaries (an_latticeBldr a')" by (simp add: word_le_nat_alt word_less_nat_alt k)
  qed
  moreover have "0 < lbd_maxBoundaries (an_latticeBldr a')" using k by (simp add: word_less_nat_alt)
  ultimately have "fst (checkConnectability (an_latticeBldr a')) \<longleftrightarrow> (0, ?n + 1 - 1) \<in> (seed_edges (lbd_seeds (an_latticeBldr a')))\<^sup>*"
    unfolding k [symmetric] by (rule checkConnectability_reachable)
  moreover have "seed_edges (lbd_seeds (an_latticeBldr a2)) = seed_edges (lbd_seeds (an_latticeBldr a'))" by (simp add: b(2) seeds seed_edges_def)
  ultimately show "ok \<longleftrightarrow> (0, ?n) \<in> (seed_edges (lbd_seeds (an_latticeBldr a2)))\<^sup>*" by (simp add: b(1))
qed

text \<open>What the preparation of the seeds leaves, with the seeds \<open>b\<close> it ends with.\<close>

lemma prepared_seeds:
  assumes "prepareNodeSeeds rt a = Some (st, a')" "seeding a a" "length (ai_codepoints (an_input a)) = n" "n < 65535" "runtime_ok rt"
  obtains x b where "a' = a\<lparr>an_xtra := x, an_latticeBldr := (if st = StOk then prepare b else b)\<rparr>" "makers_inv n (word_of_nat n + 1) (x, b)"
    "sorted (map (\<lambda>s. unat (sd_start s)) (lbd_seeds b))" "st = StOk \<longleftrightarrow> (0, n) \<in> (seed_edges (lbd_seeds b))\<^sup>*" "st = StOk \<or> st = StInvalidState"
proof -
  note result = that
  have n: "length (ai_codepoints (an_input a)) < 65535" using assms(3,4) by simp
  from assms(1) obtain st1 a1 where 1: "makeNodeSeedsFromDic rt a = Some (st1, a1)" by (auto simp: prepareNodeSeeds_def and_then_def split: option.splits)
  note s1 = dic_seeding [OF 1 assms(2) n]
  from assms(1) 1 s1(1) obtain st2 a2 where 2: "makeUnkNodes1 rt a1 = Some (st2, a2)" by (auto simp: prepareNodeSeeds_def and_then_def split: option.splits)
  note s2 = unk_seeding [OF 2 [unfolded makeUnkNodes1_def] s1(2) n assms(5)]
  obtain ok3 a3 where 3: "checkLatticeConnectivity a2 = (ok3, a3)" by fastforce
  note s3 = check_seeding [OF 3 s2(2) n]
  have end_with: thesis
    if "seeding a m" "sorted (map (\<lambda>s. unat (sd_start s)) (lbd_seeds (an_latticeBldr m)))"
      "ok \<longleftrightarrow> (0, length (ai_codepoints (an_input a))) \<in> (seed_edges (lbd_seeds (an_latticeBldr m)))\<^sup>*"
      "(if ok then an_prepare m else Some (StInvalidState, m)) = Some (st, a')" for m ok
  proof -
    from that(1) obtain x b where m: "m = a\<lparr>an_xtra := x, an_latticeBldr := b\<rparr>" "makers_inv n (word_of_nat n + 1) (x, b)"
      unfolding seeding_def Let_def assms(3) by auto
    have "st = (if ok then StOk else StInvalidState)" "a' = a\<lparr>an_xtra := x, an_latticeBldr := (if ok then prepare b else b)\<rparr>"
      using that(4) m(1) by (auto simp: an_prepare_def split: if_splits)
    then show thesis using that(2,3) m assms(3) by (intro result [where x = x and b = b]) (auto split: if_splits)
  qed
  show thesis
  proof (cases ok3)
    case True
    with assms(1) 1 2 3 s1(1) s2(1) have "an_prepare a3 = Some (st, a')" by (simp add: prepareNodeSeeds_def and_then_def)
    then show thesis using True by (intro end_with [OF s3]) simp
  next
    case False
    with assms(1) 1 2 3 s1(1) s2(1) obtain st4 a4 where 4: "makeUnkNodes2 rt a3 = Some (st4, a4)"
      by (auto simp: prepareNodeSeeds_def and_then_def split: option.splits)
    note s4 = unk_seeding [OF 4 [unfolded makeUnkNodes2_def] s3(1) n assms(5)]
    obtain ok5 a5 where 5: "checkLatticeConnectivity a4 = (ok5, a5)" by fastforce
    note s5 = check_seeding [OF 5 s4(2) n]
    have "(if ok5 then an_prepare a5 else Some (StInvalidState, a5)) = Some (st, a')"
      using assms(1) 1 2 3 4 5 False s1(1) s2(1) s4(1) by (cases ok5) (simp_all add: prepareNodeSeeds_def and_then_def)
    then show thesis by (rule end_with [OF s5])
  qed
qed

text \<open>The configuration of the lattice is that of the analyzer, and the extra nodes have the fields of the dictionary. A new analyzer is so.\<close>

definition an_ok :: "analyzer \<Rightarrow> bool" where
  "an_ok a \<longleftrightarrow> lt_config (an_lattice a) = an_latticeConfig a \<and> xc_numFields (an_xtra a) = unat (eh_numFeatures (ch_entries (an_core a)))"

lemma new_ok:
  assumes "entry_counts_ok (ch_entries core)"
  shows "an_ok (an_new core sconf cfg)"
proof -
  let ?n = "eh_numFeatures (ch_entries core)"
  have n: "unat ?n < 2 ^ 31" using assms by (simp add: entry_counts_ok_def)
  then have "sint ?n = int (unat ?n)" by (intro sint_small) simp
  then have "(scast ?n :: u64) = word_of_nat (unat ?n)" by (metis of_int_of_nat_eq scast_eq)
  moreover have "unat (word_of_nat (unat ?n) :: u64) = unat ?n" using n by (intro unat_of_nat_small) simp
  ultimately show ?thesis by (simp add: an_ok_def an_new_def lattice_new_def xc_new_def)
qed

lemma reset_ready:
  assumes "resetForInput input a = (StOk, a1)" "an_ok a"
  shows "an_lattice a1 = lattice_new (an_latticeConfig a1)" "lbd_seeds (an_latticeBldr a1) = []"
    "lbd_maxBoundaries (an_latticeBldr a1) = word_of_nat (length (ai_codepoints (an_input a1))) + 1"
    "preprocessRawData input [] = (StOk, ai_codepoints (an_input a1))" "an_core a1 = an_core a" "ac_globalBeamSize (an_cfg a1) = ac_globalBeamSize (an_cfg a)"
    "xc_nodes (an_xtra a1) = []" "xc_numFields (an_xtra a1) = unat (eh_numFeatures (ch_entries (an_core a1)))"
proof -
  from assms(1) obtain i where i: "ai_reset input (an_input (an_reset a)) = (StOk, i)"
    "a1 = snd (autoBeamSizes ((an_reset a)\<lparr>an_input := i, an_latticeBldr := builder_reset (ai_numCodepoints i) (an_latticeBldr (an_reset a))\<rparr>))"
    by (auto simp: resetForInput_def Let_def split: prod.splits if_splits)
  note defs = i(2) autoBeamSizes_def Let_def an_updateConfig_def an_reset_def lattice_reset_def lattice_new_def builder_reset_def ai_numCodepoints_def
  show "an_lattice a1 = lattice_new (an_latticeConfig a1)" using assms(2) by (simp add: defs an_ok_def)
  show "lbd_seeds (an_latticeBldr a1) = []" "an_core a1 = an_core a" "ac_globalBeamSize (an_cfg a1) = ac_globalBeamSize (an_cfg a)" by (simp_all add: defs)
  show "xc_nodes (an_xtra a1) = []" "xc_numFields (an_xtra a1) = unat (eh_numFeatures (ch_entries (an_core a1)))"
    using assms(2) by (simp_all add: defs xc_reset_def an_ok_def)
  have "an_input a1 = i" by (simp add: defs)
  moreover have "preprocessRawData input [] = (StOk, ai_codepoints i)"
    using i(1) by (auto simp: ai_reset_def Let_def split: prod.splits if_splits)
  ultimately show "preprocessRawData input [] = (StOk, ai_codepoints (an_input a1))"
    "lbd_maxBoundaries (an_latticeBldr a1) = word_of_nat (length (ai_codepoints (an_input a1))) + 1" by (simp_all add: defs)
qed

lemma join_nothing: "join_with [] ws = concat ws"
  by (induction "[]::byte_string" ws rule: join_with.induct) simp_all

definition path_nodes :: "lattice \<Rightarrow> node_info list" where
  "path_nodes l = map (\<lambda>c. node_at l (latticeNodePtr c)) (rev (best_path (eos_top l)))"

lemma seeds_ready:
  assumes "makers_inv n (word_of_nat n + 1) (x, b)" "sorted (map (\<lambda>s. unat (sd_start s)) (lbd_seeds b))" "n + 3 < 2 ^ 16" "length (lbd_seeds b) + 1 < 2 ^ 16"
  shows "seeds_ok b n"
proof -
  have "unat (lbd_maxBoundaries b) = n + 1"
    using assms(1,3) next_position [of "word_of_nat n"] by (simp add: makers_inv_def unat_of_nat_small del: unat_of_nat)
  then show ?thesis using assms by (simp add: seeds_ok_def makers_inv_def seeds_inside_def)
qed

text \<open>What the analysis asks of the analyzer: dynamic patterns and n-grams of the specification, and no global beam.\<close>

definition full_search :: "analyzer \<Rightarrow> scorer_def \<Rightarrow> bool" where
  "full_search a sd \<longleftrightarrow> fh_patternStatic (ch_features (an_core a)) = None \<and> sdf_feature sd \<noteq> None \<and> sint (ac_globalBeamSize (an_cfg a)) \<le> 0
     \<and> length (fsp_ngram (ch_spec (an_core a))) < 2 ^ 32
     \<and> (case fh_ngramPartial (ch_features (an_core a)) of None \<Rightarrow> False
        | Some pn \<Rightarrow> add_children pn_addChild (fsp_ngram (ch_spec (an_core a))) pn_empty = (StOk, pn))"

lemma full_search_same:
  "an_core a' = an_core a \<Longrightarrow> ac_globalBeamSize (an_cfg a') = ac_globalBeamSize (an_cfg a) \<Longrightarrow> full_search a' sd = full_search a sd"
  by (simp only: full_search_def)

lemma buildLattice_seeds: "lbd_seeds (fst (buildLattice fresh n (b, l))) = lbd_seeds b"
proof -
  have step: "lbd_seeds (fst (snd (constructSingleBoundary fresh k st))) = lbd_seeds (fst st)" for k st
    by (simp add: constructSingleBoundary_def makeBoundary_def Let_def split: prod.splits)
  have "lbd_seeds (fst (fold (\<lambda>k st. snd (constructSingleBoundary fresh k st)) ks st)) = lbd_seeds (fst st)" for ks st
    by (induction ks arbitrary: st) (simp_all add: step)
  then show ?thesis by (simp add: buildLattice_def Let_def)
qed

text \<open>The entries of the seeds can be read, and the features of the specification read inside of them.\<close>

definition an_features_fit :: "analyzer \<Rightarrow> bool" where
  "an_features_fit a =
     (case fh_patternDynamic (ch_features (an_core a)) of
        None \<Rightarrow> True
      | Some pat \<Rightarrow> features_fit (an_context a) (an_latticeConfig a) pat (lbd_seeds (an_latticeBldr a)) (length (ai_codepoints (an_input a))))"

lemma prepared_and_built:
  assumes "an_ok a" "runtime_ok rt" "resetForInput input a = (StOk, a1)" "length (ai_codepoints (an_input a1)) + 3 < 2 ^ 16"
    and "prepareNodeSeeds rt (a1\<lparr>an_plugin := plugin\<rparr>) = Some (StOk, a2)" "search_room (an_latticeConfig a2) (an_latticeBldr a2)"
    and "an_features_fit a2" "fh_patternStatic (ch_features (an_core a1)) = None" "length (ai_codepoints (an_input a1)) = n"
  obtains a3 b b' l x where "an_buildLattice rt a2 = Some (StOk, a3)" "seeds_ok b n" "search_room (an_latticeConfig a1) b" "(0, n) \<in> (seed_edges (lbd_seeds b))\<^sup>*"
    "same_frames (snd (buildLattice (rt_memory rt) n (prepare b, lattice_new (an_latticeConfig a1)))) l" "lbd_seeds b' = lbd_seeds b"
    "a3 = a1\<lparr>an_plugin := plugin, an_xtra := x, an_latticeBldr := b', an_lattice := l\<rparr>" "a2 = a1\<lparr>an_plugin := plugin, an_xtra := x, an_latticeBldr := prepare b\<rparr>"
proof -
  let ?b = "a1\<lparr>an_plugin := plugin\<rparr>"
  note r = reset_ready [OF assms(3,1)]
  have n: "n < 65535" using assms(4,9) by simp
  have len: "length (ai_codepoints (an_input ?b)) = n" using assms(9) by simp
  have ready: "seeding ?b ?b" unfolding seeding_def Let_def
    by (intro conjI exI [of _ "an_xtra ?b"] exI [of _ "an_latticeBldr ?b"]) (simp_all add: makers_inv_def seeds_inside_def r(2,3))
  obtain x b where raw: "a2 = ?b\<lparr>an_xtra := x, an_latticeBldr := (if StOk = StOk then prepare b else b)\<rparr>"
    and inv: "makers_inv n (word_of_nat n + 1) (x, b)" "sorted (map (\<lambda>s. unat (sd_start s)) (lbd_seeds b))"
    and conn: "StOk = StOk \<longleftrightarrow> (0, n) \<in> (seed_edges (lbd_seeds b))\<^sup>*"
    by (rule prepared_seeds [OF assms(5) ready len n assms(2)])
  have a2: "a2 = ?b\<lparr>an_xtra := x, an_latticeBldr := prepare b\<rparr>" using raw by simp
  have room: "search_room (an_latticeConfig a1) b" using assms(6) by (simp add: a2 search_room_def)
  then have "length (lbd_seeds b) + 1 < 2 ^ 16" by (simp add: search_room_def)
  with seeds_ready [OF inv] assms(4,9) have ok: "seeds_ok b n" by simp
  have parts: "unat (ai_numCodepoints (an_input a2)) = n" "an_latticeBldr a2 = prepare b" "an_lattice a2 = lattice_new (an_latticeConfig a1)"
    using n by (simp_all add: a2 r(1) ai_numCodepoints_def assms(9) unat_of_nat_small del: unat_of_nat)
  have core: "ch_features (an_core a2) = ch_features (an_core a1)" by (simp add: a2)
  let ?dyn = "fh_patternDynamic (ch_features (an_core a1))"
  have "\<exists>b' l. analyzer_buildLattice (rt_memory rt) (an_context a2) ?dyn n (prepare b, lattice_new (an_latticeConfig a1)) = Some (StOk, b', l)"
  proof (cases ?dyn)
    case None
    then show ?thesis by (simp add: buildLattice_static)
  next
    case (Some pat)
    with assms(7) have "features_fit (an_context a2) (an_latticeConfig a1) pat (lbd_seeds b) n" by (simp add: an_features_fit_def a2 assms(9))
    from building_succeeds [OF ok this] show ?thesis by (simp add: Some)
  qed
  then obtain b' l where built: "analyzer_buildLattice (rt_memory rt) (an_context a2) ?dyn n (prepare b, lattice_new (an_latticeConfig a1)) = Some (StOk, b', l)"
    by blast
  then have step: "an_buildLattice rt a2 = Some (StOk, a2\<lparr>an_latticeBldr := b', an_lattice := l\<rparr>)"
    unfolding an_buildLattice_def Let_def parts core by (simp add: assms(8))
  note frames = buildLattice_frames [OF built]
  have "lbd_seeds b' = lbd_seeds b" using frames(1) by (simp add: buildLattice_seeds)
  then show thesis using conn by (intro that [OF step ok room _ frames(2)]) (simp_all add: a2)
qed

text \<open>The scores are computed on the lattice that was built.\<close>

lemma computed_scores:
  assumes "full_search a sd" "an_core a3 = an_core a" "ac_globalBeamSize (an_cfg a3) = ac_globalBeamSize (an_cfg a)"
    and "sdf_feature sd = Some weights" "fh_ngramPartial (ch_features (an_core a)) = Some pn"
    and "computeScoresFull (rt_fadd rt) weights (an_plugin a3) None (bootstrapAnalysis (rt_fresh64 rt) (rt_fresh32 rt) (rt_freshScores rt) pn (an_lattice a3)) = Some (StOk, p', l')"
  shows "\<exists>q. and_then (an_bootstrap rt a3) (an_computeScores rt sd) = Some (StOk, a3\<lparr>an_sproc := q, an_lattice := l'\<rparr>)"
proof -
  obtain p0 l0 where boot: "bootstrapAnalysis (rt_fresh64 rt) (rt_fresh32 rt) (rt_freshScores rt) pn (an_lattice a3) = (p0, l0)" by fastforce
  have "an_bootstrap rt a3 = Some (StOk, a3\<lparr>an_sproc := Some (p0, mk_gbeam_buffers rt (an_cfg a3) (an_lattice a3), an_plugin a3), an_lattice := l0\<rparr>)"
    using assms(5) boot by (simp add: an_bootstrap_def assms(2))
  moreover have "an_static (a3\<lparr>an_sproc := q, an_lattice := m\<rparr>) = None" for q m
    using assms(1) by (simp add: an_static_def full_search_def assms(2) Let_def)
  moreover have "sint (ac_globalBeamSize (an_cfg a3)) \<le> 0" using assms(1) by (simp add: full_search_def assms(3))
  ultimately show ?thesis using assms(4,6) by (auto simp: and_then_def an_computeScores_def boot)
qed

subsection \<open>The text of the words\<close>

text \<open>The surface of every seed can be read, and is the part of the input that the seed stands for.\<close>

definition an_named :: "string_field \<Rightarrow> analyzer \<Rightarrow> bool" where
  "an_named f a \<longleftrightarrow> seeds_named (ch_entries (an_core a)) f (ai_codepoints (an_input a)) (an_xtra a, an_latticeBldr a)"

text \<open>
  What the surface field must be: a feature of the entries, there must be room for the features in a buffer of an entry, and all makers of unknown
  words replace the field by the text of the word.
\<close>

definition surfaces_ready :: "runtime \<Rightarrow> string_field \<Rightarrow> core_holder \<Rightarrow> bool" where
  "surfaces_ready rt f c \<longleftrightarrow>
     (let h = ch_entries c
      in 0 \<le> sint (sf_index f) \<and> unat (sf_index f) < unat (eh_numFeatures h) \<and> entry_counts_ok h
       \<and> unat (eh_numFeatures h) \<le> length (deb_featureBuffer (rt_buffer rt))
       \<and> list_all (\<lambda>m. replaces_surface h f (creator_maker m)) (um_stage1 (ch_unkMakers c))
       \<and> list_all (\<lambda>m. replaces_surface h f (creator_maker m)) (um_stage2 (ch_unkMakers c)))"

text \<open>The words the dictionary has found: the surface field of every entry holds the part of the input it was found for.\<close>

definition words_read_back :: "string_field \<Rightarrow> analyzer \<Rightarrow> bool" where
  "words_read_back f a \<longleftrightarrow>
     list_all (\<lambda>sd. isDic (sd_entryPtr sd) \<and> entry_string (ch_entries (an_core a)) f (sd_entryPtr sd)
         = Some (input_surface (ai_codepoints (an_input a)) (unat (sd_start sd)) (unat (sd_end sd))))
       (lbd_seeds (an_latticeBldr a))"

lemma words_named:
  assumes "words_read_back f a" "xc_nodes (an_xtra a) = []" "xc_numFields (an_xtra a) = unat (eh_numFeatures (ch_entries (an_core a)))"
  shows "an_named f a"
  using assms by (auto simp: words_read_back_def an_named_def seeds_named_def seed_named_def Let_def list_all_iff)

lemma unk_named:
  assumes "makeUnkNodes rt makers a = Some (st, a')" "an_named f a" "length (ai_codepoints (an_input a)) < 65535" "runtime_ok rt"
    and "surfaces_ready rt f (an_core a)" "list_all (\<lambda>m. replaces_surface (ch_entries (an_core a)) f (creator_maker m)) makers"
  shows "an_named f a'" "st = StOk" "an_core a' = an_core a" "an_input a' = an_input a"
proof -
  from assms(1) obtain x b where b: "fold_option (maker_spawnNodes rt (ai_codepoints (an_input a))) makers (an_xtra a, an_latticeBldr a) = Some (x, b)"
    "st = StOk" "a' = a\<lparr>an_xtra := x, an_latticeBldr := b\<rparr>" by (auto simp: makeUnkNodes_def)
  have "seeds_named (ch_entries (an_core a)) f (ai_codepoints (an_input a)) (x, b)"
    by (rule fold_option_inv [where P = "seeds_named (ch_entries (an_core a)) f (ai_codepoints (an_input a))", OF b(1)])
      (use makers_named [OF _ assms(3,4)] assms(2,5,6) in \<open>auto simp: an_named_def surfaces_ready_def Let_def list_all_iff\<close>)
  then show "an_named f a'" "st = StOk" "an_core a' = an_core a" "an_input a' = an_input a" by (simp_all add: b an_named_def)
qed

lemma check_named:
  assumes "checkLatticeConnectivity a = (ok, a')" "an_named f a"
  shows "an_named f a'" "an_core a' = an_core a" "an_input a' = an_input a"
  using assms by (auto simp: checkLatticeConnectivity_def checkConnectability_def sortSeeds_def Let_def an_named_def seeds_named_def list_all_iff split: prod.splits)

lemma prepared_named:
  assumes "prepareNodeSeeds rt a = Some (st, a')" "makeNodeSeedsFromDic rt a = Some (st1, a1)" "words_read_back f a1"
    and "xc_nodes (an_xtra a) = []" "xc_numFields (an_xtra a) = unat (eh_numFeatures (ch_entries (an_core a)))"
    and "length (ai_codepoints (an_input a)) < 65535" "runtime_ok rt" "surfaces_ready rt f (an_core a)"
  shows "an_named f a'"
proof -
  have 1: "an_core a1 = an_core a" "an_input a1 = an_input a" "an_xtra a1 = an_xtra a" "st1 = StOk" using assms(2) by (auto simp: makeNodeSeedsFromDic_def)
  have n1: "an_named f a1" by (rule words_named [OF assms(3)]) (simp_all add: 1 assms(4,5))
  from assms(1,2) 1(4) obtain st2 a2 where 2: "makeUnkNodes1 rt a1 = Some (st2, a2)" by (auto simp: prepareNodeSeeds_def and_then_def split: option.splits)
  note n2 = unk_named [OF 2 [unfolded makeUnkNodes1_def] n1 _ assms(7), unfolded 1, OF assms(6,8)]
  have "list_all (\<lambda>m. replaces_surface (ch_entries (an_core a)) f (creator_maker m)) (um_stage1 (ch_unkMakers (an_core a)))"
    "list_all (\<lambda>m. replaces_surface (ch_entries (an_core a)) f (creator_maker m)) (um_stage2 (ch_unkMakers (an_core a)))"
    using assms(8) by (simp_all add: surfaces_ready_def Let_def)
  note makers = this and n2 = n2 [OF this(1)]
  obtain ok3 a3 where 3: "checkLatticeConnectivity a2 = (ok3, a3)" by fastforce
  note n3 = check_named [OF 3 n2(1)]
  show ?thesis
  proof (cases ok3)
    case True
    with assms(1,2) 1(4) 2 3 n2(2) have "an_prepare a3 = Some (st, a')" by (simp add: prepareNodeSeeds_def and_then_def)
    then show ?thesis using n3(1) by (auto simp: an_prepare_def an_named_def seeds_named_def)
  next
    case False
    with assms(1,2) 1(4) 2 3 n2(2) obtain st4 a4 where 4: "makeUnkNodes2 rt a3 = Some (st4, a4)"
      by (auto simp: prepareNodeSeeds_def and_then_def split: option.splits)
    note n4 = unk_named [OF 4 [unfolded makeUnkNodes2_def] n3(1) _ assms(7), unfolded n3(2,3) n2(3,4), OF assms(6,8) makers(2)]
    obtain ok5 a5 where 5: "checkLatticeConnectivity a4 = (ok5, a5)" by fastforce
    note n5 = check_named [OF 5 n4(1)]
    have "(if ok5 then an_prepare a5 else Some (StInvalidState, a5)) = Some (st, a')"
      using assms(1,2) 1(4) 2 3 4 5 False n2(2) n4(2) by (cases ok5) (simp_all add: prepareNodeSeeds_def and_then_def)
    then show ?thesis using n5(1) by (auto simp: an_prepare_def an_named_def seeds_named_def split: if_splits)
  qed
qed

text \<open>The words of a path are printed as the parts of the input they cover.\<close>

lemma path_prints:
  assumes "an_named f a" "surfaces_ready rt f (an_core a)" "length (lbd_seeds (an_latticeBldr a)) < 2 ^ 30"
    and "set (path_nodes l) \<subseteq> seed_node ` set (lbd_seeds (an_latticeBldr a))"
  shows "list_all (\<lambda>c. prints_as (an_output a) f (lattice_entry l (latticeNodePtr c)) (covered (ai_codepoints (an_input a)) (node_at l (latticeNodePtr c))))
    (best_path (eos_top l))"
  unfolding list_all_iff
proof
  fix c assume "c \<in> set (best_path (eos_top l))"
  then have "node_at l (latticeNodePtr c) \<in> set (path_nodes l)" by (simp add: path_nodes_def)
  with assms(4) obtain sd where sd: "sd \<in> set (lbd_seeds (an_latticeBldr a))" "node_at l (latticeNodePtr c) = seed_node sd" by blast
  have "prints_as (an_output a) f (sd_entryPtr sd) (input_surface (ai_codepoints (an_input a)) (unat (sd_start sd)) (unat (sd_end sd)))"
    by (rule seed_prints [OF _ assms(3) sd(1)]) (use assms(1,2) in \<open>simp_all add: an_named_def an_output_def surfaces_ready_def Let_def\<close>)
  moreover have "lattice_entry l (latticeNodePtr c) = sd_entryPtr sd" using sd(2)
    by (simp add: lattice_entry_def node_at_def seed_node_def mk_node_info_def)
  ultimately show "prints_as (an_output a) f (lattice_entry l (latticeNodePtr c)) (covered (ai_codepoints (an_input a)) (node_at l (latticeNodePtr c)))"
    by (simp add: sd(2) covered_def seed_node_def mk_node_info_def)
qed

text \<open>A path that covers the input is printed as the input.\<close>

lemma tiles_printed:
  assumes "an_named (sgf_surface fm) a" "surfaces_ready rt (sgf_surface fm) (an_core a)" "length (lbd_seeds (an_latticeBldr a)) < 2 ^ 30"
    and "tiles 0 (length (ai_codepoints (an_input a))) (path_nodes (an_lattice a))" "set (path_nodes (an_lattice a)) \<subseteq> seed_node ` set (lbd_seeds (an_latticeBldr a))"
    and "preprocessRawData input [] = (StOk, ai_codepoints (an_input a))" "sgf_separator fm = []"
    and "3 < createdBoundaryCount (an_lattice a)" "ends_in_eos (an_lattice a)" "linked (an_lattice a) 0 (eos_top (an_lattice a))"
  shows "\<exists>fm'. sgf_format (an_output a) (an_lattice a) (rt_buffer rt) fm = Some (StOk, fm') \<and> sgf_result fm' = input @ [0x0a]"
proof -
  let ?points = "ai_codepoints (an_input a)"
  have "om_lattice (an_output a) = an_lattice a" "unat (eh_numFeatures (om_entries (an_output a))) \<le> length (deb_featureBuffer (rt_buffer rt))"
    using assms(2) by (simp_all add: an_output_def surfaces_ready_def Let_def)
  note f = sgf_format_path [OF assms(8-10) this(1) path_prints [OF assms(1-3,5)] this(2)]
  have "concat (map (covered ?points) (path_nodes (an_lattice a))) = input"
    using tiles_text [OF assms(4), of ?points] preprocess_result [OF assms(6)] by (simp add: text_of_def)
  with f show ?thesis by (simp add: assms(7) join_nothing path_nodes_def o_def rev_map)
qed

text \<open>C6: The preparation of an input succeeds exactly when the seeds that the dictionary and the makers of unknown words have proposed lead from its start
  to its end, and fails with an invalid state otherwise. Whatever was proposed is a nonempty part of the input.\<close>

theorem preparation_connects_input:
  assumes "prepareNodeSeeds rt a = Some (st, a')" "length (ai_codepoints (an_input a)) = n" "n < 65535" "runtime_ok rt"
    and "lbd_seeds (an_latticeBldr a) = []" "lbd_maxBoundaries (an_latticeBldr a) = word_of_nat n + 1"
  shows "st = (if (0, n) \<in> (seed_edges (lbd_seeds (an_latticeBldr a')))\<^sup>* then StOk else StInvalidState)
    \<and> list_all (\<lambda>s. unat (sd_start s) < unat (sd_end s) \<and> unat (sd_end s) \<le> n) (lbd_seeds (an_latticeBldr a'))"
proof -
  have "seeding a a" unfolding seeding_def Let_def
    by (intro conjI exI [of _ "an_xtra a"] exI [of _ "an_latticeBldr a"]) (simp_all add: makers_inv_def seeds_inside_def assms(2,5,6))
  then obtain x b where "a' = a\<lparr>an_xtra := x, an_latticeBldr := (if st = StOk then prepare b else b)\<rparr>" "makers_inv n (word_of_nat n + 1) (x, b)"
    "st = StOk \<longleftrightarrow> (0, n) \<in> (seed_edges (lbd_seeds b))\<^sup>*" "st = StOk \<or> st = StInvalidState"
    by (rule prepared_seeds [OF assms(1) _ assms(2,3,4)])
  moreover from this(1) have "lbd_seeds (an_latticeBldr a') = lbd_seeds b" by simp
  ultimately show ?thesis by (auto simp: makers_inv_def seeds_inside_def)
qed

text \<open>C1: An analysis cuts its input into words and prints it. Let an analyzer search without a global beam, with the patterns and n-grams of its specification
  and no generated ones (\<open>full_search\<close>), let it accept an input of at most 65532 characters that is not empty, and let the seeds lead from its start to its end.
  Let there be room for the search (\<open>search_room\<close>: fewer than \<open>2 ^ 15 - 1\<close> seeds, a beam of 1 to 65535 elements, and scores that 32 bits can count), let the
  entries of the seeds be readable, and the features read inside of them and of the input, none of them the length of a field (\<open>an_features_fit\<close>). Then the whole analysis succeeds, and the
  words of the best path, all of them seeds, follow each other without gap or overlap from the first character of the input to the last. The
  segmented format with an empty separator then finds every word of the path with the output manager, reads its surface field, and
  prints the input itself and a line end: this needs a surface field that is a feature of the entries and that every unknown-word maker replaces by the text of the word
  (\<open>surfaces_ready\<close>, with room for the features in the buffer of an entry), and dictionary entries whose surface field holds the part of
  the input they were found for (\<open>words_read_back\<close>). The analyzer is then ready for the next input. The scores, the order an unstable sorting leaves, a plugin that
  only reads the nodes, and the values in new memory, one for each type, are arbitrary.
\<close>

theorem analysis_segments_input:
  assumes "an_ok a" "full_search a sd" "runtime_ok rt" "plugin_reads_nodes plugin"
    and "resetForInput input a = (StOk, a1)" "input \<noteq> []" "length (ai_codepoints (an_input a1)) + 3 < 2 ^ 16"
    and "prepareNodeSeeds rt (a1\<lparr>an_plugin := plugin\<rparr>) = Some (StOk, a2)" "search_room (an_latticeConfig a2) (an_latticeBldr a2)"
    and "an_features_fit a2"
    and "sgf_initialize (an_output a) fieldNames indexColumn [] fm0 = Some (StOk, fm)" "surfaces_ready rt (sgf_surface fm) (an_core a)"
    and "makeNodeSeedsFromDic rt (a1\<lparr>an_plugin := plugin\<rparr>) = Some (st, d)" "words_read_back (sgf_surface fm) d"
  shows "\<exists>a' fm'. an_analyze rt sd input plugin a = Some (StOk, a')
    \<and> tiles 0 (length (ai_codepoints (an_input a'))) (path_nodes (an_lattice a'))
    \<and> set (path_nodes (an_lattice a')) \<subseteq> seed_node ` set (lbd_seeds (an_latticeBldr a'))
    \<and> sgf_format (an_output a') (an_lattice a') (rt_buffer rt) fm = Some (StOk, fm') \<and> sgf_result fm' = input @ [0x0a]
    \<and> an_ok a' \<and> full_search a' sd"
proof -
  let ?points = "ai_codepoints (an_input a1)"
  define n where "n = length ?points"
  note r = reset_ready [OF assms(5,1)]
  have static: "fh_patternStatic (ch_features (an_core a1)) = None" using assms(2) by (simp add: full_search_def r(5))
  obtain a3 b b' l x where a3': "an_buildLattice rt a2 = Some (StOk, a3)" and b: "seeds_ok b n" "search_room (an_latticeConfig a1) b" "(0, n) \<in> (seed_edges (lbd_seeds b))\<^sup>*"
    "same_frames (snd (buildLattice (rt_memory rt) n (prepare b, lattice_new (an_latticeConfig a1)))) l" "lbd_seeds b' = lbd_seeds b"
    and a3: "a3 = a1\<lparr>an_plugin := plugin, an_xtra := x, an_latticeBldr := b', an_lattice := l\<rparr>"
    and a2: "a2 = a1\<lparr>an_plugin := plugin, an_xtra := x, an_latticeBldr := prepare b\<rparr>"
    by (rule prepared_and_built [OF assms(1,3,5,7-10) static n_def [symmetric]])
  have "0 < n" using preprocess_result [OF r(4)] assms(6) by (cases ?points) (auto simp: n_def)
  obtain weights pn where core: "sdf_feature sd = Some weights" "fh_ngramPartial (ch_features (an_core a)) = Some pn"
    "add_children pn_addChild (fsp_ngram (ch_spec (an_core a))) pn_empty = (StOk, pn)" "length (fsp_ngram (ch_spec (an_core a))) < 2 ^ 32"
    using assms(2) by (auto simp: full_search_def split: option.splits)
  have fresh: "length (rt_fresh64 rt k) = k" "length (rt_fresh32 rt k) = k" "length (rt_freshScores rt k) = k" for k
    using assms(3) by (simp_all add: runtime_ok_def)
  obtain p' l' where s: "computeScoresFull (rt_fadd rt) weights plugin None (bootstrapAnalysis (rt_fresh64 rt) (rt_fresh32 rt) (rt_freshScores rt) pn l) = Some (StOk, p', l')"
    "same_nodes l l'" "tiles 0 n (map (\<lambda>c. node_at l' (latticeNodePtr c)) (rev (best_path (eos_top l'))))"
    "set (map (\<lambda>c. node_at l' (latticeNodePtr c)) (best_path (eos_top l'))) \<subseteq> seed_node ` set (lbd_seeds b)"
    "3 < createdBoundaryCount l'" "ends_in_eos l'" "linked l' 0 (eos_top l')"
    by (rule analysis_of_built [OF b(1,2,4,3) \<open>0 < n\<close> core(3,4) assms(4) fresh, where fadd = "rt_fadd rt" and weights = weights]) (rule that)
  have nodes: "tiles 0 n (path_nodes l')" "set (path_nodes l') \<subseteq> seed_node ` set (lbd_seeds b)" using s(3,4) by (simp_all add: path_nodes_def)
  obtain q where "and_then (an_bootstrap rt a3) (an_computeScores rt sd) = Some (StOk, a3\<lparr>an_sproc := q, an_lattice := l'\<rparr>)"
    using computed_scores [OF assms(2) _ _ core(1,2), of a3 rt p' l'] s(1) by (auto simp: a3 r(5,6))
  then have run: "an_analyze rt sd input plugin a = Some (StOk, a3\<lparr>an_sproc := q, an_lattice := l'\<rparr>)"
    using assms(5,8) a3' by (simp add: an_analyze_def and_then_def)
  let ?a = "a3\<lparr>an_sproc := q, an_lattice := l'\<rparr>"
  have ready: "surfaces_ready rt (sgf_surface fm) (an_core a1)" using assms(12) by (simp only: r(5))
  have "an_named (sgf_surface fm) a2"
    by (rule prepared_named [OF assms(8,13,14)]) (use r(7,8) assms(3,7) ready in simp_all)
  then have named: "an_named (sgf_surface fm) ?a" and fields: "xc_numFields x = unat (eh_numFeatures (ch_entries (an_core a1)))"
    by (simp_all add: a2 a3 b(5) an_named_def seeds_named_def)
  have "sgf_separator fm = []" using sgf_initialized [OF assms(11)] .
  moreover have "length (lbd_seeds b) < 2 ^ 30" using b(2) by (simp add: search_room_def)
  ultimately have "\<exists>fm'. sgf_format (an_output ?a) (an_lattice ?a) (rt_buffer rt) fm = Some (StOk, fm') \<and> sgf_result fm' = input @ [0x0a]"
    by (intro tiles_printed [OF named]) (use ready nodes s(5-7) r(4) in \<open>simp_all add: a3 b(5) n_def\<close>)
  moreover have "lt_config l' = an_latticeConfig a1"
    using s(2) b(4) built_shape(1) [OF b(1), of "rt_memory rt" "an_latticeConfig a1"] by (simp add: same_frames_def same_nodes_def)
  moreover have "full_search ?a sd" using full_search_same [of ?a a sd] assms(2) by (simp add: a3 r(5,6))
  ultimately show ?thesis using nodes run
    by (intro exI [of _ ?a]) (auto simp: a3 b(5) n_def an_ok_def fields)
qed

subsection \<open>The analysis of a small input\<close>

definition sample_runtime :: runtime where
  "sample_runtime = \<lparr>rt_fadd = (\<lambda>a b. a), rt_fmul = (\<lambda>a b. a), rt_sort_results = (\<lambda>rs. rs), rt_sort_idx = (\<lambda>_ xs. xs), rt_nth_element = (\<lambda>_ _ xs. xs),
     rt_memory = fresh0,
     rt_i32 = 0, rt_status = TsOk, rt_buffer = sample_buffer, rt_fresh64 = (\<lambda>n. replicate n 7), rt_fresh32 = (\<lambda>n. replicate n 7), rt_freshScores = (\<lambda>n. replicate n 7)\<rparr>"

lemma sample_runtime_ok: "runtime_ok sample_runtime"
  by (simp add: runtime_ok_def sample_runtime_def)

text \<open>
  A dictionary with the words \<open>a\<close> and \<open>ab\<close> and one field, their surface. The first entry has a list of data rows, the second one row; two bytes between
  them belong to no entry.
\<close>

definition ab_dictionary :: entries_holder where
  "ab_dictionary = small_dictionary\<lparr>eh_numFeatures := 1, eh_entries := \<lparr>isr_data = [0, 1, 7, 9, 2, 5]\<rparr>\<rparr>"

definition ab_field :: dic_field where
  "ab_field = \<lparr>df_index = 0, df_idxInEntry = 0, df_name = [0x73], df_columnType = FtString, df_postions = \<lparr>isr_data = []\<rparr>,
     df_strings = \<lparr>ssr_data = [1, 0x61, 2, 0x61, 0x62], ssr_alignPower = 0\<rparr>, df_emptyValue = [], df_stringStorageIdx = 0, df_alignPower = 0,
     df_isSurfaceField = True\<rparr>"

definition ab_surface :: string_field where
  "ab_surface = \<lparr>sf_index = 0, sf_reader = df_strings ab_field\<rparr>"

definition ab_points :: "input_codepoint list" where
  "ab_points = [\<lparr>ic_codepoint = 0x61, ic_charClass = ALPH, ic_bytes = [0x61]\<rparr>, \<lparr>ic_codepoint = 0x62, ic_charClass = ALPH, ic_bytes = [0x62]\<rparr>]"

definition ab_builder :: lattice_builder where
  "ab_builder = \<lparr>lbd_seeds = [\<lparr>sd_entryPtr = mk_entry 1, sd_start = 0, sd_end = 1\<rparr>, \<lparr>sd_entryPtr = mk_entry 8, sd_start = 0, sd_end = 2\<rparr>],
     lbd_boundaries = [], lbd_connectible = [], lbd_maxBoundaries = 3\<rparr>"

lemma ab_texts:
  "text_of (take 1 (drop 0 ab_points)) = [0x61]" "text_of (take 2 (drop 0 ab_points)) = [0x61, 0x62]"
  "text_of (take 1 (drop 1 ab_points)) = [0x62]" "length ab_points = 2"
  by (simp_all add: ab_points_def text_of_def)

lemma ab_lookups:
  "lookup_word ab_dictionary 0 [0x61] = Some (TsOk, Some 5)" "lookup_word ab_dictionary 0 [0x61, 0x62] = Some (TsOk, Some 6)"
  "lookup_word ab_dictionary 0 [0x62] = Some (TsNoNode, None)"
  by (simp_all add: ab_dictionary_def small_dictionary_def lookup_word_def verdict_def trie_eval)

lemma ab_entries:
  "all_ptrs (entryTraversal ab_dictionary 5) = [mk_entry 1]" "all_ptrs (entryTraversal ab_dictionary 6) = [mk_entry 8]"
  using one_pointer [of 5 ab_dictionary 1 "[8]"] one_pointer [of 6 ab_dictionary 8 "[]"]
  by (simp_all add: ab_dictionary_def small_dictionary_def small_varints)

lemma ab_seeds:
  "dictionary_spawnNodes ab_dictionary 0 ab_points (ab_builder\<lparr>lbd_seeds := []\<rparr>) = Some ab_builder"
proof -
  have inside: "lookups_inside ab_dictionary 0 ab_points"
    unfolding lookups_inside_def ab_texts small_ranges list.pred_inject ab_lookups by simp
  have "seeds_from ab_dictionary 0 ab_points 0
      = [\<lparr>sd_entryPtr = mk_entry 1, sd_start = 0, sd_end = 1\<rparr>, \<lparr>sd_entryPtr = mk_entry 8, sd_start = 0, sd_end = 2\<rparr>]"
    "seeds_from ab_dictionary 0 ab_points 1 = []"
    unfolding seeds_from_def ab_texts small_ranges list.map word_seeds_def ab_lookups
    by (simp_all add: ab_entries mk_seed_def)
  then have "concat (map (seeds_from ab_dictionary 0 ab_points) [0..<2])
      = [\<lparr>sd_entryPtr = mk_entry 1, sd_start = 0, sd_end = 1\<rparr>, \<lparr>sd_entryPtr = mk_entry 8, sd_start = 0, sd_end = 2\<rparr>]"
    unfolding small_ranges list.map concat.simps by simp
  moreover have "dictionary_spawnNodes ab_dictionary 0 ab_points (ab_builder\<lparr>lbd_seeds := []\<rparr>)
      = spawn_starts ab_dictionary 0 ab_points 0 (ab_builder\<lparr>lbd_seeds := []\<rparr>)"
    by (simp add: dictionary_spawnNodes_def Let_def ab_texts)
  ultimately show ?thesis
    using spawn_starts_seeds [OF inside le0, of "ab_builder\<lparr>lbd_seeds := []\<rparr>"] by (simp add: ab_texts ab_builder_def add_seeds_def)
qed

lemma ab_decoded: "preprocessRawData [0x61, 0x62] [] = (StOk, ab_points)"
  by code_simp

text \<open>The surfaces of the two words are read from the dictionary.\<close>

lemma encs_small: "encs [0, 1] = [0, 1]" "encs [2, 5] = [2, 5]" "encs [0] = [0]" "encs [2] = [2]"
  by (simp_all add: encs_def) (subst writeVarint64ToArray.simps, simp add: word_le_nat_alt)+

lemma ab_reads:
  "\<exists>t. deb_fill 2 (isr_rawWithLimit (eh_entries ab_dictionary) 0 2) buffer = (Suc (Suc 0), 0 # 1 # drop (Suc (Suc 0)) buffer, t)"
  "\<exists>t. deb_fill 2 (isr_rawWithLimit (eh_entries ab_dictionary) 4 2) buffer = (Suc (Suc 0), 2 # 5 # drop (Suc (Suc 0)) buffer, t)"
  "\<exists>t. deb_fill 1 (isr_rawWithLimit (eh_entries ab_dictionary) 0 1) buffer = (Suc 0, 0 # drop (Suc 0) buffer, t)"
  "\<exists>t. deb_fill 1 (isr_rawWithLimit (eh_entries ab_dictionary) 4 1) buffer = (Suc 0, 2 # drop (Suc 0) buffer, t)"
  using deb_fill_encs [of "[]" "[0, 1]" "[7, 9, 2, 5]" 2 buffer] deb_fill_encs [of "[0, 1, 7, 9]" "[2, 5]" "[]" 2 buffer]
    deb_fill_encs [of "[]" "[0]" "[1, 7, 9, 2, 5]" 1 buffer] deb_fill_encs [of "[0, 1, 7, 9]" "[2]" "[5]" 1 buffer]
  unfolding encs_small by (auto simp: ab_dictionary_def)

lemma ab_pointers:
  "isDic (mk_entry 1)" "mk_entry 1 \<noteq> EntryPtr_BOS" "mk_entry 1 \<noteq> EntryPtr_EOS" "mk_entry 1 \<noteq> EntryPtr_Invalid"
  "isDic (mk_entry 8)" "mk_entry 8 \<noteq> EntryPtr_BOS" "mk_entry 8 \<noteq> EntryPtr_EOS" "mk_entry 8 \<noteq> EntryPtr_Invalid"
  "isAlias (mk_entry 1)" "dicPtr (mk_entry 1) = 0" "\<not> isAlias (mk_entry 8)" "dicPtr (mk_entry 8) = 4"
  by code_simp+

lemma ab_strings: "ssr_readAt (df_strings ab_field) 0 = Some [0x61]" "ssr_readAt (df_strings ab_field) 2 = Some [0x61, 0x62]"
  by code_simp+

lemma ab_words:
  "entry_string ab_dictionary ab_surface (mk_entry 1) = Some [0x61]"
  "entry_string ab_dictionary ab_surface (mk_entry 8) = Some [0x61, 0x62]"
proof -
  have n: "eh_numFeatures ab_dictionary = 1" "eh_numData ab_dictionary = 1" by (simp_all add: ab_dictionary_def small_dictionary_def)
  from ab_reads(1) [of "[]"] show "entry_string ab_dictionary ab_surface (mk_entry 1) = Some [0x61]"
    by (auto simp: entry_string_def fillBuffer_def fillFromStorage_def ab_pointers setCounts_def n Let_def deb_features_def vec_at_def ab_surface_def ab_strings)
  from ab_reads(2) [of "[]"] show "entry_string ab_dictionary ab_surface (mk_entry 8) = Some [0x61, 0x62]"
    by (auto simp: entry_string_def fillBuffer_def fillFromStorage_def ab_pointers setCounts_def n Let_def deb_features_def vec_at_def ab_surface_def ab_strings)
qed

text \<open>The words that the dictionary does not have are made by a maker of single letters.\<close>

definition ab_descriptor :: unk_descriptor where
  "ab_descriptor = \<lparr>ud_index = 0, ud_name = [], ud_type = UmtSingle, ud_patternRow = 0, ud_patternPtr = 1, ud_priority = 0, ud_charClass = ALPH,
     ud_features = [], ud_replaceFields = [0]\<rparr>"

definition ab_maker :: unk_maker where
  "ab_maker = \<lparr>um_entries = ab_dictionary, um_charClass = ALPH,
     um_info = fillPatternFields ((unk_config_new (readEntry sample_runtime ab_dictionary (mk_entry 1)) (mk_entry 1))\<lparr>uc_replaceWithSurface := [0]\<rparr>),
     um_fresh = 0, um_value0 = 0\<rparr>"

lemma ab_made: "makeMakers sample_runtime ab_dictionary [ab_descriptor] \<lparr>um_stage1 = [], um_stage2 = []\<rparr>
    = (StOk, \<lparr>um_stage1 = [SingleUnkMaker ab_maker], um_stage2 = []\<rparr>)"
  by (simp add: make_unk_def ab_descriptor_def handlePrefixIndex_def make_creator_def Let_def ab_maker_def unk_config_new_def) (simp add: sample_runtime_def)

lemma ab_base: "length (deb_features (readEntry sample_runtime ab_dictionary (mk_entry 1))) = 1"
proof -
  obtain ok b where b: "fillFromStorage (mk_entry 1) (eh_entries ab_dictionary) (setCounts (eh_numFeatures ab_dictionary) (eh_numData ab_dictionary) sample_buffer) = (ok, b)"
    by fastforce
  from fill_keeps [OF b] have "length (deb_features b) = 1"
    by (simp add: deb_features_def setCounts_def ab_dictionary_def sample_buffer_def)
  then show ?thesis using b by (simp add: readEntry_def sample_runtime_def)
qed

lemma ab_maker_base: "deb_features (uc_base (um_info ab_maker)) = deb_features (readEntry sample_runtime ab_dictionary (mk_entry 1))"
  "uc_replaceWithSurface (um_info ab_maker) = [0]"
  by (simp_all add: ab_maker_def fillPatternFields_def unk_config_new_def)

lemma ab_replaces: "replaces_surface ab_dictionary ab_surface ab_maker"
  unfolding replaces_surface_def ab_maker_base ab_base
  by (simp add: ab_dictionary_def ab_surface_def) (simp add: ab_maker_def ab_dictionary_def)

definition ab_unknown :: extra_node where
  "ab_unknown = unk_node 0 [0x62] (um_info ab_maker) True (xc_new 1 0)"

definition ab_extra :: extra_nodes where
  "ab_extra = appended (xc_new 1 0) ab_unknown"

definition ab_all :: lattice_builder where
  "ab_all = appendSeed (xn_ptr ab_unknown) 1 2 ab_builder"

lemma ab_steps:
  "\<exists>t. index_step ab_dictionary [0x61] (da_traversal_new 0) = Some (TsOk, t)"
  "\<exists>t. index_step ab_dictionary [0x62] (da_traversal_new 0) = Some (TsNoNode, t)"
  using ab_lookups(1,3) by (auto simp: lookup_word_def verdict_def index_step_def split: if_splits)

lemma ab_spawned: "single_spawnNodes ab_maker ab_points (xc_new 1 0, ab_builder) = Some (ab_extra, ab_all)"
proof -
  have len: "length (deb_features (uc_base (um_info ab_maker))) = xc_numFields (xc_new 1 0)"
    unfolding ab_maker_base ab_base by (simp add: xc_new_def)
  have m: "um_entries ab_maker = ab_dictionary" "um_charClass ab_maker = ALPH" "um_value0 ab_maker = 0" "um_fresh ab_maker = 0"
    by (simp_all add: ab_maker_def)
  have cls: "hasClass (ab_points ! 0) ALPH" "hasClass (ab_points ! 1) ALPH" "ic_bytes (ab_points ! 0) = [0x61]" "ic_bytes (ab_points ! 1) = [0x62]" by code_simp+
  obtain t1 t2 where st: "index_step ab_dictionary [0x61] (da_traversal_new 0) = Some (TsOk, t1)"
    "index_step ab_dictionary [0x62] (da_traversal_new 0) = Some (TsNoNode, t2)" using ab_steps by blast
  have "spawn_unk ab_maker [0x62] True 1 2 (xc_new 1 0, ab_builder) = (ab_extra, ab_all)"
    by (simp add: spawn_unk_def makePtr_node [OF len] m ab_unknown_def ab_extra_def ab_all_def)
  then show ?thesis
    using cls st by (simp add: single_spawnNodes_def ab_texts small_ranges m)
qed

lemma ab_connects: "checkConnectability (appendSeed p 1 2 ab_builder) = (True, (appendSeed p 1 2 ab_builder)\<lparr>lbd_connectible := [True, True, True]\<rparr>)"
  by code_simp

lemma ab_special: "isSpecial (xn_ptr ab_unknown)" "unat (extPtr (xn_ptr ab_unknown)) = 0" "\<not> isDic (xn_ptr ab_unknown)"
  "xn_ptr ab_unknown \<noteq> EntryPtr_BOS" "xn_ptr ab_unknown \<noteq> EntryPtr_EOS" "xn_ptr ab_unknown \<noteq> EntryPtr_Invalid"
proof -
  have "xn_index ab_unknown = word_of_nat 0" by (simp add: ab_unknown_def unk_node_def xc_new_def Let_def)
  note ptr = extra_pointer [OF _ this]
  show "isSpecial (xn_ptr ab_unknown)" "unat (extPtr (xn_ptr ab_unknown)) = 0" using ptr by simp_all
  then show "\<not> isDic (xn_ptr ab_unknown)" using special_or_dic by blast
  show "xn_ptr ab_unknown \<noteq> EntryPtr_BOS" "xn_ptr ab_unknown \<noteq> EntryPtr_EOS" "xn_ptr ab_unknown \<noteq> EntryPtr_Invalid"
    by (rule extra_pointer_plain; use ptr in simp)+
qed

definition ab_spec :: features_spec where
  "ab_spec = \<lparr>fsp_primitive = [\<lparr>pd_index = 0, pd_name = [], pd_kind = PkSurfaceCodepointSize, pd_references = [], pd_matchData = []\<rparr>],
     fsp_computation = [\<lparr>cd_name = [], cd_index = 0, cd_primitiveFeature = 0, cd_trueBranch = [], cd_falseBranch = []\<rparr>],
     fsp_pattern = [\<lparr>ptd_index = 0, ptd_usage = 0, ptd_references = [0]\<rparr>], fsp_ngram = [\<lparr>nd_index = 0, nd_references = [0]\<rparr>],
     fsp_numPlaceholders = 0, fsp_numUniOnlyPats = 0\<rparr>"

definition ab_patterns :: pattern_apply where
  "ab_patterns = \<lparr>pda_primitive = [\<lparr>pf_index = 0, pf_impl = SurfaceCodepointLengthPrim\<rparr>],
   pda_compute = [NoopCompute 0 SurfaceCodepointLengthPrim], pda_patterns = [\<lparr>dp_index = 0, dp_compute = [NoopCompute 0 SurfaceCodepointLengthPrim]\<rparr>], pda_uniOnlyFirst = 1\<rparr>"

lemma ab_features: "pda_initialize [ab_field] ab_spec = Some (StOk, ab_patterns)"
  by code_simp

definition ab_partial :: partial_ngrams where
  "ab_partial = snd (add_children pn_addChild (fsp_ngram ab_spec) pn_empty)"

lemma ab_ngrams: "add_children pn_addChild (fsp_ngram ab_spec) pn_empty = (StOk, ab_partial)"
  by code_simp

definition ab_ngram_list :: "ngram_impl list" where
  "ab_ngram_list = snd (add_children dynamic_addChild (fsp_ngram ab_spec) [])"

definition ab_core :: core_holder where
  "ab_core = \<lparr>ch_spec = ab_spec, ch_unkCreators = [ab_descriptor], ch_entries = ab_dictionary, ch_fields = [ab_field],
     ch_unkMakers = \<lparr>um_stage1 = [SingleUnkMaker ab_maker], um_stage2 = []\<rparr>,
     ch_features = \<lparr>fh_patternDynamic = Some ab_patterns, fh_patternStatic = None, fh_ngramDynamic = Some ab_ngram_list,
       fh_ngramPartialDynamic = Some ab_partial, fh_ngram = Some ab_ngram_list, fh_ngramPartial = Some ab_partial\<rparr>,
     ch_latticeCfg = \<lparr>lc_entrySize = 1, lc_numFeaturePatterns = 1, lc_beamSize = 0, lc_scoreCnt = 0, lc_globalBeamSize = 0\<rparr>\<rparr>"

lemma ab_dynamic: "add_children dynamic_addChild (fsp_ngram ab_spec) [] = (StOk, ab_ngram_list)"
  by code_simp

lemma ab_core_initialized: "core_initialize sample_runtime 0 None (core_new ab_spec [ab_descriptor] ab_dictionary [ab_field]) = Some (StOk, ab_core)"
proof -
  have "eh_numFeatures ab_dictionary = 1" "length (fsp_pattern ab_spec) = 1" by (simp_all add: ab_dictionary_def ab_spec_def)
  then show ?thesis
    by (simp add: core_initialize_def core_new_def ab_made makeFeatures_def ab_features ab_ngrams ab_dynamic ab_core_def fh_new_def del: makeMakers.simps)
qed

definition ab_scoring :: scorer_def where
  "ab_scoring = \<lparr>sdf_feature = Some [1, 2, 3, 4], sdf_others = [], sdf_scoreWeights = [1]\<rparr>"

definition ab_config :: analyzer_config where
  "ab_config = \<lparr>ac_pageSize = 1024, ac_maxInputBytes = 4096, ac_globalBeamSize = 0, ac_otherScorersTopN = 0, ac_rightGbeamCheck = 0, ac_rightGbeamSize = 0,
     ac_storeAllPatterns = False, ac_autoBeamStep = 0, ac_autoBeamBase = 0, ac_autoBeamMax = 0\<rparr>"

definition ab_analyzer :: analyzer where
  "ab_analyzer = an_new ab_core \<lparr>sc_beamSize = 2, sc_numScorers = 1\<rparr> ab_config"

lemmas ab_defs = ab_analyzer_def an_new_def core_latticeConfig_def ab_config_def ab_core_def ab_scoring_def

lemma ab_initialized: "an_initialize ab_core ab_config \<lparr>sc_beamSize = 2, sc_numScorers = 1\<rparr> ab_scoring = (StOk, Some ab_analyzer)"
  by (simp add: an_initialize_def initScorers_def fh_validate_def an_updateConfig_def lattice_new_def Let_def ab_defs)

definition ab_ready :: analyzer where
  "ab_ready = (an_reset ab_analyzer)\<lparr>an_input := \<lparr>ai_max_size = 4096, ai_raw_input = [0x61, 0x62], ai_codepoints = ab_points\<rparr>,
     an_latticeBldr := ab_builder\<lparr>lbd_seeds := []\<rparr>\<rparr>"

lemma unat_u16_max: "unat (- 1 :: u16) = 65535"
  by (simp add: unsigned_minus_1_eq_mask mask_eq_exp_minus_1)

lemma ab_reset: "resetForInput [0x61, 0x62] ab_analyzer = (StOk, ab_ready)"
proof -
  have "ai_reset [0x61, 0x62] (ai_new 4096) = (StOk, \<lparr>ai_max_size = 4096, ai_raw_input = [0x61, 0x62], ai_codepoints = ab_points\<rparr>)"
    unfolding ai_reset_def ab_decoded using unat_u16_max by (simp add: ai_new_def ab_texts Let_def)
  moreover have "an_input (an_reset ab_analyzer) = ai_new 4096" "ac_autoBeamStep (an_cfg (an_reset ab_analyzer)) = 0"
    "an_latticeBldr (an_reset ab_analyzer) = \<lparr>lbd_seeds = [], lbd_boundaries = [], lbd_connectible = [], lbd_maxBoundaries = 0\<rparr>"
    by (simp_all add: an_reset_def ab_defs)
  ultimately show ?thesis
    by (simp add: resetForInput_def builder_reset_def autoBeamSizes_def ai_numCodepoints_def ab_texts ab_builder_def ab_ready_def Let_def)
qed

definition ab_connected :: lattice_builder where
  "ab_connected = ab_all\<lparr>lbd_connectible := [True, True, True]\<rparr>"

lemma ab_proposed: "makeNodeSeedsFromDic sample_runtime ab_ready = Some (StOk, ab_ready\<lparr>an_latticeBldr := ab_builder\<rparr>)"
  using ab_seeds by (simp add: makeNodeSeedsFromDic_def sample_runtime_def ab_ready_def an_reset_def ab_defs)

lemma ab_ready_xtra: "an_xtra ab_ready = xc_new 1 0"
  by (simp add: ab_ready_def an_reset_def ab_defs xc_reset_def xc_new_def ab_dictionary_def ab_spec_def)

definition ab_seeded :: analyzer where
  "ab_seeded = ab_ready\<lparr>an_xtra := ab_extra, an_latticeBldr := prepare ab_connected\<rparr>"

lemma ab_prepared: "prepareNodeSeeds sample_runtime ab_ready = Some (StOk, ab_seeded)"
proof -
  have "um_stage1 (ch_unkMakers (an_core ab_ready)) = [SingleUnkMaker ab_maker]" "ai_codepoints (an_input ab_ready) = ab_points"
    by (simp_all add: ab_ready_def an_reset_def ab_defs)
  then have "makeUnkNodes1 sample_runtime (ab_ready\<lparr>an_latticeBldr := ab_builder\<rparr>)
      = Some (StOk, ab_ready\<lparr>an_xtra := ab_extra, an_latticeBldr := ab_all\<rparr>)"
    by (simp add: makeUnkNodes1_def makeUnkNodes_def ab_ready_xtra ab_spawned)
  then show ?thesis
    by (simp add: prepareNodeSeeds_def and_then_def ab_proposed checkLatticeConnectivity_def ab_connects [of "xn_ptr ab_unknown", folded ab_all_def]
      an_prepare_def ab_connected_def ab_seeded_def)
qed

lemma ab_room: "search_room (lt_config (an_lattice ab_analyzer)) (prepare ab_connected)"
  by (simp add: search_room_def prepare_def ab_connected_def ab_all_def appendSeed_def ab_builder_def lattice_new_def ab_defs word_less_nat_alt)

lemma ab_readable:
  assumes "pc_entries ctx = ab_dictionary" "pc_extra ctx = ab_extra" "p = mk_entry 1 \<or> p = mk_entry 8 \<or> p = xn_ptr ab_unknown"
  shows "readable ctx 1 (mk_node_info p i j)"
proof -
  have n: "eh_numFeatures ab_dictionary = 1" by (simp add: ab_dictionary_def)
  have dic: "readable ctx 1 (mk_node_info (mk_entry v) i j)" if v: "v = 1 \<and> k = 0 \<or> v = 8 \<and> k = 4" for v k :: i32
  proof -
    have "\<exists>w t. ilt_fill_cnt 1 (isr_rawWithLimit (eh_entries ab_dictionary) k 1) = ([w], t)"
      using v ab_reads(3,4) [of "[]"] by (auto simp: deb_fill_def split: prod.splits simp del: ilt_fill_cnt.simps)
    then show ?thesis using v
      by (auto simp: readable_def importOneEntry_def fillEntryBuffer_def mk_node_info_def ab_pointers entryAtPtr_def assms(1) n simp del: ilt_fill_cnt.simps)
  qed
  have "extra_at ab_extra (xn_ptr ab_unknown) = Some ab_unknown" "length (nodeContent ab_extra 0) = 1"
    using ab_special by (simp_all add: extra_at_def xc_node_def ab_extra_def appended_def xc_new_def nodeContent_def) (simp add: ab_unknown_def unk_node_def Let_def ab_maker_base ab_base xc_new_def)
  then have "readable ctx 1 (mk_node_info (xn_ptr ab_unknown) i j)"
    using ab_special by (simp add: readable_def importOneEntry_def fillEntryBuffer_def mk_node_info_def assms(2) Let_def)
  with dic assms(3) show ?thesis by blast
qed

lemma ab_fits: "an_features_fit (ab_seeded\<lparr>an_plugin := None\<rparr>)"
proof -
  let ?ctx = "an_context (ab_seeded\<lparr>an_plugin := None\<rparr>)"
  have ctx: "pc_entries ?ctx = ab_dictionary" "pc_extra ?ctx = ab_extra"
    by (simp_all add: an_context_def ab_seeded_def ab_ready_def an_reset_def ab_defs)
  have "pattern_fits ctx 1 1 ab_patterns ni" for ctx ni by (simp add: pattern_fits_def ab_patterns_def)
  moreover have "readable ?ctx 1 (mk_node_info (mk_entry 1) i j)" "readable ?ctx 1 (mk_node_info (mk_entry 8) i j)"
    "readable ?ctx 1 (mk_node_info (xn_ptr ab_unknown) i j)" for i j
    using ab_readable [OF ctx] by blast+
  moreover have "fh_patternDynamic (ch_features (an_core (ab_seeded\<lparr>an_plugin := None\<rparr>))) = Some ab_patterns"
    "unat (lc_entrySize (an_latticeConfig (ab_seeded\<lparr>an_plugin := None\<rparr>))) = 1"
    "unat (lc_numFeaturePatterns (an_latticeConfig (ab_seeded\<lparr>an_plugin := None\<rparr>))) = 1"
    "lbd_seeds (an_latticeBldr (ab_seeded\<lparr>an_plugin := None\<rparr>)) = [\<lparr>sd_entryPtr = mk_entry 1, sd_start = 0, sd_end = 1\<rparr>,
       \<lparr>sd_entryPtr = mk_entry 8, sd_start = 0, sd_end = 2\<rparr>, \<lparr>sd_entryPtr = xn_ptr ab_unknown, sd_start = 1, sd_end = 2\<rparr>]"
    by (simp_all add: ab_seeded_def ab_ready_def an_reset_def ab_defs ab_connected_def ab_all_def appendSeed_def ab_builder_def)
  ultimately show ?thesis
    unfolding an_features_fit_def features_fit_def by (simp add: seed_node_def)
qed

definition ab_formatter :: segmented_formatter where
  "ab_formatter = \<lparr>sgf_surface = \<lparr>sf_index = -1, sf_reader = \<lparr>ssr_data = [], ssr_alignPower = 0\<rparr>\<rparr>, sgf_separator = [0x20], sgf_top1 = path_of [] 0 0,
     sgf_printer = []\<rparr>"

definition ab_format :: segmented_formatter where
  "ab_format = ab_formatter\<lparr>sgf_surface := ab_surface, sgf_separator := []\<rparr>"

lemma ab_format_initialized: "sgf_initialize (an_output ab_analyzer) [[0x73]] 0 [] ab_formatter = Some (StOk, ab_format)"
  by (simp add: sgf_initialize_def vec_at_def om_stringField_def om_field_def an_output_def ab_defs fields_byName_def ab_field_def ab_surface_def ab_format_def)

lemma ab_surfaces: "surfaces_ready sample_runtime ab_surface (an_core ab_analyzer)"
proof -
  have "eh_numFeatures ab_dictionary = 1" "eh_numData ab_dictionary = 1" by (simp_all add: ab_dictionary_def small_dictionary_def)
  then show ?thesis
    by (simp add: surfaces_ready_def entry_counts_ok_def ab_defs ab_replaces) (simp add: ab_surface_def sample_runtime_def sample_buffer_def)
qed

lemma ab_read_back: "words_read_back ab_surface (ab_ready\<lparr>an_latticeBldr := ab_builder\<rparr>)"
proof -
  have "input_surface ab_points 0 1 = [0x61]" "input_surface ab_points 0 2 = [0x61, 0x62]" by code_simp+
  then show ?thesis
    by (simp add: words_read_back_def ab_builder_def ab_ready_def an_reset_def ab_defs ab_pointers ab_words)
qed

theorem preparation_connects_input_witness:
  "(0, 2) \<in> (seed_edges (lbd_seeds ab_connected))\<^sup>*"
proof -
  have "length (ai_codepoints (an_input ab_ready)) = 2" by (simp add: ab_ready_def ab_texts)
  moreover have "lbd_seeds (an_latticeBldr ab_ready) = []" "lbd_maxBoundaries (an_latticeBldr ab_ready) = word_of_nat 2 + 1"
    by (simp_all add: ab_ready_def ab_builder_def)
  ultimately show ?thesis
    using preparation_connects_input [OF ab_prepared, of 2] sample_runtime_ok by (simp add: ab_seeded_def split: if_splits)
qed

theorem analysis_segments_input_witness:
  "\<exists>a' fm'. an_analyze sample_runtime ab_scoring [0x61, 0x62] None ab_analyzer = Some (StOk, a')
    \<and> tiles 0 (length (ai_codepoints (an_input a'))) (path_nodes (an_lattice a'))
    \<and> set (path_nodes (an_lattice a')) \<subseteq> seed_node ` set (lbd_seeds (an_latticeBldr a'))
    \<and> sgf_format (an_output a') (an_lattice a') sample_buffer ab_format = Some (StOk, fm') \<and> sgf_result fm' = [0x61, 0x62, 0x0a]
    \<and> an_ok a' \<and> full_search a' ab_scoring"
proof -
  have counts: "entry_counts_ok (ch_entries ab_core)" using ab_surfaces by (simp add: surfaces_ready_def ab_defs Let_def)
  have "an_ok ab_analyzer" unfolding ab_analyzer_def by (rule new_ok [OF counts])
  moreover have "full_search ab_analyzer ab_scoring" using ab_ngrams by (simp add: full_search_def ab_defs) (simp add: ab_spec_def)
  moreover have "plugin_reads_nodes None" by (simp add: plugin_reads_nodes_def plug_def fun_eq_iff)
  moreover have "length (ai_codepoints (an_input ab_ready)) + 3 < 2 ^ 16" by (simp add: ab_ready_def ab_texts)
  moreover have same: "ab_ready\<lparr>an_plugin := None\<rparr> = ab_ready" by (simp add: ab_ready_def an_reset_def)
  moreover have seeded: "ab_seeded\<lparr>an_plugin := None\<rparr> = ab_seeded" by (simp add: ab_seeded_def ab_ready_def an_reset_def)
  moreover have "search_room (an_latticeConfig ab_seeded) (an_latticeBldr ab_seeded)"
    using ab_room by (simp add: ab_seeded_def ab_ready_def an_reset_def lattice_new_def ab_defs)
  moreover have "sgf_surface ab_format = ab_surface" "rt_buffer sample_runtime = sample_buffer" by (simp_all add: ab_format_def sample_runtime_def)
  ultimately show ?thesis
    using analysis_segments_input [of ab_analyzer ab_scoring sample_runtime None "[0x61, 0x62]" ab_ready ab_seeded "[[0x73]]" 0 ab_formatter ab_format,
        OF _ _ sample_runtime_ok _ ab_reset] ab_prepared ab_fits ab_format_initialized ab_surfaces ab_proposed ab_read_back
    by simp
qed

end
