(* ===== verification/Spec2Isabelle.thy ===== *)
theory Spec2Isabelle
  imports Memory Characters CodedIO StringPieces CsvReader FieldImport FieldStorage Hashing Arrays Lattice LatticeBuild Beam AnalysisPath SegmentedFormat NgramFeatures FeatureBuffers ScoreProcessor FullSearch DoubleArray DicEntries ExtraNodes UnkMakers CharLattice Patterns NodeFeatures BuiltLattice Segmentation GlobalBeam Output Makers Analyzer Analysis
begin

text \<open>
  Verification of the core of Juman++, a morphological analyser of Japanese.

  \<^bold>\<open>The program.\<close> An analysis takes a line of UTF-8 text to a sequence of words. The text is split into code points with
  their character classes (\<open>src/src/util/characters.cc\<close>, called by \<open>AnalysisInput\<close>). The makers of nodes then propose words:
  the dictionary is walked from every position of the text (\<open>dictionary_node_creator.cc\<close>, over the double array trie of
  \<open>dic/darts.h\<close> and the entries of \<open>dic_entries.h\<close>), and the makers of unknown words add runs of a character class, single
  characters, onomatopoeia and numbers (\<open>unk_nodes_creator.cc\<close>, \<open>onomatopoeia_creator.cc\<close>, \<open>numeric_creator.cc\<close>), whose
  contents live in a table beside the dictionary (\<open>extra_nodes.cc\<close>). Every proposal is a seed in the lattice builder
  (\<open>lattice_builder.cc\<close>), which checks that some path of words covers the text and builds the lattice: one boundary for each
  position, with the nodes that start there and pointers to the nodes that end there (\<open>lattice_types.cc\<close>). The beam search
  (\<open>score_processor.cc\<close>) goes from left to right and keeps, for each node, the best paths that lead to it as back pointers; the
  best path of the end node is read back (\<open>analysis_result.cc\<close>) and printed (\<open>impl/segmented_format.cc\<close>). \<open>Analyzer::analyze\<close> (\<open>analyzer.cc\<close>, \<open>analyzer_impl.cc\<close>) calls all of these in turn. The dictionary is
  built before, from CSV rows (\<open>util/csv_reader.cc\<close>) whose fields are imported and stored in a compact coding
  (\<open>dic/field_import.cc\<close>, \<open>dic/entry_builder.cc\<close>, \<open>util/coded_io.cc\<close>) that the analysis reads in place
  (\<open>dic/field_reader.h\<close>).

  \<^bold>\<open>The theories\<close>, each with the source it translates; names of the definitions are those of the source, with a prefix
  or another word where HOL has the name already.

  \<^item> Prelude: machine integers (\<open>util/types.hpp\<close>), the status codes of \<open>util/status.hpp\<close> that the models use, lemmas on words,
  lists and folds, and the collections of lemmas of the development.
  \<^item> Characters: \<open>util/characters.h/.cc\<close>. The decoder, the classes, the split of the input and the counter of code points: what
  success and failure mean, the decoder is exact and inverse to the encoding, the fast counter agrees with it.
  \<^item> Memory: \<open>util/memory.hpp/.cpp\<close>. Pages and the pool allocator, whose blocks are disjoint and have the alignment that was asked for, with the
  addresses of real memory; the pages that the system grants (\<open>posix_memalign\<close>) are a parameter, of which it is assumed that they are aligned and apart
  (\<open>honest_pages\<close>).
  \<^item> StringPieces: \<open>util/string_piece.h/.cc\<close>, \<open>util/parse_utils.cc\<close>.
  \<^item> CodedIO: \<open>util/coded_io.h/.cc\<close>. The buffer is its vector with the write position, so that a write outside of the
  vector is visible in the model. The optimised decoder is the base-128 decoding, what is written is read back, and writes stay inside. The
  contract between the buffer and a coding of values on it is the locale \<open>byte_codec\<close>; variable length integers, fixed width words and strings
  interpret it.
  \<^item> CsvReader: \<open>util/char_buffer.h\<close>, \<open>util/csv_reader.h/.cc\<close>. Rows that are quoted as in RFC 4180 are read back, with all
  three line ends; the reader never comes past a last row that ends with a separator.
  \<^item> CoreTypes: \<open>core/core_types.h\<close>, \<open>core/analysis/lattice_config.h\<close>: the packed entry pointers and lattice pointers.
  \<^item> FieldStorage, FieldImport: \<open>core/dic/field_reader.h\<close>, \<open>core/dic/field_import.h/.cc\<close>, \<open>util/lru_cache.h\<close>. Writers and readers
  of the storages of a dictionary, and their round trips. The order in which a hash map lists its entries and the result of an unstable sort
  are arguments, and the theorems hold for all of them.
  \<^item> Hashing: \<open>util/murmur_hash.h\<close>, \<open>hashing.h\<close>, \<open>seahash.h\<close>, \<open>fast_hash.h\<close>, \<open>fast_hash_rot.h\<close>. A SIMD register is the list of
  its lanes; the vector hashes are the scalar one on each lane, and the mixing steps are permutations.
  \<^item> Arrays: \<open>util/stl_util.h\<close>, \<open>util/array_slice_util.h\<close>: selection of the best elements by repeated partition, and compaction.
  The selection is proved in the locale \<open>weak_order\<close> and interpreted on the order of the packed candidates.
  \<^item> DoubleArray: units, traversal and searches of \<open>core/dic/darts.h\<close>, the traversal of \<open>core/dic/darts_trie.h/.cc\<close>.
  \<^item> DicEntries: \<open>core/analysis/dic_reader.cc\<close>, \<open>core/dic/dic_entries.h\<close>, \<open>DicEntryData::write\<close>, \<open>dictionary_node_creator.cc\<close>. Entries are read
  back as they were written, and the seeds from the dictionary are the words of the input. Looking up words and walking their prefixes is the
  locale \<open>word_index\<close>, which the dictionary interprets.
  \<^item> ExtraNodes: \<open>core/analysis/extra_nodes.h/.cc\<close> and the context that fills the nodes.
  \<^item> UnkMakers: \<open>core/analysis/unk_nodes_creator.cc\<close>, \<open>onomatopoeia_creator.cc\<close>, \<open>numeric_creator.cc\<close>. Which parts of a run of characters become
  nodes, that numbers stay inside of the input, which patterns are onomatopoeia.
  \<^item> CharLattice: \<open>core/analysis/charlattice.h/.cc\<close>, \<open>normalized_node_creator.cc\<close>. The search for words in other spellings finds exactly the words
  that some walk through the alternatives of the characters spells.
  \<^item> Lattice, LatticeBuild: \<open>core/analysis/lattice_types.h/.cc\<close>, \<open>lattice_builder.h/.cc\<close>, \<open>buildLattice\<close> of
  \<open>analyzer_impl.cc\<close>. The check of connectivity is reachability, and the lattice holds all seeds at their places. Arrays that the code takes from the
  pool without clearing them have the contents of an argument (\<open>fresh_memory\<close>), about which nothing is assumed, but which is one value for each type of element and the
  same in all new arrays.
  \<^item> Beam: candidates, beams and the global beam of \<open>core/analysis/score_processor.h/.cc\<close>. A score is the bit pattern of a \<open>float\<close>; its order is
  defined on the pattern, its addition and multiplication are arguments. The beams that \<open>makeBeams\<close> leaves are the best continuations, which are
  described by a predicate of their own (\<open>is_best_beam\<close>). The 16-bit counters of the loops are kept (\<open>u16_counter\<close>).
  \<^item> NgramFeatures, FeatureBuffers: \<open>core/analysis/perceptron.h/.cc\<close>, \<open>core/impl/feature_impl_combine.h/.cc\<close>, \<open>feature_impl_ngram_partial.h/.cc\<close>,
  \<open>feature_computer.h/.cc\<close>. The features of one, two and three nodes, whole and in stages, the loops that apply them to all nodes of a boundary with
  two alternating buffers. The stages compute the whole features, and the loops leave the sums of their weights.
  \<^item> ScoreProcessor, FullSearch: the scoring operations of \<open>score_processor.cc\<close>, \<open>bootstrapAnalysis\<close> and \<open>computeScoresFull\<close> of
  \<open>analyzer_impl.cc\<close>. The state of the processor is a record (\<open>score_processor\<close>) with the three score buffers, the feature buffers and the current beam.
  The search gives every node the beam of its search equation (\<open>search_beam\<close>), and when EOS is reached the output is a path of words.
  \<^item> AnalysisPath: \<open>core/analysis/analysis_result.h/.cc\<close>, \<open>core/impl/segmented_format.cc\<close>. The path is read from the back pointers and printed from the first
  word to the last.

  \<^item> Patterns, NodeFeatures: \<open>core/impl/feature_impl_types.h\<close>, \<open>feature_impl_prim.h/.cc\<close>, \<open>feature_impl_compute.h/.cc\<close>, \<open>feature_impl_pattern.h/.cc\<close>,
  \<open>core/analysis/innode_features.h/.cc\<close> and the whole of \<open>buildLattice\<close>: the hashes of the features of a node, and the lattice with them. Building
  changes nothing but the features (\<open>same_frames\<close>) and succeeds when they read inside of their entries (\<open>features_fit\<close>).
  \<^item> BuiltLattice, Segmentation: the lattice that is built satisfies what the search asks of it, and the best path is a sequence of seeds of which each
  starts where the one before it ends.
  \<^item> GlobalBeam: the search with a global beam, \<open>computeGbeamScores\<close> and the operations around it of \<open>score_processor.cc\<close>, \<open>computeScoresGbeam\<close> of
  \<open>analyzer_impl.cc\<close>.
  \<^item> Output: \<open>core/analysis/output.h/.cc\<close>. Where the fields of a node are read; an unknown word is printed with its own text.
  \<^item> SegmentedFormat: \<open>core/impl/segmented_format.h/.cc\<close> with the output manager and the string field it uses; which seeds are printed with the
  text they were made for, which all makers of unknown words keep (\<open>seeds_named\<close>).
  \<^item> Makers: \<open>core/analysis/unk_nodes.h/.cc\<close>, \<open>dic_reader.cc\<close>. The makers are made from their descriptors; what they promise to the analyzer, to propose
  parts of the input only, is the locale \<open>seed_maker\<close>, which each of them interprets. That a maker keeps anything that its single nodes keep is proved once,
  in the locales \<open>word_invariant\<close> and \<open>candidate_invariant\<close>. What the program takes from the standard library and from memory that
  is not initialised is the record \<open>runtime\<close>, one value for all reads of a type.
  \<^item> Analyzer, Analysis: \<open>core/analysis/analyzer.h/.cc\<close>, \<open>analyzer_impl.h/.cc\<close>, \<open>analysis_input.h/.cc\<close>, \<open>core/core.h/.cc\<close>, \<open>core/features_api.h/.cc\<close>: the analyzer
  with its settings, and \<open>analyze\<close>, which composes all of the above. The preparation succeeds exactly when the seeds lead through the input, and then the
  analysis with full beams ends with a segmentation of the input, which the segmented format prints as the input.

  \<^bold>\<open>State and effects.\<close> A class is a record of its fields, and a method returns the updated record. Errors are status codes
  with the state at the point of return. Pointers into shared memory are indices. A place where the code would read outside an array
  or use a null pointer is \<open>None\<close> in the models of the loops that could do it, and the theorems say when it does not happen.

  \<^bold>\<open>Loops.\<close> Most loops are structural or have a measure. Those that can fail to end are partial functions, of which
  \<open>None\<close> is a run that does not end: the partition loop of Arrays, the merging loop of the importers, the request of Memory that asks for new pages, and the inner
  loop of the maker for chunks, whose 16-bit counter wraps around; theorems of these theories show when they end. The 16-bit loops of Beam that
  would start again are \<open>None\<close> too. No definition uses fuel.

  \<^bold>\<open>Bounds\<close> that appear as hypotheses. The input has fewer than 65535 code points (the code limits it to 4096 bytes by
  default), because positions are 16-bit. A boundary has fewer than \<open>2 ^ 15\<close> left nodes for the packed candidates to keep their scores
  (a theorem of Beam shows what happens beyond), the width of the beam fits 16 bits, and 31 bits in the selection of candidates alone, and the
  scores of one node fit a 32-bit index (\<open>search_room\<close>). The storages of a dictionary are below \<open>2 ^ 30\<close> bytes
  and the number of words on a path is below \<open>2 ^ 31\<close>. Each hypothesis has a witness: a theorem that applies the property to a concrete
  input.

  \<^bold>\<open>Not modelled.\<close> The code that the build generates for a specification (its patterns are an argument of the analyzer, its functions for n-grams are left
  out, because the dynamic ones compute the same), the recurrent network (an argument of the search with a global beam), training, the specification language,
  the construction of the double array, model files, the other output formats, and the command line tools. The compaction of equal nodes in the lattice
  builder is never called by the program.
\<close>

end
